(* ===== verification/Prelude.thy ===== *)
theory Prelude
  imports Main "HOL-Library.Product_Lexorder" "HOL-Library.List_Lexorder" "HOL-Library.Char_ord"
begin

text \<open>
  What every component theory shares: result values, the integers of the source (signed 64-bit
  epoch seconds with their wrap-around), the decimal text that the central database keeps in
  its TEXT columns, a small semantics of the SQL statements the crates issue, and the list and
  map lemmas their proofs need.
\<close>

named_theorems sql_simps \<open>how the SQL operations act on the rows of a table\<close>
named_theorems res_simps \<open>case analysis on result values\<close>

section \<open>Results\<close>

text \<open>A Rust \<open>Result<T, E>\<close> is a sum: \<open>Inl\<close> is \<open>Err\<close>, \<open>Inr\<close> is \<open>Ok\<close>. The operator \<open>?\<close> is \<open>rbind\<close>.\<close>

definition rbind :: "'e + 'a \<Rightarrow> ('a \<Rightarrow> 'e + 'b) \<Rightarrow> 'e + 'b" where
  "rbind r f = (case r of Inl e \<Rightarrow> Inl e | Inr x \<Rightarrow> f x)"

definition map_err :: "('e \<Rightarrow> 'f) \<Rightarrow> 'e + 'a \<Rightarrow> 'f + 'a" where
  "map_err g r = (case r of Inl e \<Rightarrow> Inl (g e) | Inr x \<Rightarrow> Inr x)"

definition ok_or :: "'e \<Rightarrow> 'a option \<Rightarrow> 'e + 'a" where
  "ok_or e v = (case v of None \<Rightarrow> Inl e | Some x \<Rightarrow> Inr x)"

definition is_ok :: "'e + 'a \<Rightarrow> bool" where
  "is_ok r = (case r of Inl _ \<Rightarrow> False | Inr _ \<Rightarrow> True)"

lemma rbind_simps [simp]:
  "rbind (Inl e) f = Inl e" "rbind (Inr x) f = f x"
  by (simp_all add: rbind_def)

lemma map_err_simps [simp]:
  "map_err g (Inl e) = Inl (g e)" "map_err g (Inr x) = Inr x"
  by (simp_all add: map_err_def)

lemma ok_or_simps [simp]:
  "ok_or e None = Inl e" "ok_or e (Some x) = Inr x"
  by (simp_all add: ok_or_def)

lemma is_ok_simps [simp]:
  "\<not> is_ok (Inl e)" "is_ok (Inr x)"
  by (simp_all add: is_ok_def)

lemma rbind_Inr_iff [res_simps]: "rbind r f = Inr y \<longleftrightarrow> (\<exists>x. r = Inr x \<and> f x = Inr y)"
  by (cases r) auto

lemma rbind_Inl_iff [res_simps]:
  "rbind r f = Inl e \<longleftrightarrow> r = Inl e \<or> (\<exists>x. r = Inr x \<and> f x = Inl e)"
  by (cases r) auto

lemma ok_or_Inr_iff [res_simps]: "ok_or e v = Inr x \<longleftrightarrow> v = Some x"
  by (cases v) auto

lemma is_ok_iff [res_simps]: "is_ok r \<longleftrightarrow> (\<exists>x. r = Inr x)"
  by (cases r) auto

text \<open>Collecting an iterator of results into a result of a list stops at the first error.\<close>

fun collect_results :: "('e + 'a) list \<Rightarrow> 'e + 'a list" where
  "collect_results [] = Inr []"
| "collect_results (r # rs) = rbind r (\<lambda>x. rbind (collect_results rs) (\<lambda>xs. Inr (x # xs)))"

lemma collect_results_Inr_iff:
  "collect_results rs = Inr xs \<longleftrightarrow> rs = map Inr xs"
  by (induction rs arbitrary: xs) (auto simp: res_simps)

fun collect_options :: "'a option list \<Rightarrow> 'a list option" where
  "collect_options [] = Some []"
| "collect_options (None # xs) = None"
| "collect_options (Some x # xs) = map_option ((#) x) (collect_options xs)"

section \<open>Signed 64-bit integers\<close>

text \<open>
  Epoch seconds, sequences and row ids are \<open>i64\<close>. The workspace sets no \<open>overflow-checks\<close>, so
  an addition of a release build wraps around; \<open>i64_add\<close> writes the wrap out.
\<close>

definition i64_min :: int where "i64_min = - (2 ^ 63)"
definition i64_max :: int where "i64_max = 2 ^ 63 - 1"

definition in_i64 :: "int \<Rightarrow> bool" where
  "in_i64 n \<longleftrightarrow> i64_min \<le> n \<and> n \<le> i64_max"

definition i64_wrap :: "int \<Rightarrow> int" where
  "i64_wrap n = (n + 2 ^ 63) mod 2 ^ 64 - 2 ^ 63"

definition i64_add :: "int \<Rightarrow> int \<Rightarrow> int" where
  "i64_add a b = i64_wrap (a + b)"

lemma i64_wrap_in_range: "in_i64 (i64_wrap n)"
proof -
  have "0 \<le> (n + 2 ^ 63) mod 2 ^ 64" and "(n + 2 ^ 63) mod 2 ^ 64 < (2::int) ^ 64"
    by simp_all
  then show ?thesis by (simp add: in_i64_def i64_wrap_def i64_min_def i64_max_def)
qed

lemma i64_wrap_id [simp]: "in_i64 n \<Longrightarrow> i64_wrap n = n"
  by (simp add: in_i64_def i64_wrap_def i64_min_def i64_max_def)

lemma i64_add_exact [simp]: "in_i64 (a + b) \<Longrightarrow> i64_add a b = a + b"
  by (simp add: i64_add_def)

lemma i64_add_in_range: "in_i64 (i64_add a b)"
  by (simp add: i64_add_def i64_wrap_in_range)

section \<open>Decimal text\<close>

text \<open>
  \<open>to_string\<close> and \<open>str::parse\<close> of Rust, and SQLite's \<open>CAST(x AS INTEGER)\<close> of a TEXT value: the
  longest prefix that reads as an integer, 0 when there is none, clamped to 64 bits.
\<close>

definition is_digit :: "char \<Rightarrow> bool" where
  "is_digit c \<longleftrightarrow> 48 \<le> (of_char c :: nat) \<and> (of_char c :: nat) \<le> 57"

definition digit_val :: "char \<Rightarrow> nat" where
  "digit_val c = of_char c - 48"

definition digit_char :: "nat \<Rightarrow> char" where
  "digit_char n = char_of (48 + n)"

fun dec_of_nat :: "nat \<Rightarrow> string" where
  "dec_of_nat n =
     (if n < 10 then [digit_char n] else dec_of_nat (n div 10) @ [digit_char (n mod 10)])"

declare dec_of_nat.simps [simp del]

fun digits_acc :: "nat \<Rightarrow> string \<Rightarrow> nat option" where
  "digits_acc a [] = Some a"
| "digits_acc a (c # cs) = (if is_digit c then digits_acc (10 * a + digit_val c) cs else None)"

definition dec_of_int :: "int \<Rightarrow> string" where
  "dec_of_int n = (if n < 0 then CHR ''-'' # dec_of_nat (nat (- n)) else dec_of_nat (nat n))"

definition parse_digits :: "string \<Rightarrow> nat option" where
  "parse_digits s = (if s = [] then None else digits_acc 0 s)"

definition parse_unsigned :: "nat \<Rightarrow> string \<Rightarrow> nat option" where
  "parse_unsigned bound s =
     (let ds = (case s of c # cs \<Rightarrow> if c = CHR ''+'' then cs else s | [] \<Rightarrow> s)
      in case parse_digits ds of
           None \<Rightarrow> None
         | Some n \<Rightarrow> if n < bound then Some n else None)"

definition parse_i64 :: "string \<Rightarrow> int option" where
  "parse_i64 s =
     (let (neg, ds) = (case s of
            [] \<Rightarrow> (False, [])
          | c # cs \<Rightarrow> if c = CHR ''-'' then (True, cs)
                      else if c = CHR ''+'' then (False, cs) else (False, s))
      in case parse_digits ds of
           None \<Rightarrow> None
         | Some n \<Rightarrow> let v = (if neg then - int n else int n)
                      in if in_i64 v then Some v else None)"

definition is_sql_space :: "char \<Rightarrow> bool" where
  "is_sql_space c \<longleftrightarrow> (of_char c :: nat) \<in> {9, 10, 11, 12, 13, 32}"

definition sql_cast_int :: "string \<Rightarrow> int" where
  "sql_cast_int s =
     (let t = dropWhile is_sql_space s;
          (neg, ds) = (case t of
            [] \<Rightarrow> (False, [])
          | c # cs \<Rightarrow> if c = CHR ''-'' then (True, cs)
                      else if c = CHR ''+'' then (False, cs) else (False, t));
          n = (case digits_acc 0 (takeWhile is_digit ds) of None \<Rightarrow> 0 | Some n \<Rightarrow> int n);
          v = (if neg then - n else n)
      in max i64_min (min i64_max v))"

lemma of_char_digit_char: "n < 10 \<Longrightarrow> (of_char (digit_char n) :: nat) = 48 + n"
  by (simp add: digit_char_def of_char_of)

lemma is_digit_digit_char [simp]: "n < 10 \<Longrightarrow> is_digit (digit_char n)"
  by (simp add: is_digit_def of_char_digit_char)

lemma digit_val_digit_char [simp]: "n < 10 \<Longrightarrow> digit_val (digit_char n) = n"
  by (simp add: digit_val_def of_char_digit_char)

lemma digit_char_eval:
  "digit_char 0 = CHR ''0''" "digit_char (Suc 0) = CHR ''1''" "digit_char 1 = CHR ''1''"
  "digit_char 2 = CHR ''2''" "digit_char 3 = CHR ''3''" "digit_char 4 = CHR ''4''"
  "digit_char 5 = CHR ''5''" "digit_char 6 = CHR ''6''" "digit_char 7 = CHR ''7''"
  "digit_char 8 = CHR ''8''" "digit_char 9 = CHR ''9''"
  by (simp_all add: digit_char_def char_of_def bit_Suc_0_iff)

lemma digits_acc_append:
  "digits_acc a (xs @ ys) = (case digits_acc a xs of None \<Rightarrow> None | Some b \<Rightarrow> digits_acc b ys)"
  by (induction xs arbitrary: a) auto

lemma dec_of_nat_nonempty [simp]: "dec_of_nat n \<noteq> []"
  by (subst dec_of_nat.simps) simp

lemma dec_of_nat_digits: "\<forall>c\<in>set (dec_of_nat n). is_digit c"
proof (induction n rule: dec_of_nat.induct)
  case (1 n)
  then show ?case by (subst dec_of_nat.simps) auto
qed

lemma digits_acc_dec_of_nat [simp]: "digits_acc 0 (dec_of_nat n) = Some n"
proof (induction n rule: dec_of_nat.induct)
  case (1 n)
  show ?case
  proof (cases "n < 10")
    case True
    then show ?thesis by (subst dec_of_nat.simps) simp
  next
    case False
    with 1 have "digits_acc 0 (dec_of_nat (n div 10)) = Some (n div 10)" by simp
    with False show ?thesis
      by (subst dec_of_nat.simps) (simp add: digits_acc_append)
  qed
qed

lemma dec_of_nat_inj [simp]: "dec_of_nat m = dec_of_nat n \<longleftrightarrow> m = n"
  by (metis digits_acc_dec_of_nat option.inject)

lemma parse_digits_dec_of_nat [simp]: "parse_digits (dec_of_nat n) = Some n"
  by (simp add: parse_digits_def)

lemma digit_not_sign: "is_digit c \<Longrightarrow> c \<noteq> CHR ''-'' \<and> c \<noteq> CHR ''+'' \<and> \<not> is_sql_space c"
  by (auto simp: is_digit_def is_sql_space_def)

lemma dec_of_nat_Cons:
  obtains c cs where "dec_of_nat n = c # cs" "is_digit c" "c \<noteq> CHR ''-''" "c \<noteq> CHR ''+''"
    "\<not> is_sql_space c"
proof (cases "dec_of_nat n")
  case Nil
  then show ?thesis by simp
next
  case (Cons c cs)
  with dec_of_nat_digits [of n] have "is_digit c" by simp
  with Cons digit_not_sign [of c] that show ?thesis by blast
qed

lemma parse_unsigned_dec [simp]: "n < b \<Longrightarrow> parse_unsigned b (dec_of_nat n) = Some n"
  using parse_digits_dec_of_nat [of n]
  by (cases rule: dec_of_nat_Cons [of n]) (simp add: parse_unsigned_def)

lemma parse_i64_dec [simp]: "in_i64 n \<Longrightarrow> parse_i64 (dec_of_int n) = Some n"
proof (cases "n < 0")
  case True
  then show "in_i64 n \<Longrightarrow> ?thesis" by (simp add: parse_i64_def dec_of_int_def)
next
  case False
  assume n: "in_i64 n"
  obtain c cs where c: "dec_of_nat (nat n) = c # cs" "c \<noteq> CHR ''-''" "c \<noteq> CHR ''+''"
    using dec_of_nat_Cons by metis
  have "parse_digits (c # cs) = Some (nat n)"
    using parse_digits_dec_of_nat [of "nat n"] c(1) by simp
  with False n c show ?thesis by (simp add: parse_i64_def dec_of_int_def)
qed

lemma takeWhile_dec_of_nat [simp]: "takeWhile is_digit (dec_of_nat n) = dec_of_nat n"
  using dec_of_nat_digits by (simp add: takeWhile_eq_all_conv)

lemma sql_cast_int_dec [simp]: "in_i64 n \<Longrightarrow> sql_cast_int (dec_of_int n) = n"
proof (cases "n < 0")
  case True
  then show "in_i64 n \<Longrightarrow> ?thesis"
    by (simp add: sql_cast_int_def dec_of_int_def is_sql_space_def in_i64_def)
next
  case False
  assume n: "in_i64 n"
  obtain c cs where c: "dec_of_nat (nat n) = c # cs" "c \<noteq> CHR ''-''" "c \<noteq> CHR ''+''"
    "\<not> is_sql_space c"
    using dec_of_nat_Cons by metis
  have "digits_acc 0 (takeWhile is_digit (c # cs)) = Some (nat n)"
    using digits_acc_dec_of_nat [of "nat n"] takeWhile_dec_of_nat [of "nat n"] c(1) by simp
  with False n c show ?thesis by (simp add: sql_cast_int_def dec_of_int_def in_i64_def)
qed

lemma dec_of_int_inj: "in_i64 m \<Longrightarrow> in_i64 n \<Longrightarrow> dec_of_int m = dec_of_int n \<Longrightarrow> m = n"
  by (metis parse_i64_dec option.inject)

section \<open>SQL statements\<close>

text \<open>
  A table is the list of its rows in insertion order. \<open>upsert_row\<close> is
  \<open>INSERT ... ON CONFLICT(key) DO UPDATE SET ...\<close> (\<open>merge old new\<close> is the updated row),
  \<open>insert_new\<close> is \<open>INSERT ... ON CONFLICT(key) DO NOTHING\<close> (and \<open>INSERT OR IGNORE\<close>),
  \<open>update_where\<close> and \<open>delete_where\<close> are \<open>UPDATE\<close> and \<open>DELETE ... WHERE\<close>, \<open>count_where\<close> is
  \<open>SELECT COUNT(*)\<close> and also the number of rows a statement reports as changed,
  \<open>query_row\<close> is a query for at most one row.
\<close>

definition has_key :: "('r \<Rightarrow> 'k) \<Rightarrow> 'k \<Rightarrow> 'r list \<Rightarrow> bool" where
  "has_key key k t \<longleftrightarrow> k \<in> key ` set t"

definition upsert_row :: "('r \<Rightarrow> 'k) \<Rightarrow> ('r \<Rightarrow> 'r \<Rightarrow> 'r) \<Rightarrow> 'r \<Rightarrow> 'r list \<Rightarrow> 'r list" where
  "upsert_row key merge r t =
     (if has_key key (key r) t
      then map (\<lambda>x. if key x = key r then merge x r else x) t
      else t @ [r])"

definition insert_new :: "('r \<Rightarrow> 'k) \<Rightarrow> 'r \<Rightarrow> 'r list \<Rightarrow> 'r list" where
  "insert_new key r t = (if has_key key (key r) t then t else t @ [r])"

definition update_where :: "('r \<Rightarrow> bool) \<Rightarrow> ('r \<Rightarrow> 'r) \<Rightarrow> 'r list \<Rightarrow> 'r list" where
  "update_where P f t = map (\<lambda>x. if P x then f x else x) t"

definition delete_where :: "('r \<Rightarrow> bool) \<Rightarrow> 'r list \<Rightarrow> 'r list" where
  "delete_where P t = filter (\<lambda>x. \<not> P x) t"

definition count_where :: "('r \<Rightarrow> bool) \<Rightarrow> 'r list \<Rightarrow> nat" where
  "count_where P t = length (filter P t)"

definition query_row :: "('r \<Rightarrow> bool) \<Rightarrow> 'r list \<Rightarrow> 'r option" where
  "query_row P t = find P t"

text \<open>\<open>ORDER BY k DESC\<close> over rows in an order already fixed.\<close>

definition order_desc :: "('r \<Rightarrow> 'k::linorder) \<Rightarrow> 'r list \<Rightarrow> 'r list" where
  "order_desc k rs = rev (sort_key k (rev rs))"

lemma set_order_desc [simp]: "set (order_desc k rs) = set rs"
  by (simp add: order_desc_def)

lemma length_order_desc [simp]: "length (order_desc k rs) = length rs"
  by (simp add: order_desc_def)

definition primary_key :: "('r \<Rightarrow> 'k) \<Rightarrow> 'r list \<Rightarrow> bool" where
  "primary_key key t \<longleftrightarrow> distinct (map key t)"

text \<open>\<open>INTEGER PRIMARY KEY\<close>: a row inserted without an id gets the largest id plus one.\<close>

definition max_of :: "int list \<Rightarrow> int option" where
  "max_of xs = (if xs = [] then None else Some (Max (set xs)))"

definition next_rowid :: "('r \<Rightarrow> int) \<Rightarrow> 'r list \<Rightarrow> int" where
  "next_rowid rid t = (case max_of (map rid t) of None \<Rightarrow> 1 | Some m \<Rightarrow> m + 1)"

lemma set_update_where [sql_simps]:
  "set (update_where P f t) = {f x | x. x \<in> set t \<and> P x} \<union> {x \<in> set t. \<not> P x}"
  by (auto simp: update_where_def)

lemma map_key_update_where:
  "(\<And>x. P x \<Longrightarrow> key (f x) = key x) \<Longrightarrow> map key (update_where P f t) = map key t"
  by (auto simp: update_where_def)

lemma has_key_conv: "has_key key k t \<longleftrightarrow> k \<in> set (map key t)"
  by (simp add: has_key_def)

lemma has_key_update_where [simp]:
  "(\<And>x. P x \<Longrightarrow> key (f x) = key x) \<Longrightarrow> has_key key k (update_where P f t) = has_key key k t"
  by (simp only: has_key_conv map_key_update_where)

lemma map_key_upsert_row:
  "(\<And>x. key x = key r \<Longrightarrow> key (merge x r) = key x) \<Longrightarrow>
   map key (upsert_row key merge r t)
     = (if has_key key (key r) t then map key t else map key t @ [key r])"
  by (auto simp: upsert_row_def)

lemma primary_key_update_where [simp]:
  "(\<And>x. P x \<Longrightarrow> key (f x) = key x) \<Longrightarrow> primary_key key (update_where P f t) = primary_key key t"
  by (simp add: primary_key_def map_key_update_where)

lemma primary_key_upsert_row [simp]:
  "(\<And>x. key x = key r \<Longrightarrow> key (merge x r) = key x) \<Longrightarrow> primary_key key t \<Longrightarrow>
   primary_key key (upsert_row key merge r t)"
  by (auto simp: primary_key_def map_key_upsert_row has_key_def)

lemma primary_key_insert_new [simp]: "primary_key key t \<Longrightarrow> primary_key key (insert_new key r t)"
  by (auto simp: primary_key_def insert_new_def has_key_def)

lemma primary_key_delete_where [simp]: "primary_key key t \<Longrightarrow> primary_key key (delete_where P t)"
  by (simp add: primary_key_def delete_where_def distinct_map_filter)

lemma primary_key_unique:
  "primary_key key t \<Longrightarrow> x \<in> set t \<Longrightarrow> y \<in> set t \<Longrightarrow> key x = key y \<Longrightarrow> x = y"
  by (auto simp: primary_key_def distinct_map inj_on_def)

lemma set_insert_new: "set (insert_new key r t) = (if has_key key (key r) t then set t else insert r (set t))"
  by (auto simp: insert_new_def)

lemma query_row_None_iff [sql_simps]: "query_row P t = None \<longleftrightarrow> (\<forall>x\<in>set t. \<not> P x)"
  by (auto simp: query_row_def find_None_iff)

lemma query_row_SomeD: "query_row P t = Some x \<Longrightarrow> x \<in> set t \<and> P x"
  by (auto simp: query_row_def find_Some_iff)

lemma query_row_append:
  "query_row P (s @ t) = (case query_row P s of None \<Rightarrow> query_row P t | Some x \<Rightarrow> Some x)"
  by (induction s) (auto simp: query_row_def)

lemma query_row_Nil [simp]: "query_row P [] = None"
  by (simp add: query_row_def)

lemma query_row_Cons [simp]: "query_row P (x # t) = (if P x then Some x else query_row P t)"
  by (simp add: query_row_def)

lemma query_row_update_where:
  "(\<And>x. P x \<Longrightarrow> Q (f x) = Q x) \<Longrightarrow>
   query_row Q (update_where P f t) = map_option (\<lambda>x. if P x then f x else x) (query_row Q t)"
  by (induction t) (auto simp: update_where_def)

lemma query_row_upsert_row:
  assumes "\<And>x. key x = key r \<Longrightarrow> key (merge x r) = key x"
  shows "query_row (\<lambda>x. key x = k) (upsert_row key merge r t)
    = (if k = key r
       then Some (case query_row (\<lambda>x. key x = k) t of None \<Rightarrow> r | Some x \<Rightarrow> merge x r)
       else query_row (\<lambda>x. key x = k) t)"
proof (cases "has_key key (key r) t")
  case False
  then have "query_row (\<lambda>x. key x = key r) t = None"
    unfolding has_key_def query_row_None_iff by (metis image_eqI)
  with False show ?thesis
    by (auto simp: upsert_row_def query_row_append split: option.splits)
next
  case True
  have "query_row (\<lambda>x. key x = k) (map (\<lambda>x. if key x = key r then merge x r else x) t)
      = map_option (\<lambda>x. if key x = key r then merge x r else x) (query_row (\<lambda>x. key x = k) t)"
    using assms by (induction t) auto
  moreover have "query_row (\<lambda>x. key x = key r) t \<noteq> None"
    using True unfolding has_key_def query_row_None_iff by (metis imageE)
  ultimately show ?thesis
    using True query_row_SomeD [of "\<lambda>x. key x = k" t]
    by (cases "query_row (\<lambda>x. key x = k) t") (auto simp: upsert_row_def)
qed

lemma query_row_unique:
  assumes "primary_key key t" "x \<in> set t" "P x" "\<And>y. y \<in> set t \<Longrightarrow> P y \<Longrightarrow> key y = key x"
  shows "query_row P t = Some x"
proof (cases "query_row P t")
  case None
  with assms(2,3) show ?thesis by (auto simp: query_row_None_iff)
next
  case (Some y)
  with query_row_SomeD [OF Some] assms show ?thesis by (metis primary_key_unique)
qed

lemma count_where_pos_iff [sql_simps]: "0 < count_where P t \<longleftrightarrow> (\<exists>x\<in>set t. P x)"
  by (auto simp: count_where_def filter_empty_conv)

lemma count_where_0_iff [sql_simps]: "count_where P t = 0 \<longleftrightarrow> (\<forall>x\<in>set t. \<not> P x)"
  by (simp add: count_where_def filter_empty_conv)

lemma count_where_append [simp]: "count_where P (s @ t) = count_where P s + count_where P t"
  by (simp add: count_where_def)

lemma count_where_Nil [simp]: "count_where P [] = 0"
  by (simp add: count_where_def)

lemma count_where_single [simp]: "count_where P [x] = (if P x then 1 else 0)"
  by (simp add: count_where_def)

lemma update_where_Nil [simp]: "update_where P f [] = []"
  by (simp add: update_where_def)

lemma length_update_where [simp]: "length (update_where P f t) = length t"
  by (simp add: update_where_def)

lemma update_where_cong_id:
  "(\<And>x. x \<in> set t \<Longrightarrow> P x \<Longrightarrow> f x = x) \<Longrightarrow> update_where P f t = t"
  by (auto simp: update_where_def intro: map_idI)

lemma update_where_none: "\<forall>x\<in>set t. \<not> P x \<Longrightarrow> update_where P f t = t"
  by (rule update_where_cong_id) auto

lemma max_of_Some: "max_of xs = Some m \<Longrightarrow> m \<in> set xs \<and> (\<forall>x\<in>set xs. x \<le> m)"
  by (auto simp: max_of_def split: if_splits intro: Max_in)

lemma max_of_None [simp]: "max_of xs = None \<longleftrightarrow> xs = []"
  by (simp add: max_of_def)

lemma next_rowid_fresh: "x \<in> set t \<Longrightarrow> rid x < next_rowid rid t"
proof -
  assume x: "x \<in> set t"
  then obtain m where m: "max_of (map rid t) = Some m"
    by (cases "max_of (map rid t)") auto
  with max_of_Some [OF m] x show ?thesis by (auto simp: next_rowid_def)
qed

lemma primary_key_append_fresh:
  "primary_key key t \<Longrightarrow> (\<And>x. x \<in> set t \<Longrightarrow> key x \<noteq> key r) \<Longrightarrow> primary_key key (t @ [r])"
  by (simp add: primary_key_def image_iff) metis

section \<open>Text\<close>

text \<open>\<open>str::contains\<close>, and \<open>join\<close> of a slice of strings.\<close>

fun is_prefix :: "string \<Rightarrow> string \<Rightarrow> bool" where
  "is_prefix [] s = True"
| "is_prefix (p # ps) [] = False"
| "is_prefix (p # ps) (c # cs) = (p = c \<and> is_prefix ps cs)"

fun contains_str :: "string \<Rightarrow> string \<Rightarrow> bool" where
  "contains_str [] p = is_prefix p []"
| "contains_str (c # cs) p = (is_prefix p (c # cs) \<or> contains_str cs p)"

fun join_str :: "string \<Rightarrow> string list \<Rightarrow> string" where
  "join_str sep [] = []"
| "join_str sep [s] = s"
| "join_str sep (s # t # ss) = s @ sep @ join_str sep (t # ss)"

lemma is_prefix_iff: "is_prefix p s \<longleftrightarrow> (\<exists>r. s = p @ r)"
  by (induction p s rule: is_prefix.induct) auto

lemma contains_str_iff: "contains_str s p \<longleftrightarrow> (\<exists>u v. s = u @ p @ v)"
proof (induction s)
  case Nil
  then show ?case by (auto simp: is_prefix_iff)
next
  case (Cons c cs)
  show ?case
  proof
    assume "contains_str (c # cs) p"
    then consider "is_prefix p (c # cs)" | "contains_str cs p" by auto
    then show "\<exists>u v. c # cs = u @ p @ v"
      using Cons.IH by cases (metis append_Nil is_prefix_iff, metis append_Cons)
  next
    assume "\<exists>u v. c # cs = u @ p @ v"
    then obtain u v where uv: "c # cs = u @ p @ v" by blast
    show "contains_str (c # cs) p"
    proof (cases u)
      case Nil
      with uv have "is_prefix p (c # cs)" by (simp add: is_prefix_iff)
      then show ?thesis by simp
    next
      case (Cons a u')
      with uv have "cs = u' @ p @ v" by simp
      with Cons.IH show ?thesis by auto
    qed
  qed
qed

text \<open>Lists that grow without repetition: \<open>if !v.contains(&x) { v.push(x) }\<close>.\<close>

definition push_new :: "'a \<Rightarrow> 'a list \<Rightarrow> 'a list" where
  "push_new x xs = (if x \<in> set xs then xs else xs @ [x])"

definition push_all_new :: "'a list \<Rightarrow> 'a list \<Rightarrow> 'a list" where
  "push_all_new ys xs = fold push_new ys xs"

lemma push_all_new_simps [simp]:
  "push_all_new [] xs = xs" "push_all_new (y # ys) xs = push_all_new ys (push_new y xs)"
  by (simp_all add: push_all_new_def)

lemma set_push_new [simp]: "set (push_new x xs) = insert x (set xs)"
  by (auto simp: push_new_def)

lemma distinct_push_new [simp]: "distinct (push_new x xs) = distinct xs"
  by (simp add: push_new_def)

lemma set_push_all_new [simp]: "set (push_all_new ys xs) = set ys \<union> set xs"
  by (induction ys arbitrary: xs) auto

lemma distinct_push_all_new [simp]: "distinct (push_all_new ys xs) = distinct xs"
  by (induction ys arbitrary: xs) auto

section \<open>Bytes\<close>

text \<open>
  \<open>as_bytes\<close>, \<open>to_le_bytes\<close> of a 64-bit integer, and the format \<open>{byte:02x}\<close>. A SHA-256 digest is
  printed two hexadecimal digits a byte.
\<close>

definition bytes_of :: "string \<Rightarrow> nat list" where
  "bytes_of s = map of_char s"

definition le_bytes8 :: "int \<Rightarrow> nat list" where
  "le_bytes8 n = map (\<lambda>i. nat (n mod 2 ^ 64) div 256 ^ i mod 256) [0..<8]"

definition hex_digit :: "nat \<Rightarrow> char" where
  "hex_digit n = (if n < 10 then char_of (48 + n) else char_of (87 + n))"

definition hex2 :: "nat \<Rightarrow> string" where
  "hex2 b = [hex_digit (b div 16), hex_digit (b mod 16)]"

definition hex_of :: "nat list \<Rightarrow> string" where
  "hex_of bs = concat (map hex2 bs)"

lemma length_hex_of [simp]: "length (hex_of bs) = 2 * length bs"
  by (induction bs) (simp_all add: hex_of_def hex2_def)

lemma bytes_of_inject: "bytes_of s = bytes_of t \<longleftrightarrow> s = t"
proof
  assume "bytes_of s = bytes_of t"
  then have "map (char_of :: nat \<Rightarrow> char) (bytes_of s) = map char_of (bytes_of t)" by simp
  then show "s = t" by (simp add: bytes_of_def o_def)
qed simp

lemma length_le_bytes8 [simp]: "length (le_bytes8 n) = 8"
  by (simp add: le_bytes8_def)

end
