(* ===== verification/Interfaces.thy ===== *)
theory Interfaces
  imports Prelude
begin

text \<open>
  The contracts the components promise one another, as locales: enum columns stored as text,
  keyed stores written by upsert, lifecycle state machines with final states, sequence
  allocators, operations behind an authorization gate, and checksum-verified migration runs.
  Every locale is interpreted by the theory of the component that provides it.
\<close>

section \<open>Enums stored as text\<close>

text \<open>
  Each stored enum has an \<open>as_str\<close> and a \<open>parse\<close>. A column written by one and read by the other
  must come back unchanged, and nothing else may be read as a value of the enum.
\<close>

locale text_enum =
  fixes as_str :: "'a \<Rightarrow> string" and parse :: "string \<Rightarrow> 'a option"
  assumes parse_as_str: "parse (as_str x) = Some x"
    and parse_sound: "parse s = Some x \<Longrightarrow> s = as_str x"
begin

lemma parse_Some_iff: "parse s = Some x \<longleftrightarrow> s = as_str x"
  using parse_as_str parse_sound by blast

lemma as_str_inject: "as_str x = as_str y \<longleftrightarrow> x = y"
  by (metis parse_as_str option.inject)

lemma parse_None_iff: "parse s = None \<longleftrightarrow> (\<forall>x. s \<noteq> as_str x)"
  by (metis not_Some_eq parse_Some_iff)

lemma decode_column: "ok_or e (parse (as_str x)) = Inr x"
  by (simp add: parse_as_str)

end

section \<open>Keyed stores\<close>

text \<open>
  A store written by upsert: after \<open>put r\<close> the row of \<open>r\<close>'s key is \<open>merge old r\<close> and no other key
  has changed. \<open>merge None r\<close> is the freshly inserted row.
\<close>

locale keyed_store =
  fixes get :: "'t \<Rightarrow> 'k \<Rightarrow> 'r option"
    and put :: "'r \<Rightarrow> 't \<Rightarrow> 't"
    and key :: "'r \<Rightarrow> 'k"
    and merge :: "'r option \<Rightarrow> 'r \<Rightarrow> 'r"
    and ok :: "'t \<Rightarrow> bool"
  assumes ok_put: "ok t \<Longrightarrow> ok (put r t)"
    and get_put: "ok t \<Longrightarrow> get (put r t) k = (if k = key r then Some (merge (get t k) r) else get t k)"
    and merge_idem: "merge (Some (merge v r)) r = merge v r"
begin

lemma get_put_same: "ok t \<Longrightarrow> get (put r t) (key r) = Some (merge (get t (key r)) r)"
  by (simp add: get_put)

lemma get_put_other: "ok t \<Longrightarrow> k \<noteq> key r \<Longrightarrow> get (put r t) k = get t k"
  by (simp add: get_put)

lemma put_idem: "ok t \<Longrightarrow> get (put r (put r t)) k = get (put r t) k"
  by (simp add: get_put ok_put merge_idem)

lemma put_commute:
  "ok t \<Longrightarrow> key r \<noteq> key q \<Longrightarrow> get (put r (put q t)) k = get (put q (put r t)) k"
  by (simp add: get_put ok_put)

lemma ok_fold_put: "ok t \<Longrightarrow> ok (fold put rs t)"
  by (induction rs arbitrary: t) (auto intro: ok_put)

lemma fold_put_other:
  "ok t \<Longrightarrow> k \<notin> key ` set rs \<Longrightarrow> get (fold put rs t) k = get t k"
  by (induction rs arbitrary: t) (auto simp: get_put ok_put)

end

text \<open>Where the update overwrites every column but the key, the last write decides.\<close>

locale overwriting_store = keyed_store +
  assumes merge_new: "merge v r = r"
begin

lemma get_put_new: "ok t \<Longrightarrow> get (put r t) (key r) = Some r"
  by (simp add: get_put_same merge_new)

lemma last_put_wins: "ok t \<Longrightarrow> key q = key r \<Longrightarrow> get (put r (put q t)) k = get (put r t) k"
  by (simp add: get_put ok_put merge_new)

lemma get_fold_put:
  "ok t \<Longrightarrow> get (fold put rs t) k = (case find (\<lambda>r. key r = k) (rev rs) of Some r \<Rightarrow> Some r | None \<Rightarrow> get t k)"
proof (induction rs rule: rev_induct)
  case (snoc r rs)
  then show ?case by (simp add: get_put ok_fold_put merge_new)
qed simp

end

section \<open>Lifecycle state machines\<close>

text \<open>
  \<open>step s v\<close> is the next state or the refusal of event \<open>v\<close>. A caller that drives a machine with a
  sequence of events keeps the state where an event is refused.
\<close>

fun run_events :: "('s \<Rightarrow> 'v \<Rightarrow> 'e + 's) \<Rightarrow> 's \<Rightarrow> 'v list \<Rightarrow> 's" where
  "run_events step s [] = s"
| "run_events step s (v # vs) =
     run_events step (case step s v of Inl _ \<Rightarrow> s | Inr s' \<Rightarrow> s') vs"

fun accepted_events :: "('s \<Rightarrow> 'v \<Rightarrow> 'e + 's) \<Rightarrow> 's \<Rightarrow> 'v list \<Rightarrow> nat" where
  "accepted_events step s [] = 0"
| "accepted_events step s (v # vs) =
     (case step s v of
        Inl _ \<Rightarrow> accepted_events step s vs
      | Inr s' \<Rightarrow> Suc (accepted_events step s' vs))"

locale status_machine =
  fixes step :: "'s \<Rightarrow> 'v \<Rightarrow> 'e + 's" and final :: "'s \<Rightarrow> bool"
  assumes final_refuses: "final s \<Longrightarrow> \<exists>e. step s v = Inl e"
    and live_moves: "\<not> final s \<Longrightarrow> \<exists>v s'. step s v = Inr s'"
begin

lemma final_stays: "final s \<Longrightarrow> run_events step s vs = s"
proof (induction vs)
  case Nil
  then show ?case by simp
next
  case (Cons v vs)
  then show ?case using final_refuses [of s v] by auto
qed

lemma final_accepts_none: "final s \<Longrightarrow> accepted_events step s vs = 0"
proof (induction vs)
  case Nil
  then show ?case by simp
next
  case (Cons v vs)
  then show ?case using final_refuses [of s v] by auto
qed

lemma final_iff: "final s \<longleftrightarrow> (\<forall>v. \<exists>e. step s v = Inl e)"
  using final_refuses live_moves by (metis Inl_Inr_False)

end

text \<open>A machine that only moves forward: a rank falls with every accepted event.\<close>

locale ranked_machine = status_machine +
  fixes rank :: "'s \<Rightarrow> nat"
  assumes rank_falls: "step s v = Inr s' \<Longrightarrow> rank s' < rank s"
begin

lemma accepted_bound: "accepted_events step s vs \<le> rank s"
proof (induction vs arbitrary: s)
  case Nil
  then show ?case by simp
next
  case (Cons v vs)
  show ?case
  proof (cases "step s v")
    case (Inl e)
    then show ?thesis using Cons.IH [of s] by simp
  next
    case (Inr s')
    have "accepted_events step s' vs \<le> rank s'" by (rule Cons.IH)
    with rank_falls [OF Inr] Inr show ?thesis by simp
  qed
qed

end

section \<open>Sequence allocators\<close>

text \<open>
  Two writers share one number space: each allocates numbers of its own parity from the largest
  number in its own table, so their numbers never collide. \<open>room xs\<close> says that the next number
  after those of \<open>xs\<close> is still in the range of the integer type.
\<close>

locale seq_allocator =
  fixes alloc :: "int list \<Rightarrow> int" and parity :: int and room :: "int list \<Rightarrow> bool"
  assumes alloc_parity: "\<forall>x\<in>set xs. x mod 2 = parity \<Longrightarrow> alloc xs mod 2 = parity"
    and alloc_above: "room xs \<Longrightarrow> x \<in> set xs \<Longrightarrow> x < alloc xs"
begin

lemma alloc_fresh: "room xs \<Longrightarrow> alloc xs \<notin> set xs"
  using alloc_above by blast

lemma alloc_keeps_parity:
  "\<forall>x\<in>set xs. x mod 2 = parity \<Longrightarrow> \<forall>x\<in>set (xs @ [alloc xs]). x mod 2 = parity"
  using alloc_parity by auto

lemma alloc_keeps_sorted:
  "room xs \<Longrightarrow> sorted_wrt (<) xs \<Longrightarrow> sorted_wrt (<) (xs @ [alloc xs])"
  by (auto simp: sorted_wrt_append intro: alloc_above)

lemma other_parity_disjoint:
  "\<forall>x\<in>set xs. x mod 2 = parity \<Longrightarrow> \<forall>y\<in>ys. y mod 2 \<noteq> parity \<Longrightarrow> alloc xs \<notin> ys"
  using alloc_parity by blast

end

section \<open>Gated operations\<close>

text \<open>
  An operation on behalf of an actor, behind an authorization gate: an actor the gate refuses
  gets an error and the store is as it was.
\<close>

fun run_as_actor :: "('db \<Rightarrow> 'x \<Rightarrow> 'db \<times> 'r) \<Rightarrow> 'db \<Rightarrow> 'x list \<Rightarrow> 'db" where
  "run_as_actor op db [] = db"
| "run_as_actor op db (x # xs) = run_as_actor op (fst (op db x)) xs"

locale gated_op =
  fixes gate :: "'db \<Rightarrow> int \<Rightarrow> bool"
    and op :: "int \<Rightarrow> 'db \<Rightarrow> 'x \<Rightarrow> 'db \<times> ('e + 'a)"
  assumes gate_refuses: "\<not> gate db actor \<Longrightarrow> \<exists>e. op actor db x = (db, Inl e)"
begin

lemma refused_unchanged: "\<not> gate db actor \<Longrightarrow> fst (op actor db x) = db"
  using gate_refuses [of db actor x] by auto

lemma refused_run_unchanged: "\<not> gate db actor \<Longrightarrow> run_as_actor (op actor) db xs = db"
  by (induction xs) (auto simp: refused_unchanged)

lemma ok_needs_gate: "snd (op actor db x) = Inr a \<Longrightarrow> gate db actor"
  using gate_refuses [of db actor x] by (cases "gate db actor") auto

end

section \<open>Migration runs\<close>

text \<open>
  Both migration runners walk a list of migrations in order: a recorded migration whose checksum
  differs stops the run, a recorded one is skipped, an unrecorded one is applied and recorded.
  \<open>run\<close> returns the database as the run leaves it, and whether the run succeeded.
\<close>

locale migration_run =
  fixes run :: "'db \<Rightarrow> 'm list \<Rightarrow> 'db \<times> bool"
    and apply1 :: "'m \<Rightarrow> 'db \<Rightarrow> 'db option"
    and recorded :: "'db \<Rightarrow> 'k \<Rightarrow> string option"
    and ident :: "'m \<Rightarrow> 'k"
    and digest :: "'m \<Rightarrow> string"
  assumes run_Nil: "run db [] = (db, True)"
    and run_drift: "recorded db (ident m) = Some c \<Longrightarrow> c \<noteq> digest m \<Longrightarrow> run db (m # ms) = (db, False)"
    and run_skip: "recorded db (ident m) = Some (digest m) \<Longrightarrow> run db (m # ms) = run db ms"
    and run_apply: "recorded db (ident m) = None \<Longrightarrow> apply1 m db = Some db' \<Longrightarrow>
      run db (m # ms) = run db' ms"
    and run_fail: "recorded db (ident m) = None \<Longrightarrow> apply1 m db = None \<Longrightarrow>
      run db (m # ms) = (db, False)"
    and apply1_records: "apply1 m db = Some db' \<Longrightarrow> recorded db (ident m) = None \<Longrightarrow>
      recorded db' k = (if k = ident m then Some (digest m) else recorded db k)"
begin

text \<open>The four ways a run takes its next migration.\<close>

lemma run_cases:
  obtains (drift) c where "recorded db (ident m) = Some c" "c \<noteq> digest m"
      "run db (m # ms) = (db, False)"
  | (skip) "recorded db (ident m) = Some (digest m)" "run db (m # ms) = run db ms"
  | (applied) db' where "recorded db (ident m) = None" "apply1 m db = Some db'"
      "run db (m # ms) = run db' ms"
  | (fail) "recorded db (ident m) = None" "apply1 m db = None" "run db (m # ms) = (db, False)"
  by (metis option.exhaust run_apply run_drift run_fail run_skip)

lemma run_recorded_noop:
  "\<forall>m\<in>set ms. recorded db (ident m) = Some (digest m) \<Longrightarrow> run db ms = (db, True)"
  by (induction ms) (auto simp: run_Nil run_skip)

lemma run_keeps_recorded:
  "recorded db k = Some c \<Longrightarrow> recorded (fst (run db ms)) k = Some c"
proof (induction ms arbitrary: db)
  case Nil
  then show ?case by (simp add: run_Nil)
next
  case (Cons m ms)
  show ?case
  proof (cases rule: run_cases [of db m ms])
    case (applied db')
    then have "recorded db' k = Some c" using Cons.prems apply1_records by auto
    with applied Cons.IH show ?thesis by simp
  qed (use Cons in auto)
qed

lemma run_ok_recorded:
  "snd (run db ms) \<Longrightarrow> m \<in> set ms \<Longrightarrow> recorded (fst (run db ms)) (ident m) = Some (digest m)"
proof (induction ms arbitrary: db)
  case Nil
  then show ?case by simp
next
  case (Cons x ms)
  show ?case
  proof (cases rule: run_cases [of db x ms])
    case skip
    with Cons show ?thesis by (auto intro: run_keeps_recorded)
  next
    case (applied db')
    then have "recorded db' (ident x) = Some (digest x)" using apply1_records by simp
    with applied Cons show ?thesis by (auto intro: run_keeps_recorded)
  qed (use Cons.prems in auto)
qed

text \<open>A run that succeeded leaves nothing to do.\<close>

lemma rerun_noop: "snd (run db ms) \<Longrightarrow> run (fst (run db ms)) ms = (fst (run db ms), True)"
  using run_ok_recorded run_recorded_noop by blast

lemma run_append:
  "run db (xs @ ys) = (if snd (run db xs) then run (fst (run db xs)) ys else run db xs)"
proof (induction xs arbitrary: db)
  case Nil
  then show ?case by (simp add: run_Nil)
next
  case (Cons x xs)
  show ?case
    by (cases rule: run_cases [of db x xs]; cases rule: run_cases [of db x "xs @ ys"])
      (use Cons in auto)
qed

text \<open>
  A run interrupted after a prefix resumes: running the whole list on what the prefix left gives
  what an uninterrupted run gives.
\<close>

lemma resume:
  "snd (run db xs) \<Longrightarrow> run (fst (run db xs)) (xs @ ys) = run db (xs @ ys)"
  by (simp add: run_append rerun_noop)

end

end
