(* ===== verification/Recurrence.thy ===== *)
theory Recurrence
  imports Interfaces
begin

text \<open>
  Recurrences of \<open>crates/assistant-scheduler/src/model.rs\<close>: validation, the calendar scan and the
  next firing time. The date library (\<open>chrono\<close>, \<open>chrono_tz\<close>) is not part of the repository: its
  operations are the fields of the record \<open>chrono\<close>, an argument of every definition that uses
  them. \<open>utc_chrono\<close> at the end is one concrete instance (UTC, the proleptic Gregorian calendar),
  for evaluating examples.
\<close>

section \<open>Outcomes and the date library\<close>

text \<open>An \<open>unwrap()\<close> of an absent value panics; \<open>Panic\<close> is that outcome.\<close>

datatype 'a outcome = Panic | Returns 'a

datatype chrono_weekday = ChMon | ChTue | ChWed | ChThu | ChFri | ChSat | ChSun

text \<open>\<open>LocalResult\<close> of the library; an instant is represented by its epoch second.\<close>

datatype local_result = LocalNone | LocalSingle int | LocalAmbiguous int int

record ('tz, 'd, 't, 'n) chrono =
  tz_from_str :: "string \<Rightarrow> 'tz option"
  timestamp_date :: "'tz \<Rightarrow> int \<Rightarrow> 'd option"
  from_hms_opt :: "nat \<Rightarrow> nat \<Rightarrow> nat \<Rightarrow> 't option"
  and_time :: "'d \<Rightarrow> 't \<Rightarrow> 'n"
  from_local_datetime :: "'tz \<Rightarrow> 'n \<Rightarrow> local_result"
  checked_add_hours :: "int \<Rightarrow> 'n \<Rightarrow> 'n option"
  succ_opt :: "'d \<Rightarrow> 'd option"
  pred_opt :: "'d \<Rightarrow> 'd option"
  from_ymd_opt :: "int \<Rightarrow> nat \<Rightarrow> nat \<Rightarrow> 'd option"
  date_weekday :: "'d \<Rightarrow> chrono_weekday"
  date_year :: "'d \<Rightarrow> int"
  date_month :: "'d \<Rightarrow> nat"
  date_day :: "'d \<Rightarrow> nat"

section \<open>Recurrences\<close>

datatype weekday = Mon | Tue | Wed | Thu | Fri | Sat | Sun

fun to_chrono :: "weekday \<Rightarrow> chrono_weekday" where
  "to_chrono Mon = ChMon"
| "to_chrono Tue = ChTue"
| "to_chrono Wed = ChWed"
| "to_chrono Thu = ChThu"
| "to_chrono Fri = ChFri"
| "to_chrono Sat = ChSat"
| "to_chrono Sun = ChSun"

datatype recurrence =
    Every (every_seconds: int)
  | Daily (minute_of_day: nat) (rec_tz: string)
  | Weekly (weekdays: "weekday list") (minute_of_day: nat) (rec_tz: string)
  | Monthly (month_day: nat) (minute_of_day: nat) (rec_tz: string)

text \<open>
  The \<open>detail\<close> text of \<open>InvalidRecurrence\<close> is represented by what it reports; the text is a
  rendering of it.
\<close>

datatype recurrence_defect =
    IntervalNotPositive int
  | NoWeekday
  | DayOfMonthOutOfRange nat
  | MinuteOfDayOutOfRange nat
  | UnknownTimezone string

definition validate_minute_of_day :: "nat \<Rightarrow> recurrence_defect + unit" where
  "validate_minute_of_day m = (if m < 1440 then Inr () else Inl (MinuteOfDayOutOfRange m))"

definition validate_tz :: "('tz, 'd, 't, 'n) chrono \<Rightarrow> string \<Rightarrow> recurrence_defect + unit" where
  "validate_tz c tz = (case tz_from_str c tz of
      Some _ \<Rightarrow> Inr ()
    | None \<Rightarrow> Inl (UnknownTimezone tz))"

fun validate :: "('tz, 'd, 't, 'n) chrono \<Rightarrow> recurrence \<Rightarrow> recurrence_defect + unit" where
  "validate c (Every s) = (if 0 < s then Inr () else Inl (IntervalNotPositive s))"
| "validate c (Daily m tz) = rbind (validate_minute_of_day m) (\<lambda>_. validate_tz c tz)"
| "validate c (Weekly ws m tz) =
     (if ws = [] then Inl NoWeekday
      else rbind (validate_minute_of_day m) (\<lambda>_. validate_tz c tz))"
| "validate c (Monthly d m tz) =
     (if \<not> (1 \<le> d \<and> d \<le> 31) then Inl (DayOfMonthOutOfRange d)
      else rbind (validate_minute_of_day m) (\<lambda>_. validate_tz c tz))"

definition days_in_month :: "('tz, 'd, 't, 'n) chrono \<Rightarrow> int \<Rightarrow> nat \<Rightarrow> nat outcome" where
  "days_in_month c year month =
     (case (if month = 12 then from_ymd_opt c (year + 1) 1 1
            else from_ymd_opt c year (month + 1) 1) of
        None \<Rightarrow> Panic
      | Some first_next \<Rightarrow>
         (case pred_opt c first_next of
            None \<Rightarrow> Panic
          | Some last_day \<Rightarrow> Returns (date_day c last_day)))"

definition clamp_day :: "('tz, 'd, 't, 'n) chrono \<Rightarrow> nat \<Rightarrow> 'd \<Rightarrow> nat outcome" where
  "clamp_day c day date =
     (case days_in_month c (date_year c date) (date_month c date) of
        Panic \<Rightarrow> Panic
      | Returns n \<Rightarrow> Returns (min day n))"

fun date_qualifies :: "('tz, 'd, 't, 'n) chrono \<Rightarrow> recurrence \<Rightarrow> 'd \<Rightarrow> bool outcome" where
  "date_qualifies c (Every _) date = Returns True"
| "date_qualifies c (Daily _ _) date = Returns True"
| "date_qualifies c (Weekly ws _ _) date =
     Returns (list_ex (\<lambda>w. to_chrono w = date_weekday c date) ws)"
| "date_qualifies c (Monthly day _ _) date =
     (case clamp_day c day date of
        Panic \<Rightarrow> Panic
      | Returns d \<Rightarrow> Returns (date_day c date = d))"

text \<open>
  A wall-clock time in a daylight-saving overlap takes the earlier instant, in a gap it moves
  forward one hour (and is given up if that is not a single instant either).
\<close>

definition resolve_local :: "('tz, 'd, 't, 'n) chrono \<Rightarrow> 'tz \<Rightarrow> 'd \<Rightarrow> 't \<Rightarrow> int option" where
  "resolve_local c tz date time =
     (let naive = and_time c date time
      in case from_local_datetime c tz naive of
           LocalSingle dt \<Rightarrow> Some dt
         | LocalAmbiguous earlier _ \<Rightarrow> Some earlier
         | LocalNone \<Rightarrow>
             (case checked_add_hours c 1 naive of
                None \<Rightarrow> None
              | Some shifted \<Rightarrow>
                  (case from_local_datetime c tz shifted of
                     LocalSingle dt \<Rightarrow> Some dt
                   | _ \<Rightarrow> None)))"

definition admissible :: "bool \<Rightarrow> int \<Rightarrow> int \<Rightarrow> bool" where
  "admissible inclusive frm epoch \<longleftrightarrow>
     (inclusive \<and> frm \<le> epoch) \<or> (\<not> inclusive \<and> frm < epoch)"

definition accepted_instant :: "bool \<Rightarrow> int \<Rightarrow> int option \<Rightarrow> int option" where
  "accepted_instant inclusive frm v =
     (case v of None \<Rightarrow> None
      | Some epoch \<Rightarrow> if admissible inclusive frm epoch then Some epoch else None)"

text \<open>The loop \<open>for _ in 0..400\<close> of \<open>calendar_match\<close>: the first argument counts the rounds left.\<close>

fun calendar_scan ::
  "nat \<Rightarrow> ('tz, 'd, 't, 'n) chrono \<Rightarrow> recurrence \<Rightarrow> 'tz \<Rightarrow> 't \<Rightarrow> int \<Rightarrow> bool \<Rightarrow> 'd
   \<Rightarrow> int option outcome" where
  "calendar_scan 0 c r tz time frm inclusive date = Returns None"
| "calendar_scan (Suc n) c r tz time frm inclusive date =
     (case date_qualifies c r date of
        Panic \<Rightarrow> Panic
      | Returns q \<Rightarrow>
          (case accepted_instant inclusive frm (if q then resolve_local c tz date time else None) of
             Some epoch \<Rightarrow> Returns (Some epoch)
           | None \<Rightarrow>
               (case succ_opt c date of
                  None \<Rightarrow> Returns None
                | Some d \<Rightarrow> calendar_scan n c r tz time frm inclusive d)))"

definition calendar_match ::
  "('tz, 'd, 't, 'n) chrono \<Rightarrow> recurrence \<Rightarrow> int \<Rightarrow> bool \<Rightarrow> int option outcome" where
  "calendar_match c r frm inclusive =
     (case r of
        Every _ \<Rightarrow> Returns None
      | _ \<Rightarrow>
         (case tz_from_str c (rec_tz r) of
            None \<Rightarrow> Returns None
          | Some tz \<Rightarrow>
             (case from_hms_opt c (minute_of_day r div 60) (minute_of_day r mod 60) 0 of
                None \<Rightarrow> Returns None
              | Some time \<Rightarrow>
                 (case timestamp_date c tz frm of
                    None \<Rightarrow> Returns None
                  | Some start \<Rightarrow> calendar_scan 400 c r tz time frm inclusive start))))"

definition next_after :: "('tz, 'd, 't, 'n) chrono \<Rightarrow> recurrence \<Rightarrow> int \<Rightarrow> int outcome" where
  "next_after c r scheduled =
     (case r of
        Every s \<Rightarrow> Returns (i64_add scheduled s)
      | _ \<Rightarrow>
         (case calendar_match c r scheduled False of
            Panic \<Rightarrow> Panic
          | Returns m \<Rightarrow> Returns (case m of Some e \<Rightarrow> e | None \<Rightarrow> i64_add scheduled 86400)))"

definition first_on_or_after ::
  "('tz, 'd, 't, 'n) chrono \<Rightarrow> recurrence \<Rightarrow> int \<Rightarrow> int option outcome" where
  "first_on_or_after c r now =
     (case r of Every _ \<Rightarrow> Returns None | _ \<Rightarrow> calendar_match c r now True)"

section \<open>The calendar scan\<close>

text \<open>The date \<open>i\<close> days after \<open>d\<close>, as far as the library's calendar goes.\<close>

fun day_after :: "('tz, 'd, 't, 'n) chrono \<Rightarrow> nat \<Rightarrow> 'd \<Rightarrow> 'd option" where
  "day_after c 0 d = Some d"
| "day_after c (Suc n) d = (case succ_opt c d of None \<Rightarrow> None | Some d' \<Rightarrow> day_after c n d')"

text \<open>Whether a recurrence fires on a date, at an instant the caller accepts.\<close>

definition fires_on ::
  "('tz, 'd, 't, 'n) chrono \<Rightarrow> recurrence \<Rightarrow> 'tz \<Rightarrow> 't \<Rightarrow> int \<Rightarrow> bool \<Rightarrow> 'd \<Rightarrow> int \<Rightarrow> bool" where
  "fires_on c r tz time frm inclusive d e \<longleftrightarrow>
     date_qualifies c r d = Returns True \<and> resolve_local c tz d time = Some e
       \<and> admissible inclusive frm e"

lemma accepted_instant_Some_iff:
  "accepted_instant inclusive frm v = Some e \<longleftrightarrow> v = Some e \<and> admissible inclusive frm e"
  by (auto simp: accepted_instant_def split: option.splits)

lemma calendar_scan_first:
  assumes "calendar_scan n c r tz time frm inclusive date = Returns (Some e)"
  shows "\<exists>i d. i < n \<and> day_after c i date = Some d \<and> fires_on c r tz time frm inclusive d e
    \<and> (\<forall>j d' e'. j < i \<longrightarrow> day_after c j date = Some d' \<longrightarrow>
         \<not> fires_on c r tz time frm inclusive d' e')"
  using assms
proof (induction n arbitrary: date)
  case 0
  then show ?case by simp
next
  case (Suc n)
  from Suc.prems obtain q where q: "date_qualifies c r date = Returns q"
    by (auto split: outcome.splits)
  let ?hit = "accepted_instant inclusive frm (if q then resolve_local c tz date time else None)"
  show ?case
  proof (cases ?hit)
    case (Some e')
    with Suc.prems q have "fires_on c r tz time frm inclusive date e"
      by (auto simp: fires_on_def accepted_instant_Some_iff split: if_splits)
    then show ?thesis by (intro exI [of _ 0] exI [of _ date]) simp
  next
    case None
    with Suc.prems q obtain d1 where d1: "succ_opt c date = Some d1"
      and rest: "calendar_scan n c r tz time frm inclusive d1 = Returns (Some e)"
      by (auto split: option.splits)
    have no: "\<not> fires_on c r tz time frm inclusive date e'" for e'
      using None q by (auto simp: fires_on_def accepted_instant_def)
    from Suc.IH [OF rest] obtain i d where id: "i < n" "day_after c i d1 = Some d"
      "fires_on c r tz time frm inclusive d e"
      and before: "\<And>j d' e'. j < i \<Longrightarrow> day_after c j d1 = Some d' \<Longrightarrow>
         \<not> fires_on c r tz time frm inclusive d' e'" by blast
    have "\<not> fires_on c r tz time frm inclusive d' e'"
      if "j < Suc i" "day_after c j date = Some d'" for j d' e'
      using that no before d1 by (cases j) auto
    with id d1 show ?thesis by (intro exI [of _ "Suc i"] exI [of _ d]) auto
  qed
qed

lemma calendar_scan_admissible:
  "calendar_scan n c r tz time frm inclusive date = Returns (Some e) \<Longrightarrow> admissible inclusive frm e"
  using calendar_scan_first by (fastforce simp: fires_on_def)

lemma calendar_match_admissible:
  "calendar_match c r frm inclusive = Returns (Some e) \<Longrightarrow> admissible inclusive frm e"
  by (auto simp: calendar_match_def dest: calendar_scan_admissible
      split: recurrence.splits option.splits)

lemma calendar_scan_no_panic:
  assumes "\<And>i d. i < n \<Longrightarrow> day_after c i date = Some d \<Longrightarrow> date_qualifies c r d \<noteq> Panic"
  shows "calendar_scan n c r tz time frm inclusive date \<noteq> Panic"
  using assms
proof (induction n arbitrary: date)
  case 0
  then show ?case by simp
next
  case (Suc n)
  from Suc.prems [of 0 date] obtain q where q: "date_qualifies c r date = Returns q"
    by (cases "date_qualifies c r date") auto
  have "calendar_scan n c r tz time frm inclusive d \<noteq> Panic" if "succ_opt c date = Some d" for d
  proof (rule Suc.IH)
    fix i e
    assume "i < n" "day_after c i d = Some e"
    then show "date_qualifies c r e \<noteq> Panic" using Suc.prems [of "Suc i" e] that by simp
  qed
  with q show ?case by (auto split: option.splits)
qed

section \<open>Progress\<close>

text \<open>The step a recurrence may add to an epoch second: its interval, or one day as the fallback.\<close>

fun longest_fallback :: "recurrence \<Rightarrow> int" where
  "longest_fallback (Every s) = s"
| "longest_fallback _ = 86400"

lemma next_after_calendar:
  "next_after c r t = Returns t' \<Longrightarrow> \<forall>s. r \<noteq> Every s \<Longrightarrow>
   (\<exists>m. calendar_match c r t False = Returns m \<and>
        t' = (case m of Some e \<Rightarrow> e | None \<Rightarrow> i64_add t 86400))"
  by (cases r) (auto simp: next_after_def split: outcome.splits)

lemma next_after_progress:
  assumes "validate c r = Inr ()" and "in_i64 (t + longest_fallback r)"
    and "next_after c r t = Returns t'"
  shows "t < t'"
proof (cases "\<exists>s. r = Every s")
  case True
  with assms show ?thesis by (auto simp: next_after_def split: if_splits)
next
  case False
  with assms(3) obtain m where m: "calendar_match c r t False = Returns m"
    and t': "t' = (case m of Some e \<Rightarrow> e | None \<Rightarrow> i64_add t 86400)"
    using next_after_calendar by blast
  from False have "longest_fallback r = 86400" by (cases r) auto
  with assms(2) m t' show ?thesis
    by (cases m) (auto simp: admissible_def dest: calendar_match_admissible)
qed

section \<open>A concrete calendar\<close>

text \<open>Days since 1970-01-01 to (year, month, day) and back, for every year of the calendar.\<close>

definition year_of_era :: "int \<Rightarrow> int" where
  "year_of_era doe = (doe - doe div 1460 + doe div 36524 - doe div 146096) div 365"

definition day_of_year :: "int \<Rightarrow> int" where
  "day_of_year doe =
     doe - (365 * year_of_era doe + year_of_era doe div 4 - year_of_era doe div 100)"

definition shifted_month :: "int \<Rightarrow> int" where
  "shifted_month doy = (5 * doy + 2) div 153"

definition civil_day :: "int \<Rightarrow> nat" where
  "civil_day doy = nat (doy - (153 * shifted_month doy + 2) div 5 + 1)"

definition civil_month :: "int \<Rightarrow> nat" where
  "civil_month doy = (if shifted_month doy < 10 then nat (shifted_month doy) + 3
     else nat (shifted_month doy) - 9)"

definition day_of_era :: "int \<Rightarrow> int" where
  "day_of_era z = (z + 719468) mod 146097"

definition civil_from_days :: "int \<Rightarrow> int \<times> nat \<times> nat" where
  "civil_from_days z =
     (year_of_era (day_of_era z) + (z + 719468) div 146097 * 400
        + (if civil_month (day_of_year (day_of_era z)) \<le> 2 then 1 else 0),
      civil_month (day_of_year (day_of_era z)), civil_day (day_of_year (day_of_era z)))"

definition days_before_month :: "nat \<Rightarrow> int" where
  "days_before_month m = (153 * (if m > 2 then int m - 3 else int m + 9) + 2) div 5"

definition march_year :: "int \<Rightarrow> nat \<Rightarrow> int" where
  "march_year y m = (if m \<le> 2 then y - 1 else y)"

definition days_from_civil :: "int \<Rightarrow> nat \<Rightarrow> nat \<Rightarrow> int" where
  "days_from_civil y m d =
     march_year y m div 400 * 146097
       + (march_year y m mod 400 * 365 + march_year y m mod 400 div 4
            - march_year y m mod 400 div 100 + days_before_month m + int d - 1)
       - 719468"

definition weekday_from_days :: "int \<Rightarrow> chrono_weekday" where
  "weekday_from_days z =
     [ChThu, ChFri, ChSat, ChSun, ChMon, ChTue, ChWed] ! nat (z mod 7)"

definition utc_chrono :: "(unit, int, nat, int) chrono" where
  "utc_chrono = \<lparr>
     tz_from_str = (\<lambda>s. if s = ''UTC'' then Some () else None),
     timestamp_date = (\<lambda>_ t. Some (t div 86400)),
     from_hms_opt = (\<lambda>h m s. if h < 24 \<and> m < 60 \<and> s < 60 then Some (3600 * h + 60 * m + s) else None),
     and_time = (\<lambda>d t. 86400 * d + int t),
     from_local_datetime = (\<lambda>_ n. LocalSingle n),
     checked_add_hours = (\<lambda>h n. Some (n + 3600 * h)),
     succ_opt = (\<lambda>d. Some (d + 1)),
     pred_opt = (\<lambda>d. Some (d - 1)),
     from_ymd_opt = (\<lambda>y m d. Some (days_from_civil y m d)),
     date_weekday = weekday_from_days,
     date_year = (\<lambda>d. fst (civil_from_days d)),
     date_month = (\<lambda>d. fst (snd (civil_from_days d))),
     date_day = (\<lambda>d. snd (snd (civil_from_days d)))\<rparr>"

text \<open>Rules that evaluate the scan at a concrete calendar, one day at a time.\<close>

lemma calendar_scan_numeral:
  "calendar_scan (numeral k) c r tz time frm inclusive date =
     (case date_qualifies c r date of
        Panic \<Rightarrow> Panic
      | Returns q \<Rightarrow>
          (case accepted_instant inclusive frm (if q then resolve_local c tz date time else None) of
             Some epoch \<Rightarrow> Returns (Some epoch)
           | None \<Rightarrow>
               (case succ_opt c date of
                  None \<Rightarrow> Returns None
                | Some d \<Rightarrow> calendar_scan (pred_numeral k) c r tz time frm inclusive d)))"
  by (simp add: numeral_eq_Suc)

lemma utc_chrono_fields:
  "tz_from_str utc_chrono s = (if s = ''UTC'' then Some () else None)"
  "timestamp_date utc_chrono u t = Some (t div 86400)"
  "from_hms_opt utc_chrono hh mm ss =
     (if hh < 24 \<and> mm < 60 \<and> ss < 60 then Some (3600 * hh + 60 * mm + ss) else None)"
  "and_time utc_chrono d tm = 86400 * d + int tm"
  "from_local_datetime utc_chrono u n = LocalSingle n"
  "succ_opt utc_chrono d = Some (d + 1)"
  "pred_opt utc_chrono d = Some (d - 1)"
  "from_ymd_opt utc_chrono y mo dd = Some (days_from_civil y mo dd)"
  "date_weekday utc_chrono d = weekday_from_days d"
  "date_year utc_chrono d = fst (civil_from_days d)"
  "date_month utc_chrono d = fst (snd (civil_from_days d))"
  "date_day utc_chrono d = snd (snd (civil_from_days d))"
  by (simp_all add: utc_chrono_def)

declare calendar_scan.simps(2) [simp del]

lemmas civil_defs = civil_from_days_def days_from_civil_def year_of_era_def day_of_year_def
  shifted_month_def civil_day_def civil_month_def day_of_era_def days_before_month_def
  march_year_def weekday_from_days_def

lemmas calendar_eval = calendar_match_def calendar_scan_numeral accepted_instant_def
  utc_chrono_fields resolve_local_def admissible_def clamp_day_def days_in_month_def civil_defs

section \<open>The next firing\<close>

lemma calendar_match_first:
  assumes "calendar_match c r frm inclusive = Returns (Some e)"
  shows "\<exists>tz time start i d. tz_from_str c (rec_tz r) = Some tz \<and> timestamp_date c tz frm = Some start
    \<and> from_hms_opt c (minute_of_day r div 60) (minute_of_day r mod 60) 0 = Some time
    \<and> i < 400 \<and> day_after c i start = Some d \<and> fires_on c r tz time frm inclusive d e
    \<and> (\<forall>j d' e'. j < i \<longrightarrow> day_after c j start = Some d' \<longrightarrow> \<not> fires_on c r tz time frm inclusive d' e')"
proof -
  from assms obtain tz time start where s: "tz_from_str c (rec_tz r) = Some tz"
    "from_hms_opt c (minute_of_day r div 60) (minute_of_day r mod 60) 0 = Some time"
    "timestamp_date c tz frm = Some start"
    "calendar_scan 400 c r tz time frm inclusive start = Returns (Some e)"
    by (auto simp: calendar_match_def split: recurrence.splits option.splits)
  from calendar_scan_first [OF s(4)] s(1-3) show ?thesis by blast
qed

text \<open>
  a recurrence that validates always moves forward, and a calendar recurrence fires at the
  first qualifying day: the next time is after the given one, and it is either the interval (or the
  one-day fallback) later, or the local time on the first of the 400 days from the local date of
  the given time that the recurrence names and whose instant is later.
\<close>

theorem next_firing_first:
  assumes "validate c r = Inr ()" and "in_i64 (t + longest_fallback r)"
    and "next_after c r t = Returns t'"
  shows "t < t' \<and> (t' = t + longest_fallback r \<or>
    (\<exists>tz time start i d. tz_from_str c (rec_tz r) = Some tz \<and> timestamp_date c tz t = Some start
      \<and> from_hms_opt c (minute_of_day r div 60) (minute_of_day r mod 60) 0 = Some time
      \<and> i < 400 \<and> day_after c i start = Some d \<and> fires_on c r tz time t False d t'
      \<and> (\<forall>j d' e. j < i \<longrightarrow> day_after c j start = Some d' \<longrightarrow> \<not> fires_on c r tz time t False d' e)))"
proof (cases "\<exists>s. r = Every s")
  case True
  with assms next_after_progress [OF assms] show ?thesis by (auto simp: next_after_def)
next
  case False
  with assms(3) obtain m where m: "calendar_match c r t False = Returns m"
    and t': "t' = (case m of Some e \<Rightarrow> e | None \<Rightarrow> i64_add t 86400)"
    using next_after_calendar by blast
  from False have fb: "longest_fallback r = 86400" by (cases r) auto
  show ?thesis
  proof (cases m)
    case None
    with t' fb assms(2) next_after_progress [OF assms] show ?thesis by simp
  next
    case (Some e)
    with t' m have e: "calendar_match c r t False = Returns (Some t')" by simp
    from calendar_match_first [OF e] next_after_progress [OF assms] show ?thesis by blast
  qed
qed

text \<open>From 27 February 2024, the monthly recurrence of day 31 fires on 29 February.\<close>

theorem next_firing_first_witness:
  "next_after utc_chrono (Monthly 31 540 ''UTC'') 1709000000 = Returns 1709197200 \<and> (1709000000::int) < 1709197200"
proof -
  have v: "validate utc_chrono (Monthly 31 540 ''UTC'') = Inr ()"
    by (simp add: validate_minute_of_day_def validate_tz_def utc_chrono_fields)
  have r: "in_i64 (1709000000 + longest_fallback (Monthly 31 540 ''UTC''))"
    by (simp add: in_i64_def i64_min_def i64_max_def)
  have n: "next_after utc_chrono (Monthly 31 540 ''UTC'') 1709000000 = Returns 1709197200"
    by (simp add: next_after_def calendar_eval)
  from next_firing_first [OF v r n] n show ?thesis by blast
qed

end
