(* ===== verification/Schedule_Model.thy ===== *)
theory Schedule_Model
  imports Recurrence
begin

text \<open>
  The scheduled item of \<open>crates/assistant-scheduler/src/model.rs\<close>: its lifecycle status, its
  immutable intent and revision history, its occurrences and the content-derived identifiers.
  SHA-256 (crate \<open>sha2\<close>) is the argument \<open>sha\<close>, a function from bytes to bytes.
\<close>

section \<open>Lifecycle\<close>

datatype schedule_status = Active | Paused | Cancelled | Completed

fun schedule_status_str :: "schedule_status \<Rightarrow> string" where
  "schedule_status_str Active = ''active''"
| "schedule_status_str Paused = ''paused''"
| "schedule_status_str Cancelled = ''cancelled''"
| "schedule_status_str Completed = ''completed''"

definition parse_schedule_status :: "string \<Rightarrow> schedule_status option" where
  "parse_schedule_status s =
     (if s = ''active'' then Some Active
      else if s = ''paused'' then Some Paused
      else if s = ''cancelled'' then Some Cancelled
      else if s = ''completed'' then Some Completed
      else None)"

fun schedule_is_terminal :: "schedule_status \<Rightarrow> bool" where
  "schedule_is_terminal Cancelled = True"
| "schedule_is_terminal Completed = True"
| "schedule_is_terminal _ = False"

datatype lifecycle_transition = Pause | Resume | Cancel | Complete

datatype schedule_error =
    InvalidRecurrence recurrence_defect
  | IllegalTransition schedule_status lifecycle_transition
  | Terminal schedule_status
  | JsonError

fun apply_transition :: "schedule_status \<Rightarrow> lifecycle_transition \<Rightarrow> schedule_error + schedule_status" where
  "apply_transition Active Pause = Inr Paused"
| "apply_transition Paused Resume = Inr Active"
| "apply_transition Active Cancel = Inr Cancelled"
| "apply_transition Paused Cancel = Inr Cancelled"
| "apply_transition Active Complete = Inr Completed"
| "apply_transition s t = Inl (IllegalTransition s t)"

interpretation schedule_status_text: text_enum schedule_status_str parse_schedule_status
proof
  fix x s
  show "parse_schedule_status (schedule_status_str x) = Some x"
    by (cases x) (simp_all add: parse_schedule_status_def)
  show "parse_schedule_status s = Some x \<Longrightarrow> s = schedule_status_str x"
    by (auto simp: parse_schedule_status_def split: if_splits)
qed

interpretation schedule_machine: status_machine apply_transition schedule_is_terminal
proof
  fix s v
  show "schedule_is_terminal s \<Longrightarrow> \<exists>e. apply_transition s v = Inl e"
    by (cases s; cases v) auto
  show "\<not> schedule_is_terminal s \<Longrightarrow> \<exists>v s'. apply_transition s v = Inr s'"
    by (cases s) (auto intro: exI [of _ Pause] exI [of _ Resume])
qed

section \<open>Identifiers\<close>

definition bar :: "nat list" where
  "bar = [124]"

record schedule_intent =
  created_by :: string
  summary :: string
  created_at :: int

definition item_id_preimage :: "int \<Rightarrow> schedule_intent \<Rightarrow> nat list" where
  "item_id_preimage group_id intent =
     le_bytes8 group_id @ bar @ bytes_of (created_by intent) @ bar
       @ bytes_of (summary intent) @ bar @ le_bytes8 (created_at intent)"

definition generate_scheduled_item_id ::
  "(nat list \<Rightarrow> nat list) \<Rightarrow> int \<Rightarrow> schedule_intent \<Rightarrow> string" where
  "generate_scheduled_item_id sha group_id intent =
     ''sched_'' @ hex_of (take 12 (sha (item_id_preimage group_id intent)))"

definition occurrence_key_preimage :: "string \<Rightarrow> nat \<Rightarrow> nat list" where
  "occurrence_key_preimage item_id seq = bytes_of item_id @ bar @ le_bytes8 (int seq)"

definition occurrence_idempotency_key :: "(nat list \<Rightarrow> nat list) \<Rightarrow> string \<Rightarrow> nat \<Rightarrow> string" where
  "occurrence_idempotency_key sha item_id seq =
     hex_of (take 8 (sha (occurrence_key_preimage item_id seq)))"

section \<open>Items\<close>

datatype context_policy = CurrentMemory | CapturedSnapshot string

definition default_context_policy :: context_policy where
  "default_context_policy = CurrentMemory"

record revision_entry =
  rev_number :: nat
  revised_at :: int
  revised_by :: string
  rev_process_after :: int
  rev_recurrence :: "recurrence option"
  rev_context_policy :: context_policy

record occurrence =
  occ_item_id :: string
  occ_sequence :: nat
  occ_scheduled_for :: int
  occ_idempotency_key :: string

definition new_occurrence ::
  "(nat list \<Rightarrow> nat list) \<Rightarrow> string \<Rightarrow> nat \<Rightarrow> int \<Rightarrow> occurrence" where
  "new_occurrence sha item_id seq scheduled_for =
     \<lparr>occ_item_id = item_id, occ_sequence = seq, occ_scheduled_for = scheduled_for,
      occ_idempotency_key = occurrence_idempotency_key sha item_id seq\<rparr>"

record scheduled_meta =
  scheduled_item_id :: string
  agent_group_id :: int
  intent :: schedule_intent
  process_after :: int
  item_recurrence :: "recurrence option"
  context_policy_of :: context_policy
  status :: schedule_status
  revision :: nat
  revisions :: "revision_entry list"
  occurrence_seq :: nat
  gate_command :: "string option"
  gate_onecli_agent :: "string option"
  gate_volumes :: "string list"
  gate_image :: "string option"
  run_as :: "string option"

definition check_recurrence ::
  "('tz, 'd, 't, 'n) chrono \<Rightarrow> recurrence option \<Rightarrow> schedule_error + unit" where
  "check_recurrence c rec = (case rec of
      None \<Rightarrow> Inr ()
    | Some r \<Rightarrow> map_err InvalidRecurrence (validate c r))"

definition create_meta ::
  "(nat list \<Rightarrow> nat list) \<Rightarrow> ('tz, 'd, 't, 'n) chrono \<Rightarrow> int \<Rightarrow> schedule_intent \<Rightarrow> int
   \<Rightarrow> recurrence option \<Rightarrow> context_policy \<Rightarrow> schedule_error + scheduled_meta" where
  "create_meta sha c group_id int_rec after rec policy =
     rbind (check_recurrence c rec) (\<lambda>_. Inr
       \<lparr>scheduled_item_id = generate_scheduled_item_id sha group_id int_rec,
        agent_group_id = group_id,
        intent = int_rec,
        process_after = after,
        item_recurrence = rec,
        context_policy_of = policy,
        status = Active,
        revision = 1,
        revisions = [\<lparr>rev_number = 1, revised_at = created_at int_rec,
          revised_by = created_by int_rec, rev_process_after = after,
          rev_recurrence = rec, rev_context_policy = policy\<rparr>],
        occurrence_seq = 0,
        gate_command = None, gate_onecli_agent = None, gate_volumes = [], gate_image = None,
        run_as = None\<rparr>)"

definition update_meta ::
  "('tz, 'd, 't, 'n) chrono \<Rightarrow> string \<Rightarrow> int \<Rightarrow> int \<Rightarrow> recurrence option \<Rightarrow> context_policy
   \<Rightarrow> scheduled_meta \<Rightarrow> schedule_error + scheduled_meta" where
  "update_meta c who at after rec policy m =
     (if schedule_is_terminal (status m) then Inl (Terminal (status m))
      else rbind (check_recurrence c rec) (\<lambda>_.
        let n = (revision m + 1) mod 2 ^ 32
        in Inr (m\<lparr>revision := n, process_after := after, item_recurrence := rec,
                  context_policy_of := policy,
                  revisions := revisions m @ [\<lparr>rev_number = n, revised_at = at,
                    revised_by = who, rev_process_after = after, rev_recurrence = rec,
                    rev_context_policy = policy\<rparr>]\<rparr>)))"

definition transition_meta ::
  "lifecycle_transition \<Rightarrow> scheduled_meta \<Rightarrow> schedule_error + scheduled_meta" where
  "transition_meta t m = rbind (apply_transition (status m) t) (\<lambda>s. Inr (m\<lparr>status := s\<rparr>))"

definition pending_occurrence ::
  "(nat list \<Rightarrow> nat list) \<Rightarrow> scheduled_meta \<Rightarrow> occurrence option" where
  "pending_occurrence sha m =
     (if status m \<noteq> Active then None
      else Some (new_occurrence sha (scheduled_item_id m)
                   ((occurrence_seq m + 1) mod 2 ^ 64) (process_after m)))"

definition record_fired ::
  "('tz, 'd, 't, 'n) chrono \<Rightarrow> occurrence \<Rightarrow> scheduled_meta \<Rightarrow> scheduled_meta outcome" where
  "record_fired c occ m =
     (let m1 = m\<lparr>occurrence_seq := occ_sequence occ\<rparr>
      in case item_recurrence m of
           Some r \<Rightarrow>
             (case next_after c r (occ_scheduled_for occ) of
                Panic \<Rightarrow> Panic
              | Returns t \<Rightarrow> Returns (m1\<lparr>process_after := t\<rparr>))
         | None \<Rightarrow> Returns (m1\<lparr>status := Completed\<rparr>))"

section \<open>Events\<close>

text \<open>\<open>crates/assistant-scheduler/src/event.rs\<close>; the sink is the list of recorded events.\<close>

datatype scheduler_event =
    WorkDue string nat string
  | WorkCompleted string nat
  | EvPaused string
  | EvResumed string
  | EvCancelled string

fun event_for_transition :: "lifecycle_transition \<Rightarrow> string \<Rightarrow> scheduler_event option" where
  "event_for_transition Pause i = Some (EvPaused i)"
| "event_for_transition Resume i = Some (EvResumed i)"
| "event_for_transition Cancel i = Some (EvCancelled i)"
| "event_for_transition Complete i = None"

definition record_event :: "scheduler_event \<Rightarrow> scheduler_event list \<Rightarrow> scheduler_event list" where
  "record_event e es = es @ [e]"

section \<open>Well-formed items\<close>

text \<open>
  What every operation keeps: the history is numbered from 1 (as far as \<open>u32\<close> goes), the current
  revision is that of its last entry, which also holds the recurrence and the context policy in
  force, and the recurrence in force is valid.
\<close>

definition history_numbered :: "scheduled_meta \<Rightarrow> bool" where
  "history_numbered m \<longleftrightarrow>
     revisions m \<noteq> [] \<and>
     map rev_number (revisions m) = map (\<lambda>i. i mod 2 ^ 32) [1..<Suc (length (revisions m))] \<and>
     revision m = length (revisions m) mod 2 ^ 32"

definition recurrence_valid :: "('tz, 'd, 't, 'n) chrono \<Rightarrow> scheduled_meta \<Rightarrow> bool" where
  "recurrence_valid c m \<longleftrightarrow>
     (case item_recurrence m of None \<Rightarrow> True | Some r \<Rightarrow> validate c r = Inr ())"

definition current_in_history :: "scheduled_meta \<Rightarrow> bool" where
  "current_in_history m \<longleftrightarrow>
     rev_recurrence (last (revisions m)) = item_recurrence m
     \<and> rev_context_policy (last (revisions m)) = context_policy_of m"

definition meta_wf :: "('tz, 'd, 't, 'n) chrono \<Rightarrow> scheduled_meta \<Rightarrow> bool" where
  "meta_wf c m \<longleftrightarrow> history_numbered m \<and> recurrence_valid c m \<and> current_in_history m"

lemmas meta_wf_defs = meta_wf_def history_numbered_def recurrence_valid_def current_in_history_def

lemma check_recurrence_Inr:
  "check_recurrence c rec = Inr () \<longleftrightarrow> (\<forall>r. rec = Some r \<longrightarrow> validate c r = Inr ())"
  by (auto simp: check_recurrence_def map_err_def split: option.splits sum.splits)

lemma create_meta_wf: "create_meta sha c g i after rec policy = Inr m \<Longrightarrow> meta_wf c m"
  by (auto simp: create_meta_def res_simps check_recurrence_Inr meta_wf_defs
      split: option.splits)

lemma update_meta_wf:
  assumes "update_meta c who at after rec policy m = Inr m'" and "meta_wf c m"
  shows "meta_wf c m'"
  using assms
  by (auto simp: update_meta_def res_simps check_recurrence_Inr meta_wf_defs Let_def mod_Suc_eq
      split: option.splits if_splits)

lemma transition_meta_wf: "transition_meta t m = Inr m' \<Longrightarrow> meta_wf c m \<Longrightarrow> meta_wf c m'"
  by (auto simp: transition_meta_def res_simps meta_wf_defs split: option.splits)

lemma record_fired_wf: "record_fired c occ m = Returns m' \<Longrightarrow> meta_wf c m \<Longrightarrow> meta_wf c m'"
  by (auto simp: record_fired_def Let_def meta_wf_defs split: option.splits outcome.splits)

lemmas meta_wf_intros = create_meta_wf update_meta_wf transition_meta_wf record_fired_wf

section \<open>The life of an item\<close>

inductive meta_step :: "('tz, 'd, 't, 'n) chrono \<Rightarrow> scheduled_meta \<Rightarrow> scheduled_meta \<Rightarrow> bool" for c where
  meta_update: "update_meta c who at after rec policy m = Inr m' \<Longrightarrow> meta_step c m m'"
| meta_transition: "transition_meta t m = Inr m' \<Longrightarrow> meta_step c m m'"
| meta_fired: "record_fired c occ m = Returns m' \<Longrightarrow> meta_step c m m'"

text \<open>What no step changes, and how the history grows.\<close>

definition meta_extends :: "scheduled_meta \<Rightarrow> scheduled_meta \<Rightarrow> bool" where
  "meta_extends m m' \<longleftrightarrow>
     scheduled_item_id m' = scheduled_item_id m \<and> agent_group_id m' = agent_group_id m \<and>
     intent m' = intent m \<and> take (length (revisions m)) (revisions m') = revisions m"

lemma meta_extends_trans: "meta_extends m1 m2 \<Longrightarrow> meta_extends m2 m3 \<Longrightarrow> meta_extends m1 m3"
  unfolding meta_extends_def by (metis append_eq_conv_conj append_take_drop_id append_assoc)

lemma meta_step_extends: "meta_step c m m' \<Longrightarrow> meta_extends m m'"
  by (cases rule: meta_step.cases)
    (auto simp: meta_extends_def update_meta_def transition_meta_def record_fired_def Let_def
      res_simps split: if_splits option.splits outcome.splits)

lemma meta_steps_keep:
  assumes "(meta_step c)\<^sup>*\<^sup>* m m'" and "meta_wf c m"
  shows "meta_wf c m' \<and> meta_extends m m'"
  using assms(1)
proof (induction rule: rtranclp_induct)
  case base
  with assms(2) show ?case by (simp add: meta_extends_def)
next
  case (step x y)
  from step.hyps(2) step.IH have "meta_wf c y" by cases (auto intro: meta_wf_intros)
  with step meta_step_extends meta_extends_trans show ?case by blast
qed

text \<open>
  the life of a scheduled item. From its creation on, through any edits, transitions and
  firings: its id, group and intent never change, its id is that of its intent, its history only
  grows and is numbered without gaps, the last entry is the recurrence and policy in force, and
  the recurrence in force always validates.
\<close>

theorem item_life_invariant:
  assumes "create_meta sha c g i after rec policy = Inr m0" and "(meta_step c)\<^sup>*\<^sup>* m0 m"
  shows "meta_wf c m \<and> intent m = i \<and> scheduled_item_id m = generate_scheduled_item_id sha g i
    \<and> take 1 (revisions m) = revisions m0"
proof -
  have m0: "meta_wf c m0" using assms(1) by (rule create_meta_wf)
  have "intent m0 = i \<and> scheduled_item_id m0 = generate_scheduled_item_id sha g i \<and> length (revisions m0) = 1"
    using assms(1) by (auto simp: create_meta_def res_simps)
  with meta_steps_keep [OF assms(2) m0] show ?thesis by (simp add: meta_extends_def)
qed

definition sample_intent :: schedule_intent where
  "sample_intent = \<lparr>created_by = ''ops'', summary = ''sweep'', created_at = 10\<rparr>"

theorem item_life_invariant_witness:
  "\<exists>m0 m. create_meta (\<lambda>_. []) utc_chrono 7 sample_intent 100 (Some (Every 60)) CurrentMemory = Inr m0 \<and>
     transition_meta Pause m0 = Inr m \<and> status m = Paused \<and> intent m = sample_intent \<and>
     meta_wf utc_chrono m"
proof -
  obtain m0 where m0: "create_meta (\<lambda>_. []) utc_chrono 7 sample_intent 100 (Some (Every 60)) CurrentMemory = Inr m0"
    and active: "status m0 = Active"
    by (simp add: create_meta_def check_recurrence_def)
  then obtain m where m: "transition_meta Pause m0 = Inr m" "status m = Paused"
    by (simp add: transition_meta_def)
  have "(meta_step utc_chrono)\<^sup>*\<^sup>* m0 m" using meta_transition [OF m(1)] by (rule r_into_rtranclp)
  from item_life_invariant [OF m0 this] m0 m show ?thesis by blast
qed

text \<open>
  an item that is cancelled or completed stays so: no edit and no transition of it is accepted.
\<close>

theorem terminal_item_frozen:
  assumes "schedule_is_terminal (status m)"
  shows "update_meta c who at after rec policy m = Inl (Terminal (status m))
    \<and> transition_meta t m = Inl (IllegalTransition (status m) t)
    \<and> pending_occurrence sha m = None"
  using assms
  by (cases "status m"; cases t) (auto simp: update_meta_def transition_meta_def pending_occurrence_def)

theorem terminal_item_frozen_witness:
  "\<exists>m. status m = Cancelled \<and> update_meta utc_chrono ''x'' 1 2 None CurrentMemory m = Inl (Terminal Cancelled)
     \<and> transition_meta Resume m = Inl (IllegalTransition Cancelled Resume) \<and> pending_occurrence (\<lambda>_. []) m = None"
proof -
  obtain m :: scheduled_meta where m: "status m = Cancelled"
    by (metis scheduled_meta.select_convs(7))
  then have "schedule_is_terminal (status m)" by simp
  from terminal_item_frozen [OF this, of utc_chrono "''x''" 1 2 None CurrentMemory Resume "\<lambda>_. []"] m
  show ?thesis by auto
qed

fun fire_pending ::
  "(nat list \<Rightarrow> nat list) \<Rightarrow> ('tz, 'd, 't, 'n) chrono \<Rightarrow> nat \<Rightarrow> scheduled_meta \<Rightarrow> scheduled_meta outcome" where
  "fire_pending sha c 0 m = Returns m"
| "fire_pending sha c (Suc n) m =
     (case pending_occurrence sha m of
        None \<Rightarrow> Returns m
      | Some occ \<Rightarrow>
          (case record_fired c occ m of Panic \<Rightarrow> Panic | Returns m' \<Rightarrow> fire_pending sha c n m'))"

text \<open>
  firing a recurring item advances the anchor by the recurrence from the scheduled time, not
  from the clock: \<open>n\<close> firings of an interval recurrence, each of its pending occurrence, move the
  next firing to exactly \<open>n\<close> intervals after the first, whatever the delays were.
\<close>

theorem interval_cadence_drift_free:
  assumes "status m = Active" and "item_recurrence m = Some (Every s)" and "0 < s"
    and "in_i64 (process_after m)" and "in_i64 (process_after m + int n * s)"
    and "occurrence_seq m + n < 2 ^ 64"
  shows "\<exists>m'. fire_pending sha c n m = Returns m' \<and> status m' = Active
    \<and> process_after m' = process_after m + int n * s \<and> occurrence_seq m' = occurrence_seq m + n"
  using assms
proof (induction n arbitrary: m)
  case 0
  then show ?case by simp
next
  case (Suc n)
  let ?occ = "new_occurrence sha (scheduled_item_id m) (occurrence_seq m + 1) (process_after m)"
  let ?m1 = "m\<lparr>occurrence_seq := occurrence_seq m + 1, process_after := process_after m + s\<rparr>"
  have "s \<le> int (Suc n) * s" using Suc.prems(3) by (simp add: algebra_simps)
  then have range: "in_i64 (process_after m + s)"
    using Suc.prems(3,4,5) unfolding in_i64_def by linarith
  have "pending_occurrence sha m = Some ?occ"
    using Suc.prems(1,6) by (simp add: pending_occurrence_def)
  moreover have "record_fired c ?occ m = Returns ?m1"
    using Suc.prems(2) range by (simp add: record_fired_def Let_def next_after_def new_occurrence_def)
  moreover have "\<exists>m'. fire_pending sha c n ?m1 = Returns m' \<and> status m' = Active
      \<and> process_after m' = process_after ?m1 + int n * s \<and> occurrence_seq m' = occurrence_seq ?m1 + n"
    using Suc.prems range by (intro Suc.IH) (simp_all add: algebra_simps)
  ultimately show ?case by (auto simp: algebra_simps)
qed

theorem interval_cadence_drift_free_witness:
  "\<exists>m m'. create_meta (\<lambda>_. []) utc_chrono 7 sample_intent 100 (Some (Every 60)) CurrentMemory = Inr m \<and>
     fire_pending (\<lambda>_. []) utc_chrono 3 m = Returns m' \<and> process_after m' = 280"
proof -
  obtain m where m: "create_meta (\<lambda>_. []) utc_chrono 7 sample_intent 100 (Some (Every 60)) CurrentMemory = Inr m"
    and fields: "status m = Active" "item_recurrence m = Some (Every 60)" "process_after m = 100"
      "occurrence_seq m = 0"
    by (simp add: create_meta_def check_recurrence_def)
  from interval_cadence_drift_free [OF fields(1,2), of 3 "\<lambda>_. []" utc_chrono] m fields
  show ?thesis by (auto simp: in_i64_def i64_min_def i64_max_def)
qed

section \<open>Two weak points\<close>

text \<open>
  The bytes hashed for an item id join the creator and the summary with a bar that either may
  contain, so different intents can have the same id whatever the hash.
\<close>

lemma item_id_ambiguous:
  "generate_scheduled_item_id sha g \<lparr>created_by = ''a|b'', summary = ''c'', created_at = t\<rparr>
     = generate_scheduled_item_id sha g \<lparr>created_by = ''a'', summary = ''b|c'', created_at = t\<rparr>"
  by (simp add: generate_scheduled_item_id_def item_id_preimage_def bytes_of_def bar_def)

text \<open>
  \<open>record_fired\<close> does not look at the status: a one-off that was cancelled while it ran becomes
  \<open>completed\<close>, which no transition allows.
\<close>

lemma record_fired_leaves_terminal:
  "item_recurrence m = None \<Longrightarrow> status m = Cancelled \<Longrightarrow>
   \<exists>m'. record_fired c occ m = Returns m' \<and> status m' = Completed"
  by (simp add: record_fired_def)

end
