(* ===== verification/Strings.thy ===== *)
theory Strings
  imports Prelude
begin

text \<open>
  The methods of \<open>str\<close> that the crates share: \<open>trim\<close>, \<open>lines\<close>, \<open>split\<close> by a character, \<open>strip_prefix\<close>
  and \<open>replace\<close>. A string is its UTF-8 bytes, so white space is a list of byte sequences.
\<close>

section \<open>White space\<close>

text \<open>The UTF-8 encodings of the characters with the Unicode property \<open>White_Space\<close>.\<close>

definition white_space :: "string list" where
  "white_space = map (map char_of)
     ([[9], [10], [11], [12], [13], [32], [194, 133], [194, 160], [225, 154, 128]]
      @ map (\<lambda>b. [226, 128, b]) [128, 129, 130, 131, 132, 133, 134, 135, 136, 137, 138, 168, 169, 175]
      @ [[226, 129, 159], [227, 128, 128::nat]])"

lemma white_space_code [code]: "white_space = [[CHR 0x09], [CHR 0x0A], [CHR 0x0B], [CHR 0x0C], [CHR 0x0D],
    [CHR 0x20], [CHR 0xC2, CHR 0x85], [CHR 0xC2, CHR 0xA0], [CHR 0xE1, CHR 0x9A, CHR 0x80],
    [CHR 0xE2, CHR 0x80, CHR 0x80], [CHR 0xE2, CHR 0x80, CHR 0x81], [CHR 0xE2, CHR 0x80, CHR 0x82],
    [CHR 0xE2, CHR 0x80, CHR 0x83], [CHR 0xE2, CHR 0x80, CHR 0x84], [CHR 0xE2, CHR 0x80, CHR 0x85],
    [CHR 0xE2, CHR 0x80, CHR 0x86], [CHR 0xE2, CHR 0x80, CHR 0x87], [CHR 0xE2, CHR 0x80, CHR 0x88],
    [CHR 0xE2, CHR 0x80, CHR 0x89], [CHR 0xE2, CHR 0x80, CHR 0x8A], [CHR 0xE2, CHR 0x80, CHR 0xA8],
    [CHR 0xE2, CHR 0x80, CHR 0xA9], [CHR 0xE2, CHR 0x80, CHR 0xAF], [CHR 0xE2, CHR 0x81, CHR 0x9F],
    [CHR 0xE3, CHR 0x80, CHR 0x80]]"
  by (simp add: white_space_def char_of_def bit_0)

definition strip_one :: "string list \<Rightarrow> string \<Rightarrow> string option" where
  "strip_one pats s = map_option (\<lambda>p. drop (length p) s) (find (\<lambda>p. p \<noteq> [] \<and> is_prefix p s) pats)"

lemma is_prefix_length: "is_prefix p s \<Longrightarrow> length p \<le> length s"
  by (auto simp: is_prefix_iff)

lemma strip_one_shorter: "strip_one pats s = Some r \<Longrightarrow> length r < length s"
  using is_prefix_length [of _ s] by (auto simp: strip_one_def find_Some_iff) (metis diff_less length_greater_0_conv order_less_le_trans)

function trim_with :: "string list \<Rightarrow> string \<Rightarrow> string" where
  "trim_with pats s = (case strip_one pats s of None \<Rightarrow> s | Some r \<Rightarrow> trim_with pats r)"
  by pat_completeness auto

termination
  by (relation "measure (\<lambda>(pats, s). length s)") (auto simp: strip_one_shorter)

declare trim_with.simps [simp del]

definition trim_start :: "string \<Rightarrow> string" where
  "trim_start s = trim_with white_space s"

definition trim_end :: "string \<Rightarrow> string" where
  "trim_end s = rev (trim_with (map rev white_space) (rev s))"

definition trim :: "string \<Rightarrow> string" where
  "trim s = trim_end (trim_start s)"

text \<open>\<open>trim_start_matches(c)\<close>\<close>

definition trim_char :: "char \<Rightarrow> string \<Rightarrow> string" where
  "trim_char c s = dropWhile (\<lambda>x. x = c) s"

lemma trim_with_suffix: "\<exists>p. s = p @ trim_with pats s"
proof (induction pats s rule: trim_with.induct)
  case (1 pats s)
  show ?case
  proof (cases "strip_one pats s")
    case None
    then show ?thesis by (simp add: trim_with.simps)
  next
    case (Some r)
    then obtain n where "r = drop n s" by (auto simp: strip_one_def)
    then have "s = take n s @ r" by simp
    moreover obtain p where "r = p @ trim_with pats r" using "1.IH" [OF Some] by blast
    ultimately have "s = (take n s @ p) @ trim_with pats r" by simp
    then show ?thesis using Some by (metis (no_types, lifting) option.simps(5) trim_with.simps)
  qed
qed

lemma trim_with_done: "strip_one pats (trim_with pats s) = None"
proof (induction pats s rule: trim_with.induct)
  case (1 pats s)
  then show ?case by (cases "strip_one pats s") (simp_all add: trim_with.simps [of pats s])
qed

text \<open>A text that begins and ends with printable ASCII characters is its own trim.\<close>

definition ascii_graphic :: "char \<Rightarrow> bool" where
  "ascii_graphic c \<longleftrightarrow> 33 \<le> (of_char c :: nat) \<and> (of_char c :: nat) \<le> 126"

lemma white_space_ends: "\<forall>p\<in>set white_space. p \<noteq> [] \<and> \<not> ascii_graphic (hd p) \<and> \<not> ascii_graphic (last p)"
  by (simp add: white_space_def ascii_graphic_def)

lemma strip_one_None: "strip_one pats s = None \<longleftrightarrow> (\<forall>p\<in>set pats. p \<noteq> [] \<longrightarrow> \<not> is_prefix p s)"
  by (auto simp: strip_one_def find_None_iff)

lemma trim_start_graphic: "s \<noteq> [] \<Longrightarrow> ascii_graphic (hd s) \<Longrightarrow> trim_start s = s"
proof -
  assume s: "s \<noteq> []" "ascii_graphic (hd s)"
  have "\<not> is_prefix p s" if "p \<in> set white_space" for p
    using white_space_ends that s by (cases p; cases s) auto
  then have "strip_one white_space s = None" by (auto simp: strip_one_None)
  then show ?thesis by (simp add: trim_start_def trim_with.simps)
qed

lemma trim_end_graphic: "s \<noteq> [] \<Longrightarrow> ascii_graphic (last s) \<Longrightarrow> trim_end s = s"
proof -
  assume s: "s \<noteq> []" "ascii_graphic (last s)"
  have "\<not> is_prefix (rev p) (rev s)" if "p \<in> set white_space" for p
  proof -
    have "p \<noteq> []" "\<not> ascii_graphic (hd (rev p))" using white_space_ends that by (auto simp: hd_rev)
    then show ?thesis using s by (cases "rev p"; cases "rev s") (auto simp: hd_rev [symmetric])
  qed
  then have "strip_one (map rev white_space) (rev s) = None" by (auto simp: strip_one_None)
  then show ?thesis by (simp add: trim_end_def trim_with.simps)
qed

lemma trim_graphic: "s \<noteq> [] \<Longrightarrow> ascii_graphic (hd s) \<Longrightarrow> ascii_graphic (last s) \<Longrightarrow> trim s = s"
  by (simp add: trim_def trim_start_graphic trim_end_graphic)

section \<open>Splitting\<close>

text \<open>\<open>split(c)\<close>: always at least one piece.\<close>

fun split_on :: "char \<Rightarrow> string \<Rightarrow> string list" where
  "split_on c [] = [[]]"
| "split_on c (x # xs) =
     (if x = c then [] # split_on c xs
      else (case split_on c xs of [] \<Rightarrow> [[x]] | p # ps \<Rightarrow> (x # p) # ps))"

lemma split_on_nonempty [simp]: "split_on c s \<noteq> []"
  by (cases s) (auto split: list.splits)

lemma join_split_on [simp]: "join_str [c] (split_on c s) = s"
proof (induction s)
  case (Cons x xs)
  then show ?case
    by (cases "split_on c xs"; cases "tl (split_on c xs)") (auto split: list.splits)
qed simp

lemma split_on_piece: "p \<in> set (split_on c s) \<Longrightarrow> c \<notin> set p"
  by (induction s arbitrary: p) (auto split: if_splits list.splits)

lemma split_on_no_sep: "c \<notin> set s \<Longrightarrow> split_on c s = [s]"
  by (induction s) auto

lemma split_on_append: "c \<notin> set s \<Longrightarrow> split_on c (s @ c # t) = s # split_on c t"
  by (induction s) auto

lemma split_on_join:
  "ps \<noteq> [] \<Longrightarrow> \<forall>p\<in>set ps. c \<notin> set p \<Longrightarrow> split_on c (join_str [c] ps) = ps"
proof (induction ps)
  case (Cons p ps)
  then show ?case by (cases ps) (simp_all add: split_on_no_sep split_on_append)
qed simp

text \<open>\<open>lines()\<close>: pieces ended by a line feed, each without one trailing carriage return.\<close>

definition strip_cr :: "string \<Rightarrow> string" where
  "strip_cr l = (if l \<noteq> [] \<and> last l = char_of (13::nat) then butlast l else l)"

definition str_lines :: "string \<Rightarrow> string list" where
  "str_lines s =
     (let ps = split_on (char_of (10::nat)) s
      in map strip_cr (butlast ps) @ (if last ps = [] then [] else [last ps]))"

text \<open>\<open>strip_prefix\<close>, \<open>split_once(c)\<close>, \<open>ends_with\<close> and \<open>replace\<close> (of a nonempty pattern).\<close>

definition strip_prefix :: "string \<Rightarrow> string \<Rightarrow> string option" where
  "strip_prefix p s = (if is_prefix p s then Some (drop (length p) s) else None)"

definition strip_suffix :: "string \<Rightarrow> string \<Rightarrow> string option" where
  "strip_suffix p s = (if is_prefix (rev p) (rev s) then Some (take (length s - length p) s) else None)"

fun split_once :: "char \<Rightarrow> string \<Rightarrow> (string \<times> string) option" where
  "split_once c [] = None"
| "split_once c (x # xs) =
     (if x = c then Some ([], xs) else map_option (\<lambda>(a, b). (x # a, b)) (split_once c xs))"

lemma split_once_Some: "split_once c s = Some (a, b) \<longleftrightarrow> s = a @ c # b \<and> c \<notin> set a"
proof (induction s arbitrary: a)
  case (Cons x xs)
  show ?case
  proof (cases "x = c")
    case True
    then show ?thesis by (cases a) auto
  next
    case False
    then show ?thesis using Cons.IH by (cases a) fastforce+
  qed
qed simp

lemma split_once_hit [simp]: "c \<notin> set a \<Longrightarrow> split_once c (a @ c # b) = Some (a, b)"
  by (simp add: split_once_Some)

lemma split_once_None: "split_once c s = None \<longleftrightarrow> c \<notin> set s"
  by (induction s) auto

function replace_str :: "string \<Rightarrow> string \<Rightarrow> string \<Rightarrow> string" where
  "replace_str p r [] = []"
| "replace_str p r (c # cs) =
     (if p \<noteq> [] \<and> is_prefix p (c # cs) then r @ replace_str p r (drop (length p) (c # cs))
      else c # replace_str p r cs)"
  by pat_completeness auto

termination
  by (relation "measure (\<lambda>(p, r, s). length s)") auto

lemma strip_prefix_Some: "strip_prefix p s = Some r \<longleftrightarrow> s = p @ r"
  by (auto simp: strip_prefix_def is_prefix_iff)

section \<open>Paths\<close>

text \<open>
  A path is the list of its components; \<open>Path::components\<close> of a name splits at slashes and leaves out
  empty and \<open>.\<close> parts.
\<close>

type_synonym path = "string list"

definition path_components :: "string \<Rightarrow> string list" where
  "path_components s = filter (\<lambda>p. p \<noteq> [] \<and> p \<noteq> ''.'') (split_on (CHR ''/'') s)"

definition is_absolute :: "string \<Rightarrow> bool" where
  "is_absolute s = is_prefix ''/'' s"

definition starts_with :: "path \<Rightarrow> path \<Rightarrow> bool" where
  "starts_with p base \<longleftrightarrow> take (length base) p = base"

lemma path_components_no_sep: "p \<in> set (path_components s) \<Longrightarrow> CHR ''/'' \<notin> set p"
  using split_on_piece by (auto simp: path_components_def)

lemma starts_with_iff: "starts_with p base \<longleftrightarrow> (\<exists>cs. p = base @ cs)"
  by (metis append_eq_conv_conj append_take_drop_id starts_with_def)

text \<open>\<open>Path::file_name\<close> and \<open>Path::extension\<close>.\<close>

definition file_name :: "path \<Rightarrow> string option" where
  "file_name p = (if p = [] \<or> last p = ''..'' then None else Some (last p))"

text \<open>What follows the last dot of a name that has one after its first character.\<close>

fun after_last_dot :: "string \<Rightarrow> string option" where
  "after_last_dot [] = None"
| "after_last_dot (c # cs) =
     (case after_last_dot cs of
        Some e \<Rightarrow> Some e
      | None \<Rightarrow> if c = CHR ''.'' then Some cs else None)"

definition extension :: "path \<Rightarrow> string option" where
  "extension p =
     (case file_name p of
        None \<Rightarrow> None
      | Some n \<Rightarrow> after_last_dot (tl n))"

section \<open>ASCII\<close>

definition ascii_lowercase :: "char \<Rightarrow> bool" where
  "ascii_lowercase c \<longleftrightarrow> 97 \<le> (of_char c :: nat) \<and> (of_char c :: nat) \<le> 122"

definition ascii_uppercase :: "char \<Rightarrow> bool" where
  "ascii_uppercase c \<longleftrightarrow> 65 \<le> (of_char c :: nat) \<and> (of_char c :: nat) \<le> 90"

definition to_ascii_lowercase :: "string \<Rightarrow> string" where
  "to_ascii_lowercase = map (\<lambda>c. if ascii_uppercase c then char_of ((of_char c :: nat) + 32) else c)"

section \<open>From the end\<close>

definition trim_end_char :: "char \<Rightarrow> string \<Rightarrow> string" where
  "trim_end_char c s = rev (trim_char c (rev s))"

definition rsplit_once :: "char \<Rightarrow> string \<Rightarrow> (string \<times> string) option" where
  "rsplit_once c s =
     (if c \<in> set s
      then Some (rev (tl (dropWhile (\<lambda>x. x \<noteq> c) (rev s))), rev (takeWhile (\<lambda>x. x \<noteq> c) (rev s)))
      else None)"

lemma rsplit_once_None: "rsplit_once c s = None \<longleftrightarrow> c \<notin> set s"
  by (simp add: rsplit_once_def)

lemma rsplit_once_Some: "rsplit_once c s = Some (a, b) \<Longrightarrow> s = a @ c # b \<and> c \<notin> set b"
proof -
  assume r: "rsplit_once c s = Some (a, b)"
  let ?d = "dropWhile (\<lambda>x. x \<noteq> c) (rev s)" and ?t = "takeWhile (\<lambda>x. x \<noteq> c) (rev s)"
  from r have c: "c \<in> set s" "a = rev (tl ?d)" "b = rev ?t" by (auto simp: rsplit_once_def split: if_splits)
  then have d: "?d \<noteq> []" "hd ?d = c" using hd_dropWhile [of "\<lambda>x. x \<noteq> c" "rev s"] by (auto simp: dropWhile_eq_Nil_conv)
  have "rev s = ?t @ c # tl ?d" using d by (metis list.collapse takeWhile_dropWhile_id)
  then have "s = a @ c # b" using c by (metis append.assoc append_Cons append_Nil rev.simps(2) rev_append rev_rev_ident)
  moreover have "c \<notin> set b" using c(3) set_takeWhileD by fastforce
  ultimately show ?thesis by blast
qed

lemma rsplit_once_hit: "c \<notin> set b \<Longrightarrow> rsplit_once c (a @ c # b) = Some (a, b)"
proof -
  assume b: "c \<notin> set b"
  have "takeWhile (\<lambda>x. x \<noteq> c) (rev b @ c # rev a) = rev b" "dropWhile (\<lambda>x. x \<noteq> c) (rev b @ c # rev a) = c # rev a"
    using b by (subst takeWhile_append2 dropWhile_append2; auto)+
  then show ?thesis by (simp add: rsplit_once_def)
qed

end
