(* ===== verification/Session_Files.thy ===== *)
theory Session_Files
  imports Interfaces Strings
begin

text \<open>
  The per-session folder and its lazily migrated databases: \<open>layout.rs\<close>, \<open>attachment.rs\<close>,
  \<open>error.rs\<close>, \<open>migrate.rs\<close> and \<open>schema.rs\<close> of \<open>crates/assistant-session\<close>. A path is the list of
  its components. Executing a migration's SQL on the tables of a database is the argument \<open>exec\<close>,
  SHA-256 the argument \<open>sha\<close>.
\<close>

section \<open>Errors and kinds\<close>

datatype db_kind = Inbound | Outbound

fun db_kind_str :: "db_kind \<Rightarrow> string" where
  "db_kind_str Inbound = ''inbound''"
| "db_kind_str Outbound = ''outbound''"

fun db_file_name :: "db_kind \<Rightarrow> string" where
  "db_file_name Inbound = ''inbound.db''"
| "db_file_name Outbound = ''outbound.db''"

datatype session_error =
    SessionSqlite
  | SessionJson
  | SessionIo
  | InvalidId string
  | SessionChecksumMismatch db_kind nat string string
  | BadMigrationSequence db_kind nat
  | UnsupportedSchemaVersion db_kind nat nat nat
  | SequenceParity db_kind int
  | ContainerAlive
  | SessionLocked
  | AttachmentEscape string

section \<open>Layout\<close>

definition ascii_alnum :: "char \<Rightarrow> bool" where
  "ascii_alnum c \<longleftrightarrow>
     (let n = (of_char c :: nat) in (48 \<le> n \<and> n \<le> 57) \<or> (65 \<le> n \<and> n \<le> 90) \<or> (97 \<le> n \<and> n \<le> 122))"

definition id_char :: "char \<Rightarrow> bool" where
  "id_char c \<longleftrightarrow> ascii_alnum c \<or> c = CHR ''-'' \<or> c = CHR ''_''"

definition validate_id :: "string \<Rightarrow> session_error + unit" where
  "validate_id s = (if s \<noteq> [] \<and> list_all id_char s then Inr () else Inl (InvalidId s))"

definition derive_layout :: "path \<Rightarrow> string \<Rightarrow> string \<Rightarrow> session_error + path" where
  "derive_layout root group_id session_id =
     rbind (validate_id group_id) (\<lambda>_. rbind (validate_id session_id) (\<lambda>_.
       Inr (root @ [group_id] @ [session_id])))"

definition db_path :: "path \<Rightarrow> db_kind \<Rightarrow> path" where
  "db_path dir k = dir @ [db_file_name k]"

definition heartbeat_path :: "path \<Rightarrow> path" where
  "heartbeat_path dir = dir @ [''.heartbeat'']"

definition lock_path :: "path \<Rightarrow> path" where
  "lock_path dir = dir @ [''.recovery.lock'']"

definition inbox_dir :: "path \<Rightarrow> path" where
  "inbox_dir dir = dir @ [''inbox'']"

definition outbox_dir :: "path \<Rightarrow> path" where
  "outbox_dir dir = dir @ [''outbox'']"

definition inbox_message_dir :: "path \<Rightarrow> string \<Rightarrow> session_error + path" where
  "inbox_message_dir dir msg = rbind (validate_id msg) (\<lambda>_. Inr (inbox_dir dir @ [msg]))"

definition outbox_message_dir :: "path \<Rightarrow> string \<Rightarrow> session_error + path" where
  "outbox_message_dir dir msg = rbind (validate_id msg) (\<lambda>_. Inr (outbox_dir dir @ [msg]))"

definition managed_dirs :: "path \<Rightarrow> path list" where
  "managed_dirs dir = [dir, inbox_dir dir, outbox_dir dir]"

text \<open>A component that a path lookup cannot use to leave its directory.\<close>

definition plain_component :: "string \<Rightarrow> bool" where
  "plain_component s \<longleftrightarrow> s \<noteq> [] \<and> s \<noteq> ''.'' \<and> s \<noteq> ''..'' \<and> CHR ''/'' \<notin> set s"

lemma id_char_plain: "id_char c \<Longrightarrow> c \<noteq> CHR ''.'' \<and> c \<noteq> CHR ''/''"
  by (auto simp: id_char_def ascii_alnum_def)

lemma not_id_char [simp]: "\<not> id_char (CHR ''.'')" "\<not> id_char (CHR ''/'')"
  using id_char_plain by blast+

lemma validate_id_plain: "validate_id s = Inr () \<Longrightarrow> plain_component s"
  by (auto simp: validate_id_def plain_component_def list_all_iff split: if_splits)

lemma derive_layout_Inr:
  "derive_layout root g s = Inr dir \<longleftrightarrow>
     validate_id g = Inr () \<and> validate_id s = Inr () \<and> dir = root @ [g, s]"
  by (auto simp: derive_layout_def res_simps)

section \<open>Attachment names\<close>

definition safe_attachment_path :: "path \<Rightarrow> string \<Rightarrow> session_error + path" where
  "safe_attachment_path base candidate =
     (if candidate = [] \<or> is_absolute candidate \<or> list_ex (\<lambda>p. p = ''..'') (path_components candidate)
      then Inl (AttachmentEscape candidate)
      else let joined = base @ path_components candidate
           in if starts_with joined base then Inr joined else Inl (AttachmentEscape candidate))"

lemma safe_attachment_path_plain:
  "safe_attachment_path base s = Inr p \<Longrightarrow> \<exists>cs. p = base @ cs \<and> list_all plain_component cs"
  using path_components_no_sep
  by (fastforce simp: safe_attachment_path_def Let_def list_ex_iff list_all_iff plain_component_def
      path_components_def split: if_splits)

section \<open>Migrations\<close>

definition protocol_version :: nat where
  "protocol_version = 1"

record session_migration =
  sm_kind :: db_kind
  sm_version :: nat
  sm_name :: string
  sm_sql :: string

definition sm_checksum :: "(nat list \<Rightarrow> nat list) \<Rightarrow> session_migration \<Rightarrow> string" where
  "sm_checksum sha m = hex_of (sha (bytes_of (sm_name m) @ [0] @ bytes_of (sm_sql m)))"

record schema_compat =
  compat_min :: nat
  compat_max :: nat

definition exact_compat :: "nat \<Rightarrow> schema_compat" where
  "exact_compat v = \<lparr>compat_min = v, compat_max = v\<rparr>"

definition supports :: "schema_compat \<Rightarrow> nat \<Rightarrow> bool" where
  "supports c v \<longleftrightarrow> compat_min c \<le> v \<and> v \<le> compat_max c"

text \<open>
  A session database: its \<open>schema_meta\<close> table (\<open>None\<close> until the bookkeeping tables exist) with its one row,
  if it was inserted yet, its \<open>schema_migrations\<close> rows (version, name, checksum) and the session's own tables.
\<close>

record schema_meta =
  meta_kind :: string
  meta_version :: nat
  meta_protocol :: nat

record 't session_db =
  meta_table :: "schema_meta option option"
  migration_rows :: "(nat \<times> string \<times> string) list"
  rows :: 't

definition ensure_meta :: "db_kind \<Rightarrow> 't session_db \<Rightarrow> 't session_db" where
  "ensure_meta kind db =
     (case meta_table db of
        Some (Some _) \<Rightarrow> db
      | _ \<Rightarrow> db\<lparr>meta_table := Some (Some \<lparr>meta_kind = db_kind_str kind, meta_version = 0,
          meta_protocol = protocol_version\<rparr>)\<rparr>)"

definition schema_version :: "'t session_db \<Rightarrow> session_error + nat" where
  "schema_version db =
     (case meta_table db of
        None \<Rightarrow> Inl SessionSqlite
      | Some row \<Rightarrow> Inr (case row of None \<Rightarrow> 0 | Some m \<Rightarrow> meta_version m))"

definition check_runner_compatibility ::
  "db_kind \<Rightarrow> nat \<Rightarrow> schema_compat \<Rightarrow> session_error + unit" where
  "check_runner_compatibility kind found c =
     (if supports c found then Inr ()
      else Inl (UnsupportedSchemaVersion kind found (compat_min c) (compat_max c)))"

fun check_sequence :: "db_kind \<Rightarrow> nat \<Rightarrow> session_migration list \<Rightarrow> session_error + unit" where
  "check_sequence kind expected [] = Inr ()"
| "check_sequence kind expected (m # ms) =
     (if sm_kind m \<noteq> kind \<or> sm_version m \<noteq> expected
      then Inl (BadMigrationSequence kind (sm_version m))
      else check_sequence kind (expected + 1) ms)"

definition session_recorded :: "'t session_db \<Rightarrow> nat \<Rightarrow> string option" where
  "session_recorded db v =
     map_option (\<lambda>r. snd (snd r)) (query_row (\<lambda>r. fst r = v) (migration_rows db))"

definition session_apply1 ::
  "(nat list \<Rightarrow> nat list) \<Rightarrow> (string \<Rightarrow> 't \<Rightarrow> 't option) \<Rightarrow> session_migration \<Rightarrow> 't session_db
   \<Rightarrow> 't session_db option" where
  "session_apply1 sha exec m db =
     (case exec (sm_sql m) (rows db) of
        None \<Rightarrow> None
      | Some t \<Rightarrow> Some (db\<lparr>rows := t,
          migration_rows := migration_rows db @ [(sm_version m, sm_name m, sm_checksum sha m)]\<rparr>))"

fun migrate_loop ::
  "(nat list \<Rightarrow> nat list) \<Rightarrow> (string \<Rightarrow> 't \<Rightarrow> 't option) \<Rightarrow> db_kind \<Rightarrow> nat list \<Rightarrow> 't session_db
   \<Rightarrow> session_migration list \<Rightarrow> 't session_db \<times> (session_error + nat list)" where
  "migrate_loop sha exec kind done db [] = (db, Inr done)"
| "migrate_loop sha exec kind done db (m # ms) =
     (case session_recorded db (sm_version m) of
        Some c \<Rightarrow>
          if c \<noteq> sm_checksum sha m
          then (db, Inl (SessionChecksumMismatch kind (sm_version m) c (sm_checksum sha m)))
          else migrate_loop sha exec kind done db ms
      | None \<Rightarrow>
          (case session_apply1 sha exec m db of
             None \<Rightarrow> (db, Inl SessionSqlite)
           | Some db' \<Rightarrow> migrate_loop sha exec kind (done @ [sm_version m]) db' ms))"

definition target_version :: "session_migration list \<Rightarrow> nat" where
  "target_version ms = (if ms = [] then 0 else sm_version (last ms))"

definition set_schema_version :: "nat \<Rightarrow> 't session_db \<Rightarrow> 't session_db" where
  "set_schema_version v db = db\<lparr>meta_table := map_option (map_option (meta_version_update (\<lambda>_. v))) (meta_table db)\<rparr>"

definition lazy_migrate ::
  "(nat list \<Rightarrow> nat list) \<Rightarrow> (string \<Rightarrow> 't \<Rightarrow> 't option) \<Rightarrow> db_kind \<Rightarrow> session_migration list
   \<Rightarrow> 't session_db \<Rightarrow> 't session_db \<times> (session_error + nat list)" where
  "lazy_migrate sha exec kind ms db =
     (let db0 = ensure_meta kind db
      in case check_sequence kind 1 ms of
           Inl e \<Rightarrow> (db0, Inl e)
         | Inr _ \<Rightarrow>
             (case migrate_loop sha exec kind [] db0 ms of
                (db1, Inl e) \<Rightarrow> (db1, Inl e)
              | (db1, Inr done) \<Rightarrow> (set_schema_version (target_version ms) db1, Inr done)))"

section \<open>The shipped schema\<close>

definition current_inbound_version :: nat where "current_inbound_version = 5"
definition current_outbound_version :: nat where "current_outbound_version = 3"

definition inbound_v1_sql :: string where
  "inbound_v1_sql =
     join_str [CHR 0x0A]
     [''CREATE TABLE messages_in ('',
      ''    seq        INTEGER PRIMARY KEY,'',
      ''    sender     TEXT    NOT NULL,'',
      ''    content    TEXT    NOT NULL,'',
      ''    metadata   TEXT,'',
      ''    created_at TEXT    NOT NULL'',
      '');'',
      ''CREATE TABLE delivered ('',
      ''    seq          INTEGER PRIMARY KEY,'',
      ''    delivered_at TEXT    NOT NULL'',
      '');'',
      ''CREATE TABLE destinations ('',
      ''    destination_id TEXT PRIMARY KEY,'',
      ''    kind           TEXT NOT NULL,'',
      ''    display_name   TEXT,'',
      ''    updated_at     TEXT NOT NULL'',
      '');'',
      ''CREATE TABLE session_routing ('',
      ''    key        TEXT PRIMARY KEY,'',
      ''    value      TEXT NOT NULL,'',
      ''    updated_at TEXT NOT NULL'',
      '');'']"

definition inbound_v2_sql :: string where
  "inbound_v2_sql = ''ALTER TABLE messages_in ADD COLUMN edited_at TEXT;''"

definition inbound_v3_sql :: string where
  "inbound_v3_sql =
     join_str [CHR 0x0A]
     [''ALTER TABLE messages_in ADD COLUMN idempotency_key TEXT;'',
      ''CREATE UNIQUE INDEX idx_messages_in_idempotency_key ON messages_in (idempotency_key);'']"

definition inbound_v4_sql :: string where
  "inbound_v4_sql = ''ALTER TABLE messages_in ADD COLUMN thread_id TEXT;''"

definition inbound_v5_sql :: string where
  "inbound_v5_sql = ''ALTER TABLE messages_in ADD COLUMN source_session_id TEXT;''"

definition outbound_v1_sql :: string where
  "outbound_v1_sql =
     join_str [CHR 0x0A]
     [''CREATE TABLE messages_out ('',
      ''    seq        INTEGER PRIMARY KEY,'',
      ''    kind       TEXT    NOT NULL,'',
      ''    content    TEXT    NOT NULL,'',
      ''    metadata   TEXT,'',
      ''    created_at TEXT    NOT NULL'',
      '');'',
      ''CREATE TABLE processing_ack ('',
      ''    in_seq     INTEGER PRIMARY KEY,'',
      ''    claimed_by TEXT    NOT NULL,'',
      ''    claimed_at TEXT    NOT NULL'',
      '');'',
      ''CREATE TABLE session_state ('',
      ''    key        TEXT PRIMARY KEY,'',
      ''    value      TEXT NOT NULL,'',
      ''    updated_at TEXT NOT NULL'',
      '');'',
      ''CREATE TABLE container_state ('',
      ''    id         INTEGER PRIMARY KEY CHECK (id = 1),'',
      ''    status     TEXT    NOT NULL,'',
      ''    run_id     TEXT,'',
      ''    updated_at TEXT    NOT NULL'',
      '');'']"

definition outbound_v2_sql :: string where
  "outbound_v2_sql = ''ALTER TABLE messages_out ADD COLUMN edited_at TEXT;''"

definition outbound_v3_sql :: string where
  "outbound_v3_sql = ''ALTER TABLE messages_out ADD COLUMN in_seq INTEGER;''"

definition session_migration_of :: "db_kind \<Rightarrow> nat \<Rightarrow> string \<Rightarrow> string \<Rightarrow> session_migration" where
  "session_migration_of k v name sql = \<lparr>sm_kind = k, sm_version = v, sm_name = name, sm_sql = sql\<rparr>"

definition inbound_migrations :: "session_migration list" where
  "inbound_migrations =
     [session_migration_of Inbound 1 ''inbound_base'' inbound_v1_sql,
      session_migration_of Inbound 2 ''inbound_message_edited_at'' inbound_v2_sql,
      session_migration_of Inbound 3 ''inbound_message_idempotency_key'' inbound_v3_sql,
      session_migration_of Inbound 4 ''inbound_message_thread_id'' inbound_v4_sql,
      session_migration_of Inbound 5 ''inbound_message_source_session_id'' inbound_v5_sql]"

definition outbound_migrations :: "session_migration list" where
  "outbound_migrations =
     [session_migration_of Outbound 1 ''outbound_base'' outbound_v1_sql,
      session_migration_of Outbound 2 ''outbound_message_edited_at'' outbound_v2_sql,
      session_migration_of Outbound 3 ''outbound_message_in_seq'' outbound_v3_sql]"

fun migrations_for :: "db_kind \<Rightarrow> session_migration list" where
  "migrations_for Inbound = inbound_migrations"
| "migrations_for Outbound = outbound_migrations"

definition current_inbound_compat :: schema_compat where
  "current_inbound_compat = exact_compat current_inbound_version"

definition current_outbound_compat :: schema_compat where
  "current_outbound_compat = exact_compat current_outbound_version"

section \<open>Lemmas\<close>

lemma check_sequence_Inr:
  "check_sequence kind n ms = Inr () \<longleftrightarrow>
     map sm_version ms = [n..<n + length ms] \<and> (\<forall>m\<in>set ms. sm_kind m = kind)"
proof (induction ms arbitrary: n)
  case Nil
  then show ?case by simp
next
  case (Cons m ms)
  have "[n..<n + length (m # ms)] = n # [Suc n..<Suc n + length ms]" by (simp add: upt_rec)
  with Cons.IH [of "Suc n"] show ?case by (auto simp del: upt_Suc)
qed

lemma check_sequence_shipped: "check_sequence k 1 (migrations_for k) = Inr ()"
  by (cases k) (simp_all add: inbound_migrations_def outbound_migrations_def session_migration_of_def)

lemma check_sequence_last:
  "check_sequence kind n ms = Inr () \<Longrightarrow> ms \<noteq> [] \<Longrightarrow> sm_version (last ms) + 1 = n + length ms"
proof (induction ms arbitrary: n)
  case Nil
  then show ?case by simp
next
  case (Cons m ms)
  show ?case
  proof (cases "ms = []")
    case False
    have "check_sequence kind (n + 1) ms = Inr ()" and n: "sm_version m = n"
      using Cons.prems(1) by (auto split: if_splits)
    with Cons.IH [of "n + 1"] False show ?thesis by simp
  qed (use Cons.prems in \<open>simp split: if_splits\<close>)
qed

lemma target_version_sequence: "check_sequence kind 1 ms = Inr () \<Longrightarrow> target_version ms = length ms"
  using check_sequence_last [of kind 1 ms] by (simp add: target_version_def split: if_splits)

definition session_run_of ::
  "(nat list \<Rightarrow> nat list) \<Rightarrow> (string \<Rightarrow> 't \<Rightarrow> 't option) \<Rightarrow> db_kind \<Rightarrow> 't session_db
   \<Rightarrow> session_migration list \<Rightarrow> 't session_db \<times> bool" where
  "session_run_of sha exec kind db ms =
     (case migrate_loop sha exec kind [] db ms of (db', r) \<Rightarrow> (db', is_ok r))"

lemma migrate_loop_done:
  "migrate_loop sha exec kind (xs @ ys) db ms =
     map_prod id (map_sum id ((@) xs)) (migrate_loop sha exec kind ys db ms)"
  by (induction ms arbitrary: ys db) (auto split: option.splits)

lemma is_ok_map_sum_id [simp]: "is_ok (map_sum id f r) = is_ok r"
  by (cases r) auto

lemma session_run_of_conv:
  "(case migrate_loop sha exec kind done db ms of (db', r) \<Rightarrow> (db', is_ok r))
     = session_run_of sha exec kind db ms"
  using migrate_loop_done [of sha exec kind "done" "[]" db ms]
  by (simp add: session_run_of_def split: prod.splits)

interpretation session_run: migration_run "session_run_of sha exec kind" "session_apply1 sha exec"
  session_recorded sm_version "sm_checksum sha"
  for sha kind and exec :: "string \<Rightarrow> 't \<Rightarrow> 't option"
proof
  fix db :: "'t session_db" and m ms c db' k
  show "session_run_of sha exec kind db [] = (db, True)"
    by (simp add: session_run_of_def)
  show "session_recorded db (sm_version m) = Some c \<Longrightarrow> c \<noteq> sm_checksum sha m \<Longrightarrow>
      session_run_of sha exec kind db (m # ms) = (db, False)"
    by (simp add: session_run_of_def)
  show "session_recorded db (sm_version m) = Some (sm_checksum sha m) \<Longrightarrow>
      session_run_of sha exec kind db (m # ms) = session_run_of sha exec kind db ms"
    by (simp add: session_run_of_def)
  show "session_recorded db (sm_version m) = None \<Longrightarrow> session_apply1 sha exec m db = Some db' \<Longrightarrow>
      session_run_of sha exec kind db (m # ms) = session_run_of sha exec kind db' ms"
    by (simp add: session_run_of_def [of sha exec kind db "m # ms"] session_run_of_conv)
  show "session_recorded db (sm_version m) = None \<Longrightarrow> session_apply1 sha exec m db = None \<Longrightarrow>
      session_run_of sha exec kind db (m # ms) = (db, False)"
    by (simp add: session_run_of_def)
  show "session_apply1 sha exec m db = Some db' \<Longrightarrow> session_recorded db (sm_version m) = None \<Longrightarrow>
      session_recorded db' k
        = (if k = sm_version m then Some (sm_checksum sha m) else session_recorded db k)"
    by (auto simp: session_apply1_def session_recorded_def query_row_append split: option.splits)
qed

lemma session_recorded_meta [simp]:
  "session_recorded (ensure_meta kind db) v = session_recorded db v"
  "session_recorded (set_schema_version n db) v = session_recorded db v"
  by (simp_all add: ensure_meta_def session_recorded_def set_schema_version_def split: option.splits)

lemma ensure_meta_id: "meta_table db = Some (Some m) \<Longrightarrow> ensure_meta kind db = db"
  by (simp add: ensure_meta_def)

lemma ensure_meta_Some: "\<exists>m. meta_table (ensure_meta kind db) = Some (Some m)"
  by (auto simp: ensure_meta_def split: option.splits)

lemma migrate_loop_meta:
  "migrate_loop sha exec kind done db ms = (db', r) \<Longrightarrow> meta_table db' = meta_table db"
  by (induction ms arbitrary: "done" db)
    (auto simp: session_apply1_def split: option.splits if_splits)

lemma lazy_migrate_Inr:
  assumes "lazy_migrate sha exec kind ms db = (db', Inr done)"
  obtains db1 where "check_sequence kind 1 ms = Inr ()"
    and "migrate_loop sha exec kind [] (ensure_meta kind db) ms = (db1, Inr done)"
    and "db' = set_schema_version (target_version ms) db1"
  using assms by (auto simp: lazy_migrate_def Let_def split: sum.splits prod.splits)

lemma migrate_loop_recorded_noop:
  assumes "\<forall>m\<in>set ms. session_recorded db (sm_version m) = Some (sm_checksum sha m)"
  shows "migrate_loop sha exec kind done db ms = (db, Inr done)"
  using assms by (induction ms) auto

lemma lazy_migrate_recorded:
  assumes "lazy_migrate sha exec kind ms db = (db', Inr done)" and "m \<in> set ms"
  shows "session_recorded db' (sm_version m) = Some (sm_checksum sha m)"
proof -
  obtain db1 where loop: "migrate_loop sha exec kind [] (ensure_meta kind db) ms = (db1, Inr done)"
    and db': "db' = set_schema_version (target_version ms) db1"
    using assms(1) by (rule lazy_migrate_Inr)
  from loop have "session_run_of sha exec kind (ensure_meta kind db) ms = (db1, True)"
    by (simp add: session_run_of_def)
  with session_run.run_ok_recorded [of sha exec kind "ensure_meta kind db" ms m] assms(2) db'
  show ?thesis by simp
qed

lemma lazy_migrate_version:
  assumes "lazy_migrate sha exec kind ms db = (db', Inr done)"
  shows "schema_version db' = Inr (length ms)"
proof -
  obtain db1 where seq: "check_sequence kind 1 ms = Inr ()"
    and loop: "migrate_loop sha exec kind [] (ensure_meta kind db) ms = (db1, Inr done)"
    and db': "db' = set_schema_version (target_version ms) db1"
    using assms by (rule lazy_migrate_Inr)
  from migrate_loop_meta [OF loop] ensure_meta_Some [of kind db] obtain mr
    where "meta_table db1 = Some (Some mr)" by auto
  with db' target_version_sequence [OF seq] show ?thesis
    by (simp add: schema_version_def set_schema_version_def)
qed

text \<open>
  A database is up to date with a list of migrations when each is recorded with its checksum and
  the recorded version is that of the last. Opening it again changes nothing.
\<close>

definition up_to_date :: "(nat list \<Rightarrow> nat list) \<Rightarrow> session_migration list \<Rightarrow> 't session_db \<Rightarrow> bool" where
  "up_to_date sha ms db \<longleftrightarrow>
     (\<exists>m. meta_table db = Some (Some m) \<and> meta_version m = target_version ms) \<and>
     (\<forall>m\<in>set ms. session_recorded db (sm_version m) = Some (sm_checksum sha m))"

lemma up_to_date_rows [simp]: "up_to_date sha ms (db\<lparr>rows := t\<rparr>) = up_to_date sha ms db"
  by (simp add: up_to_date_def session_recorded_def)

lemma lazy_migrate_up_to_date:
  assumes "lazy_migrate sha exec kind ms db = (db', Inr done)"
  shows "up_to_date sha ms db'"
proof -
  obtain db1 where loop: "migrate_loop sha exec kind [] (ensure_meta kind db) ms = (db1, Inr done)"
    and db': "db' = set_schema_version (target_version ms) db1"
    using assms by (rule lazy_migrate_Inr)
  from migrate_loop_meta [OF loop] ensure_meta_Some [of kind db]
  have "\<exists>m. meta_table db' = Some (Some m) \<and> meta_version m = target_version ms"
    by (auto simp: db' set_schema_version_def)
  with lazy_migrate_recorded [OF assms] show ?thesis by (simp add: up_to_date_def)
qed

lemma up_to_date_noop:
  assumes "check_sequence kind 1 ms = Inr ()" and "up_to_date sha ms db"
  shows "lazy_migrate sha exec kind ms db = (db, Inr [])"
proof -
  from assms(2) obtain mr where mr: "meta_table db = Some (Some mr)" "meta_version mr = target_version ms"
    by (auto simp: up_to_date_def)
  then have "set_schema_version (target_version ms) db = db"
    by (simp add: set_schema_version_def)
  with assms mr migrate_loop_recorded_noop [of ms db sha] show ?thesis
    by (simp add: lazy_migrate_def up_to_date_def ensure_meta_id Let_def)
qed

lemma lazy_migrate_again:
  assumes "lazy_migrate sha exec kind ms db = (db', Inr done)"
  shows "lazy_migrate sha exec kind ms db' = (db', Inr [])"
proof (rule up_to_date_noop)
  show "check_sequence kind 1 ms = Inr ()" using assms by (rule lazy_migrate_Inr)
  show "up_to_date sha ms db'" using assms by (rule lazy_migrate_up_to_date)
qed

text \<open>Migrations that only add tables and columns leave the rows as they are.\<close>

definition additive :: "(string \<Rightarrow> 't \<Rightarrow> 't option) \<Rightarrow> bool" where
  "additive exec \<longleftrightarrow> (\<forall>sql t t'. exec sql t = Some t' \<longrightarrow> t' = t)"

lemma migrate_loop_rows:
  assumes "additive exec" and "migrate_loop sha exec kind done db ms = (db', r)"
  shows "rows db' = rows db"
  using assms(2)
proof (induction ms arbitrary: "done" db)
  case Nil
  then show ?case by simp
next
  case (Cons m ms)
  show ?case
  proof (cases "session_recorded db (sm_version m)")
    case None
    with Cons.prems Cons.IH assms(1) show ?thesis
      by (fastforce simp: session_apply1_def additive_def split: option.splits)
  next
    case (Some c)
    with Cons show ?thesis by (auto split: if_splits)
  qed
qed

lemma rows_ensure_meta [simp]: "rows (ensure_meta kind db) = rows db"
  by (simp add: ensure_meta_def split: option.splits)

lemma lazy_migrate_rows:
  "additive exec \<Longrightarrow> lazy_migrate sha exec kind ms db = (db', r) \<Longrightarrow> rows db' = rows db"
  by (auto simp: lazy_migrate_def Let_def set_schema_version_def dest: migrate_loop_rows
      split: sum.splits prod.splits)

section \<open>Properties\<close>

text \<open>
  an agent cannot name an attachment outside its folder: an accepted name resolves to the base
  folder followed by plain components, and exactly the empty, the absolute and those names with a
  parent component are refused.
\<close>

theorem attachment_confined:
  "(case safe_attachment_path base candidate of
      Inr p \<Rightarrow> \<exists>cs. p = base @ cs \<and> list_all plain_component cs
    | Inl e \<Rightarrow> e = AttachmentEscape candidate \<and>
        (candidate = [] \<or> is_absolute candidate \<or> ''..'' \<in> set (path_components candidate)))"
proof (cases "safe_attachment_path base candidate")
  case (Inl e)
  then show ?thesis
    by (auto simp: safe_attachment_path_def Let_def list_ex_iff starts_with_def split: if_splits)
next
  case (Inr p)
  with safe_attachment_path_plain [OF Inr] show ?thesis by simp
qed

text \<open>
  Two sessions never share a folder: a group id and a session id are accepted only when they
  are plain components, and different pairs give different folders, none inside another.
\<close>

theorem session_folders_disjoint:
  assumes "derive_layout root g s = Inr dir" and "derive_layout root g' s' = Inr dir'"
  shows "list_all plain_component [g, s] \<and> (starts_with dir' dir \<longrightarrow> g = g' \<and> s = s')"
  using assms by (auto simp: derive_layout_Inr validate_id_plain starts_with_def)

theorem session_folders_disjoint_witness:
  "derive_layout [''srv''] ''g1'' ''s-1'' = Inr [''srv'', ''g1'', ''s-1''] \<and>
   \<not> starts_with [''srv'', ''g1'', ''s_2''] [''srv'', ''g1'', ''s-1'']"
proof -
  have a: "derive_layout [''srv''] ''g1'' ''s-1'' = Inr [''srv'', ''g1'', ''s-1'']"
    and b: "derive_layout [''srv''] ''g1'' ''s_2'' = Inr [''srv'', ''g1'', ''s_2'']"
    by (simp_all add: derive_layout_def validate_id_def id_char_def ascii_alnum_def Let_def)
  from session_folders_disjoint [OF a b] a show ?thesis by auto
qed

text \<open>
  Opening a session database migrates it once: after a successful run its recorded version is
  the number of migrations, each of them is recorded under its checksum, the rows are as they were
  when DDL only adds, and the next run applies nothing and changes nothing.
\<close>

theorem session_migration_settles:
  assumes "additive exec" and "lazy_migrate sha exec kind ms db = (db', Inr done)"
  shows "schema_version db' = Inr (length ms) \<and> rows db' = rows db
    \<and> (\<forall>m\<in>set ms. session_recorded db' (sm_version m) = Some (sm_checksum sha m))
    \<and> lazy_migrate sha exec kind ms db' = (db', Inr [])"
  using lazy_migrate_version [OF assms(2)] lazy_migrate_rows [OF assms]
    lazy_migrate_recorded [OF assms(2)] lazy_migrate_again [OF assms(2)] by blast

theorem session_migration_settles_witness:
  "\<exists>db'. lazy_migrate (\<lambda>_. []) (\<lambda>_ t. Some t) Outbound outbound_migrations
       \<lparr>meta_table = None, migration_rows = [], rows = (0::nat)\<rparr> = (db', Inr [1, 2, 3]) \<and>
     schema_version db' = Inr 3 \<and>
     lazy_migrate (\<lambda>_. []) (\<lambda>_ t. Some t) Outbound outbound_migrations db' = (db', Inr [])"
proof -
  let ?run = "lazy_migrate (\<lambda>_. []) (\<lambda>_ t. Some t) Outbound outbound_migrations
       \<lparr>meta_table = None, migration_rows = [], rows = (0::nat)\<rparr>"
  have run: "?run = (fst ?run, Inr [1, 2, 3])"
    by (simp add: lazy_migrate_def ensure_meta_def outbound_migrations_def session_migration_of_def
        session_recorded_def session_apply1_def sm_checksum_def hex_of_def)
  have "additive (\<lambda>_ t. Some (t::nat))" by (simp add: additive_def)
  from session_migration_settles [OF this run] run show ?thesis
    by (auto simp: outbound_migrations_def)
qed

text \<open>
  The recorded version can also go down: a build that ships fewer migrations than the database has
  recorded sets the version to its own number.
\<close>

lemma lazy_migrate_lowers_version:
  "lazy_migrate (\<lambda>_. []) (\<lambda>_ t. Some t) Outbound (take 2 outbound_migrations)
     \<lparr>meta_table = Some (Some \<lparr>meta_kind = ''outbound'', meta_version = 3, meta_protocol = 1\<rparr>),
      migration_rows = [(1, ''outbound_base'', []), (2, ''outbound_message_edited_at'', []),
        (3, ''outbound_message_in_seq'', [])], rows = (0::nat)\<rparr>
   = (\<lparr>meta_table = Some (Some \<lparr>meta_kind = ''outbound'', meta_version = 2, meta_protocol = 1\<rparr>),
      migration_rows = [(1, ''outbound_base'', []), (2, ''outbound_message_edited_at'', []),
        (3, ''outbound_message_in_seq'', [])], rows = 0\<rparr>, Inr [])"
  by (simp add: lazy_migrate_def ensure_meta_def outbound_migrations_def session_migration_of_def
      session_recorded_def sm_checksum_def hex_of_def target_version_def set_schema_version_def)

end
