(* ===== verification/Session_Db.thy ===== *)
theory Session_Db
  imports Session_Files
begin

text \<open>
  The session databases and the recovery exception: \<open>db.rs\<close>, \<open>session.rs\<close>, \<open>control.rs\<close> and
  \<open>recovery.rs\<close> of \<open>crates/assistant-session\<close>. A \<open>session\<close> is what is in a session's folder: the two
  database files, the time the heartbeat file was last written and whether the recovery lock file
  exists. Failures of the disk are not modelled; a query on tables that no migration has created
  is an error, as are violations of a table's keys. \<open>datetime('now')\<close> is the argument \<open>now\<close>.
\<close>

section \<open>Tables\<close>

record in_msg =
  im_seq :: int
  im_sender :: string
  im_content :: string
  im_metadata :: "string option"
  im_key :: "string option"
  im_thread :: "string option"
  im_created :: string
  im_edited :: "string option"
  im_source :: "string option"

record destination =
  dest_id :: string
  dest_kind :: string
  dest_name :: "string option"

record kv_row =
  kv_key :: string
  kv_value :: string
  kv_updated :: string

record in_tables =
  messages_in :: "in_msg list"
  delivered :: "(int \<times> string) list"
  destinations :: "(destination \<times> string) list"
  session_routing :: "kv_row list"

record out_msg =
  om_seq :: int
  om_kind :: string
  om_content :: string
  om_metadata :: "string option"
  om_in_seq :: "int option"
  om_created :: string

record ack_row =
  ack_in_seq :: int
  ack_claimed_by :: string
  ack_claimed_at :: string

record container_row =
  cs_status :: string
  cs_run_id :: "string option"
  cs_updated :: string

record out_tables =
  messages_out :: "out_msg list"
  processing_ack :: "ack_row list"
  session_state :: "kv_row list"
  container_state :: "container_row option"

definition no_in_tables :: in_tables where
  "no_in_tables = \<lparr>messages_in = [], delivered = [], destinations = [], session_routing = []\<rparr>"

definition no_out_tables :: out_tables where
  "no_out_tables =
     \<lparr>messages_out = [], processing_ack = [], session_state = [], container_state = None\<rparr>"

record session =
  inbound_db :: "in_tables session_db option"
  outbound_db :: "out_tables session_db option"
  heartbeat :: "int option"
  lock_file :: bool

text \<open>What the crate takes from outside: SHA-256, and the effect of DDL on the tables of a database.\<close>

record session_env =
  env_sha :: "nat list \<Rightarrow> nat list"
  env_exec_in :: "string \<Rightarrow> in_tables \<Rightarrow> in_tables option"
  env_exec_out :: "string \<Rightarrow> out_tables \<Rightarrow> out_tables option"

definition additive_env :: "session_env \<Rightarrow> bool" where
  "additive_env env \<longleftrightarrow> additive (env_exec_in env) \<and> additive (env_exec_out env)"

section \<open>Opening\<close>

definition fresh_db :: "'t \<Rightarrow> 't session_db" where
  "fresh_db t = \<lparr>meta_table = None, migration_rows = [], rows = t\<rparr>"

definition open_read_write :: "'t \<Rightarrow> 't session_db option \<Rightarrow> 't session_db" where
  "open_read_write t file = (case file of None \<Rightarrow> fresh_db t | Some db \<Rightarrow> db)"

definition open_read_only :: "'t session_db option \<Rightarrow> session_error + 't session_db" where
  "open_read_only file = ok_or SessionSqlite file"

text \<open>The tables of a database exist once its base migration has run.\<close>

definition tables_of :: "'t session_db \<Rightarrow> session_error + 't" where
  "tables_of db = (if session_recorded db 1 = None then Inl SessionSqlite else Inr (rows db))"

definition open_inbound :: "session_env \<Rightarrow> session \<Rightarrow> session \<times> (session_error + in_tables session_db)" where
  "open_inbound env s =
     (case lazy_migrate (env_sha env) (env_exec_in env) Inbound inbound_migrations
             (open_read_write no_in_tables (inbound_db s)) of
        (db, Inl e) \<Rightarrow> (s\<lparr>inbound_db := Some db\<rparr>, Inl e)
      | (db, Inr _) \<Rightarrow> (s\<lparr>inbound_db := Some db\<rparr>, Inr db))"

definition migrate_outbound ::
  "session_env \<Rightarrow> session \<Rightarrow> session \<times> (session_error + out_tables session_db)" where
  "migrate_outbound env s =
     (case lazy_migrate (env_sha env) (env_exec_out env) Outbound outbound_migrations
             (open_read_write no_out_tables (outbound_db s)) of
        (db, Inl e) \<Rightarrow> (s\<lparr>outbound_db := Some db\<rparr>, Inl e)
      | (db, Inr _) \<Rightarrow> (s\<lparr>outbound_db := Some db\<rparr>, Inr db))"

definition open_outbound_read :: "schema_compat \<Rightarrow> session \<Rightarrow> session_error + out_tables session_db" where
  "open_outbound_read supported s =
     rbind (open_read_only (outbound_db s)) (\<lambda>db.
     rbind (schema_version db) (\<lambda>found.
     rbind (check_runner_compatibility Outbound found supported) (\<lambda>_. Inr db)))"

text \<open>A write to \<open>inbound.db\<close>: open, migrate, act on the tables, close.\<close>

definition with_inbound ::
  "session_env \<Rightarrow> (in_tables \<Rightarrow> in_tables \<times> (session_error + 'a)) \<Rightarrow> session \<Rightarrow> session \<times> (session_error + 'a)" where
  "with_inbound env f s =
     (case open_inbound env s of
        (s', Inl e) \<Rightarrow> (s', Inl e)
      | (s', Inr db) \<Rightarrow>
          (case f (rows db) of (t, r) \<Rightarrow> (s'\<lparr>inbound_db := Some (db\<lparr>rows := t\<rparr>)\<rparr>, r)))"

text \<open>A write of the container to \<open>outbound.db\<close>, which it opens without migrating.\<close>

definition with_outbound ::
  "(out_tables \<Rightarrow> out_tables \<times> (session_error + 'a)) \<Rightarrow> session \<Rightarrow> session \<times> (session_error + 'a)" where
  "with_outbound f s =
     (let db = open_read_write no_out_tables (outbound_db s)
      in case tables_of db of
           Inl e \<Rightarrow> (s\<lparr>outbound_db := Some db\<rparr>, Inl e)
         | Inr t \<Rightarrow> (case f t of (t', r) \<Rightarrow> (s\<lparr>outbound_db := Some (db\<lparr>rows := t'\<rparr>)\<rparr>, r)))"

section \<open>Sequences\<close>

definition next_seq :: "bool \<Rightarrow> int list \<Rightarrow> int" where
  "next_seq odd_seq seqs =
     (case max_of seqs of
        None \<Rightarrow> if odd_seq then 1 else 0
      | Some m \<Rightarrow> i64_add m 2)"

definition seq_room :: "int list \<Rightarrow> bool" where
  "seq_room seqs \<longleftrightarrow> (\<forall>x\<in>set seqs. in_i64 x \<and> in_i64 (x + 2))"

section \<open>Host operations\<close>

record inbound_message =
  msg_sender :: string
  msg_content :: string
  msg_metadata :: "string option"
  msg_thread :: "string option"

definition insert_message :: "in_msg \<Rightarrow> in_tables \<Rightarrow> in_tables \<times> (session_error + int)" where
  "insert_message r t =
     (if has_key im_seq (im_seq r) (messages_in t)
         \<or> (im_key r \<noteq> None \<and> has_key im_key (im_key r) (messages_in t))
      then (t, Inl SessionSqlite)
      else (t\<lparr>messages_in := messages_in t @ [r]\<rparr>, Inr (im_seq r)))"

definition seq_of_key :: "string \<Rightarrow> in_tables \<Rightarrow> int option" where
  "seq_of_key key t = map_option im_seq (query_row (\<lambda>r. im_key r = Some key) (messages_in t))"

definition new_inbound_row ::
  "string \<Rightarrow> inbound_message \<Rightarrow> string option \<Rightarrow> string option \<Rightarrow> in_tables \<Rightarrow> in_msg" where
  "new_inbound_row now m key thread t =
     \<lparr>im_seq = next_seq False (map im_seq (messages_in t)), im_sender = msg_sender m,
      im_content = msg_content m, im_metadata = msg_metadata m, im_key = key, im_thread = thread,
      im_created = now, im_edited = None, im_source = None\<rparr>"

definition enqueue_rows ::
  "string \<Rightarrow> inbound_message \<Rightarrow> string option \<Rightarrow> in_tables \<Rightarrow> in_tables \<times> (session_error + int)" where
  "enqueue_rows now m key t =
     (case key of
        None \<Rightarrow> insert_message (new_inbound_row now m None (msg_thread m) t) t
      | Some k \<Rightarrow>
          (case seq_of_key k t of
             Some seq \<Rightarrow> (t, Inr seq)
           | None \<Rightarrow> insert_message (new_inbound_row now m (Some k) (msg_thread m) t) t))"

definition enqueue_inbound_keyed ::
  "session_env \<Rightarrow> string \<Rightarrow> inbound_message \<Rightarrow> string option \<Rightarrow> session \<Rightarrow> session \<times> (session_error + int)" where
  "enqueue_inbound_keyed env now m key = with_inbound env (enqueue_rows now m key)"

definition enqueue_inbound ::
  "session_env \<Rightarrow> string \<Rightarrow> inbound_message \<Rightarrow> session \<Rightarrow> session \<times> (session_error + int)" where
  "enqueue_inbound env now m = enqueue_inbound_keyed env now m None"

definition upsert_rows ::
  "string \<Rightarrow> string \<Rightarrow> inbound_message \<Rightarrow> in_tables \<Rightarrow> in_tables \<times> (session_error + int)" where
  "upsert_rows now key m t =
     (case seq_of_key key t of
        Some seq \<Rightarrow>
          (t\<lparr>messages_in := update_where (\<lambda>r. im_seq r = seq)
               (\<lambda>r. r\<lparr>im_content := msg_content m, im_metadata := msg_metadata m, im_edited := Some now\<rparr>)
               (messages_in t)\<rparr>,
           Inr seq)
      | None \<Rightarrow> insert_message (new_inbound_row now m (Some key) None t) t)"

definition upsert_inbound_meta ::
  "session_env \<Rightarrow> string \<Rightarrow> string \<Rightarrow> inbound_message \<Rightarrow> session \<Rightarrow> session \<times> (session_error + int)" where
  "upsert_inbound_meta env now key m = with_inbound env (upsert_rows now key m)"

definition read_outbound :: "schema_compat \<Rightarrow> session \<Rightarrow> session_error + out_msg list" where
  "read_outbound supported s =
     rbind (open_outbound_read supported s) (\<lambda>db.
     rbind (tables_of db) (\<lambda>t. Inr (sort_key om_seq (messages_out t))))"

definition mark_delivered :: "session_env \<Rightarrow> string \<Rightarrow> int \<Rightarrow> session \<Rightarrow> session \<times> (session_error + unit)" where
  "mark_delivered env now seq =
     with_inbound env (\<lambda>t. (t\<lparr>delivered := upsert_row fst (\<lambda>_ r. r) (seq, now) (delivered t)\<rparr>, Inr ()))"

definition max_delivered_seq :: "session_env \<Rightarrow> session \<Rightarrow> session \<times> (session_error + int)" where
  "max_delivered_seq env =
     with_inbound env (\<lambda>t. (t, Inr (case max_of (map fst (delivered t)) of None \<Rightarrow> 0 | Some m \<Rightarrow> m)))"

fun insert_destinations ::
  "string \<Rightarrow> destination list \<Rightarrow> (destination \<times> string) list \<Rightarrow> (destination \<times> string) list option" where
  "insert_destinations now [] t = Some t"
| "insert_destinations now (d # ds) t =
     (if has_key (\<lambda>r. dest_id (fst r)) (dest_id d) t then None
      else insert_destinations now ds (t @ [(d, now)]))"

definition set_destinations ::
  "session_env \<Rightarrow> string \<Rightarrow> destination list \<Rightarrow> session \<Rightarrow> session \<times> (session_error + unit)" where
  "set_destinations env now ds =
     with_inbound env (\<lambda>t.
       case insert_destinations now ds [] of
         None \<Rightarrow> (t, Inl SessionSqlite)
       | Some rs \<Rightarrow> (t\<lparr>destinations := rs\<rparr>, Inr ()))"

definition put_kv :: "kv_row \<Rightarrow> kv_row list \<Rightarrow> kv_row list" where
  "put_kv = upsert_row kv_key (\<lambda>old r. old\<lparr>kv_value := kv_value r, kv_updated := kv_updated r\<rparr>)"

definition get_kv :: "kv_row list \<Rightarrow> string \<Rightarrow> kv_row option" where
  "get_kv t k = query_row (\<lambda>r. kv_key r = k) t"

definition set_routing ::
  "session_env \<Rightarrow> string \<Rightarrow> string \<Rightarrow> string \<Rightarrow> session \<Rightarrow> session \<times> (session_error + unit)" where
  "set_routing env now key val =
     with_inbound env (\<lambda>t.
       (t\<lparr>session_routing := put_kv \<lparr>kv_key = key, kv_value = val, kv_updated = now\<rparr> (session_routing t)\<rparr>,
        Inr ()))"

text \<open>SQLite's \<open>%\<close> truncates towards zero.\<close>

definition sql_mod2 :: "int \<Rightarrow> int" where
  "sql_mod2 x = (if x < 0 then - ((- x) mod 2) else x mod 2)"

definition check_parity :: "db_kind \<Rightarrow> bool \<Rightarrow> int list \<Rightarrow> session_error + unit" where
  "check_parity kind expect_odd seqs =
     (let want = (if expect_odd then 1 else 0)
      in case query_row (\<lambda>x. sql_mod2 x \<noteq> want) seqs of
           Some seq \<Rightarrow> Inl (SequenceParity kind seq)
         | None \<Rightarrow> Inr ())"

definition verify_sequence_parity :: "session \<Rightarrow> session_error + unit" where
  "verify_sequence_parity s =
     rbind (open_read_only (inbound_db s)) (\<lambda>idb.
     rbind (tables_of idb) (\<lambda>it.
     rbind (check_parity Inbound False (map im_seq (messages_in it))) (\<lambda>_.
       case outbound_db s of
         None \<Rightarrow> Inr ()
       | Some odb \<Rightarrow>
           rbind (tables_of odb) (\<lambda>ot. check_parity Outbound True (map om_seq (messages_out ot))))))"

definition set_container_state :: "string \<Rightarrow> string \<Rightarrow> string option \<Rightarrow> out_tables \<Rightarrow> out_tables" where
  "set_container_state now status run t =
     t\<lparr>container_state := Some \<lparr>cs_status = status, cs_run_id = run, cs_updated = now\<rparr>\<rparr>"

text \<open>\<open>init_session\<close> leaves the \<open>run_id\<close> of an existing \<open>container_state\<close> row.\<close>

definition init_session :: "session_env \<Rightarrow> string \<Rightarrow> session \<Rightarrow> session \<times> (session_error + unit)" where
  "init_session env now s =
     (case open_inbound env s of
        (s1, Inl e) \<Rightarrow> (s1, Inl e)
      | (s1, Inr _) \<Rightarrow>
          (case migrate_outbound env s1 of
             (s2, Inl e) \<Rightarrow> (s2, Inl e)
           | (s2, Inr db) \<Rightarrow>
               let t = rows db;
                   run = (case container_state t of None \<Rightarrow> None | Some c \<Rightarrow> cs_run_id c)
               in (s2\<lparr>outbound_db := Some (db\<lparr>rows := set_container_state now ''stopped'' run t\<rparr>)\<rparr>, Inr ())))"

definition migrate_session :: "session_env \<Rightarrow> session \<Rightarrow> session \<times> (session_error + unit)" where
  "migrate_session env s =
     (case open_inbound env s of
        (s1, Inl e) \<Rightarrow> (s1, Inl e)
      | (s1, Inr _) \<Rightarrow>
          (case migrate_outbound env s1 of
             (s2, Inl e) \<Rightarrow> (s2, Inl e)
           | (s2, Inr _) \<Rightarrow> (s2, Inr ())))"

definition session_exists :: "session \<Rightarrow> bool" where
  "session_exists s \<longleftrightarrow> inbound_db s \<noteq> None"

section \<open>The container\<close>

definition emit_rows ::
  "string \<Rightarrow> int option \<Rightarrow> string \<Rightarrow> string \<Rightarrow> out_tables \<Rightarrow> out_tables \<times> (session_error + int)" where
  "emit_rows now in_seq kind content t =
     (let seq = next_seq True (map om_seq (messages_out t))
      in if has_key om_seq seq (messages_out t) then (t, Inl SessionSqlite)
         else (t\<lparr>messages_out := messages_out t @
                 [\<lparr>om_seq = seq, om_kind = kind, om_content = content, om_metadata = None,
                   om_in_seq = in_seq, om_created = now\<rparr>]\<rparr>, Inr seq))"

definition emit_message ::
  "schema_compat \<Rightarrow> string \<Rightarrow> int option \<Rightarrow> string \<Rightarrow> string \<Rightarrow> session \<Rightarrow> session \<times> (session_error + int)" where
  "emit_message supported now in_seq kind content s =
     (let db = open_read_write no_out_tables (outbound_db s); s' = s\<lparr>outbound_db := Some db\<rparr>
      in case schema_version db of
           Inl e \<Rightarrow> (s', Inl e)
         | Inr found \<Rightarrow>
             (case check_runner_compatibility Outbound found supported of
                Inl e \<Rightarrow> (s', Inl e)
              | Inr _ \<Rightarrow> with_outbound (emit_rows now in_seq kind content) s'))"

definition emit :: "schema_compat \<Rightarrow> string \<Rightarrow> string \<Rightarrow> string \<Rightarrow> session \<Rightarrow> session \<times> (session_error + int)" where
  "emit supported now kind content = emit_message supported now None kind content"

definition emit_reply ::
  "schema_compat \<Rightarrow> string \<Rightarrow> int \<Rightarrow> string \<Rightarrow> string \<Rightarrow> session \<Rightarrow> session \<times> (session_error + int)" where
  "emit_reply supported now in_seq kind content = emit_message supported now (Some in_seq) kind content"

definition claim :: "string \<Rightarrow> int \<Rightarrow> string \<Rightarrow> session \<Rightarrow> session \<times> (session_error + unit)" where
  "claim now in_seq by_whom =
     with_outbound (\<lambda>t.
       (t\<lparr>processing_ack := upsert_row ack_in_seq (\<lambda>_ r. r)
            \<lparr>ack_in_seq = in_seq, ack_claimed_by = by_whom, ack_claimed_at = now\<rparr> (processing_ack t)\<rparr>,
        Inr ()))"

definition read_inbound :: "session \<Rightarrow> session_error + (int \<times> string) list" where
  "read_inbound s =
     rbind (open_read_only (inbound_db s)) (\<lambda>db.
     rbind (tables_of db) (\<lambda>t.
       Inr (map (\<lambda>r. (im_seq r, im_content r)) (sort_key im_seq (messages_in t)))))"

definition set_status :: "string \<Rightarrow> string \<Rightarrow> string option \<Rightarrow> session \<Rightarrow> session \<times> (session_error + unit)" where
  "set_status now status run = with_outbound (\<lambda>t. (set_container_state now status run t, Inr ()))"

definition touch_heartbeat :: "int \<Rightarrow> session \<Rightarrow> session" where
  "touch_heartbeat clock s = s\<lparr>heartbeat := Some clock\<rparr>"

definition start_container ::
  "string \<Rightarrow> int \<Rightarrow> string \<Rightarrow> session \<Rightarrow> session \<times> (session_error + unit)" where
  "start_container now clock run s =
     (case set_status now ''alive'' (Some run) s of
        (s', Inl e) \<Rightarrow> (s', Inl e)
      | (s', Inr _) \<Rightarrow> (touch_heartbeat clock s', Inr ()))"

definition stop_container :: "string \<Rightarrow> session \<Rightarrow> session \<times> (session_error + unit)" where
  "stop_container now s =
     (case set_status now ''stopped'' None s of
        (s', Inl e) \<Rightarrow> (s', Inl e)
      | (s', Inr _) \<Rightarrow> (s'\<lparr>heartbeat := None\<rparr>, Inr ()))"

section \<open>Recovery\<close>

datatype liveness = Alive | Stopped

definition heartbeat_fresh :: "int \<Rightarrow> int \<Rightarrow> session \<Rightarrow> bool" where
  "heartbeat_fresh ttl clock s =
     (case heartbeat s of
        None \<Rightarrow> False
      | Some modified \<Rightarrow> if modified \<le> clock then clock - modified \<le> ttl else True)"

definition container_state_alive :: "session \<Rightarrow> bool" where
  "container_state_alive s =
     (case outbound_db s of
        None \<Rightarrow> False
      | Some db \<Rightarrow>
          (case tables_of db of
             Inl _ \<Rightarrow> False
           | Inr t \<Rightarrow>
               (case container_state t of None \<Rightarrow> False | Some c \<Rightarrow> cs_status c = ''alive'')))"

definition container_liveness :: "int \<Rightarrow> int \<Rightarrow> session \<Rightarrow> liveness" where
  "container_liveness ttl clock s =
     (if heartbeat_fresh ttl clock s \<or> container_state_alive s then Alive else Stopped)"

definition acquire_lock :: "session \<Rightarrow> session \<times> (session_error + unit)" where
  "acquire_lock s =
     (if lock_file s then (s, Inl SessionLocked) else (s\<lparr>lock_file := True\<rparr>, Inr ()))"

definition drop_lock :: "session \<Rightarrow> session" where
  "drop_lock s = s\<lparr>lock_file := False\<rparr>"

text \<open>
  \<open>before\<close> and \<open>after\<close> are what other processes do to the folder between the first check and the lock
  and between the lock and the second check; the clock is read at each check. The lock is dropped
  with the guard, so also when an error is returned after it was taken.
\<close>

definition open_outbound_recovery ::
  "session_env \<Rightarrow> int \<Rightarrow> int \<Rightarrow> int \<Rightarrow> (session \<Rightarrow> session) \<Rightarrow> (session \<Rightarrow> session) \<Rightarrow> session
   \<Rightarrow> session \<times> (session_error + unit)" where
  "open_outbound_recovery env ttl clock clock' before after s =
     (if container_liveness ttl clock s = Alive then (s, Inl ContainerAlive)
      else
        (case acquire_lock (before s) of
           (s1, Inl e) \<Rightarrow> (s1, Inl e)
         | (s1, Inr _) \<Rightarrow>
             let s2 = after s1
             in if container_liveness ttl clock' s2 = Alive then (drop_lock s2, Inl ContainerAlive)
                else
                  (case migrate_outbound env s2 of
                     (s3, Inl e) \<Rightarrow> (drop_lock s3, Inl e)
                   | (s3, Inr _) \<Rightarrow> (s3, Inr ()))))"

definition cleanup_stale_acks :: "session \<Rightarrow> session \<times> (session_error + nat)" where
  "cleanup_stale_acks =
     with_outbound (\<lambda>t. (t\<lparr>processing_ack := []\<rparr>, Inr (length (processing_ack t))))"

definition write_recovery_meta ::
  "string \<Rightarrow> string \<Rightarrow> string \<Rightarrow> session \<Rightarrow> session \<times> (session_error + unit)" where
  "write_recovery_meta now key val =
     with_outbound (\<lambda>t.
       (t\<lparr>session_state := put_kv \<lparr>kv_key = key, kv_value = val, kv_updated = now\<rparr> (session_state t)\<rparr>,
        Inr ()))"

section \<open>Rows and parities\<close>

definition in_rows :: "session \<Rightarrow> in_tables" where
  "in_rows s = (case inbound_db s of None \<Rightarrow> no_in_tables | Some db \<Rightarrow> rows db)"

definition out_rows :: "session \<Rightarrow> out_tables" where
  "out_rows s = (case outbound_db s of None \<Rightarrow> no_out_tables | Some db \<Rightarrow> rows db)"

lemma in_rows_update [simp]:
  "in_rows (s\<lparr>inbound_db := Some db\<rparr>) = rows db"
  "in_rows (s\<lparr>outbound_db := x\<rparr>) = in_rows s"
  "in_rows (s\<lparr>heartbeat := h\<rparr>) = in_rows s"
  "in_rows (s\<lparr>lock_file := b\<rparr>) = in_rows s"
  "out_rows (s\<lparr>outbound_db := Some odb\<rparr>) = rows odb"
  "out_rows (s\<lparr>inbound_db := y\<rparr>) = out_rows s"
  "out_rows (s\<lparr>heartbeat := h\<rparr>) = out_rows s"
  "out_rows (s\<lparr>lock_file := b\<rparr>) = out_rows s"
  by (simp_all add: in_rows_def out_rows_def)

lemma rows_open_read_write:
  "rows (open_read_write no_in_tables (inbound_db s)) = in_rows s"
  "rows (open_read_write no_out_tables (outbound_db s)) = out_rows s"
  by (simp_all add: open_read_write_def in_rows_def out_rows_def fresh_db_def split: option.splits)

lemma open_inbound_rows:
  assumes "additive_env env" and "open_inbound env s = (s', r)"
  shows "in_rows s' = in_rows s" and "\<exists>db. s' = s\<lparr>inbound_db := Some db\<rparr>"
    and "r = Inr db \<Longrightarrow> rows db = in_rows s \<and> inbound_db s' = Some db"
  using assms lazy_migrate_rows [of "env_exec_in env"]
  by (auto simp: open_inbound_def additive_env_def rows_open_read_write
      split: prod.splits sum.splits)

lemma migrate_outbound_rows:
  assumes "additive_env env" and "migrate_outbound env s = (s', r)"
  shows "out_rows s' = out_rows s" and "\<exists>db. s' = s\<lparr>outbound_db := Some db\<rparr>"
    and "r = Inr db \<Longrightarrow> rows db = out_rows s \<and> outbound_db s' = Some db"
  using assms lazy_migrate_rows [of "env_exec_out env"]
  by (auto simp: migrate_outbound_def additive_env_def rows_open_read_write
      split: prod.splits sum.splits)

text \<open>
  What a write to a database does to the folder: nothing but the tables of that database changes,
  and these change as the operation on tables says or, when opening fails, not at all.
\<close>

lemma with_inbound_cases:
  assumes "additive_env env" and "with_inbound env f s = (s', r)"
  obtains (failed) e where "r = Inl e" "in_rows s' = in_rows s" "out_rows s' = out_rows s"
      "heartbeat s' = heartbeat s" "lock_file s' = lock_file s" "outbound_db s' = outbound_db s"
  | (ran) "f (in_rows s) = (in_rows s', r)" "out_rows s' = out_rows s"
      "heartbeat s' = heartbeat s" "lock_file s' = lock_file s" "outbound_db s' = outbound_db s"
proof (cases "open_inbound env s")
  case (Pair s1 q)
  note rows1 = open_inbound_rows [OF assms(1) Pair]
  from rows1(2) obtain db1 where s1: "s1 = s\<lparr>inbound_db := Some db1\<rparr>" by blast
  show thesis
  proof (cases q)
    case (Inl e)
    with Pair assms(2) s1 rows1(1) show ?thesis
      by (intro failed) (auto simp: with_inbound_def)
  next
    case (Inr db)
    obtain t where "f (rows db) = (t, r)" "s' = s1\<lparr>inbound_db := Some (db\<lparr>rows := t\<rparr>)\<rparr>"
      using Inr Pair assms(2) by (auto simp: with_inbound_def split: prod.splits)
    with rows1(3) [OF Inr] s1 show ?thesis by (intro ran) auto
  qed
qed

lemma with_outbound_cases:
  assumes "with_outbound f s = (s', r)"
  obtains (failed) e where "r = Inl e" "out_rows s' = out_rows s" "in_rows s' = in_rows s"
      "heartbeat s' = heartbeat s" "lock_file s' = lock_file s" "inbound_db s' = inbound_db s"
  | (ran) "f (out_rows s) = (out_rows s', r)" "in_rows s' = in_rows s"
      "heartbeat s' = heartbeat s" "lock_file s' = lock_file s" "inbound_db s' = inbound_db s"
proof -
  define db where "db = open_read_write no_out_tables (outbound_db s)"
  have db: "rows db = out_rows s" by (simp add: db_def rows_open_read_write)
  show thesis
  proof (cases "tables_of db")
    case (Inl e)
    with assms db show ?thesis
      by (intro failed) (auto simp: with_outbound_def db_def [symmetric] Let_def)
  next
    case (Inr t)
    then have "t = rows db" by (auto simp: tables_of_def split: if_splits)
    with Inr assms db show ?thesis
      by (intro ran) (auto simp: with_outbound_def db_def [symmetric] Let_def split: prod.splits)
  qed
qed

lemma i64_add2_mod2: "i64_add m 2 mod 2 = m mod 2"
proof -
  have "((m + 2 + 2 ^ 63) mod 2 ^ 64) mod 2 = (m + 2 + 2 ^ 63) mod (2::int)"
    by (rule mod_mod_cancel) simp
  then have "even ((m + 2 + 2 ^ 63) mod 2 ^ 64) = even m"
    by (simp only: even_iff_mod_2_eq_zero) (simp flip: even_iff_mod_2_eq_zero)
  then have "even (i64_add m 2) = even m"
    unfolding i64_add_def i64_wrap_def even_diff_iff by simp
  then show ?thesis by (metis even_iff_mod_2_eq_zero not_mod_2_eq_0_eq_1)
qed

lemma next_seq_parity:
  assumes "\<forall>x\<in>set xs. x mod 2 = (if odd_seq then 1 else 0)"
  shows "next_seq odd_seq xs mod 2 = (if odd_seq then 1 else 0)"
proof (cases "max_of xs")
  case None
  then show ?thesis by (simp add: next_seq_def max_of_def)
next
  case (Some m)
  with max_of_Some [OF Some] assms show ?thesis by (simp add: next_seq_def i64_add2_mod2)
qed

lemma next_seq_above: "seq_room xs \<Longrightarrow> x \<in> set xs \<Longrightarrow> x < next_seq odd_seq xs"
proof (cases "max_of xs")
  case None
  then show "x \<in> set xs \<Longrightarrow> ?thesis" by simp
next
  case (Some m)
  assume "seq_room xs" "x \<in> set xs"
  with max_of_Some [OF Some] have "x \<le> m" "in_i64 (m + 2)" by (auto simp: seq_room_def)
  with Some show ?thesis by (simp add: next_seq_def)
qed

interpretation host_seq: seq_allocator "next_seq False" 0 seq_room
proof
  show "\<forall>x\<in>set xs. x mod 2 = 0 \<Longrightarrow> next_seq False xs mod 2 = 0" for xs
    using next_seq_parity [of xs False] by simp
qed (rule next_seq_above)

interpretation container_seq: seq_allocator "next_seq True" 1 seq_room
proof
  show "\<forall>x\<in>set xs. x mod 2 = 1 \<Longrightarrow> next_seq True xs mod 2 = 1" for xs
    using next_seq_parity [of xs True] by simp
qed (rule next_seq_above)

definition merge_kv :: "kv_row option \<Rightarrow> kv_row \<Rightarrow> kv_row" where
  "merge_kv old r = (case old of
     None \<Rightarrow> r
   | Some o' \<Rightarrow> o'\<lparr>kv_value := kv_value r, kv_updated := kv_updated r\<rparr>)"

interpretation kv_store: keyed_store get_kv put_kv kv_key merge_kv "primary_key kv_key"
proof
  show "primary_key kv_key t \<Longrightarrow> primary_key kv_key (put_kv r t)" for t r
    by (simp add: put_kv_def)
  show "get_kv (put_kv r t) k
      = (if k = kv_key r then Some (merge_kv (get_kv t k) r) else get_kv t k)" for r t k
    by (simp add: get_kv_def put_kv_def query_row_upsert_row merge_kv_def split: option.splits)
  show "merge_kv (Some (merge_kv v r)) r = merge_kv v r" for v r
    by (simp add: merge_kv_def split: option.splits)
qed

end
