(* ===== verification/Session_Steps.thy ===== *)
theory Session_Steps
  imports Session_Db "HOL-Library.Multiset"
begin

text \<open>
  The host and the container acting on one session folder, in any order: the step relation of all
  operations of \<open>Session_Db\<close>, the invariant of the tables it keeps, and what follows for sequence
  numbers, keyed messages, the delivery mark and the recovery lock.
\<close>

section \<open>Invariants of the tables\<close>

definition keyed_rows :: "in_tables \<Rightarrow> in_msg list" where
  "keyed_rows t = filter (\<lambda>r. im_key r \<noteq> None) (messages_in t)"

definition in_wf :: "in_tables \<Rightarrow> bool" where
  "in_wf t \<longleftrightarrow>
     primary_key im_seq (messages_in t) \<and>
     (\<forall>r\<in>set (messages_in t). im_seq r mod 2 = 0) \<and>
     primary_key im_key (keyed_rows t) \<and>
     primary_key fst (delivered t) \<and>
     primary_key (\<lambda>r. dest_id (fst r)) (destinations t) \<and>
     primary_key kv_key (session_routing t)"

definition out_wf :: "out_tables \<Rightarrow> bool" where
  "out_wf t \<longleftrightarrow>
     primary_key om_seq (messages_out t) \<and>
     (\<forall>r\<in>set (messages_out t). om_seq r mod 2 = 1) \<and>
     primary_key ack_in_seq (processing_ack t) \<and>
     primary_key kv_key (session_state t)"

definition session_wf :: "session \<Rightarrow> bool" where
  "session_wf s \<longleftrightarrow> in_wf (in_rows s) \<and> out_wf (out_rows s)"

lemma in_wf_no_tables [simp]: "in_wf no_in_tables"
  by (simp add: in_wf_def no_in_tables_def keyed_rows_def primary_key_def)

lemma out_wf_no_tables [simp]: "out_wf no_out_tables"
  by (simp add: out_wf_def no_out_tables_def primary_key_def)

text \<open>
  What every operation on \<open>inbound.db\<close> keeps of the tables, apart from their well-formedness: a
  keyed message keeps its sequence number, a message without a key its row, and delivery marks are not
  taken back.
\<close>

definition in_extends :: "in_tables \<Rightarrow> in_tables \<Rightarrow> bool" where
  "in_extends t t' \<longleftrightarrow>
     (\<forall>k n. seq_of_key k t = Some n \<longrightarrow> seq_of_key k t' = Some n) \<and>
     fst ` set (delivered t) \<subseteq> fst ` set (delivered t') \<and>
     im_seq ` set (messages_in t) \<subseteq> im_seq ` set (messages_in t') \<and>
     (\<forall>r\<in>set (messages_in t). im_key r = None \<longrightarrow> r \<in> set (messages_in t'))"

lemma in_extends_refl [simp]: "in_extends t t"
  by (simp add: in_extends_def)

lemma in_extends_trans:
  assumes "in_extends t u" and "in_extends u v"
  shows "in_extends t v"
proof -
  have "fst ` set (delivered t) \<subseteq> fst ` set (delivered v)" "im_seq ` set (messages_in t) \<subseteq> im_seq ` set (messages_in v)"
    using assms by (meson in_extends_def order_trans)+
  with assms show ?thesis by (simp add: in_extends_def)
qed

lemma insert_message_cases:
  obtains (refused) "insert_message r t = (t, Inl SessionSqlite)"
  | (inserted) "insert_message r t = (t\<lparr>messages_in := messages_in t @ [r]\<rparr>, Inr (im_seq r))"
      "im_seq r \<notin> im_seq ` set (messages_in t)"
      "im_key r = None \<or> im_key r \<notin> im_key ` set (messages_in t)"
proof (cases "im_seq r \<in> im_seq ` set (messages_in t)
    \<or> (im_key r \<noteq> None \<and> im_key r \<in> im_key ` set (messages_in t))")
  case True
  then show ?thesis by (intro refused) (auto simp: insert_message_def has_key_def)
next
  case False
  then show ?thesis by (intro inserted) (auto simp: insert_message_def has_key_def)
qed

lemma insert_message_keeps:
  assumes "insert_message r t = (t', q)" and "in_wf t" and "im_seq r mod 2 = 0"
  shows "in_wf t'" and "in_extends t t'"
proof -
  show "in_wf t'"
    using assms
    by (cases rule: insert_message_cases [of r t])
      (auto simp: in_wf_def keyed_rows_def primary_key_def)
  show "in_extends t t'"
    using assms(1)
    by (cases rule: insert_message_cases [of r t])
      (auto simp: in_extends_def seq_of_key_def query_row_append split: option.splits)
qed

lemma new_inbound_row_even: "in_wf t \<Longrightarrow> im_seq (new_inbound_row now m key th t) mod 2 = 0"
  using host_seq.alloc_parity [of "map im_seq (messages_in t)"]
  by (simp add: new_inbound_row_def in_wf_def)

lemma enqueue_rows_keeps:
  assumes "enqueue_rows now m key t = (t', q)" and "in_wf t"
  shows "in_wf t'" and "in_extends t t'"
  using assms insert_message_keeps new_inbound_row_even
  by (auto simp: enqueue_rows_def split: option.splits)

lemma enqueue_rows_found:
  "enqueue_rows now m (Some k) t = (t', Inr n) \<Longrightarrow> seq_of_key k t' = Some n"
proof (cases "seq_of_key k t")
  case None
  assume "enqueue_rows now m (Some k) t = (t', Inr n)"
  with None have "insert_message (new_inbound_row now m (Some k) (msg_thread m) t) t = (t', Inr n)"
    by (simp add: enqueue_rows_def)
  with None show ?thesis
    by (cases rule: insert_message_cases [of "new_inbound_row now m (Some k) (msg_thread m) t" t])
      (auto simp: seq_of_key_def query_row_append new_inbound_row_def)
qed (auto simp: enqueue_rows_def)

lemma enqueue_rows_new:
  assumes "enqueue_rows now m None t = (t', Inr n)"
  shows "n \<notin> im_seq ` set (messages_in t)"
    and "\<exists>r\<in>set (messages_in t'). im_seq r = n \<and> im_key r = None \<and> im_sender r = msg_sender m \<and> im_content r = msg_content m"
  using assms
  by (cases rule: insert_message_cases [of "new_inbound_row now m None (msg_thread m) t" t];
    force simp: enqueue_rows_def new_inbound_row_def)+

lemma map_update_where_same:
  "(\<And>x. P x \<Longrightarrow> g (f x) = g x) \<Longrightarrow> map g (update_where P f t) = map g t"
  by (rule map_key_update_where)

lemma filter_update_where:
  "(\<And>x. P x \<Longrightarrow> Q (f x) = Q x) \<Longrightarrow> filter Q (update_where P f t) = update_where P f (filter Q t)"
  by (induction t) (auto simp: update_where_def)

lemma upsert_rows_keeps:
  assumes "upsert_rows now key m t = (t', q)" and "in_wf t"
  shows "in_wf t'" and "in_extends t t'"
proof -
  define f where
    "f = (\<lambda>r :: in_msg. r\<lparr>im_content := msg_content m, im_metadata := msg_metadata m, im_edited := Some now\<rparr>)"
  have f: "im_seq (f r) = im_seq r" "im_key (f r) = im_key r" for r by (simp_all add: f_def)
  show "in_wf t'"
  proof (cases "seq_of_key key t")
    case None
    with assms show ?thesis
      using insert_message_keeps(1) new_inbound_row_even by (auto simp: upsert_rows_def)
  next
    case (Some n)
    with assms(1) have "t' = t\<lparr>messages_in := update_where (\<lambda>r. im_seq r = n) f (messages_in t)\<rparr>"
      by (simp add: upsert_rows_def f_def)
    with assms(2) show ?thesis
      by (auto simp: in_wf_def keyed_rows_def filter_update_where f sql_simps)
  qed
  show "in_extends t t'"
  proof (cases "seq_of_key key t")
    case None
    with assms show ?thesis
      using insert_message_keeps(2) new_inbound_row_even by (auto simp: upsert_rows_def)
  next
    case (Some n)
    with assms(1) have t': "t' = t\<lparr>messages_in := update_where (\<lambda>r. im_seq r = n) f (messages_in t)\<rparr>"
      by (simp add: upsert_rows_def f_def)
    have "im_seq ` set (messages_in t') = im_seq ` set (messages_in t)"
      unfolding t' set_map [symmetric] by (simp add: map_update_where_same f)
    moreover have "r \<in> set (messages_in t')" if "r \<in> set (messages_in t)" "im_key r = None" for r
    proof -
      from Some obtain x where "x \<in> set (messages_in t)" "im_key x = Some key" "im_seq x = n"
        by (auto simp: seq_of_key_def dest: query_row_SomeD)
      with assms(2) that have "im_seq r \<noteq> n" by (auto simp: in_wf_def dest: primary_key_unique)
      with that(1) show ?thesis by (auto simp: t' set_update_where)
    qed
    ultimately show ?thesis using t'
      by (auto simp: in_extends_def seq_of_key_def query_row_update_where f option.map_comp o_def)
  qed
qed

lemma emit_rows_keeps:
  assumes "emit_rows now in_seq kind content t = (t', q)" and "out_wf t"
  shows "out_wf t'"
  using assms container_seq.alloc_parity [of "map om_seq (messages_out t)"]
  by (auto simp: emit_rows_def Let_def out_wf_def has_key_def primary_key_def split: if_splits)

lemma insert_destinations_keeps:
  "insert_destinations now ds t = Some t' \<Longrightarrow> primary_key (\<lambda>r. dest_id (fst r)) t \<Longrightarrow>
   primary_key (\<lambda>r. dest_id (fst r)) t'"
  by (induction ds arbitrary: t) (auto simp: has_key_def primary_key_def split: if_splits)

section \<open>Steps\<close>

inductive session_step :: "session_env \<Rightarrow> session \<Rightarrow> session \<Rightarrow> bool" for env where
  step_init: "init_session env now s = (s', r) \<Longrightarrow> session_step env s s'"
| step_migrate: "migrate_session env s = (s', r) \<Longrightarrow> session_step env s s'"
| step_enqueue: "enqueue_inbound_keyed env now m key s = (s', r) \<Longrightarrow> session_step env s s'"
| step_upsert: "upsert_inbound_meta env now k m s = (s', r) \<Longrightarrow> session_step env s s'"
| step_delivered: "mark_delivered env now n s = (s', r) \<Longrightarrow> session_step env s s'"
| step_max_delivered: "max_delivered_seq env s = (s', q) \<Longrightarrow> session_step env s s'"
| step_destinations: "set_destinations env now ds s = (s', r) \<Longrightarrow> session_step env s s'"
| step_routing: "set_routing env now k v s = (s', r) \<Longrightarrow> session_step env s s'"
| step_emit: "emit_message supported now in_seq kind content s = (s', q) \<Longrightarrow> session_step env s s'"
| step_claim: "claim now n w s = (s', r) \<Longrightarrow> session_step env s s'"
| step_start: "start_container now clock run s = (s', r) \<Longrightarrow> session_step env s s'"
| step_stop: "stop_container now s = (s', r) \<Longrightarrow> session_step env s s'"
| step_heartbeat: "session_step env s (touch_heartbeat clock s)"
| step_lock: "acquire_lock s = (s', r) \<Longrightarrow> session_step env s s'"
| step_unlock: "session_step env s (drop_lock s)"
| step_recover: "migrate_outbound env s = (s', x) \<Longrightarrow> session_step env s s'"
| step_cleanup: "cleanup_stale_acks s = (s', c) \<Longrightarrow> session_step env s s'"
| step_meta: "write_recovery_meta now k v s = (s', r) \<Longrightarrow> session_step env s s'"

abbreviation session_steps :: "session_env \<Rightarrow> session \<Rightarrow> session \<Rightarrow> bool" where
  "session_steps env \<equiv> (session_step env)\<^sup>*\<^sup>*"

definition empty_session :: session where
  "empty_session = \<lparr>inbound_db = None, outbound_db = None, heartbeat = None, lock_file = False\<rparr>"

text \<open>A step is one of: nothing of the rows changes, the inbound rows do, the outbound rows do.\<close>

definition good_in :: "in_tables \<Rightarrow> in_tables \<Rightarrow> bool" where
  "good_in t t' \<longleftrightarrow> in_extends t t' \<and> in_wf t'"

lemma with_inbound_good:
  assumes "additive_env env" and "with_inbound env f s = (s', r)" and "session_wf s"
    and "\<And>t' q. f (in_rows s) = (t', q) \<Longrightarrow> good_in (in_rows s) t'"
  shows "session_wf s' \<and> in_extends (in_rows s) (in_rows s')"
  using assms(3,4)
  by (cases rule: with_inbound_cases [OF assms(1,2)]) (auto simp: session_wf_def good_in_def)

lemma with_outbound_good:
  assumes "with_outbound f s = (s', r)" and "session_wf s"
    and "\<And>t' q. f (out_rows s) = (t', q) \<Longrightarrow> out_wf t'"
  shows "session_wf s' \<and> in_extends (in_rows s) (in_rows s')"
  using assms(2,3)
  by (cases rule: with_outbound_cases [OF assms(1)]) (auto simp: session_wf_def)

lemma set_container_state_wf [simp]: "out_wf (set_container_state now st run t) = out_wf t"
  by (simp add: out_wf_def set_container_state_def)

lemma set_status_good:
  "set_status now st run s = (s', r) \<Longrightarrow> session_wf s \<Longrightarrow>
   session_wf s' \<and> in_extends (in_rows s) (in_rows s')"
  unfolding set_status_def by (erule with_outbound_good) (auto simp: session_wf_def)

lemma session_wf_rows:
  "in_rows s' = in_rows s \<Longrightarrow> out_rows s' = out_rows s \<Longrightarrow> session_wf s \<Longrightarrow>
   session_wf s' \<and> in_extends (in_rows s) (in_rows s')"
  by (simp add: session_wf_def)

lemma rows_heartbeat_lock [simp]:
  "in_rows (touch_heartbeat clock s) = in_rows s" "out_rows (touch_heartbeat clock s) = out_rows s"
  "in_rows (drop_lock s) = in_rows s" "out_rows (drop_lock s) = out_rows s"
  by (simp_all add: touch_heartbeat_def drop_lock_def)

lemma init_session_rows:
  assumes "additive_env env" and "init_session env now s = (s', r)"
  shows "in_rows s' = in_rows s"
    and "out_rows s' = out_rows s \<or> (\<exists>run. out_rows s' = set_container_state now ''stopped'' run (out_rows s))"
proof -
  obtain s1 q1 where o: "open_inbound env s = (s1, q1)" by (cases "open_inbound env s")
  obtain s2 q2 where m: "migrate_outbound env s1 = (s2, q2)" by (cases "migrate_outbound env s1")
  note o_rows = open_inbound_rows [OF assms(1) o] and m_rows = migrate_outbound_rows [OF assms(1) m]
  from o_rows(2) have o1: "out_rows s1 = out_rows s" by auto
  from m_rows(2) have i2: "in_rows s2 = in_rows s1" by auto
  show "in_rows s' = in_rows s"
    using assms(2) o m o_rows(1) i2 by (auto simp: init_session_def Let_def split: sum.splits)
  show "out_rows s' = out_rows s \<or> (\<exists>run. out_rows s' = set_container_state now ''stopped'' run (out_rows s))"
    using assms(2) o m o1 m_rows(1) m_rows(3)
    by (auto simp: init_session_def Let_def split: sum.splits)
qed

lemma migrate_session_rows:
  assumes "additive_env env" and "migrate_session env s = (s', r)"
  shows "in_rows s' = in_rows s \<and> out_rows s' = out_rows s"
proof -
  obtain s1 q1 where o: "open_inbound env s = (s1, q1)" by (cases "open_inbound env s")
  obtain s2 q2 where m: "migrate_outbound env s1 = (s2, q2)" by (cases "migrate_outbound env s1")
  note o_rows = open_inbound_rows [OF assms(1) o] and m_rows = migrate_outbound_rows [OF assms(1) m]
  from o_rows(2) have "out_rows s1 = out_rows s" by auto
  moreover from m_rows(2) have "in_rows s2 = in_rows s1" by auto
  ultimately show ?thesis
    using assms(2) o m o_rows(1) m_rows(1) by (auto simp: migrate_session_def split: sum.splits)
qed

lemma emit_message_good:
  assumes "emit_message supported now in_seq kind content s = (s', q)" and "session_wf s"
  shows "session_wf s' \<and> in_extends (in_rows s) (in_rows s')"
proof -
  define s0 where "s0 = s\<lparr>outbound_db := Some (open_read_write no_out_tables (outbound_db s))\<rparr>"
  have s0: "in_rows s0 = in_rows s" "out_rows s0 = out_rows s"
    by (simp_all add: s0_def rows_open_read_write)
  with assms(2) have wf0: "session_wf s0" by (simp add: session_wf_def)
  have "s' = s0 \<or> with_outbound (emit_rows now in_seq kind content) s0 = (s', q)"
    using assms(1) by (auto simp: emit_message_def Let_def s0_def split: sum.splits)
  then show ?thesis
  proof
    assume "s' = s0"
    with s0 assms(2) show ?thesis by (simp add: session_wf_def)
  next
    assume "with_outbound (emit_rows now in_seq kind content) s0 = (s', q)"
    from with_outbound_good [OF this wf0] emit_rows_keeps wf0 s0 show ?thesis
      by (auto simp: session_wf_def)
  qed
qed

lemma upsert_row_keys:
  "(\<And>x. key x = key r \<Longrightarrow> key (merge x r) = key x) \<Longrightarrow>
   key ` set (upsert_row key merge r t) = insert (key r) (key ` set t)"
  unfolding set_map [symmetric] by (auto simp: map_key_upsert_row has_key_def)

lemma in_wf_delivered:
  assumes "in_wf t"
  shows "good_in t (t\<lparr>delivered := upsert_row fst (\<lambda>_ r. r) x (delivered t)\<rparr>)"
proof -
  have "primary_key fst (upsert_row fst (\<lambda>_ r. r) x (delivered t))"
    using assms by (simp add: in_wf_def)
  moreover have "fst ` set (delivered t) \<subseteq> fst ` set (upsert_row fst (\<lambda>_ r. r) x (delivered t))"
    by (simp add: upsert_row_keys subset_insertI)
  ultimately show ?thesis
    using assms by (simp add: good_in_def in_wf_def keyed_rows_def in_extends_def seq_of_key_def)
qed

lemma session_step_keeps:
  assumes "session_step env s s'" and "additive_env env" and "session_wf s"
  shows "session_wf s' \<and> in_extends (in_rows s) (in_rows s')"
  using assms(1)
proof cases
  case (step_init now r)
  note rows_init = init_session_rows [OF assms(2) step_init]
  from rows_init(2) assms(3) have "out_wf (out_rows s')" by (auto simp: session_wf_def)
  with rows_init(1) assms(3) show ?thesis by (simp add: session_wf_def)
next
  case (step_migrate r)
  from migrate_session_rows [OF assms(2) step_migrate] assms(3) show ?thesis
    by (simp add: session_wf_def)
next
  case (step_enqueue now m key r)
  show ?thesis
    using step_enqueue unfolding enqueue_inbound_keyed_def
    by (rule with_inbound_good [OF assms(2) _ assms(3)])
      (use enqueue_rows_keeps assms(3) in \<open>auto simp: good_in_def session_wf_def\<close>)
next
  case (step_upsert now k m r)
  show ?thesis
    using step_upsert unfolding upsert_inbound_meta_def
    by (rule with_inbound_good [OF assms(2) _ assms(3)])
      (use upsert_rows_keeps assms(3) in \<open>auto simp: good_in_def session_wf_def\<close>)
next
  case (step_delivered now n r)
  show ?thesis
    using step_delivered unfolding mark_delivered_def
    by (rule with_inbound_good [OF assms(2) _ assms(3)])
      (use in_wf_delivered assms(3) in \<open>auto simp: session_wf_def\<close>)
next
  case (step_max_delivered q)
  show ?thesis
    using step_max_delivered unfolding max_delivered_seq_def
    by (rule with_inbound_good [OF assms(2) _ assms(3)])
      (use assms(3) in \<open>auto simp: good_in_def session_wf_def\<close>)
next
  case (step_destinations now ds r)
  have "good_in (in_rows s) (in_rows s\<lparr>destinations := rs\<rparr>)"
    if "insert_destinations now ds [] = Some rs" for rs
    using insert_destinations_keeps [OF that] assms(3)
    by (simp add: session_wf_def good_in_def in_wf_def keyed_rows_def in_extends_def seq_of_key_def
        primary_key_def [of _ "[]"])
  then show ?thesis
    using step_destinations assms(3) unfolding set_destinations_def
    by (intro with_inbound_good [OF assms(2) _ assms(3)])
      (auto simp: good_in_def session_wf_def split: option.splits)
next
  case (step_routing now k v r)
  have "good_in (in_rows s) (in_rows s\<lparr>session_routing := put_kv x (session_routing (in_rows s))\<rparr>)" for x
    using kv_store.ok_put assms(3)
    by (simp add: session_wf_def good_in_def in_wf_def keyed_rows_def in_extends_def seq_of_key_def)
  then show ?thesis
    using step_routing unfolding set_routing_def
    by (intro with_inbound_good [OF assms(2) _ assms(3)]) auto
next
  case (step_emit supported now in_seq kind content q)
  then show ?thesis using emit_message_good assms(3) by blast
next
  case (step_claim now n w r)
  then show ?thesis
    using assms(3) unfolding claim_def
    by (intro with_outbound_good [OF _ assms(3)]) (auto simp: session_wf_def out_wf_def)
next
  case (step_start now clock run r)
  from step_start obtain s1 q where "set_status now ''alive'' (Some run) s = (s1, q)"
    and "s' = s1 \<or> s' = touch_heartbeat clock s1"
    by (auto simp: start_container_def split: prod.splits sum.splits)
  with set_status_good assms(3) show ?thesis by (metis rows_heartbeat_lock(1,2) session_wf_def)
next
  case (step_stop now r)
  from step_stop obtain s1 q where "set_status now ''stopped'' None s = (s1, q)"
    and "s' = s1 \<or> s' = s1\<lparr>heartbeat := None\<rparr>"
    by (auto simp: stop_container_def split: prod.splits sum.splits)
  with set_status_good assms(3) show ?thesis by (metis in_rows_update(3,7) session_wf_def)
next
  case (step_heartbeat clock)
  with assms(3) show ?thesis by (simp add: session_wf_def)
next
  case (step_lock r)
  then have "in_rows s' = in_rows s \<and> out_rows s' = out_rows s"
    by (auto simp: acquire_lock_def split: if_splits)
  with assms(3) show ?thesis by (simp add: session_wf_def)
next
  case step_unlock
  with assms(3) show ?thesis by (simp add: session_wf_def)
next
  case (step_recover x)
  note m = migrate_outbound_rows [OF assms(2) step_recover]
  from m(2) have "in_rows s' = in_rows s" by auto
  with m(1) assms(3) show ?thesis by (simp add: session_wf_def)
next
  case (step_cleanup c)
  then show ?thesis
    using assms(3) unfolding cleanup_stale_acks_def
    by (intro with_outbound_good [OF _ assms(3)])
      (auto simp: session_wf_def out_wf_def primary_key_def [of _ "[]"])
next
  case (step_meta now k v r)
  then show ?thesis
    using assms(3) kv_store.ok_put unfolding write_recovery_meta_def
    by (intro with_outbound_good [OF _ assms(3)]) (auto simp: session_wf_def out_wf_def)
qed

lemma session_steps_keep:
  assumes "session_steps env s s'" and "additive_env env" and "session_wf s"
  shows "session_wf s' \<and> in_extends (in_rows s) (in_rows s')"
  using assms(1)
proof (induction rule: rtranclp_induct)
  case base
  with assms(3) show ?case by simp
next
  case (step t u)
  with session_step_keeps [OF step.hyps(2) assms(2)] show ?case
    using in_extends_trans by blast
qed

lemma empty_session_wf: "session_wf empty_session"
  by (simp add: session_wf_def empty_session_def in_rows_def out_rows_def)

lemma reachable_wf: "additive_env env \<Longrightarrow> session_steps env empty_session s \<Longrightarrow> session_wf s"
  using session_steps_keep empty_session_wf by blast

section \<open>Opened databases stay open to the host\<close>

definition inbound_ready :: "session_env \<Rightarrow> session \<Rightarrow> bool" where
  "inbound_ready env s \<longleftrightarrow>
     (case inbound_db s of
        None \<Rightarrow> False
      | Some db \<Rightarrow> up_to_date (env_sha env) inbound_migrations db)"

lemma open_inbound_makes_ready:
  assumes "open_inbound env s = (s', Inr db)"
  shows "inbound_ready env s' \<and> inbound_db s' = Some db"
  using assms lazy_migrate_up_to_date
  by (auto simp: open_inbound_def inbound_ready_def split: prod.splits sum.splits)

lemma open_inbound_ready:
  assumes "inbound_ready env s"
  obtains db where "open_inbound env s = (s, Inr db)" "inbound_db s = Some db" "in_rows s = rows db"
    "up_to_date (env_sha env) inbound_migrations db"
proof -
  from assms obtain db where db: "inbound_db s = Some db"
    and upd: "up_to_date (env_sha env) inbound_migrations db"
    by (auto simp: inbound_ready_def split: option.splits)
  from upd have "lazy_migrate (env_sha env) (env_exec_in env) Inbound inbound_migrations db = (db, Inr [])"
    using up_to_date_noop [of Inbound inbound_migrations] check_sequence_shipped [of Inbound] by simp
  with db have "open_inbound env s = (s, Inr db)"
    by (simp add: open_inbound_def open_read_write_def)
  with db upd that show ?thesis by (simp add: in_rows_def)
qed

lemma with_inbound_ready:
  assumes "inbound_ready env s" and "f (in_rows s) = (in_rows s, r)"
  shows "with_inbound env f s = (s, r)"
  using assms(2)
  by (cases rule: open_inbound_ready [OF assms(1)]) (auto simp: with_inbound_def)

lemma with_inbound_keeps_ready:
  assumes "with_inbound env f s = (s', r)" and "inbound_ready env s"
  shows "inbound_ready env s'"
  using assms(1)
  by (cases rule: open_inbound_ready [OF assms(2)])
    (auto simp: with_inbound_def inbound_ready_def split: prod.splits)

lemma with_inbound_Inr_ready:
  assumes "with_inbound env f s = (s', Inr x)"
  shows "inbound_ready env s'"
proof (cases "open_inbound env s")
  case (Pair s1 q)
  with assms obtain db where q: "q = Inr db" by (cases q) (auto simp: with_inbound_def)
  from open_inbound_makes_ready [of env s s1 db] Pair q have "inbound_ready env s1" and "inbound_db s1 = Some db"
    by auto
  with assms Pair q show ?thesis
    by (auto simp: with_inbound_def inbound_ready_def split: prod.splits)
qed

lemma inbound_ready_cong: "inbound_db s' = inbound_db s \<Longrightarrow> inbound_ready env s' = inbound_ready env s"
  by (simp add: inbound_ready_def)

lemma with_outbound_inbound: "with_outbound f s = (s', r) \<Longrightarrow> inbound_db s' = inbound_db s"
  by (erule with_outbound_cases) auto

lemma migrate_outbound_inbound: "migrate_outbound env s = (s', r) \<Longrightarrow> inbound_db s' = inbound_db s"
  by (auto simp: migrate_outbound_def split: prod.splits sum.splits)

lemma inbound_db_heartbeat_lock [simp]:
  "inbound_db (touch_heartbeat clock s) = inbound_db s" "inbound_db (drop_lock s) = inbound_db s"
  by (simp_all add: touch_heartbeat_def drop_lock_def)

lemma emit_message_inbound:
  "emit_message supported now in_seq kind content s = (s', q) \<Longrightarrow> inbound_db s' = inbound_db s"
  using with_outbound_inbound
  by (fastforce simp: emit_message_def Let_def split: sum.splits)

lemma session_step_ready:
  assumes "session_step env s s'" and "inbound_ready env s"
  shows "inbound_ready env s'"
proof -
  obtain db where open_s: "open_inbound env s = (s, Inr db)"
    using open_inbound_ready [OF assms(2)] by metis
  consider "inbound_db s' = inbound_db s" | (host) f r where "with_inbound env f s = (s', r :: session_error + unit)"
    | (host_seq) f r where "with_inbound env f s = (s', r :: session_error + int)"
    using assms(1)
  proof cases
    case (step_init now r)
    with open_s have "inbound_db s' = inbound_db s"
      by (auto simp: init_session_def Let_def dest!: migrate_outbound_inbound split: prod.splits sum.splits)
    then show ?thesis by (rule that(1))
  next
    case (step_migrate r)
    with open_s have "inbound_db s' = inbound_db s"
      by (auto simp: migrate_session_def dest!: migrate_outbound_inbound split: prod.splits sum.splits)
    then show ?thesis by (rule that(1))
  next
    case (step_start now clock run r)
    then have "inbound_db s' = inbound_db s"
      by (auto simp: start_container_def set_status_def dest!: with_outbound_inbound
          split: prod.splits sum.splits)
    then show ?thesis by (rule that(1))
  next
    case (step_stop now r)
    then have "inbound_db s' = inbound_db s"
      by (auto simp: stop_container_def set_status_def dest!: with_outbound_inbound
          split: prod.splits sum.splits)
    then show ?thesis by (rule that(1))
  next
    case (step_lock r)
    then have "inbound_db s' = inbound_db s" by (auto simp: acquire_lock_def split: if_splits)
    then show ?thesis by (rule that(1))
  next
    case (step_emit supported now in_seq kind content q)
    then show ?thesis using emit_message_inbound that(1) by blast
  next
    case (step_recover x)
    then show ?thesis using migrate_outbound_inbound that(1) by blast
  qed (use that in \<open>auto simp: enqueue_inbound_keyed_def upsert_inbound_meta_def mark_delivered_def
      max_delivered_seq_def set_destinations_def set_routing_def claim_def cleanup_stale_acks_def
      write_recovery_meta_def dest: with_outbound_inbound\<close>)
  then show ?thesis
  proof cases
    case 1
    with assms(2) show ?thesis by (simp add: inbound_ready_def)
  next
    case host
    then show ?thesis by (rule with_inbound_keeps_ready [OF _ assms(2)])
  next
    case host_seq
    then show ?thesis by (rule with_inbound_keeps_ready [OF _ assms(2)])
  qed
qed

lemma session_steps_ready:
  "session_steps env s s' \<Longrightarrow> inbound_ready env s \<Longrightarrow> inbound_ready env s'"
  by (induction rule: rtranclp_induct) (auto intro: session_step_ready)

section \<open>Properties\<close>

text \<open>A concrete environment for the witnesses: DDL leaves the rows of a database as they are.\<close>

definition plain_env :: session_env where
  "plain_env = \<lparr>env_sha = (\<lambda>_. []), env_exec_in = (\<lambda>_ t. Some t), env_exec_out = (\<lambda>_ t. Some t)\<rparr>"

lemma plain_env_additive: "additive_env plain_env"
  by (simp add: additive_env_def additive_def plain_env_def)

lemmas session_eval =
  enqueue_inbound_keyed_def with_inbound_def open_inbound_def lazy_migrate_def
  ensure_meta_def open_read_write_def fresh_db_def inbound_migrations_def outbound_migrations_def
  session_migration_of_def session_recorded_def session_apply1_def sm_checksum_def target_version_def
  set_schema_version_def enqueue_rows_def insert_message_def new_inbound_row_def seq_of_key_def
  has_key_def next_seq_def max_of_def no_in_tables_def no_out_tables_def empty_session_def plain_env_def
  hex_of_def init_session_def migrate_outbound_def set_container_state_def mark_delivered_def
  upsert_row_def

definition idle_session :: session where
  "idle_session = fst (init_session plain_env ''t'' empty_session)"

lemma idle_session_eq:
  "idle_session =
     \<lparr>inbound_db = Some \<lparr>meta_table = Some (Some \<lparr>meta_kind = ''inbound'', meta_version = 5, meta_protocol = protocol_version\<rparr>),
        migration_rows = [(1, ''inbound_base'', []), (2, ''inbound_message_edited_at'', []),
          (3, ''inbound_message_idempotency_key'', []), (4, ''inbound_message_thread_id'', []),
          (5, ''inbound_message_source_session_id'', [])],
        rows = no_in_tables\<rparr>,
      outbound_db = Some \<lparr>meta_table = Some (Some \<lparr>meta_kind = ''outbound'', meta_version = 3, meta_protocol = protocol_version\<rparr>),
        migration_rows = [(1, ''outbound_base'', []), (2, ''outbound_message_edited_at'', []),
          (3, ''outbound_message_in_seq'', [])],
        rows = no_out_tables\<lparr>container_state := Some \<lparr>cs_status = ''stopped'', cs_run_id = None, cs_updated = ''t''\<rparr>\<rparr>\<rparr>,
      heartbeat = None, lock_file = False\<rparr>"
  by (simp add: idle_session_def session_eval)

lemma check_parity_Inl:
  "check_parity k expect_odd xs = Inl e \<Longrightarrow>
   \<exists>n\<in>set xs. e = SequenceParity k n \<and> sql_mod2 n \<noteq> (if expect_odd then 1 else 0)"
  by (auto simp: check_parity_def Let_def dest!: query_row_SomeD split: option.splits)

lemma sql_mod2_even: "x mod 2 = 0 \<Longrightarrow> sql_mod2 x = 0"
  by (auto simp: sql_mod2_def zmod_zminus1_eq_if)

lemma sql_mod2_odd: "x mod 2 = 1 \<Longrightarrow> 0 \<le> x \<Longrightarrow> sql_mod2 x = 1"
  by (simp add: sql_mod2_def)

lemma tables_of_Inr: "tables_of db = Inr t \<Longrightarrow> t = rows db"
  by (auto simp: tables_of_def split: if_splits)

lemma tables_of_Inl: "tables_of db = Inl e \<Longrightarrow> e = SessionSqlite"
  by (auto simp: tables_of_def split: if_splits)

lemma verify_sequence_parity_wf:
  assumes "session_wf s" and "verify_sequence_parity s = Inl (SequenceParity k n)"
  shows "k = Outbound \<and> n < 0"
proof -
  from assms(2) consider
      (inb) idb where "inbound_db s = Some idb"
        "check_parity Inbound False (map im_seq (messages_in (rows idb))) = Inl (SequenceParity k n)"
    | (outb) odb where "outbound_db s = Some odb"
        "check_parity Outbound True (map om_seq (messages_out (rows odb))) = Inl (SequenceParity k n)"
    by (auto simp: verify_sequence_parity_def open_read_only_def res_simps
        dest!: tables_of_Inr tables_of_Inl split: option.splits) (auto simp: ok_or_def split: option.splits)
  then show ?thesis
  proof cases
    case inb
    with check_parity_Inl [OF inb(2)] assms(1) show ?thesis
      by (auto simp: session_wf_def in_rows_def in_wf_def sql_mod2_even)
  next
    case outb
    from check_parity_Inl [OF outb(2)] obtain r where r: "r \<in> set (messages_out (rows odb))"
      "n = om_seq r" "k = Outbound" "sql_mod2 n \<noteq> 1" by auto
    with outb(1) assms(1) have "n mod 2 = 1"
      by (auto simp: session_wf_def out_rows_def out_wf_def)
    with sql_mod2_odd [of n] r show ?thesis by (meson not_less)
  qed
qed

text \<open>
  C6: whatever the host and the container do, in whatever order, no two messages of a session ever
  share a sequence number; and the parity check can only complain of a negative number of the
  container, which takes an overflow of the 64-bit sequence to get.
\<close>

theorem session_sequences_distinct:
  assumes "additive_env env" and "session_steps env empty_session s"
  shows "distinct (map im_seq (messages_in (in_rows s)) @ map om_seq (messages_out (out_rows s)))
    \<and> (verify_sequence_parity s = Inl (SequenceParity k n) \<longrightarrow> k = Outbound \<and> n < 0)"
proof -
  have wf: "session_wf s" using reachable_wf assms by blast
  then have "\<forall>x\<in>im_seq ` set (messages_in (in_rows s)). x mod 2 = 0"
    and "\<forall>x\<in>om_seq ` set (messages_out (out_rows s)). x mod 2 = 1"
    by (auto simp: session_wf_def in_wf_def out_wf_def)
  then have "im_seq ` set (messages_in (in_rows s)) \<inter> om_seq ` set (messages_out (out_rows s)) = {}"
    by fastforce
  with wf verify_sequence_parity_wf show ?thesis
    by (auto simp: session_wf_def in_wf_def out_wf_def primary_key_def)
qed

text \<open>In a session that was initialised, a host message and a reply: sequences 0 and 1.\<close>

theorem session_sequences_distinct_witness:
  "\<exists>s. session_steps plain_env empty_session s \<and> map im_seq (messages_in (in_rows s)) = [0] \<and>
     distinct (map im_seq (messages_in (in_rows s)) @ map om_seq (messages_out (out_rows s))) \<and>
     (verify_sequence_parity s = Inl (SequenceParity Inbound 0) \<longrightarrow> Inbound = Outbound \<and> (0::int) < 0)"
proof -
  define m where
    "m = \<lparr>msg_sender = ''u'', msg_content = ''hi'', msg_metadata = None, msg_thread = None\<rparr>"
  define s where "s = fst (enqueue_inbound_keyed plain_env ''t'' m None empty_session)"
  have seqs: "map im_seq (messages_in (in_rows s)) = [0]"
    unfolding s_def by (simp add: session_eval) (simp add: in_rows_def)
  have "session_step plain_env empty_session s"
    by (rule step_enqueue [of plain_env "''t''" m None empty_session s]) (simp add: s_def prod_eq_iff)
  then have steps: "session_steps plain_env empty_session s" by (rule r_into_rtranclp)
  note props = session_sequences_distinct [OF plain_env_additive steps, of Inbound 0]
  show ?thesis
    by (intro exI [of _ s] conjI steps seqs props [THEN conjunct1] props [THEN conjunct2])
qed

text \<open>
  C7: a keyed message is enqueued once. Once a call returned a sequence number, a later call with
  the same key, after anything the host and the container did in between and with whatever
  contents, returns the same number and leaves the session as it is.
\<close>

theorem keyed_enqueue_idempotent:
  assumes "additive_env env" and "session_steps env empty_session s"
    and "enqueue_inbound_keyed env now m (Some k) s = (s1, Inr n)"
    and "session_steps env s1 s2"
  shows "enqueue_inbound_keyed env now' m' (Some k) s2 = (s2, Inr n)"
proof -
  have wf: "session_wf s" using reachable_wf assms by blast
  have step: "session_step env s s1" using assms(3) by (rule step_enqueue)
  then have wf1: "session_wf s1" using session_step_keeps assms(1) wf by blast
  have "inbound_ready env s2"
    using with_inbound_Inr_ready [OF assms(3) [unfolded enqueue_inbound_keyed_def]]
      session_steps_ready [OF assms(4)] by blast
  moreover have "seq_of_key k (in_rows s2) = Some n"
  proof -
    have "enqueue_rows now m (Some k) (in_rows s) = (in_rows s1, Inr n)"
      using assms(3) unfolding enqueue_inbound_keyed_def
      by (cases rule: with_inbound_cases [OF assms(1)]) auto
    then have "seq_of_key k (in_rows s1) = Some n" by (rule enqueue_rows_found)
    with session_steps_keep [OF assms(4,1) wf1] show ?thesis by (simp add: in_extends_def)
  qed
  ultimately show ?thesis
    unfolding enqueue_inbound_keyed_def by (intro with_inbound_ready) (simp_all add: enqueue_rows_def)
qed

theorem keyed_enqueue_idempotent_witness:
  "\<exists>s1. enqueue_inbound_keyed plain_env ''t''
       \<lparr>msg_sender = ''u'', msg_content = ''hi'', msg_metadata = None, msg_thread = None\<rparr> (Some ''k'')
       empty_session = (s1, Inr 0) \<and>
     enqueue_inbound_keyed plain_env ''later''
       \<lparr>msg_sender = ''v'', msg_content = ''other'', msg_metadata = None, msg_thread = None\<rparr> (Some ''k'')
       (drop_lock s1) = (drop_lock s1, Inr 0)"
proof -
  define m where
    "m = \<lparr>msg_sender = ''u'', msg_content = ''hi'', msg_metadata = None, msg_thread = None\<rparr>"
  define s1 where "s1 = fst (enqueue_inbound_keyed plain_env ''t'' m (Some ''k'') empty_session)"
  have first: "enqueue_inbound_keyed plain_env ''t'' m (Some ''k'') empty_session = (s1, Inr 0)"
    by (simp add: s1_def session_eval)
  have "session_steps plain_env s1 (drop_lock s1)" by (blast intro: step_unlock)
  with keyed_enqueue_idempotent [OF plain_env_additive rtranclp.rtrancl_refl first] first
  show ?thesis unfolding m_def by blast
qed

text \<open>
  the delivery mark survives a restart of the host and is never taken back. After a reply was
  marked delivered, whatever happens next, reading the mark succeeds, changes nothing and gives at
  least that reply's number.
\<close>

theorem delivered_mark_monotone:
  assumes "additive_env env" and "session_steps env empty_session s"
    and "mark_delivered env now n s = (s1, Inr ())" and "session_steps env s1 s2"
  shows "\<exists>w. max_delivered_seq env s2 = (s2, Inr w) \<and> n \<le> w"
proof -
  define w where
    "w = (case max_of (map fst (delivered (in_rows s2))) of None \<Rightarrow> 0 | Some m \<Rightarrow> m)"
  have wf: "session_wf s" using reachable_wf assms by blast
  have "session_step env s s1" using assms(3) by (rule step_delivered)
  then have wf1: "session_wf s1" using session_step_keeps assms(1) wf by blast
  have "n \<in> fst ` set (delivered (in_rows s1))"
    using assms(3) unfolding mark_delivered_def
    by (cases rule: with_inbound_cases [OF assms(1)]) (auto simp: upsert_row_keys dest!: sym [of _ "in_rows s1"])
  then have n: "n \<in> set (map fst (delivered (in_rows s2)))"
    using session_steps_keep [OF assms(4,1) wf1] by (auto simp: in_extends_def)
  then obtain m where m: "max_of (map fst (delivered (in_rows s2))) = Some m"
    by (cases "max_of (map fst (delivered (in_rows s2)))") auto
  with n max_of_Some [OF m] have "n \<le> w" by (auto simp: w_def)
  moreover have "inbound_ready env s2"
    using with_inbound_Inr_ready [OF assms(3) [unfolded mark_delivered_def]] session_steps_ready [OF assms(4)]
    by blast
  then have "max_delivered_seq env s2 = (s2, Inr w)"
    unfolding max_delivered_seq_def by (rule with_inbound_ready) (simp add: w_def)
  ultimately show ?thesis by blast
qed

theorem delivered_mark_monotone_witness:
  "\<exists>s1 w. mark_delivered plain_env ''t'' 3 empty_session = (s1, Inr ()) \<and>
     max_delivered_seq plain_env (touch_heartbeat 7 s1) = (touch_heartbeat 7 s1, Inr w) \<and> 3 \<le> w"
proof -
  define s1 where "s1 = fst (mark_delivered plain_env ''t'' 3 empty_session)"
  have "mark_delivered plain_env ''t'' 3 empty_session = (s1, Inr ())"
    by (simp add: s1_def session_eval)
  moreover have "session_steps plain_env s1 (touch_heartbeat 7 s1)" by (blast intro: step_heartbeat)
  ultimately show ?thesis
    using delivered_mark_monotone [OF plain_env_additive rtranclp.rtrancl_refl,
        of "''t''" 3 s1 "touch_heartbeat 7 s1"] by fast
qed

text \<open>
  C8: recovery opens \<open>outbound.db\<close> for writing only when no container is alive, and under the
  lock: an open that succeeds found the lock free, saw no sign of life before and after taking it,
  leaves it taken and the schema at the shipped version with its rows unchanged; a second open then
  fails until the lock is released, and an open that fails after the first check does not keep it.
\<close>

theorem recovery_exclusive:
  assumes "additive_env env"
    and "open_outbound_recovery env ttl clock clock' before after s = (s', r)"
    and "\<And>x. lock_file (after x) = lock_file x"
  shows "case r of
      Inr _ \<Rightarrow> \<not> lock_file (before s) \<and> lock_file s'
        \<and> container_liveness ttl clock s = Stopped
        \<and> container_liveness ttl clock' (after (before s\<lparr>lock_file := True\<rparr>)) = Stopped
        \<and> out_rows s' = out_rows (after (before s\<lparr>lock_file := True\<rparr>))
        \<and> map_option schema_version (outbound_db s') = Some (Inr current_outbound_version)
        \<and> (\<exists>e. snd (open_outbound_recovery env ttl c c' (\<lambda>x. x) g s') = Inl e)
    | Inl e \<Rightarrow> s' = s \<and> container_liveness ttl clock s = Alive \<or> lock_file s' = lock_file (before s)"
proof (cases "container_liveness ttl clock s = Alive")
  case True
  with assms(2) show ?thesis by (auto simp: open_outbound_recovery_def)
next
  case stopped: False
  show ?thesis
  proof (cases "lock_file (before s)")
    case True
    with stopped assms(2) show ?thesis by (auto simp: open_outbound_recovery_def acquire_lock_def)
  next
    case free: False
    define s2 where "s2 = after (before s\<lparr>lock_file := True\<rparr>)"
    have lock2: "lock_file s2" using assms(3) [of "before s\<lparr>lock_file := True\<rparr>"] by (simp add: s2_def)
    show ?thesis
    proof (cases "container_liveness ttl clock' s2")
      case Alive
      with stopped free assms(2) show ?thesis
        by (auto simp: open_outbound_recovery_def acquire_lock_def s2_def [symmetric] Let_def drop_lock_def)
    next
      case Stopped
      obtain s3 q where m: "migrate_outbound env s2 = (s3, q)" by (cases "migrate_outbound env s2")
      note m_rows = migrate_outbound_rows [OF assms(1) m]
      from m_rows(2) lock2 have lock3: "lock_file s3" by auto
      show ?thesis
      proof (cases q)
        case (Inl e)
        with m Stopped stopped free assms(2) show ?thesis
          by (auto simp: open_outbound_recovery_def acquire_lock_def s2_def [symmetric] Let_def drop_lock_def)
      next
        case (Inr db)
        with m Stopped stopped free assms(2) have r: "r = Inr ()" and s': "s' = s3"
          by (auto simp: open_outbound_recovery_def acquire_lock_def s2_def [symmetric] Let_def)
        have "schema_version db = Inr current_outbound_version"
          using m Inr lazy_migrate_version [of "env_sha env" "env_exec_out env" Outbound outbound_migrations]
          by (auto simp: migrate_outbound_def current_outbound_version_def outbound_migrations_def
              split: prod.splits sum.splits)
        with m_rows(3) [OF Inr] have "map_option schema_version (outbound_db s3) = Some (Inr current_outbound_version)"
          by simp
        moreover have "\<exists>e. snd (open_outbound_recovery env ttl c c' (\<lambda>x. x) g s3) = Inl e"
          using lock3 by (simp add: open_outbound_recovery_def acquire_lock_def)
        moreover have "container_liveness ttl clock s = Stopped" using stopped by (cases "container_liveness ttl clock s") auto
        ultimately show ?thesis
          using r s' free lock3 Stopped m_rows(1) by (simp add: s2_def)
      qed
    qed
  qed
qed

theorem recovery_exclusive_witness:
  "\<exists>s'. open_outbound_recovery plain_env 30 100 101 (touch_heartbeat 5) (\<lambda>s. s) idle_session = (s', Inr ())
     \<and> lock_file s'
     \<and> (\<exists>e. snd (open_outbound_recovery plain_env 30 102 103 (\<lambda>x. x) (\<lambda>x. x) s') = Inl e)"
proof -
  obtain s' r where o: "open_outbound_recovery plain_env 30 100 101 (touch_heartbeat 5) (\<lambda>s. s) idle_session = (s', r)"
    by (cases "open_outbound_recovery plain_env 30 100 101 (touch_heartbeat 5) (\<lambda>s. s) idle_session")
  have "r = Inr ()"
    using o unfolding idle_session_eq
    by (simp add: session_eval open_outbound_recovery_def container_liveness_def heartbeat_fresh_def
        container_state_alive_def tables_of_def touch_heartbeat_def acquire_lock_def Let_def)
  with recovery_exclusive [OF plain_env_additive o, of 102 103 "\<lambda>x. x"] o show ?thesis by auto
qed

lemma sort_key_append_max:
  "(\<And>y. y \<in> set xs \<Longrightarrow> f y \<le> f x) \<Longrightarrow> sort_key f (xs @ [x]) = sort_key f xs @ [x]"
proof (rule properties_for_sort_key)
  fix k
  assume "k \<in> set (sort_key f xs @ [x])"
  show "filter (\<lambda>y. f k = f y) (sort_key f xs @ [x]) = filter (\<lambda>y. f k = f y) (xs @ [x])"
    by (simp add: sort_key_stable eq_commute [of "f k"])
qed (auto simp: sorted_append)

lemma read_outbound_rows:
  "read_outbound supported s = Inr ms \<Longrightarrow> ms = sort_key om_seq (messages_out (out_rows s))"
  by (auto simp: read_outbound_def open_outbound_read_def open_read_only_def out_rows_def res_simps
      dest!: tables_of_Inr)

lemma schema_version_rows [simp]: "schema_version (db\<lparr>rows := t\<rparr>) = schema_version db"
  by (simp add: schema_version_def)

lemma tables_of_rows: "tables_of (db\<lparr>rows := t\<rparr>) = map_sum id (\<lambda>_. t) (tables_of db)"
  by (simp add: tables_of_def session_recorded_def)

text \<open>
  the host reads the container's messages once each in ascending order of their odd sequences;
  and a message the container emits is the last of the next read, with the rest as before.
\<close>

theorem emitted_message_is_read_last:
  assumes "additive_env env" and "session_steps env empty_session s"
    and "read_outbound supported s = Inr ms"
    and "emit_message supported now in_seq kind content s = (s', Inr n)"
    and "seq_room (map om_seq ms)"
  shows "read_outbound supported s' = Inr (ms @ [\<lparr>om_seq = n, om_kind = kind, om_content = content,
      om_metadata = None, om_in_seq = in_seq, om_created = now\<rparr>])
    \<and> sorted_wrt (<) (map om_seq ms @ [n]) \<and> (\<forall>x\<in>set (map om_seq ms @ [n]). odd x)"
proof -
  define new where "new = \<lparr>om_seq = n, om_kind = kind, om_content = content,
      om_metadata = None, om_in_seq = in_seq, om_created = now\<rparr>"
  have wf: "session_wf s" using reachable_wf assms(1,2) by blast
  have ms: "ms = sort_key om_seq (messages_out (out_rows s))"
    using assms(3) by (rule read_outbound_rows)
  obtain db where db: "outbound_db s = Some db" "tables_of db = Inr (rows db)"
    "open_outbound_read supported s = Inr db"
    using assms(3)
    by (auto simp: read_outbound_def open_outbound_read_def open_read_only_def res_simps dest: tables_of_Inr)
  have emit: "emit_rows now in_seq kind content (rows db) = (rows db\<lparr>messages_out := messages_out (rows db) @ [new]\<rparr>, Inr n)"
    and s': "s' = s\<lparr>outbound_db := Some (db\<lparr>rows := rows db\<lparr>messages_out := messages_out (rows db) @ [new]\<rparr>\<rparr>)\<rparr>"
    and n: "n = next_seq True (map om_seq (messages_out (rows db)))"
    using assms(4) db
    by (auto simp: emit_message_def with_outbound_def open_read_write_def emit_rows_def Let_def new_def
        split: sum.splits if_splits)
  have rows_s: "out_rows s = rows db" using db by (simp add: out_rows_def)
  have "seq_room (map om_seq (messages_out (rows db)))"
    using assms(5) by (auto simp: ms rows_s seq_room_def)
  then have above: "om_seq r < n" if "r \<in> set (messages_out (rows db))" for r
    using container_seq.alloc_above that unfolding n by auto
  have "read_outbound supported s' = Inr (sort_key om_seq (messages_out (rows db) @ [new]))"
    using db tables_of_rows [of "rows db\<lparr>messages_out := messages_out (rows db) @ [new]\<rparr>" db]
    by (auto simp: s' read_outbound_def open_outbound_read_def open_read_only_def rbind_Inr_iff ok_or_Inr_iff)
  also have "sort_key om_seq (messages_out (rows db) @ [new]) = ms @ [new]"
    using above less_imp_le by (subst sort_key_append_max) (auto simp: ms rows_s new_def)
  finally have read: "read_outbound supported s' = Inr (ms @ [new])" .
  have dist: "distinct (map om_seq ms)"
    using wf by (simp add: ms session_wf_def out_wf_def primary_key_def distinct_map)
  have "sorted_wrt (<) (map om_seq ms)"
    using dist ms by (simp add: strict_sorted_iff)
  moreover have "odd n"
    using wf container_seq.alloc_parity [of "map om_seq (messages_out (rows db))"]
    by (auto simp: n session_wf_def out_wf_def rows_s odd_iff_mod_2_eq_one)
  moreover have "\<forall>r\<in>set ms. om_seq r < n \<and> odd (om_seq r)"
    using wf above by (auto simp: ms rows_s session_wf_def out_wf_def odd_iff_mod_2_eq_one)
  ultimately show ?thesis
    using read by (auto simp: new_def sorted_wrt_append)
qed

theorem emitted_message_is_read_last_witness:
  "\<exists>s'. emit_message current_outbound_compat ''t'' (Some 0) ''reply'' ''hello'' idle_session = (s', Inr 1) \<and>
     read_outbound current_outbound_compat s' = Inr [\<lparr>om_seq = 1, om_kind = ''reply'',
       om_content = ''hello'', om_metadata = None, om_in_seq = Some 0, om_created = ''t''\<rparr>]"
proof -
  let ?emit = "emit_message current_outbound_compat ''t'' (Some 0) ''reply'' ''hello'' idle_session"
  have "session_step plain_env empty_session idle_session"
    by (rule step_init [of plain_env "''t''" empty_session idle_session "snd (init_session plain_env ''t'' empty_session)"])
      (simp add: idle_session_def)
  then have reach: "session_steps plain_env empty_session idle_session" by (rule r_into_rtranclp)
  have read: "read_outbound current_outbound_compat idle_session = Inr []"
    by (simp add: idle_session_eq read_outbound_def open_outbound_read_def open_read_only_def schema_version_def
        check_runner_compatibility_def supports_def current_outbound_compat_def exact_compat_def
        current_outbound_version_def tables_of_def session_recorded_def no_out_tables_def)
  have emitted: "?emit = (fst ?emit, Inr 1)"
    by (simp add: idle_session_eq emit_message_def open_read_write_def schema_version_def
        check_runner_compatibility_def supports_def current_outbound_compat_def exact_compat_def
        current_outbound_version_def tables_of_def session_recorded_def no_out_tables_def
        with_outbound_def emit_rows_def next_seq_def max_of_def has_key_def Let_def)
  have room: "seq_room (map om_seq [])" by (simp add: seq_room_def)
  from emitted_message_is_read_last [OF plain_env_additive reach read emitted room] emitted
  show ?thesis by auto
qed

end
