(* ===== verification/Schedule_Store.thy ===== *)
theory Schedule_Store
  imports Schedule_Model Session_Steps
begin

text \<open>
  The central index of scheduled work and its source of truth: \<open>projection.rs\<close>, \<open>lease.rs\<close>,
  \<open>repair.rs\<close>, \<open>source.rs\<close> and \<open>readiness.rs\<close> of \<open>crates/assistant-scheduler\<close>, with the transaction
  \<open>finalize_firing\<close> of \<open>crates/assistant-host/src/slack.rs\<close>. Statuses and times are kept in the
  columns as the text the code writes; JSON (\<open>serde_json\<close>) is the record parameter \<open>codec\<close>. An
  occurrence's sequence is a natural number (2^63 firings are out of reach).
\<close>

section \<open>Rows\<close>

record sched_codec =
  rec_to_json :: "recurrence \<Rightarrow> string option"
  rec_from_json :: "string \<Rightarrow> recurrence option"
  vols_to_json :: "string list \<Rightarrow> string option"
  vols_from_json :: "string \<Rightarrow> string list option"
  meta_to_json :: "scheduled_meta \<Rightarrow> string option"
  meta_from_json :: "string \<Rightarrow> scheduled_meta option"

text \<open>What the code relies on: a value serialises, and its text parses back to it.\<close>

definition rec_serialises :: "sched_codec \<Rightarrow> recurrence \<Rightarrow> bool" where
  "rec_serialises j r \<longleftrightarrow>
     (case rec_to_json j r of None \<Rightarrow> False | Some s \<Rightarrow> rec_from_json j s = Some r)"

definition vols_serialise :: "sched_codec \<Rightarrow> string list \<Rightarrow> bool" where
  "vols_serialise j vs \<longleftrightarrow>
     (case vols_to_json j vs of None \<Rightarrow> False | Some s \<Rightarrow> vols_from_json j s = Some vs)"

definition item_serialises :: "sched_codec \<Rightarrow> scheduled_meta \<Rightarrow> bool" where
  "item_serialises j m \<longleftrightarrow>
     (case item_recurrence m of None \<Rightarrow> True | Some r \<Rightarrow> rec_serialises j r) \<and>
     vols_serialise j (gate_volumes m)"

definition meta_serialises :: "sched_codec \<Rightarrow> scheduled_meta \<Rightarrow> bool" where
  "meta_serialises j m \<longleftrightarrow>
     (case meta_to_json j m of None \<Rightarrow> False | Some s \<Rightarrow> meta_from_json j s = Some m)"

datatype projection_error =
    ProjSqlite
  | ProjJson
  | ProjUnknownEnum string string

record item_row =
  ir_id :: string
  ir_group :: int
  ir_session :: "string option"
  ir_intent :: string
  ir_process_after :: "string option"
  ir_recurrence :: "string option"
  ir_status :: string
  ir_revision :: nat
  ir_gate_command :: "string option"
  ir_gate_onecli_agent :: "string option"
  ir_gate_volumes :: "string option"
  ir_gate_image :: "string option"
  ir_run_as :: "string option"

record occ_row =
  or_item :: string
  or_seq :: nat
  or_key :: string
  or_scheduled_for :: "int option"
  or_fired_at :: "string option"
  or_status :: string
  or_owner :: "string option"
  or_expires :: "int option"
  or_attempt :: nat

record run_row =
  rr_id :: string
  rr_message :: "string option"

record sched_db =
  items :: "item_row list"
  occs :: "occ_row list"
  runs :: "run_row list"

definition occ_key :: "occ_row \<Rightarrow> string \<times> nat" where
  "occ_key r = (or_item r, or_seq r)"

datatype occurrence_status = OccPending | OccFired

fun occurrence_status_str :: "occurrence_status \<Rightarrow> string" where
  "occurrence_status_str OccPending = ''pending''"
| "occurrence_status_str OccFired = ''fired''"

definition parse_occurrence_status :: "string \<Rightarrow> occurrence_status option" where
  "parse_occurrence_status s =
     (if s = ''pending'' then Some OccPending else if s = ''fired'' then Some OccFired else None)"

interpretation occurrence_status_text: text_enum occurrence_status_str parse_occurrence_status
proof
  show "parse_occurrence_status (occurrence_status_str x) = Some x" for x
    by (cases x) (simp_all add: parse_occurrence_status_def)
  show "parse_occurrence_status s = Some x \<Longrightarrow> s = occurrence_status_str x" for s x
    by (auto simp: parse_occurrence_status_def split: if_splits)
qed

section \<open>The projection\<close>

definition put_item :: "item_row \<Rightarrow> item_row list \<Rightarrow> item_row list" where
  "put_item = upsert_row ir_id (\<lambda>_ r. r)"

definition get_item :: "item_row list \<Rightarrow> string \<Rightarrow> item_row option" where
  "get_item t i = query_row (\<lambda>r. ir_id r = i) t"

interpretation item_store: overwriting_store get_item put_item ir_id "\<lambda>_ r. r" "primary_key ir_id"
proof
  show "primary_key ir_id t \<Longrightarrow> primary_key ir_id (put_item r t)" for t r
    by (simp add: put_item_def)
  show "get_item (put_item r t) k = (if k = ir_id r then Some r else get_item t k)" for r t k
    by (auto simp: get_item_def put_item_def query_row_upsert_row split: option.splits)
qed simp_all

definition recurrence_column :: "sched_codec \<Rightarrow> recurrence option \<Rightarrow> projection_error + string option" where
  "recurrence_column j rec =
     (case rec of
        None \<Rightarrow> Inr None
      | Some r \<Rightarrow> map_sum id Some (ok_or ProjJson (rec_to_json j r)))"

definition volumes_column :: "sched_codec \<Rightarrow> string list \<Rightarrow> projection_error + string option" where
  "volumes_column j vs =
     (if vs = [] then Inr None else map_sum id Some (ok_or ProjJson (vols_to_json j vs)))"

definition project_meta ::
  "sched_codec \<Rightarrow> scheduled_meta \<Rightarrow> string option \<Rightarrow> projection_error + item_row" where
  "project_meta j m session_id =
     (case recurrence_column j (item_recurrence m) of
        Inl e \<Rightarrow> Inl e
      | Inr rec \<Rightarrow>
          (case volumes_column j (gate_volumes m) of
             Inl e \<Rightarrow> Inl e
           | Inr vols \<Rightarrow> Inr
               \<lparr>ir_id = scheduled_item_id m, ir_group = agent_group_id m, ir_session = session_id,
                ir_intent = summary (intent m), ir_process_after = Some (dec_of_int (process_after m)),
                ir_recurrence = rec, ir_status = schedule_status_str (status m),
                ir_revision = revision m, ir_gate_command = gate_command m,
                ir_gate_onecli_agent = gate_onecli_agent m, ir_gate_volumes = vols,
                ir_gate_image = gate_image m, ir_run_as = run_as m\<rparr>))"

definition upsert_item ::
  "sched_codec \<Rightarrow> scheduled_meta \<Rightarrow> string option \<Rightarrow> sched_db \<Rightarrow> sched_db \<times> (projection_error + unit)" where
  "upsert_item j m session_id db =
     (case project_meta j m session_id of
        Inl e \<Rightarrow> (db, Inl e)
      | Inr row \<Rightarrow> (db\<lparr>items := put_item row (items db)\<rparr>, Inr ()))"

definition upsert_occurrence ::
  "occurrence \<Rightarrow> occurrence_status \<Rightarrow> int option \<Rightarrow> sched_db \<Rightarrow> sched_db" where
  "upsert_occurrence occ st fired_at db =
     db\<lparr>occs := upsert_row occ_key
          (\<lambda>old r. old\<lparr>or_key := or_key r, or_scheduled_for := or_scheduled_for r,
             or_fired_at := or_fired_at r, or_status := or_status r\<rparr>)
          \<lparr>or_item = occ_item_id occ, or_seq = occ_sequence occ, or_key = occ_idempotency_key occ,
           or_scheduled_for = Some (occ_scheduled_for occ), or_fired_at = map_option dec_of_int fired_at,
           or_status = occurrence_status_str st, or_owner = None, or_expires = None, or_attempt = 0\<rparr>
          (occs db)\<rparr>"

definition advance_recurrence :: "string \<Rightarrow> int \<Rightarrow> sched_db \<Rightarrow> sched_db" where
  "advance_recurrence i next_time db =
     db\<lparr>items := update_where (\<lambda>r. ir_id r = i)
          (\<lambda>r. r\<lparr>ir_process_after := Some (dec_of_int next_time)\<rparr>) (items db)\<rparr>"

definition set_item_status :: "string list \<Rightarrow> string \<Rightarrow> string \<Rightarrow> sched_db \<Rightarrow> sched_db" where
  "set_item_status from_states to_state i db =
     db\<lparr>items := update_where (\<lambda>r. ir_id r = i \<and> ir_status r \<in> set from_states)
          (\<lambda>r. r\<lparr>ir_status := to_state\<rparr>) (items db)\<rparr>"

definition complete_item :: "string \<Rightarrow> sched_db \<Rightarrow> sched_db" where
  "complete_item = set_item_status [''active''] ''completed''"

definition cancel_item :: "string \<Rightarrow> sched_db \<Rightarrow> sched_db" where
  "cancel_item = set_item_status [''active'', ''paused''] ''cancelled''"

definition pause_item :: "string \<Rightarrow> sched_db \<Rightarrow> sched_db" where
  "pause_item = set_item_status [''active''] ''paused''"

definition resume_item :: "string \<Rightarrow> sched_db \<Rightarrow> sched_db" where
  "resume_item = set_item_status [''paused''] ''active''"

record projected_item =
  pi_id :: string
  pi_group :: int
  pi_session :: "string option"
  pi_intent :: string
  pi_process_after :: "int option"
  pi_recurrence :: "recurrence option"
  pi_status :: schedule_status
  pi_revision :: nat
  pi_gate_command :: "string option"
  pi_gate_onecli_agent :: "string option"
  pi_gate_volumes :: "string list"
  pi_gate_image :: "string option"
  pi_run_as :: "string option"

definition read_process_after :: "string option \<Rightarrow> projection_error + int option" where
  "read_process_after col =
     (case col of
        None \<Rightarrow> Inr None
      | Some s \<Rightarrow> map_sum id Some (ok_or (ProjUnknownEnum ''process_after'' s) (parse_i64 s)))"

definition read_recurrence :: "sched_codec \<Rightarrow> string option \<Rightarrow> projection_error + recurrence option" where
  "read_recurrence j col =
     (case col of None \<Rightarrow> Inr None | Some s \<Rightarrow> map_sum id Some (ok_or ProjJson (rec_from_json j s)))"

definition read_volumes :: "sched_codec \<Rightarrow> string option \<Rightarrow> projection_error + string list" where
  "read_volumes j col = (case col of None \<Rightarrow> Inr [] | Some s \<Rightarrow> ok_or ProjJson (vols_from_json j s))"

definition read_status :: "string \<Rightarrow> projection_error + schedule_status" where
  "read_status s = ok_or (ProjUnknownEnum ''status'' s) (parse_schedule_status s)"

definition row_to_item :: "sched_codec \<Rightarrow> item_row \<Rightarrow> projection_error + projected_item" where
  "row_to_item j r =
     rbind (read_process_after (ir_process_after r)) (\<lambda>pa.
     rbind (read_recurrence j (ir_recurrence r)) (\<lambda>rec.
     rbind (read_status (ir_status r)) (\<lambda>st.
     rbind (read_volumes j (ir_gate_volumes r)) (\<lambda>vols. Inr
       \<lparr>pi_id = ir_id r, pi_group = ir_group r, pi_session = ir_session r, pi_intent = ir_intent r,
        pi_process_after = pa, pi_recurrence = rec, pi_status = st, pi_revision = ir_revision r,
        pi_gate_command = ir_gate_command r, pi_gate_onecli_agent = ir_gate_onecli_agent r,
        pi_gate_volumes = vols, pi_gate_image = ir_gate_image r, pi_run_as = ir_run_as r\<rparr>))))"

text \<open>\<open>CAST(process_after AS INTEGER)\<close>; \<open>NULL\<close> sorts before every number.\<close>

definition due_time :: "item_row \<Rightarrow> int option" where
  "due_time r = map_option sql_cast_int (ir_process_after r)"

definition due_order :: "item_row \<Rightarrow> (bool \<times> int) \<times> string" where
  "due_order r = ((due_time r \<noteq> None, case due_time r of None \<Rightarrow> 0 | Some t \<Rightarrow> t), ir_id r)"

definition list_items ::
  "sched_codec \<Rightarrow> int \<Rightarrow> schedule_status option \<Rightarrow> sched_db \<Rightarrow> projection_error + projected_item list" where
  "list_items j group_id st db =
     collect_results (map (row_to_item j) (sort_key due_order
       (filter (\<lambda>r. ir_group r = group_id \<and>
          (case st of None \<Rightarrow> True | Some s \<Rightarrow> ir_status r = schedule_status_str s)) (items db))))"

definition item_status :: "string \<Rightarrow> sched_db \<Rightarrow> projection_error + schedule_status option" where
  "item_status i db =
     (case get_item (items db) i of
        None \<Rightarrow> Inr None
      | Some r \<Rightarrow> map_sum id Some (read_status (ir_status r)))"

section \<open>Leases\<close>

record lease =
  lease_occurrence :: occurrence
  lease_owner :: string
  lease_expires_at :: int
  lease_attempt :: nat

text \<open>\<open>ORDER BY ... DESC LIMIT 1\<close>.\<close>

definition row_max :: "('r \<Rightarrow> 'k::linorder) \<Rightarrow> 'r list \<Rightarrow> 'r option" where
  "row_max key rs = (case rev (sort_key key rs) of [] \<Rightarrow> None | r # _ \<Rightarrow> Some r)"

definition item_occs :: "string \<Rightarrow> sched_db \<Rightarrow> occ_row list" where
  "item_occs i db = filter (\<lambda>r. or_item r = i) (occs db)"

definition max_sequence :: "string \<Rightarrow> sched_db \<Rightarrow> nat" where
  "max_sequence i db =
     (case row_max or_seq (item_occs i db) of None \<Rightarrow> 0 | Some r \<Rightarrow> or_seq r)"

definition pending_row :: "string \<Rightarrow> sched_db \<Rightarrow> occ_row option" where
  "pending_row i db = row_max or_seq (filter (\<lambda>r. or_status r = ''pending'') (item_occs i db))"

definition already_fired :: "string \<Rightarrow> int \<Rightarrow> sched_db \<Rightarrow> bool" where
  "already_fired i t db \<longleftrightarrow>
     list_ex (\<lambda>r. or_status r = ''fired'' \<and> or_scheduled_for r = Some t) (item_occs i db)"

definition next_claimable_occurrence ::
  "(nat list \<Rightarrow> nat list) \<Rightarrow> string \<Rightarrow> int \<Rightarrow> sched_db \<Rightarrow> occurrence option" where
  "next_claimable_occurrence sha i pa db =
     (case pending_row i db of
        Some r \<Rightarrow> Some (new_occurrence sha i (or_seq r)
                          (case or_scheduled_for r of None \<Rightarrow> pa | Some t \<Rightarrow> t))
      | None \<Rightarrow>
          if already_fired i pa db then None
          else Some (new_occurrence sha i (max_sequence i db + 1) pa))"

definition new_occ_row :: "occurrence \<Rightarrow> occ_row" where
  "new_occ_row occ =
     \<lparr>or_item = occ_item_id occ, or_seq = occ_sequence occ, or_key = occ_idempotency_key occ,
      or_scheduled_for = Some (occ_scheduled_for occ), or_fired_at = None, or_status = ''pending'',
      or_owner = None, or_expires = None, or_attempt = 0\<rparr>"

definition claimable :: "occurrence \<Rightarrow> int \<Rightarrow> occ_row \<Rightarrow> bool" where
  "claimable occ now r \<longleftrightarrow>
     occ_key r = (occ_item_id occ, occ_sequence occ) \<and> or_status r = ''pending'' \<and>
     (or_owner r = None \<or> (case or_expires r of None \<Rightarrow> False | Some e \<Rightarrow> e \<le> now))"

definition acquire_lease ::
  "occurrence \<Rightarrow> string \<Rightarrow> int \<Rightarrow> int \<Rightarrow> sched_db \<Rightarrow> sched_db \<times> lease option" where
  "acquire_lease occ owner now ttl db =
     (let t1 = insert_new occ_key (new_occ_row occ) (occs db);
          expires = i64_add now ttl;
          t2 = update_where (claimable occ now)
                 (\<lambda>r. r\<lparr>or_owner := Some owner, or_expires := Some expires, or_attempt := or_attempt r + 1\<rparr>) t1
      in if count_where (claimable occ now) t1 = 0 then (db\<lparr>occs := t2\<rparr>, None)
         else (db\<lparr>occs := t2\<rparr>,
           map_option (\<lambda>r. \<lparr>lease_occurrence = occ, lease_owner = owner, lease_expires_at = expires,
               lease_attempt = or_attempt r\<rparr>)
             (query_row (\<lambda>r. occ_key r = (occ_item_id occ, occ_sequence occ)) t2)))"

definition due_items :: "int \<Rightarrow> sched_db \<Rightarrow> (string \<times> int) list" where
  "due_items now db =
     map (\<lambda>r. (ir_id r, the (due_time r)))
       (sort_key due_order
         (filter (\<lambda>r. ir_status r = ''active'' \<and>
            (case due_time r of None \<Rightarrow> False | Some t \<Rightarrow> t \<le> now)) (items db)))"

fun claim_each ::
  "(nat list \<Rightarrow> nat list) \<Rightarrow> int \<Rightarrow> string \<Rightarrow> int \<Rightarrow> (string \<times> int) list \<Rightarrow> sched_db \<Rightarrow> sched_db \<times> lease list" where
  "claim_each sha now owner ttl [] db = (db, [])"
| "claim_each sha now owner ttl ((i, pa) # due) db =
     (case next_claimable_occurrence sha i pa db of
        None \<Rightarrow> claim_each sha now owner ttl due db
      | Some occ \<Rightarrow>
          (case acquire_lease occ owner now ttl db of
             (db', None) \<Rightarrow> claim_each sha now owner ttl due db'
           | (db', Some l) \<Rightarrow>
               (case claim_each sha now owner ttl due db' of (db'', ls) \<Rightarrow> (db'', l # ls))))"

definition claim_due ::
  "(nat list \<Rightarrow> nat list) \<Rightarrow> int \<Rightarrow> string \<Rightarrow> int \<Rightarrow> sched_db \<Rightarrow> sched_db \<times> lease list" where
  "claim_due sha now owner ttl db = claim_each sha now owner ttl (due_items now db) db"

text \<open>
  The three statements of \<open>acquire_lease\<close>, each a commit of its own: the insert, the update, which
  tells how many rows it changed, and the read of the attempt counter.
\<close>

definition insert_pending :: "occurrence \<Rightarrow> sched_db \<Rightarrow> sched_db" where
  "insert_pending occ db = db\<lparr>occs := insert_new occ_key (new_occ_row occ) (occs db)\<rparr>"

definition take_lease :: "occurrence \<Rightarrow> string \<Rightarrow> int \<Rightarrow> int \<Rightarrow> sched_db \<Rightarrow> sched_db \<times> nat" where
  "take_lease occ owner now ttl db =
     (db\<lparr>occs := update_where (claimable occ now)
           (\<lambda>r. r\<lparr>or_owner := Some owner, or_expires := Some (i64_add now ttl), or_attempt := or_attempt r + 1\<rparr>)
           (occs db)\<rparr>,
      count_where (claimable occ now) (occs db))"

definition attempt_of :: "occurrence \<Rightarrow> sched_db \<Rightarrow> nat option" where
  "attempt_of occ db =
     map_option or_attempt (query_row (\<lambda>r. occ_key r = (occ_item_id occ, occ_sequence occ)) (occs db))"

definition lease_for :: "occurrence \<Rightarrow> string \<Rightarrow> int \<Rightarrow> int \<Rightarrow> nat \<Rightarrow> lease" where
  "lease_for occ owner now ttl attempt =
     \<lparr>lease_occurrence = occ, lease_owner = owner, lease_expires_at = i64_add now ttl, lease_attempt = attempt\<rparr>"

lemma acquire_lease_statements:
  "acquire_lease occ owner now ttl db =
     (case take_lease occ owner now ttl (insert_pending occ db) of
        (db', n) \<Rightarrow> (db', if n = 0 then None else map_option (lease_for occ owner now ttl) (attempt_of occ db')))"
  by (simp add: acquire_lease_def take_lease_def insert_pending_def attempt_of_def lease_for_def Let_def
      option.map_comp comp_def)

definition complete_occurrence :: "occurrence \<Rightarrow> int \<Rightarrow> sched_db \<Rightarrow> sched_db" where
  "complete_occurrence occ fired_at db =
     db\<lparr>occs := update_where (\<lambda>r. occ_key r = (occ_item_id occ, occ_sequence occ))
          (\<lambda>r. r\<lparr>or_status := ''fired'', or_fired_at := Some (dec_of_int fired_at),
                 or_owner := None, or_expires := None\<rparr>) (occs db)\<rparr>"

definition link_run_to_occurrence :: "string \<Rightarrow> occurrence \<Rightarrow> sched_db \<Rightarrow> sched_db \<times> bool" where
  "link_run_to_occurrence run_id occ db =
     (db\<lparr>runs := update_where (\<lambda>r. rr_id r = run_id)
           (\<lambda>r. r\<lparr>rr_message := Some (occ_idempotency_key occ)\<rparr>) (runs db)\<rparr>,
      0 < count_where (\<lambda>r. rr_id r = run_id) (runs db))"

definition run_for_occurrence :: "string \<Rightarrow> sched_db \<Rightarrow> string option" where
  "run_for_occurrence key db = map_option rr_id (query_row (\<lambda>r. rr_message r = Some key) (runs db))"

text \<open>The host's transaction after a turn; a panic of \<open>next_after\<close> rolls it back.\<close>

definition finalize_firing ::
  "('tz, 'd, 't, 'n) chrono \<Rightarrow> occurrence \<Rightarrow> projected_item \<Rightarrow> int \<Rightarrow> sched_db \<Rightarrow> sched_db outcome" where
  "finalize_firing c occ item now db =
     (let db1 = complete_occurrence occ now db
      in case pi_recurrence item of
           Some r \<Rightarrow>
             (case next_after c r (occ_scheduled_for occ) of
                Panic \<Rightarrow> Panic
              | Returns t \<Rightarrow> Returns (advance_recurrence (pi_id item) t db1))
         | None \<Rightarrow> Returns (complete_item (pi_id item) db1))"

section \<open>Repair\<close>

definition reconcile_item ::
  "(nat list \<Rightarrow> nat list) \<Rightarrow> sched_codec \<Rightarrow> scheduled_meta \<Rightarrow> string \<Rightarrow> sched_db
   \<Rightarrow> sched_db \<times> (projection_error + nat)" where
  "reconcile_item sha j m session_id db =
     (case upsert_item j m (Some session_id) db of
        (db1, Inl e) \<Rightarrow> (db1, Inl e)
      | (db1, Inr _) \<Rightarrow>
          (let i = scheduled_item_id m; n = occurrence_seq m;
               t1 = (if 0 < n then upsert_row occ_key (\<lambda>old _. old\<lparr>or_status := ''fired''\<rparr>)
                       \<lparr>or_item = i, or_seq = n, or_key = occurrence_idempotency_key sha i n,
                        or_scheduled_for = None, or_fired_at = None, or_status = ''fired'',
                        or_owner = None, or_expires = None, or_attempt = 0\<rparr> (occs db1)
                     else occs db1);
               phantom = (\<lambda>r. or_item r = i \<and> n < or_seq r \<and> or_status r = ''fired'')
           in (db1\<lparr>occs := update_where phantom (\<lambda>r. r\<lparr>or_status := ''pending'', or_fired_at := None\<rparr>) t1\<rparr>,
               Inr (count_where phantom t1))))"

record repair_report =
  items_reprojected :: nat
  occurrences_unfired :: nat

datatype repair_error = RepairSession session_error | RepairProjection projection_error

fun reconcile_all ::
  "(nat list \<Rightarrow> nat list) \<Rightarrow> sched_codec \<Rightarrow> string \<Rightarrow> string list \<Rightarrow> repair_report \<Rightarrow> sched_db
   \<Rightarrow> sched_db \<times> (repair_error + repair_report)" where
  "reconcile_all sha j session_id [] rep db = (db, Inr rep)"
| "reconcile_all sha j session_id (text # ts) rep db =
     (case meta_from_json j text of
        None \<Rightarrow> reconcile_all sha j session_id ts rep db
      | Some m \<Rightarrow>
          (case reconcile_item sha j m session_id db of
             (db', Inl e) \<Rightarrow> (db', Inl (RepairProjection e))
           | (db', Inr n) \<Rightarrow>
               reconcile_all sha j session_id ts
                 \<lparr>items_reprojected = items_reprojected rep + 1,
                  occurrences_unfired = occurrences_unfired rep + n\<rparr> db'))"

definition repair_session_projection ::
  "session_env \<Rightarrow> sched_codec \<Rightarrow> string \<Rightarrow> session \<Rightarrow> sched_db
   \<Rightarrow> session \<times> sched_db \<times> (repair_error + repair_report)" where
  "repair_session_projection env j session_id s db =
     (case open_inbound env s of
        (s', Inl e) \<Rightarrow> (s', db, Inl (RepairSession e))
      | (s', Inr idb) \<Rightarrow>
          (let texts = List.map_filter im_metadata (sort_key im_seq (messages_in (rows idb)))
           in case reconcile_all (env_sha env) j session_id texts
                     \<lparr>items_reprojected = 0, occurrences_unfired = 0\<rparr> db of
                (db', r) \<Rightarrow> (s', db', r)))"

section \<open>The source of truth\<close>

datatype source_error = SourceSession session_error | SourceSchedule schedule_error

definition schedule_meta_sender :: string where
  "schedule_meta_sender = ''schedule-meta''"

definition meta_idempotency_key :: "string \<Rightarrow> string" where
  "meta_idempotency_key i = ''sched-meta:'' @ i"

text \<open>
  \<open>with_retry\<close>: up to four retries after a SQLite error, then one last attempt. The operation acts
  on the session, so each attempt sees what the failed one left.
\<close>

fun with_retry :: "nat \<Rightarrow> ('s \<Rightarrow> 's \<times> (source_error + 'a)) \<Rightarrow> 's \<Rightarrow> 's \<times> (source_error + 'a)" where
  "with_retry 0 op s = op s"
| "with_retry (Suc n) op s =
     (case op s of
        (s', Inl e) \<Rightarrow>
          if e = SourceSession SessionSqlite then with_retry n op s' else (s', Inl e)
      | (s', Inr x) \<Rightarrow> (s', Inr x))"

definition write_meta ::
  "session_env \<Rightarrow> sched_codec \<Rightarrow> string \<Rightarrow> scheduled_meta \<Rightarrow> session \<Rightarrow> session \<times> (source_error + unit)" where
  "write_meta env j now m s =
     (case meta_to_json j m of
        None \<Rightarrow> (s, Inl (SourceSchedule JsonError))
      | Some text \<Rightarrow>
          with_retry 4 (\<lambda>s. case upsert_inbound_meta env now (meta_idempotency_key (scheduled_item_id m))
              \<lparr>msg_sender = schedule_meta_sender, msg_content = summary (intent m),
               msg_metadata = Some text, msg_thread = None\<rparr> s of
                (s', Inl e) \<Rightarrow> (s', Inl (SourceSession e))
              | (s', Inr _) \<Rightarrow> (s', Inr ())) s)"

text \<open>The column is read as a text: a row whose metadata is NULL is a SQLite type error.\<close>

definition metadata_of_key :: "string \<Rightarrow> in_tables \<Rightarrow> session_error + string option" where
  "metadata_of_key key t =
     (case query_row (\<lambda>r. im_key r = Some key) (messages_in t) of
        None \<Rightarrow> Inr None
      | Some r \<Rightarrow> map_sum id Some (ok_or SessionSqlite (im_metadata r)))"

definition latest_meta ::
  "session_env \<Rightarrow> sched_codec \<Rightarrow> string \<Rightarrow> session \<Rightarrow> session \<times> (source_error + scheduled_meta option)" where
  "latest_meta env j i s =
     (case with_retry 4 (\<lambda>s. case with_inbound env
            (\<lambda>t. (t, metadata_of_key (meta_idempotency_key i) t)) s of
              (s', r) \<Rightarrow> (s', map_sum SourceSession id r)) s of
        (s', Inl e) \<Rightarrow> (s', Inl e)
      | (s', Inr None) \<Rightarrow> (s', Inr None)
      | (s', Inr (Some text)) \<Rightarrow>
          (s', map_sum id Some (ok_or (SourceSchedule JsonError) (meta_from_json j text))))"

section \<open>Readiness\<close>

datatype sched_check = SchedPass | SchedFail string | SchedStuck nat | SchedSkipped string

fun is_pass :: "sched_check \<Rightarrow> bool" where
  "is_pass SchedPass = True"
| "is_pass _ = False"

fun is_blocking_failure :: "sched_check \<Rightarrow> bool" where
  "is_blocking_failure (SchedFail d) = True"
| "is_blocking_failure (SchedStuck n) = True"
| "is_blocking_failure _ = False"

definition sweep_loop_running :: "bool \<Rightarrow> sched_check" where
  "sweep_loop_running probe =
     (if probe then SchedPass else SchedFail ''scheduler sweep loop is not running'')"

definition projections_consistent :: "bool \<Rightarrow> sched_check" where
  "projections_consistent probe =
     (if probe then SchedPass
      else SchedFail ''central projection drifted from session message state; run repair'')"

definition stuck :: "int \<Rightarrow> occ_row \<Rightarrow> bool" where
  "stuck now r \<longleftrightarrow> or_status r = ''pending'' \<and> (case or_expires r of None \<Rightarrow> False | Some e \<Rightarrow> e \<le> now)"

definition no_work_stuck_past_lease :: "int \<Rightarrow> sched_db \<Rightarrow> sched_check" where
  "no_work_stuck_past_lease now db =
     (if count_where (stuck now) (occs db) = 0 then SchedPass
      else SchedStuck (count_where (stuck now) (occs db)))"

end
