(* ===== verification/Schedule_Claims.thy ===== *)
theory Schedule_Claims
  imports Schedule_Store
begin

text \<open>
  Claims of scheduled occurrences under concurrency. The statements of a sweep are separate commits,
  so other processes may act between any two of them: the step relation runs the sweeps of any number
  of processes one statement at a time. A log of the leases granted and the firings recorded states
  what happened.
\<close>

section \<open>Largest rows\<close>

lemma row_max_None [simp]: "row_max key rs = None \<longleftrightarrow> rs = []"
proof -
  have "sort_key key rs = [] \<longleftrightarrow> rs = []" by (metis length_0_conv length_sort)
  then show ?thesis by (auto simp: row_max_def split: list.splits)
qed

lemma row_max_Nil [simp]: "row_max key [] = None"
  by simp

lemma row_max_Some:
  assumes "row_max key rs = Some r"
  shows "r \<in> set rs \<and> (\<forall>x\<in>set rs. key x \<le> key r)"
proof -
  from assms obtain xs where "rev (sort_key key rs) = r # xs"
    by (auto simp: row_max_def split: list.splits)
  then have s: "sort_key key rs = rev xs @ [r]" by (metis rev.simps(2) rev_rev_ident)
  have "sorted (map key (rev xs @ [r]))" using sorted_sort_key [of key rs] by (simp add: s)
  moreover have "set rs = set (rev xs @ [r])" by (metis s set_sort)
  ultimately show ?thesis by (auto simp: sorted_append)
qed

definition seqs_of :: "string \<Rightarrow> occ_row list \<Rightarrow> nat set" where
  "seqs_of i t = {q. (i, q) \<in> occ_key ` set t}"

lemma finite_seqs_of [simp]: "finite (seqs_of i t)"
proof -
  have "seqs_of i t \<subseteq> or_seq ` set t" by (auto simp: seqs_of_def occ_key_def)
  then show ?thesis by (rule finite_subset) simp
qed

lemma max_sequence_conv: "max_sequence i db = Max (insert 0 (seqs_of i (occs db)))"
proof (cases "row_max or_seq (item_occs i db)")
  case None
  then have "seqs_of i (occs db) = {}"
    by (auto simp: seqs_of_def item_occs_def occ_key_def filter_empty_conv)
  with None show ?thesis by (simp add: max_sequence_def)
next
  case (Some r)
  from row_max_Some [OF Some] have r: "r \<in> set (occs db)" "or_item r = i"
    and le: "\<forall>x\<in>set (occs db). or_item x = i \<longrightarrow> or_seq x \<le> or_seq r"
    by (auto simp: item_occs_def)
  have "Max (insert 0 (seqs_of i (occs db))) = or_seq r"
    using r le by (intro Max_eqI) (simp, force simp: seqs_of_def occ_key_def, force simp: seqs_of_def occ_key_def)
  with Some show ?thesis by (simp add: max_sequence_def)
qed

lemma seqs_of_le_max: "q \<in> seqs_of i (occs db) \<Longrightarrow> q \<le> max_sequence i db"
  by (simp add: max_sequence_conv)

section \<open>Well-formed occurrence tables\<close>

definition row_wf :: "(nat list \<Rightarrow> nat list) \<Rightarrow> occ_row \<Rightarrow> bool" where
  "row_wf sha r \<longleftrightarrow>
     or_key r = occurrence_idempotency_key sha (or_item r) (or_seq r) \<and>
     (or_status r = ''pending'' \<or> or_status r = ''fired'') \<and> or_scheduled_for r \<noteq> None"

text \<open>Rows of one item that share their scheduled time, or are both pending, are the same row.\<close>

definition rows_apart :: "occ_row list \<Rightarrow> bool" where
  "rows_apart t \<longleftrightarrow>
     (\<forall>r\<in>set t. \<forall>r'\<in>set t. or_item r = or_item r' \<longrightarrow>
        or_scheduled_for r = or_scheduled_for r' \<or> or_status r = ''pending'' \<and> or_status r' = ''pending'' \<longrightarrow>
        occ_key r = occ_key r')"

definition occs_wf :: "(nat list \<Rightarrow> nat list) \<Rightarrow> occ_row list \<Rightarrow> bool" where
  "occs_wf sha t \<longleftrightarrow> primary_key occ_key t \<and> (\<forall>r\<in>set t. row_wf sha r) \<and> rows_apart t"

definition occ_id :: "occurrence \<Rightarrow> string \<times> nat" where
  "occ_id o' = (occ_item_id o', occ_sequence o')"

text \<open>
  A computed occurrence that has no row yet is the next of its item: nothing of the item is
  pending, its time has not been used, and its sequence is the one after the largest.
\<close>

definition fresh_cand :: "occurrence \<Rightarrow> sched_db \<Rightarrow> bool" where
  "fresh_cand o' db \<longleftrightarrow>
     (\<forall>r\<in>set (occs db). or_item r = occ_item_id o' \<longrightarrow>
        or_status r \<noteq> ''pending'' \<and> or_scheduled_for r \<noteq> Some (occ_scheduled_for o')) \<and>
     occ_sequence o' = max_sequence (occ_item_id o') db + 1"

definition cand_ok :: "(nat list \<Rightarrow> nat list) \<Rightarrow> occurrence \<Rightarrow> sched_db \<Rightarrow> bool" where
  "cand_ok sha o' db \<longleftrightarrow>
     occ_idempotency_key o' = occurrence_idempotency_key sha (occ_item_id o') (occ_sequence o') \<and>
     (has_key occ_key (occ_id o') (occs db) \<or> fresh_cand o' db)"

text \<open>Rows that only had their lease, status or firing time changed, and never back to pending.\<close>

definition keeps_row :: "(occ_row \<Rightarrow> occ_row) \<Rightarrow> bool" where
  "keeps_row f \<longleftrightarrow>
     (\<forall>r. or_item (f r) = or_item r \<and> or_seq (f r) = or_seq r \<and> or_key (f r) = or_key r \<and>
        or_scheduled_for (f r) = or_scheduled_for r \<and>
        (or_status (f r) = or_status r \<or> or_status (f r) = ''fired''))"

lemma keeps_rowD:
  "keeps_row f \<Longrightarrow> or_item (f r) = or_item r" "keeps_row f \<Longrightarrow> or_seq (f r) = or_seq r"
  "keeps_row f \<Longrightarrow> or_key (f r) = or_key r" "keeps_row f \<Longrightarrow> or_scheduled_for (f r) = or_scheduled_for r"
  "keeps_row f \<Longrightarrow> or_status (f r) = or_status r \<or> or_status (f r) = ''fired''"
  by (simp_all add: keeps_row_def)

lemma keeps_row_pending: "keeps_row f \<Longrightarrow> or_status (f r) = ''pending'' \<Longrightarrow> or_status r = ''pending''"
  unfolding keeps_row_def by (erule allE [of _ r]) auto

lemma keeps_row_update: "keeps_row f \<Longrightarrow> keeps_row (\<lambda>r. if P r then f r else r)"
  by (simp add: keeps_row_def)

lemma occ_key_keeps [simp]: "keeps_row f \<Longrightarrow> occ_key (f r) = occ_key r"
  by (simp add: keeps_row_def occ_key_def)

lemma occs_wf_map:
  assumes "keeps_row f" and "occs_wf sha t"
  shows "occs_wf sha (map f t)"
proof -
  have "row_wf sha (f r)" if "r \<in> set t" for r
  proof -
    have "row_wf sha r" using assms(2) that by (simp add: occs_wf_def)
    then show ?thesis
      using keeps_rowD [OF assms(1), of r] unfolding row_wf_def by metis
  qed
  moreover have "rows_apart (map f t)"
    unfolding rows_apart_def
  proof (intro ballI impI)
    fix x y
    assume "x \<in> set (map f t)" "y \<in> set (map f t)" and item: "or_item x = or_item y"
      and same: "or_scheduled_for x = or_scheduled_for y \<or> or_status x = ''pending'' \<and> or_status y = ''pending''"
    then obtain r r' where r: "r \<in> set t" "x = f r" and r': "r' \<in> set t" "y = f r'" by auto
    have sf: "or_scheduled_for x = or_scheduled_for r" "or_scheduled_for y = or_scheduled_for r'"
      using r r' keeps_rowD(4) [OF assms(1)] by simp_all
    have st: "or_status x = ''pending'' \<Longrightarrow> or_status r = ''pending''"
      "or_status y = ''pending'' \<Longrightarrow> or_status r' = ''pending''"
      unfolding r(2) r'(2) by (rule keeps_row_pending [OF assms(1)], assumption)+
    have "or_scheduled_for r = or_scheduled_for r' \<or> or_status r = ''pending'' \<and> or_status r' = ''pending''"
      using same st unfolding sf by blast
    moreover have "or_item r = or_item r'" using item r r' keeps_rowD(1) [OF assms(1)] by simp
    ultimately have "occ_key r = occ_key r'"
      using assms(2) r(1) r'(1) unfolding occs_wf_def rows_apart_def by blast
    then show "occ_key x = occ_key y" using r(2) r'(2) assms(1) by simp
  qed
  ultimately show ?thesis
    using assms by (simp add: occs_wf_def primary_key_def o_def)
qed

lemma seqs_of_map [simp]: "keeps_row f \<Longrightarrow> seqs_of i (map f t) = seqs_of i t"
  by (auto simp: seqs_of_def image_iff)

lemma has_key_map [simp]: "keeps_row f \<Longrightarrow> has_key occ_key k (map f t) = has_key occ_key k t"
  by (auto simp: has_key_def image_iff)

lemma cand_ok_map:
  assumes "keeps_row f" and "cand_ok sha o' db" and "occs db' = map f (occs db)"
  shows "cand_ok sha o' db'"
proof -
  have "max_sequence i db' = max_sequence i db" for i
    using assms by (simp add: max_sequence_conv)
  then show ?thesis
    using assms(2,3) keeps_rowD(1,4) [OF assms(1)] has_key_map [OF assms(1)]
    unfolding cand_ok_def fresh_cand_def by (auto dest: keeps_row_pending [OF assms(1)])
qed

lemma cand_ok_cong: "occs db' = occs db \<Longrightarrow> cand_ok sha o' db' = cand_ok sha o' db"
  by (simp add: cand_ok_def fresh_cand_def max_sequence_conv)

section \<open>Candidates\<close>

lemma pending_row_Some:
  "pending_row i db = Some r \<Longrightarrow> r \<in> set (occs db) \<and> or_item r = i \<and> or_status r = ''pending''"
  unfolding pending_row_def item_occs_def by (drule row_max_Some) auto

lemma pending_row_None:
  "pending_row i db = None \<longleftrightarrow> (\<forall>r\<in>set (occs db). or_item r = i \<longrightarrow> or_status r \<noteq> ''pending'')"
  by (auto simp: pending_row_def item_occs_def filter_empty_conv)

lemma new_occurrence_sel [simp]:
  "occ_item_id (new_occurrence sha i q t) = i"
  "occ_sequence (new_occurrence sha i q t) = q"
  "occ_scheduled_for (new_occurrence sha i q t) = t"
  "occ_idempotency_key (new_occurrence sha i q t) = occurrence_idempotency_key sha i q"
  by (simp_all add: new_occurrence_def)

lemma next_claimable_cases:
  assumes "next_claimable_occurrence sha i pa db = Some o'"
  obtains (pending) r where "r \<in> set (occs db)" "or_item r = i" "or_status r = ''pending''"
      "o' = new_occurrence sha i (or_seq r) (case or_scheduled_for r of None \<Rightarrow> pa | Some t \<Rightarrow> t)"
  | (allocated) "pending_row i db = None" "\<not> already_fired i pa db"
      "o' = new_occurrence sha i (max_sequence i db + 1) pa"
  using assms pending_row_Some [of i db]
  by (auto simp: next_claimable_occurrence_def split: option.splits if_splits)

lemma next_claimable_cand_ok:
  assumes "next_claimable_occurrence sha i pa db = Some o'" and "occs_wf sha (occs db)"
  shows "cand_ok sha o' db"
  using assms(1)
proof (cases rule: next_claimable_cases)
  case (pending r)
  then have "occ_id o' = occ_key r" by (simp add: occ_id_def occ_key_def)
  with pending show ?thesis by (auto simp: cand_ok_def has_key_def)
next
  case allocated
  have "or_scheduled_for r \<noteq> Some pa" if "r \<in> set (occs db)" "or_item r = i" for r
    using that allocated assms(2)
    by (auto simp: pending_row_None already_fired_def item_occs_def list_ex_iff occs_wf_def row_wf_def)
  with allocated show ?thesis by (auto simp: cand_ok_def fresh_cand_def pending_row_None)
qed

section \<open>Acquiring a lease\<close>

definition granted_row :: "string \<Rightarrow> int \<Rightarrow> occ_row \<Rightarrow> occ_row" where
  "granted_row owner expires r =
     r\<lparr>or_owner := Some owner, or_expires := Some expires, or_attempt := or_attempt r + 1\<rparr>"

lemma keeps_granted_row: "keeps_row (granted_row owner expires)"
  by (simp add: keeps_row_def granted_row_def)

lemma granted_row_sel [simp]:
  "occ_key (granted_row owner expires r) = occ_key r"
  "or_status (granted_row owner expires r) = or_status r"
  "or_owner (granted_row owner expires r) = Some owner"
  "or_expires (granted_row owner expires r) = Some expires"
  by (simp_all add: granted_row_def occ_key_def)

lemma acquire_lease_occs:
  "occs (fst (acquire_lease o' owner now ttl db))
     = update_where (claimable o' now) (granted_row owner (i64_add now ttl))
         (insert_new occ_key (new_occ_row o') (occs db))"
  by (simp add: acquire_lease_def Let_def granted_row_def [abs_def])

lemma acquire_lease_items [simp]: "items (fst (acquire_lease o' owner now ttl db)) = items db"
  by (simp add: acquire_lease_def Let_def)

text \<open>The row after the insert: there is exactly one with the key, and a lease is granted on it.\<close>

lemma occ_key_new_occ_row [simp]: "occ_key (new_occ_row o') = occ_id o'"
  by (simp add: occ_key_def new_occ_row_def occ_id_def)

lemma claimable_key: "claimable o' now r \<Longrightarrow> occ_key r = occ_id o'"
  by (simp add: claimable_def occ_id_def)

lemma acquire_lease_Some:
  assumes "acquire_lease o' owner now ttl db = (db', Some l)" and "primary_key occ_key (occs db)"
  obtains r where "r \<in> set (insert_new occ_key (new_occ_row o') (occs db))" "claimable o' now r"
    "granted_row owner (i64_add now ttl) r \<in> set (occs db')"
    "l = \<lparr>lease_occurrence = o', lease_owner = owner, lease_expires_at = i64_add now ttl,
          lease_attempt = or_attempt r + 1\<rparr>"
proof -
  let ?t1 = "insert_new occ_key (new_occ_row o') (occs db)"
  let ?t2 = "update_where (claimable o' now) (granted_row owner (i64_add now ttl)) ?t1"
  from assms(1) have pos: "0 < count_where (claimable o' now) ?t1"
    by (auto simp: acquire_lease_def Let_def split: if_splits)
  then obtain r where r: "r \<in> set ?t1" "claimable o' now r" by (auto simp: count_where_pos_iff)
  let ?g = "granted_row owner (i64_add now ttl) r"
  have g: "?g \<in> set ?t2" using r by (auto simp: set_update_where)
  have pk2: "primary_key occ_key ?t2" using assms(2) keeps_granted_row by simp
  have k: "occ_key ?g = occ_id o'" using claimable_key [OF r(2)] keeps_granted_row by simp
  have "query_row (\<lambda>x. occ_key x = occ_id o') ?t2 = Some ?g"
    using pk2 g k by (rule query_row_unique) (metis k)
  with assms(1) pos have "l = \<lparr>lease_occurrence = o', lease_owner = owner, lease_expires_at = i64_add now ttl,
          lease_attempt = or_attempt r + 1\<rparr>"
    by (auto simp: acquire_lease_def Let_def granted_row_def [abs_def] occ_id_def split: if_splits)
  moreover have "occs db' = ?t2"
    using acquire_lease_occs [of o' owner now ttl db] assms(1) by simp
  ultimately show ?thesis using that r g by simp
qed

lemma acquire_lease_None:
  assumes "acquire_lease o' owner now ttl db = (db', None)" and "primary_key occ_key (occs db)"
    and "r \<in> set (insert_new occ_key (new_occ_row o') (occs db))"
  shows "\<not> claimable o' now r" and "occs db' = insert_new occ_key (new_occ_row o') (occs db)"
proof -
  let ?t1 = "insert_new occ_key (new_occ_row o') (occs db)"
  let ?t2 = "update_where (claimable o' now) (granted_row owner (i64_add now ttl)) ?t1"
  have "query_row (\<lambda>x. occ_key x = occ_id o') ?t2 \<noteq> None"
  proof -
    have "occ_id o' \<in> occ_key ` set ?t1" by (auto simp: set_insert_new has_key_def)
    then have "has_key occ_key (occ_id o') ?t2"
      using keeps_granted_row by (simp add: has_key_def [symmetric])
    then show ?thesis by (auto simp: has_key_def query_row_None_iff)
  qed
  with assms(1) have "count_where (claimable o' now) ?t1 = 0"
    by (auto simp: acquire_lease_def Let_def granted_row_def [abs_def] occ_id_def split: if_splits)
  then have no: "\<forall>r\<in>set ?t1. \<not> claimable o' now r" by (simp add: count_where_0_iff)
  with assms(3) show "\<not> claimable o' now r" by blast
  show "occs db' = ?t1"
    using acquire_lease_occs [of o' owner now ttl db] assms(1) update_where_none [OF no] by simp
qed

section \<open>Inserting a candidate\<close>

lemma seqs_of_insert:
  "seqs_of i (t @ [r]) = (if or_item r = i then insert (or_seq r) (seqs_of i t) else seqs_of i t)"
  by (auto simp: seqs_of_def occ_key_def)

lemma fresh_cand_new_key:
  assumes "fresh_cand o' db"
  shows "\<not> has_key occ_key (occ_id o') (occs db)"
proof
  assume "has_key occ_key (occ_id o') (occs db)"
  then have "occ_sequence o' \<in> seqs_of (occ_item_id o') (occs db)"
    by (simp add: has_key_def seqs_of_def occ_id_def)
  then have "occ_sequence o' \<le> max_sequence (occ_item_id o') db" by (rule seqs_of_le_max)
  with assms show False by (simp add: fresh_cand_def)
qed

lemma insert_cand_wf:
  assumes "cand_ok sha o' db" and "occs_wf sha (occs db)"
  shows "occs_wf sha (insert_new occ_key (new_occ_row o') (occs db))"
proof (cases "has_key occ_key (occ_id o') (occs db)")
  case True
  with assms show ?thesis by (simp add: insert_new_def)
next
  case False
  with assms(1) have fresh: "fresh_cand o' db"
    and key: "occ_idempotency_key o' = occurrence_idempotency_key sha (occ_item_id o') (occ_sequence o')"
    by (auto simp: cand_ok_def)
  let ?n = "new_occ_row o'"
  have sel: "or_item ?n = occ_item_id o'" "or_seq ?n = occ_sequence o'" "or_status ?n = ''pending''"
    "or_scheduled_for ?n = Some (occ_scheduled_for o')" "or_key ?n = occ_idempotency_key o'"
    by (simp_all add: new_occ_row_def)
  have no: "\<not> (or_scheduled_for r = or_scheduled_for ?n \<or> or_status r = ''pending'')"
    if "r \<in> set (occs db)" "or_item r = or_item ?n" for r
    using that fresh by (simp add: fresh_cand_def sel)
  have apart: "rows_apart (occs db @ [?n])"
    unfolding rows_apart_def
  proof (intro ballI impI)
    fix r r'
    assume "r \<in> set (occs db @ [?n])" "r' \<in> set (occs db @ [?n])" and item: "or_item r = or_item r'"
      and same: "or_scheduled_for r = or_scheduled_for r' \<or> or_status r = ''pending'' \<and> or_status r' = ''pending''"
    then consider "r \<in> set (occs db)" "r' \<in> set (occs db)" | "r = r'"
      | "r \<in> set (occs db)" "r' = ?n" | "r = ?n" "r' \<in> set (occs db)" by auto
    then show "occ_key r = occ_key r'"
    proof cases
      case 1
      with item same assms(2) show ?thesis unfolding occs_wf_def rows_apart_def by blast
    next
      case 3
      with no [of r] item same show ?thesis by metis
    next
      case 4
      with no [of r'] item same show ?thesis by metis
    qed simp
  qed
  have pk: "primary_key occ_key (occs db @ [?n])"
  proof (rule primary_key_append_fresh)
    show "primary_key occ_key (occs db)" using assms(2) by (simp add: occs_wf_def)
    show "occ_key x \<noteq> occ_key ?n" if "x \<in> set (occs db)" for x
      using False imageI [OF that, of occ_key] unfolding has_key_def occ_key_new_occ_row by metis
  qed
  have "row_wf sha ?n" using key by (simp add: row_wf_def sel)
  with apart pk assms(2) False show ?thesis by (auto simp: insert_new_def occs_wf_def)
qed

section \<open>Sweeps, one statement at a time\<close>

text \<open>
  A sweep commits after each of its SQL statements, so any other process may act between two of
  them. \<open>sw_at\<close> is the statement it runs next: the select of a pending row of the next due item,
  the select of a row that fired for its time, the select of the largest sequence, and the three
  statements of \<open>acquire_lease\<close>. \<open>sw_due\<close> are the due items still to visit, read once when the sweep
  began, and \<open>sw_leases\<close> the leases it holds already.
\<close>

datatype sweep_pc =
    SelectPending
  | SelectFired string int
  | SelectMax string int
  | InsertPending occurrence
  | TakeLease occurrence
  | ReadAttempt occurrence

record sweep =
  sw_owner :: string
  sw_now :: int
  sw_ttl :: int
  sw_due :: "(string \<times> int) list"
  sw_at :: sweep_pc
  sw_leases :: "lease list"

datatype sched_event =
    Granted occurrence string int int
  | FiredOcc occurrence

definition begin_sweep :: "string \<Rightarrow> int \<Rightarrow> int \<Rightarrow> sched_db \<Rightarrow> sweep" where
  "begin_sweep owner now ttl db =
     \<lparr>sw_owner = owner, sw_now = now, sw_ttl = ttl, sw_due = due_items now db, sw_at = SelectPending,
      sw_leases = []\<rparr>"

text \<open>
  One statement: the sweep after it, the database it leaves and the lease it granted, if it is the
  update that takes one. A sweep without due items has returned. A read of the attempt that finds
  no row is an error, with which the sweep and its leases are lost.
\<close>

definition sweep_statement ::
  "(nat list \<Rightarrow> nat list) \<Rightarrow> sweep \<Rightarrow> sched_db \<Rightarrow> sweep \<times> sched_db \<times> sched_event list" where
  "sweep_statement sha w db =
     (case sw_at w of
        SelectPending \<Rightarrow>
          (case sw_due w of
             [] \<Rightarrow> (w, db, [])
           | (i, pa) # due \<Rightarrow>
               (w\<lparr>sw_due := due,
                  sw_at := (case pending_row i db of
                     Some r \<Rightarrow> InsertPending (new_occurrence sha i (or_seq r)
                                 (case or_scheduled_for r of None \<Rightarrow> pa | Some t \<Rightarrow> t))
                   | None \<Rightarrow> SelectFired i pa)\<rparr>, db, []))
      | SelectFired i pa \<Rightarrow>
          (w\<lparr>sw_at := (if already_fired i pa db then SelectPending else SelectMax i pa)\<rparr>, db, [])
      | SelectMax i pa \<Rightarrow>
          (w\<lparr>sw_at := InsertPending (new_occurrence sha i (max_sequence i db + 1) pa)\<rparr>, db, [])
      | InsertPending occ \<Rightarrow> (w\<lparr>sw_at := TakeLease occ\<rparr>, insert_pending occ db, [])
      | TakeLease occ \<Rightarrow>
          (case take_lease occ (sw_owner w) (sw_now w) (sw_ttl w) db of
             (db', n) \<Rightarrow>
               if n = 0 then (w\<lparr>sw_at := SelectPending\<rparr>, db', [])
               else (w\<lparr>sw_at := ReadAttempt occ\<rparr>, db',
                 [Granted occ (sw_owner w) (sw_now w) (i64_add (sw_now w) (sw_ttl w))]))
      | ReadAttempt occ \<Rightarrow>
          (case attempt_of occ db of
             None \<Rightarrow> (w\<lparr>sw_at := SelectPending, sw_due := [], sw_leases := []\<rparr>, db, [])
           | Some a \<Rightarrow>
               (w\<lparr>sw_at := SelectPending,
                  sw_leases := sw_leases w @ [lease_for occ (sw_owner w) (sw_now w) (sw_ttl w) a]\<rparr>, db, [])))"

record sched_state =
  sdb :: sched_db
  sweeps :: "nat \<Rightarrow> sweep option"
  log :: "sched_event list"

section \<open>Steps\<close>

text \<open>
  Any number of processes, by their numbers, each in at most one sweep; a sweep that has returned,
  or whose process has died, goes. \<open>log\<close> has the newest event first; a grant records the owner, the
  time of the claim and the time the lease expires. The projections written by edits of the source,
  the lifecycle statements and the link to a container run leave the occurrences alone. A firing is
  finalised (one transaction), and an occurrence skipped (one statement), by a process that was
  granted it.
\<close>

inductive sched_step ::
  "(nat list \<Rightarrow> nat list) \<Rightarrow> ('tz, 'd, 't, 'n) chrono \<Rightarrow> sched_codec \<Rightarrow> sched_state \<Rightarrow> sched_state \<Rightarrow> bool"
  for sha c j where
  s_begin: "sweeps s p = None \<Longrightarrow> 0 \<le> ttl \<Longrightarrow> in_i64 (now + ttl) \<Longrightarrow>
    sched_step sha c j s (s\<lparr>sweeps := (sweeps s)(p \<mapsto> begin_sweep owner now ttl (sdb s))\<rparr>)"
| s_statement: "sweeps s p = Some w \<Longrightarrow> sweep_statement sha w (sdb s) = (w', db', evs) \<Longrightarrow>
    sched_step sha c j s (s\<lparr>sdb := db', sweeps := (sweeps s)(p \<mapsto> w'), log := evs @ log s\<rparr>)"
| s_gone: "sched_step sha c j s (s\<lparr>sweeps := (sweeps s)(p := None)\<rparr>)"
| s_finalized: "Granted o' owner now expires \<in> set (log s) \<Longrightarrow>
    finalize_firing c o' item at (sdb s) = Returns db' \<Longrightarrow>
    sched_step sha c j s (s\<lparr>sdb := db', log := FiredOcc o' # log s\<rparr>)"
| s_skipped: "Granted o' owner now expires \<in> set (log s) \<Longrightarrow>
    sched_step sha c j s (s\<lparr>sdb := complete_occurrence o' at (sdb s), log := FiredOcc o' # log s\<rparr>)"
| s_upsert: "upsert_item j m sid (sdb s) = (db', r) \<Longrightarrow> sched_step sha c j s (s\<lparr>sdb := db'\<rparr>)"
| s_pause: "sched_step sha c j s (s\<lparr>sdb := pause_item i (sdb s)\<rparr>)"
| s_resume: "sched_step sha c j s (s\<lparr>sdb := resume_item i (sdb s)\<rparr>)"
| s_cancel: "sched_step sha c j s (s\<lparr>sdb := cancel_item i (sdb s)\<rparr>)"
| s_link: "link_run_to_occurrence run o' (sdb s) = (db', found) \<Longrightarrow> sched_step sha c j s (s\<lparr>sdb := db'\<rparr>)"

text \<open>The steps when no two sweeps overlap: at most one process is in a sweep.\<close>

definition lone_sweep :: "sched_state \<Rightarrow> bool" where
  "lone_sweep s \<longleftrightarrow> (\<forall>p q. sweeps s p \<noteq> None \<longrightarrow> sweeps s q \<noteq> None \<longrightarrow> p = q)"

definition serial_step ::
  "(nat list \<Rightarrow> nat list) \<Rightarrow> ('tz, 'd, 't, 'n) chrono \<Rightarrow> sched_codec \<Rightarrow> sched_state \<Rightarrow> sched_state \<Rightarrow> bool" where
  "serial_step sha c j s s' \<longleftrightarrow> sched_step sha c j s s' \<and> lone_sweep s'"

text \<open>
  The log as it should be: a lease is granted only after every earlier lease on the occurrence has
  expired and never after the occurrence was recorded as fired, and what fires was granted.
\<close>

fun log_ok :: "sched_event list \<Rightarrow> bool" where
  "log_ok [] \<longleftrightarrow> True"
| "log_ok (Granted o' w n e # evs) \<longleftrightarrow>
     (\<forall>p w' n' e'. Granted p w' n' e' \<in> set evs \<longrightarrow> occ_id p = occ_id o' \<longrightarrow> e' \<le> n) \<and>
     (\<forall>p. FiredOcc p \<in> set evs \<longrightarrow> occ_id p \<noteq> occ_id o') \<and> log_ok evs"
| "log_ok (FiredOcc o' # evs) \<longleftrightarrow> (\<exists>w n e. Granted o' w n e \<in> set evs) \<and> log_ok evs"

definition row_leased :: "int \<Rightarrow> occ_row \<Rightarrow> bool" where
  "row_leased e r \<longleftrightarrow> or_status r = ''fired'' \<or> or_owner r \<noteq> None \<and> (\<exists>x. or_expires r = Some x \<and> e \<le> x)"

definition leases_recorded :: "sched_event list \<Rightarrow> occ_row list \<Rightarrow> bool" where
  "leases_recorded evs t \<longleftrightarrow>
     (\<forall>o' w n e. Granted o' w n e \<in> set evs \<longrightarrow> (\<exists>r\<in>set t. occ_key r = occ_id o' \<and> row_leased e r))"

definition firings_recorded :: "sched_event list \<Rightarrow> occ_row list \<Rightarrow> bool" where
  "firings_recorded evs t \<longleftrightarrow>
     (\<forall>o'. FiredOcc o' \<in> set evs \<longrightarrow> (\<exists>r\<in>set t. occ_key r = occ_id o' \<and> or_status r = ''fired''))"

definition log_recorded :: "sched_event list \<Rightarrow> occ_row list \<Rightarrow> bool" where
  "log_recorded evs t \<longleftrightarrow> primary_key occ_key t \<and> log_ok evs \<and> leases_recorded evs t \<and> firings_recorded evs t"

definition sweep_times_ok :: "sweep \<Rightarrow> bool" where
  "sweep_times_ok w \<longleftrightarrow> 0 \<le> sw_ttl w \<and> in_i64 (sw_now w + sw_ttl w)"

definition sched_inv :: "sched_state \<Rightarrow> bool" where
  "sched_inv s \<longleftrightarrow> primary_key ir_id (items (sdb s)) \<and> log_recorded (log s) (occs (sdb s)) \<and>
     (\<forall>p w. sweeps s p = Some w \<longrightarrow> sweep_times_ok w)"

lemma primary_key_set_status [simp]:
  "primary_key ir_id (items (set_item_status fs t i db)) = primary_key ir_id (items db)"
  by (simp add: set_item_status_def)

lemma occs_set_status [simp]: "occs (set_item_status fs t i db) = occs db"
  by (simp add: set_item_status_def)

lemmas item_status_defs = pause_item_def resume_item_def cancel_item_def complete_item_def

lemma upsert_item_frame:
  assumes "upsert_item j m sid db = (db', r)"
  shows "occs db' = occs db" and "primary_key ir_id (items db) \<Longrightarrow> primary_key ir_id (items db')"
  using assms item_store.ok_put by (auto simp: upsert_item_def split: sum.splits)

text \<open>Recording a firing, whether by \<open>finalize_firing\<close> or as a skip.\<close>

definition fire_row :: "int \<Rightarrow> occ_row \<Rightarrow> occ_row" where
  "fire_row at r =
     r\<lparr>or_status := ''fired'', or_fired_at := Some (dec_of_int at), or_owner := None, or_expires := None\<rparr>"

definition fire_key :: "string \<times> nat \<Rightarrow> int \<Rightarrow> occ_row \<Rightarrow> occ_row" where
  "fire_key k at r = (if occ_key r = k then fire_row at r else r)"

lemma keeps_fire_row: "keeps_row (fire_row at)"
  by (simp add: keeps_row_def fire_row_def)

lemma keeps_fire_key: "keeps_row (fire_key k at)"
  unfolding fire_key_def [abs_def] by (rule keeps_row_update [OF keeps_fire_row])

lemma fire_row_sel [simp]: "occ_key (fire_row at r) = occ_key r" "or_status (fire_row at r) = ''fired''"
  by (simp_all add: fire_row_def occ_key_def)

lemma complete_occurrence_occs:
  "occs (complete_occurrence o' at db) = map (fire_key (occ_id o') at) (occs db)"
  by (simp add: complete_occurrence_def update_where_def fire_key_def [abs_def] fire_row_def occ_id_def)

lemma finalize_frame:
  assumes "finalize_firing c o' item at db = Returns db'"
  shows "occs db' = occs (complete_occurrence o' at db)"
    and "primary_key ir_id (items db) \<Longrightarrow> primary_key ir_id (items db')"
  using assms
  by (auto simp: finalize_firing_def Let_def advance_recurrence_def complete_item_def set_item_status_def
      complete_occurrence_def split: option.splits outcome.splits)

section \<open>What the log records stays so\<close>

lemma log_recorded_mono:
  assumes "log_recorded evs t" and "set t \<subseteq> set t'" and "primary_key occ_key t'"
  shows "log_recorded evs t'"
  using assms unfolding log_recorded_def leases_recorded_def firings_recorded_def by blast

lemma log_recorded_map:
  assumes rec: "log_recorded evs t" and f: "keeps_row f"
    and leased: "\<And>r e o' w n. r \<in> set t \<Longrightarrow> Granted o' w n e \<in> set evs \<Longrightarrow> occ_key r = occ_id o' \<Longrightarrow>
      row_leased e r \<Longrightarrow> row_leased e (f r)"
  shows "log_recorded evs (map f t)"
proof -
  have fired: "or_status (f r) = ''fired''" if "or_status r = ''fired''" for r
    using keeps_rowD(5) [OF f, of r] that by auto
  have "leases_recorded evs (map f t)"
    unfolding leases_recorded_def
  proof (intro allI impI)
    fix o' w n e
    assume g: "Granted o' w n e \<in> set evs"
    with rec obtain r where r: "r \<in> set t" "occ_key r = occ_id o'" "row_leased e r"
      unfolding log_recorded_def leases_recorded_def by metis
    with leased [OF r(1) g r(2,3)] f show "\<exists>r\<in>set (map f t). occ_key r = occ_id o' \<and> row_leased e r"
      by (intro bexI [of _ "f r"]) auto
  qed
  moreover have "firings_recorded evs (map f t)"
    unfolding firings_recorded_def
  proof (intro allI impI)
    fix o'
    assume "FiredOcc o' \<in> set evs"
    with rec obtain r where "r \<in> set t" "occ_key r = occ_id o'" "or_status r = ''fired''"
      unfolding log_recorded_def firings_recorded_def by metis
    with fired f show "\<exists>r\<in>set (map f t). occ_key r = occ_id o' \<and> or_status r = ''fired''"
      by (intro bexI [of _ "f r"]) auto
  qed
  ultimately show ?thesis
    using rec f by (simp add: log_recorded_def primary_key_def o_def)
qed

lemma fired_recorded:
  assumes rec: "log_recorded evs t" and granted: "Granted o' w n e \<in> set evs"
  shows "log_recorded (FiredOcc o' # evs) (map (fire_key (occ_id o') at) t)"
proof -
  have "log_recorded evs (map (fire_key (occ_id o') at) t)"
    by (rule log_recorded_map [OF rec keeps_fire_key]) (simp add: fire_key_def row_leased_def)
  moreover obtain r where "r \<in> set t" "occ_key r = occ_id o'"
    using rec granted unfolding log_recorded_def leases_recorded_def by metis
  then have "\<exists>r\<in>set (map (fire_key (occ_id o') at) t). occ_key r = occ_id o' \<and> or_status r = ''fired''"
    by (intro bexI [of _ "fire_key (occ_id o') at r"]) (auto simp: fire_key_def)
  ultimately show ?thesis
    using granted by (auto simp: log_recorded_def leases_recorded_def firings_recorded_def)
qed

lemma lease_recorded:
  assumes rec: "log_recorded evs t" and r0: "r0 \<in> set t" "claimable o' now r0" and exp: "now \<le> exp"
  shows "log_recorded (Granted o' owner now exp # evs)
    (map (\<lambda>r. if claimable o' now r then granted_row owner exp r else r) t)" (is "log_recorded _ (map ?f t)")
proof -
  have pk: "primary_key occ_key t" using rec by (simp add: log_recorded_def)
  have unique: "r = r0" if "r \<in> set t" "occ_key r = occ_id o'" for r
    using primary_key_unique [OF pk that(1) r0(1)] that(2) claimable_key [OF r0(2)] by simp
  have old: "e' \<le> now" if "Granted p w' n' e' \<in> set evs" "occ_id p = occ_id o'" for p w' n' e'
  proof -
    from rec that obtain r where "r \<in> set t" "occ_key r = occ_id o'" "row_leased e' r"
      unfolding log_recorded_def leases_recorded_def by metis
    with unique r0(2) show ?thesis by (auto simp: claimable_def row_leased_def)
  qed
  have no_fired: "occ_id p \<noteq> occ_id o'" if "FiredOcc p \<in> set evs" for p
  proof
    assume "occ_id p = occ_id o'"
    with rec that obtain r where "r \<in> set t" "occ_key r = occ_id o'" "or_status r = ''fired''"
      unfolding log_recorded_def firings_recorded_def by metis
    with unique r0(2) show False by (auto simp: claimable_def)
  qed
  have "log_recorded evs (map ?f t)"
  proof (rule log_recorded_map [OF rec keeps_row_update [OF keeps_granted_row]])
    fix r e p w n
    assume "Granted p w n e \<in> set evs" "occ_key r = occ_id p" and leased: "row_leased e r"
    with old claimable_key [of o' now r] have "claimable o' now r \<Longrightarrow> e \<le> now" by fastforce
    with leased exp show "row_leased e (?f r)" by (auto simp: row_leased_def)
  qed
  moreover have "\<exists>r\<in>set (map ?f t). occ_key r = occ_id o' \<and> row_leased exp r"
    using r0 claimable_key [OF r0(2)]
    by (intro bexI [of _ "granted_row owner exp r0"]) (auto simp: row_leased_def)
  ultimately show ?thesis
    using old no_fired by (auto simp: log_recorded_def leases_recorded_def firings_recorded_def)
qed

lemma take_lease_occs:
  "occs (fst (take_lease o' owner now ttl db))
     = map (\<lambda>r. if claimable o' now r then granted_row owner (i64_add now ttl) r else r) (occs db)"
  by (simp add: take_lease_def update_where_def granted_row_def)

lemma take_lease_fields [simp]:
  "items (fst (take_lease o' owner now ttl db)) = items db"
  "snd (take_lease o' owner now ttl db) = count_where (claimable o' now) (occs db)"
  by (simp_all add: take_lease_def)

lemma insert_pending_fields [simp]:
  "items (insert_pending o' db) = items db"
  "occs (insert_pending o' db) = insert_new occ_key (new_occ_row o') (occs db)"
  by (simp_all add: insert_pending_def)

lemma take_lease_recorded:
  assumes "log_recorded evs (occs db)" and "0 \<le> ttl" "in_i64 (now + ttl)"
    and "take_lease o' owner now ttl db = (db', n)"
  shows "log_recorded ((if n = 0 then [] else [Granted o' owner now (i64_add now ttl)]) @ evs) (occs db')"
proof -
  have n: "n = count_where (claimable o' now) (occs db)" and db': "db' = fst (take_lease o' owner now ttl db)"
    using assms(4) by (auto simp: take_lease_def)
  show ?thesis
  proof (cases "n = 0")
    case True
    then have "occs db' = occs db"
      unfolding db' take_lease_occs n by (intro map_idI) (auto simp: count_where_0_iff)
    with True assms(1) show ?thesis by simp
  next
    case False
    then obtain r0 where "r0 \<in> set (occs db)" "claimable o' now r0"
      by (auto simp: n count_where_0_iff)
    from lease_recorded [OF assms(1) this, of "now + ttl" owner] False assms(2) show ?thesis
      unfolding db' take_lease_occs i64_add_exact [OF assms(3)] by simp
  qed
qed

section \<open>The invariant\<close>

lemmas sweep_statement_simps = sweep_statement_def Let_def

lemma sweep_statement_inv:
  assumes "sweep_statement sha w db = (w', db', evs)" and "sweep_times_ok w" and "log_recorded l (occs db)"
  shows "items db' = items db \<and> sweep_times_ok w' \<and> log_recorded (evs @ l) (occs db')"
proof (cases "sw_at w")
  case (InsertPending o')
  have "primary_key occ_key (occs db)" using assms(3) by (simp add: log_recorded_def)
  then have "log_recorded l (insert_new occ_key (new_occ_row o') (occs db))"
    by (intro log_recorded_mono [OF assms(3)]) (auto simp: set_insert_new)
  with assms(1,2) InsertPending show ?thesis by (auto simp: sweep_statement_def sweep_times_ok_def)
next
  case (TakeLease o')
  obtain n where t: "take_lease o' (sw_owner w) (sw_now w) (sw_ttl w) db = (db', n)"
    using assms(1) TakeLease by (auto simp: sweep_statement_def split: prod.splits if_splits)
  have "items db' = items db" using take_lease_fields(1) [of o' "sw_owner w" "sw_now w" "sw_ttl w" db] t by simp
  moreover have "log_recorded (evs @ l) (occs db')"
    using take_lease_recorded [OF assms(3) _ _ t] assms(1,2) TakeLease t
    by (auto simp: sweep_statement_def sweep_times_ok_def split: if_splits)
  ultimately show ?thesis
    using assms(1,2) TakeLease t by (auto simp: sweep_statement_def sweep_times_ok_def split: if_splits)
qed (use assms in \<open>auto simp: sweep_statement_def sweep_times_ok_def split: option.splits list.splits prod.splits if_splits\<close>)

lemma sched_inv_same_occs:
  assumes "sched_inv s" and "occs db' = occs (sdb s)" and "primary_key ir_id (items db')"
  shows "sched_inv (s\<lparr>sdb := db'\<rparr>)"
  using assms by (simp add: sched_inv_def)

lemma fired_inv:
  assumes "sched_inv s" and "Granted o' w n e \<in> set (log s)"
    and "occs db' = occs (complete_occurrence o' at (sdb s))" and "primary_key ir_id (items db')"
  shows "sched_inv (s\<lparr>sdb := db', log := FiredOcc o' # log s\<rparr>)"
  using assms fired_recorded [OF _ assms(2)] by (simp add: sched_inv_def complete_occurrence_occs)

lemma sched_step_inv:
  assumes "sched_step sha c j s s'" and inv: "sched_inv s"
  shows "sched_inv s'"
  using assms(1)
proof cases
  case (s_begin p ttl now owner)
  with inv show ?thesis by (auto simp: sched_inv_def begin_sweep_def sweep_times_ok_def)
next
  case (s_statement p w w' db' evs)
  with inv sweep_statement_inv [OF s_statement(3)] show ?thesis by (auto simp: sched_inv_def)
next
  case (s_gone p)
  with inv show ?thesis by (auto simp: sched_inv_def split: if_splits)
next
  case (s_finalized o' owner now expires item at db')
  from s_finalized(1) fired_inv [OF inv s_finalized(2)] finalize_frame [OF s_finalized(3)] inv show ?thesis
    by (simp add: sched_inv_def)
next
  case (s_skipped o' owner now expires at)
  from s_skipped(1) fired_inv [OF inv s_skipped(2), of "complete_occurrence o' at (sdb s)" at] inv show ?thesis
    by (simp add: sched_inv_def complete_occurrence_def)
next
  case (s_upsert m sid db' r)
  with sched_inv_same_occs [OF inv] upsert_item_frame inv show ?thesis by (simp add: sched_inv_def)
next
  case (s_link run o' db' found)
  with sched_inv_same_occs [OF inv, of db'] inv show ?thesis
    by (auto simp: link_run_to_occurrence_def sched_inv_def)
qed (use inv sched_inv_same_occs [OF inv] in \<open>simp_all add: item_status_defs sched_inv_def\<close>)

lemma sched_steps_inv:
  "(sched_step sha c j)\<^sup>*\<^sup>* s s' \<Longrightarrow> sched_inv s \<Longrightarrow> sched_inv s'"
  by (induction rule: rtranclp_induct) (auto intro: sched_step_inv)

section \<open>Sweeps that do not overlap\<close>

text \<open>
  What a sweep has read is still so while no other sweep inserts: that nothing of the item is
  pending, that its time was not used, and that the occurrence it computed is the next one.
\<close>

definition none_pending :: "string \<Rightarrow> occ_row list \<Rightarrow> bool" where
  "none_pending i t \<longleftrightarrow> (\<forall>r\<in>set t. or_item r = i \<longrightarrow> or_status r \<noteq> ''pending'')"

definition sweep_fresh :: "(nat list \<Rightarrow> nat list) \<Rightarrow> sweep \<Rightarrow> sched_db \<Rightarrow> bool" where
  "sweep_fresh sha w db \<longleftrightarrow>
     (case sw_at w of
        SelectFired i pa \<Rightarrow> none_pending i (occs db)
      | SelectMax i pa \<Rightarrow> none_pending i (occs db)
          \<and> (\<forall>r\<in>set (occs db). or_item r = i \<longrightarrow> or_scheduled_for r \<noteq> Some pa)
      | InsertPending o' \<Rightarrow> cand_ok sha o' db
      | _ \<Rightarrow> True)"

definition apart_inv :: "(nat list \<Rightarrow> nat list) \<Rightarrow> sched_state \<Rightarrow> bool" where
  "apart_inv sha s \<longleftrightarrow> occs_wf sha (occs (sdb s)) \<and> (\<forall>p w. sweeps s p = Some w \<longrightarrow> sweep_fresh sha w (sdb s))"

lemma sweep_fresh_map:
  assumes "keeps_row f" and "sweep_fresh sha w db" and "occs db' = map f (occs db)"
  shows "sweep_fresh sha w db'"
proof (cases "sw_at w")
  case (SelectFired i pa)
  with assms(2,3) keeps_rowD(1) [OF assms(1)] show ?thesis
    by (auto simp: sweep_fresh_def none_pending_def dest: keeps_row_pending [OF assms(1)])
next
  case (SelectMax i pa)
  with assms(2,3) keeps_rowD(1,4) [OF assms(1)] show ?thesis
    by (auto simp: sweep_fresh_def none_pending_def dest: keeps_row_pending [OF assms(1)])
next
  case (InsertPending o')
  with assms cand_ok_map [OF assms(1) _ assms(3)] show ?thesis by (simp add: sweep_fresh_def)
qed (simp_all add: sweep_fresh_def)

lemma apart_inv_map:
  assumes "apart_inv sha s" and "keeps_row f" and "occs db' = map f (occs (sdb s))"
  shows "apart_inv sha (s\<lparr>sdb := db', log := l\<rparr>)"
  using assms occs_wf_map [OF assms(2)] sweep_fresh_map [OF assms(2) _ assms(3)]
  by (simp add: apart_inv_def)

lemma keeps_row_id: "keeps_row (\<lambda>r. r)"
  by (simp add: keeps_row_def)

lemma apart_inv_same_occs:
  assumes "apart_inv sha s" and "occs db' = occs (sdb s)"
  shows "apart_inv sha (s\<lparr>sdb := db'\<rparr>)"
  using apart_inv_map [OF assms(1) keeps_row_id, of db' "log s"] assms(2) by simp

lemma sweep_statement_apart:
  assumes st: "sweep_statement sha w db = (w', db', evs)" and wf: "occs_wf sha (occs db)" and fresh: "sweep_fresh sha w db"
  shows "occs_wf sha (occs db') \<and> sweep_fresh sha w' db'"
proof (cases "sw_at w")
  case SelectPending
  show ?thesis
  proof (cases "sw_due w")
    case (Cons d due)
    obtain i pa where d: "d = (i, pa)" by (cases d)
    show ?thesis
    proof (cases "pending_row i db")
      case None
      with st wf SelectPending Cons d show ?thesis
        by (auto simp: sweep_statement_def sweep_fresh_def none_pending_def pending_row_None)
    next
      case (Some r)
      then have "next_claimable_occurrence sha i pa db
          = Some (new_occurrence sha i (or_seq r) (case or_scheduled_for r of None \<Rightarrow> pa | Some t \<Rightarrow> t))"
        by (simp add: next_claimable_occurrence_def)
      from next_claimable_cand_ok [OF this wf] st wf SelectPending Cons d Some show ?thesis
        by (auto simp: sweep_statement_def sweep_fresh_def)
    qed
  qed (use st wf SelectPending in \<open>auto simp: sweep_statement_def sweep_fresh_def\<close>)
next
  case (SelectFired i pa)
  have "or_scheduled_for r \<noteq> Some pa" if "\<not> already_fired i pa db" "r \<in> set (occs db)" "or_item r = i" for r
    using that fresh wf SelectFired
    by (auto simp: already_fired_def item_occs_def list_ex_iff occs_wf_def row_wf_def sweep_fresh_def none_pending_def)
  with st wf fresh SelectFired show ?thesis
    by (auto simp: sweep_statement_def sweep_fresh_def)
next
  case (SelectMax i pa)
  then have "cand_ok sha (new_occurrence sha i (max_sequence i db + 1) pa) db"
    using fresh by (auto simp: sweep_fresh_def none_pending_def cand_ok_def fresh_cand_def)
  with st wf SelectMax show ?thesis by (auto simp: sweep_statement_def sweep_fresh_def)
next
  case (InsertPending o')
  with st insert_cand_wf [OF _ wf, of o'] fresh show ?thesis
    by (auto simp: sweep_statement_def sweep_fresh_def)
next
  case (TakeLease o')
  have "occs_wf sha (occs (fst (take_lease o' (sw_owner w) (sw_now w) (sw_ttl w) db)))"
    unfolding take_lease_occs using wf by (rule occs_wf_map [OF keeps_row_update [OF keeps_granted_row]])
  with st TakeLease show ?thesis
    by (auto simp: sweep_statement_def sweep_fresh_def split: prod.splits if_splits)
qed (use st wf in \<open>auto simp: sweep_statement_def sweep_fresh_def split: option.splits\<close>)

lemma serial_step_apart:
  assumes "serial_step sha c j s s'" and inv: "apart_inv sha s"
  shows "apart_inv sha s'"
proof -
  from assms(1) have step: "sched_step sha c j s s'" and lone: "lone_sweep s'" by (simp_all add: serial_step_def)
  from step show ?thesis
  proof cases
    case (s_begin p ttl now owner)
    with inv show ?thesis by (auto simp: apart_inv_def begin_sweep_def sweep_fresh_def split: if_splits)
  next
    case (s_statement p w w' db' evs)
    have p: "sweeps s' p = Some w'" by (simp add: s_statement(1))
    then have "q = p" if "sweeps s' q = Some v" for q v
      using lone that unfolding lone_sweep_def by (metis option.distinct(1))
    moreover have "occs_wf sha (occs db') \<and> sweep_fresh sha w' db'"
      using sweep_statement_apart [OF s_statement(3)] inv s_statement(2) by (auto simp: apart_inv_def)
    moreover have "sdb s' = db'" by (simp add: s_statement(1))
    ultimately show ?thesis
      using p unfolding apart_inv_def by (metis option.inject)
  next
    case (s_gone p)
    with inv show ?thesis by (auto simp: apart_inv_def split: if_splits)
  next
    case (s_finalized o' owner now expires item at db')
    with apart_inv_map [OF inv keeps_fire_key, of db' "occ_id o'" at] finalize_frame(1) [OF s_finalized(3)] show ?thesis
      by (simp add: complete_occurrence_occs)
  next
    case (s_skipped o' owner now expires at)
    with apart_inv_map [OF inv keeps_fire_key, of "complete_occurrence o' at (sdb s)" "occ_id o'" at] show ?thesis
      by (simp add: complete_occurrence_occs)
  next
    case (s_upsert m sid db' r)
    with apart_inv_same_occs [OF inv] upsert_item_frame show ?thesis by simp
  next
    case (s_link run o' db' found)
    with apart_inv_same_occs [OF inv, of db'] show ?thesis
      by (auto simp: link_run_to_occurrence_def)
  qed (use apart_inv_same_occs [OF inv] in \<open>simp_all add: item_status_defs\<close>)
qed

lemma serial_steps_apart:
  "(serial_step sha c j)\<^sup>*\<^sup>* s s' \<Longrightarrow> apart_inv sha s \<Longrightarrow> apart_inv sha s'"
  by (induction rule: rtranclp_induct) (auto intro: serial_step_apart)

end
