(* ===== verification/Schedule_Sweeps.thy ===== *)
theory Schedule_Sweeps
  imports Schedule_Claims
begin

text \<open>
  What the scheduler's operations achieve: a sweep is a run of the concurrent steps and claims
  exactly the due occurrences that nobody holds, a finalised firing agrees with the source of
  truth, repair restores the agreement, and the source reads back what was written.
\<close>

section \<open>A sweep claims what is due and free\<close>

definition free_cand :: "occurrence \<Rightarrow> int \<Rightarrow> sched_db \<Rightarrow> bool" where
  "free_cand o' now db \<longleftrightarrow>
     (\<forall>r\<in>set (item_occs (occ_item_id o') db). occ_key r = occ_id o' \<longrightarrow> claimable o' now r)"

lemma next_claimable_cong:
  assumes "item_occs i db' = item_occs i db"
  shows "next_claimable_occurrence sha i pa db' = next_claimable_occurrence sha i pa db"
proof -
  have same: "pending_row i db' = pending_row i db" "already_fired i pa db' = already_fired i pa db"
    "max_sequence i db' = max_sequence i db"
    using assms by (simp_all add: pending_row_def already_fired_def max_sequence_def)
  show ?thesis unfolding next_claimable_occurrence_def same by (rule refl)
qed

lemma next_claimable_item: "next_claimable_occurrence sha i pa db = Some o' \<Longrightarrow> occ_item_id o' = i"
  by (auto simp: next_claimable_occurrence_def split: option.splits if_splits)

lemma claimable_item: "claimable o' now r \<Longrightarrow> or_item r = occ_item_id o'"
  by (simp add: claimable_def occ_key_def)

lemma acquire_lease_other_item:
  assumes "occ_item_id o' \<noteq> i"
  shows "item_occs i (fst (acquire_lease o' owner now ttl db)) = item_occs i db"
proof -
  have "filter (\<lambda>r. or_item r = i) (update_where (claimable o' now) (granted_row owner (i64_add now ttl)) t)
      = filter (\<lambda>r. or_item r = i) t" for t
  proof -
    have "filter (\<lambda>r. or_item r = i) (update_where (claimable o' now) (granted_row owner (i64_add now ttl)) t)
        = update_where (claimable o' now) (granted_row owner (i64_add now ttl)) (filter (\<lambda>r. or_item r = i) t)"
      by (rule filter_update_where) (simp add: granted_row_def)
    also have "\<dots> = filter (\<lambda>r. or_item r = i) t"
      using assms by (intro update_where_none) (auto dest: claimable_item)
    finally show ?thesis .
  qed
  moreover have "filter (\<lambda>r. or_item r = i) (insert_new occ_key (new_occ_row o') (occs db)) = filter (\<lambda>r. or_item r = i) (occs db)"
    using assms by (simp add: insert_new_def new_occ_row_def)
  ultimately show ?thesis
    using acquire_lease_occs [of o' owner now ttl db] by (simp add: item_occs_def)
qed

lemma acquire_lease_free:
  assumes "primary_key occ_key (occs db)"
  shows "(\<exists>l. snd (acquire_lease o' owner now ttl db) = Some l \<and> lease_occurrence l = o'
      \<and> lease_owner l = owner \<and> lease_expires_at l = i64_add now ttl) \<longleftrightarrow> free_cand o' now db"
    and "snd (acquire_lease o' owner now ttl db) = None \<longleftrightarrow> \<not> free_cand o' now db"
proof -
  let ?t1 = "insert_new occ_key (new_occ_row o') (occs db)"
  obtain db' v where acq: "acquire_lease o' owner now ttl db = (db', v)"
    by (cases "acquire_lease o' owner now ttl db")
  have new: "claimable o' now (new_occ_row o')"
    by (simp add: claimable_def new_occ_row_def occ_key_def)
  have fc: "free_cand o' now db \<longleftrightarrow> (\<exists>r\<in>set ?t1. claimable o' now r)"
  proof (cases "has_key occ_key (occ_id o') (occs db)")
    case True
    then obtain r where r: "r \<in> set (occs db)" "occ_key r = occ_id o'" by (auto simp: has_key_def)
    have uniq: "x = r" if "x \<in> set (occs db)" "occ_key x = occ_id o'" for x
      using primary_key_unique [OF assms that(1) r(1)] that r by simp
    have "or_item r = occ_item_id o'" using r(2) by (simp add: occ_key_def occ_id_def)
    then have "free_cand o' now db \<longleftrightarrow> claimable o' now r"
      unfolding free_cand_def item_occs_def set_filter using r uniq by blast
    moreover have "set ?t1 = set (occs db)" using True by (simp add: insert_new_def)
    ultimately show ?thesis using r uniq claimable_key by blast
  next
    case False
    then have "free_cand o' now db" by (auto simp: free_cand_def item_occs_def has_key_def image_iff)
    moreover have "new_occ_row o' \<in> set ?t1" using False by (simp add: insert_new_def)
    ultimately show ?thesis using new by blast
  qed
  have some: "v \<noteq> None \<longleftrightarrow> (\<exists>r\<in>set ?t1. claimable o' now r)"
  proof (cases v)
    case None
    with acquire_lease_None(1) [OF acq [unfolded None] assms] show ?thesis by blast
  next
    case (Some l)
    with acquire_lease_Some [OF acq [unfolded Some] assms] show ?thesis by blast
  qed
  then show "snd (acquire_lease o' owner now ttl db) = None \<longleftrightarrow> \<not> free_cand o' now db"
    using acq fc by auto
  have "lease_occurrence l = o' \<and> lease_owner l = owner \<and> lease_expires_at l = i64_add now ttl" if "v = Some l" for l
    by (rule acquire_lease_Some [OF acq [unfolded that] assms]) simp
  with some acq fc show "(\<exists>l. snd (acquire_lease o' owner now ttl db) = Some l \<and> lease_occurrence l = o'
      \<and> lease_owner l = owner \<and> lease_expires_at l = i64_add now ttl) \<longleftrightarrow> free_cand o' now db"
    by (cases v) auto
qed

lemma acquire_lease_primary_key:
  "primary_key occ_key (occs db) \<Longrightarrow> primary_key occ_key (occs (fst (acquire_lease o' owner now ttl db)))"
  by (simp add: acquire_lease_occs)

lemma map_filter_cong:
  "(\<And>x. x \<in> set xs \<Longrightarrow> f x = g x) \<Longrightarrow> List.map_filter f xs = List.map_filter g xs"
  by (induction xs) (simp_all add: List.map_filter_simps split: option.split)

lemma claim_each_spec:
  assumes "primary_key occ_key (occs db)" and "distinct (map fst due)"
  shows "map lease_occurrence (snd (claim_each sha now owner ttl due db))
      = filter (\<lambda>o'. free_cand o' now db) (List.map_filter (\<lambda>(i, pa). next_claimable_occurrence sha i pa db) due)
    \<and> (\<forall>l\<in>set (snd (claim_each sha now owner ttl due db)).
         lease_owner l = owner \<and> lease_expires_at l = i64_add now ttl)"
  using assms
proof (induction due arbitrary: db)
  case Nil
  then show ?case by (simp add: List.map_filter_def)
next
  case (Cons d due)
  obtain i pa where d: "d = (i, pa)" by (cases d)
  show ?case
  proof (cases "next_claimable_occurrence sha i pa db")
    case None
    with Cons d show ?thesis by (simp add: List.map_filter_simps)
  next
    case (Some o')
    obtain db' v where acq: "acquire_lease o' owner now ttl db = (db', v)"
      by (cases "acquire_lease o' owner now ttl db")
    have item: "occ_item_id o' = i" using Some by (rule next_claimable_item)
    have pk': "primary_key occ_key (occs db')"
      using acquire_lease_primary_key [OF Cons.prems(1), of o' owner now ttl] acq by simp
    have other: "item_occs k db' = item_occs k db" if "k \<noteq> i" for k
      using acquire_lease_other_item [of o' k owner now ttl db] that item acq by simp
    have fsts: "x \<noteq> i" if "(x, y) \<in> set due" for x y
      using Cons.prems(2) d that by (force simp: image_iff)
    have same: "List.map_filter (\<lambda>(k, pa). next_claimable_occurrence sha k pa db') due
        = List.map_filter (\<lambda>(k, pa). next_claimable_occurrence sha k pa db) due"
    proof (rule map_filter_cong)
      fix d
      assume d': "d \<in> set due"
      obtain x y where "d = (x, y)" by fastforce
      with d' fsts have xy: "d = (x, y)" "x \<noteq> i" by blast+
      show "(case d of (k, pa) \<Rightarrow> next_claimable_occurrence sha k pa db')
          = (case d of (k, pa) \<Rightarrow> next_claimable_occurrence sha k pa db)"
        unfolding xy(1) prod.case by (rule next_claimable_cong) (rule other [OF xy(2)])
    qed
    have free: "free_cand p now db' = free_cand p now db"
      if "p \<in> set (List.map_filter (\<lambda>(k, pa). next_claimable_occurrence sha k pa db) due)" for p
    proof -
      from that obtain x y where "(x, y) \<in> set due" "next_claimable_occurrence sha x y db = Some p"
        by (auto simp: List.map_filter_def)
      with fsts next_claimable_item have "occ_item_id p \<noteq> i" by blast
      with other show ?thesis by (simp add: free_cand_def)
    qed
    note IH = Cons.IH [OF pk'] Cons.prems(2) d
    have rest: "map lease_occurrence (snd (claim_each sha now owner ttl due db'))
        = filter (\<lambda>o'. free_cand o' now db) (List.map_filter (\<lambda>(i, pa). next_claimable_occurrence sha i pa db) due)"
      and leases: "\<forall>l\<in>set (snd (claim_each sha now owner ttl due db')).
         lease_owner l = owner \<and> lease_expires_at l = i64_add now ttl"
      using Cons.IH [OF pk'] Cons.prems(2) same free by (simp_all cong: filter_cong)
    note facts = acquire_lease_free [OF Cons.prems(1), of o' owner now ttl]
    show ?thesis
    proof (cases v)
      case None
      with facts(2) acq have "\<not> free_cand o' now db" by simp
      with d Some acq None rest leases show ?thesis by (simp add: List.map_filter_simps)
    next
      case (Some l)
      with facts acq have "free_cand o' now db" "lease_occurrence l = o'" "lease_owner l = owner"
        "lease_expires_at l = i64_add now ttl" by auto
      with d \<open>next_claimable_occurrence sha i pa db = Some o'\<close> acq Some rest leases show ?thesis
        by (auto simp: List.map_filter_simps split: prod.splits)
    qed
  qed
qed

lemma map_fst_due_items: "map fst (due_items now db) = map ir_id (sort_key due_order
    (filter (\<lambda>r. ir_status r = ''active'' \<and> (case due_time r of None \<Rightarrow> False | Some t \<Rightarrow> t \<le> now)) (items db)))"
  by (simp add: due_items_def o_def)

lemma distinct_due_items:
  assumes "primary_key ir_id (items db)"
  shows "distinct (map fst (due_items now db))"
proof -
  have "inj_on ir_id (set (items db))" using assms by (simp add: primary_key_def distinct_map)
  then show ?thesis
    using assms unfolding map_fst_due_items
    by (auto simp: distinct_map primary_key_def intro: inj_on_subset)
qed

section \<open>Exactly once\<close>

definition sched_start :: "sched_state \<Rightarrow> bool" where
  "sched_start s \<longleftrightarrow> occs (sdb s) = [] \<and> primary_key ir_id (items (sdb s)) \<and> (\<forall>p. sweeps s p = None) \<and> log s = []"

lemma sched_start_inv: "sched_start s \<Longrightarrow> sched_inv s"
  by (simp add: sched_start_def sched_inv_def log_recorded_def primary_key_def
      leases_recorded_def firings_recorded_def)

lemma sched_start_apart: "sched_start s \<Longrightarrow> apart_inv sha s"
  by (simp add: sched_start_def apart_inv_def occs_wf_def primary_key_def rows_apart_def)

text \<open>The state after process \<open>p\<close> ran one statement of its sweep, for runs that are computed.\<close>

definition run_statement :: "(nat list \<Rightarrow> nat list) \<Rightarrow> sched_state \<Rightarrow> nat \<Rightarrow> sched_state" where
  "run_statement sha s p =
     (case sweeps s p of
        None \<Rightarrow> s
      | Some w \<Rightarrow>
          (case sweep_statement sha w (sdb s) of
             (w', db', evs) \<Rightarrow> s\<lparr>sdb := db', sweeps := (sweeps s)(p \<mapsto> w'), log := evs @ log s\<rparr>))"

lemma run_statement_step: "sweeps s p \<noteq> None \<Longrightarrow> sched_step sha c j s (run_statement sha s p)"
  by (auto simp: run_statement_def intro: s_statement split: prod.splits)

lemma run_statement_sweeps:
  "sweeps (run_statement sha s p) q = None \<longleftrightarrow> sweeps s q = None"
  "(\<exists>w. sweeps (run_statement sha s p) q = Some w) \<longleftrightarrow> (\<exists>w. sweeps s q = Some w)"
  by (auto simp: run_statement_def split: option.splits prod.splits)

lemma run_statements_steps:
  "\<forall>p\<in>set ps. sweeps s p \<noteq> None \<Longrightarrow> (sched_step sha c j)\<^sup>*\<^sup>* s (foldl (run_statement sha) s ps)"
proof (induction ps arbitrary: s)
  case (Cons p ps)
  then have "(sched_step sha c j)\<^sup>*\<^sup>* (run_statement sha s p) (foldl (run_statement sha) s (p # ps))"
    by (simp add: run_statement_sweeps)
  with Cons.prems run_statement_step show ?case
    by (metis converse_rtranclp_into_rtranclp list.set_intros(1))
qed simp

lemma run_statements_serial:
  "sweeps s p \<noteq> None \<Longrightarrow> lone_sweep s \<Longrightarrow>
     (serial_step sha c j)\<^sup>*\<^sup>* s (foldl (run_statement sha) s (replicate n p))"
proof (induction n arbitrary: s)
  case (Suc n)
  have "serial_step sha c j s (run_statement sha s p)"
    using Suc.prems run_statement_step [of s p sha c j]
    by (auto simp: serial_step_def lone_sweep_def run_statement_sweeps)
  moreover have "(serial_step sha c j)\<^sup>*\<^sup>* (run_statement sha s p) (foldl (run_statement sha) s (replicate (Suc n) p))"
    using Suc by (simp add: run_statement_sweeps lone_sweep_def)
  ultimately show ?case by (rule converse_rtranclp_into_rtranclp)
qed simp

definition sample_codec :: sched_codec where
  "sample_codec = \<lparr>rec_to_json = (\<lambda>_. Some ''r''), rec_from_json = (\<lambda>_. Some (Every 60)),
     vols_to_json = (\<lambda>_. Some ''v''), vols_from_json = (\<lambda>_. Some []),
     meta_to_json = (\<lambda>_. Some ''m''), meta_from_json = (\<lambda>_. None)\<rparr>"

definition sample_item :: item_row where
  "sample_item = \<lparr>ir_id = ''i'', ir_group = 7, ir_session = None, ir_intent = ''sweep'',
     ir_process_after = Some ''100'', ir_recurrence = Some ''r'', ir_status = ''active'', ir_revision = 1,
     ir_gate_command = None, ir_gate_onecli_agent = None, ir_gate_volumes = None, ir_gate_image = None,
     ir_run_as = None\<rparr>"

definition sample_db :: sched_db where
  "sample_db = \<lparr>items = [sample_item], occs = [], runs = []\<rparr>"

definition sample_state :: sched_state where
  "sample_state = \<lparr>sdb = sample_db, sweeps = (\<lambda>_. None), log = []\<rparr>"

lemma sample_state_start: "sched_start sample_state"
  by (simp add: sched_start_def sample_state_def sample_db_def primary_key_def)

lemmas occ_rows_eval = next_claimable_occurrence_def pending_row_def already_fired_def max_sequence_def
  item_occs_def row_max_def acquire_lease_def insert_new_def has_key_def occ_key_def new_occ_row_def
  new_occurrence_def claimable_def update_where_def count_where_def query_row_def

lemmas claim_eval = claim_due_def due_items_def due_order_def due_time_def sql_cast_int_def is_sql_space_def
  is_digit_def digit_val_def i64_min_def i64_max_def occ_rows_eval i64_add_def i64_wrap_def
  sample_item_def sample_db_def

lemma sample_claim:
  "claim_due (\<lambda>_. []) 130 ''w'' 30 sample_db =
     (sample_db\<lparr>occs := [\<lparr>or_item = ''i'', or_seq = 1, or_key = [], or_scheduled_for = Some 100,
        or_fired_at = None, or_status = ''pending'', or_owner = Some ''w'', or_expires = Some 160, or_attempt = 1\<rparr>]\<rparr>,
      [\<lparr>lease_occurrence = \<lparr>occ_item_id = ''i'', occ_sequence = 1, occ_scheduled_for = 100,
          occ_idempotency_key = []\<rparr>,
        lease_owner = ''w'', lease_expires_at = 160, lease_attempt = 1\<rparr>])"
  by (simp add: claim_eval occurrence_idempotency_key_def hex_of_def)

definition sample_occ :: occurrence where
  "sample_occ = \<lparr>occ_item_id = ''i'', occ_sequence = 1, occ_scheduled_for = 100, occ_idempotency_key = []\<rparr>"

definition sample_claimed :: sched_db where
  "sample_claimed = fst (claim_due (\<lambda>_. []) 130 ''w'' 30 sample_db)"

text \<open>
  C1: an occurrence is handed out exactly once. However the statements of the sweeps, the firings, edits
  and lifecycle changes of any number of processes interleave: a lease is granted only when every
  earlier lease on the occurrence has expired, an occurrence recorded as fired is never granted again,
  what is recorded as fired had been granted, and an occurrence has one row. When no two sweeps overlap,
  whatever else goes on between their statements, an item moreover has at most one pending occurrence and
  at most one for a scheduled time.
\<close>

theorem scheduled_occurrence_exclusive:
  assumes "sched_start s0" and "(sched_step sha c j)\<^sup>*\<^sup>* s0 s"
  shows "log_ok (log s) \<and> primary_key occ_key (occs (sdb s))
    \<and> (\<forall>o'. FiredOcc o' \<in> set (log s) \<longrightarrow>
         (\<exists>r\<in>set (occs (sdb s)). occ_key r = occ_id o' \<and> or_status r = ''fired''))
    \<and> ((serial_step sha c j)\<^sup>*\<^sup>* s0 s \<longrightarrow> rows_apart (occs (sdb s)))"
  using sched_steps_inv [OF assms(2) sched_start_inv [OF assms(1)]]
    serial_steps_apart [OF _ sched_start_apart [OF assms(1)]]
  by (auto simp: sched_inv_def log_recorded_def firings_recorded_def apart_inv_def occs_wf_def)

definition sample_swept :: sched_state where
  "sample_swept = foldl (run_statement (\<lambda>_. []))
     (sample_state\<lparr>sweeps := [0 \<mapsto> begin_sweep ''w'' 130 30 sample_db]\<rparr>) (replicate 6 0)"

lemmas statement_eval = run_statement_def sweep_statement_def begin_sweep_def insert_pending_def take_lease_def
  attempt_of_def lease_for_def

lemma sample_swept_run:
  "(serial_step (\<lambda>_. []) utc_chrono sample_codec)\<^sup>*\<^sup>* sample_state sample_swept"
proof -
  let ?s = "sample_state\<lparr>sweeps := [0 \<mapsto> begin_sweep ''w'' 130 30 sample_db]\<rparr>"
  have lone: "lone_sweep ?s" by (simp add: lone_sweep_def)
  have "sched_step (\<lambda>_. []) utc_chrono sample_codec sample_state
      (sample_state\<lparr>sweeps := (sweeps sample_state)(0 \<mapsto> begin_sweep ''w'' 130 30 (sdb sample_state))\<rparr>)"
    by (rule s_begin) (simp_all add: sample_state_def in_i64_def i64_min_def i64_max_def)
  with lone have "serial_step (\<lambda>_. []) utc_chrono sample_codec sample_state ?s"
    by (simp add: serial_step_def sample_state_def)
  moreover have "(serial_step (\<lambda>_. []) utc_chrono sample_codec)\<^sup>*\<^sup>* ?s sample_swept"
    unfolding sample_swept_def by (rule run_statements_serial [OF _ lone]) simp
  ultimately show ?thesis by (rule converse_rtranclp_into_rtranclp)
qed

lemma sample_swept_log: "log sample_swept = [Granted sample_occ ''w'' 130 160]"
  by (simp add: sample_swept_def eval_nat_numeral statement_eval claim_eval sample_state_def sample_occ_def
      occurrence_idempotency_key_def hex_of_def)

lemma serial_steps_run: "(serial_step sha c j)\<^sup>*\<^sup>* s s' \<Longrightarrow> (sched_step sha c j)\<^sup>*\<^sup>* s s'"
  by (induction rule: rtranclp_induct) (auto simp: serial_step_def)

theorem scheduled_occurrence_exclusive_witness:
  "\<exists>s. (sched_step (\<lambda>_. []) utc_chrono sample_codec)\<^sup>*\<^sup>* sample_state s \<and>
     log s = [FiredOcc sample_occ, Granted sample_occ ''w'' 130 160] \<and> log_ok (log s) \<and> rows_apart (occs (sdb s))"
proof -
  let ?R = "serial_step (\<lambda>_. []) utc_chrono sample_codec"
  let ?s = "sample_swept\<lparr>sdb := complete_occurrence sample_occ 150 (sdb sample_swept),
    log := FiredOcc sample_occ # log sample_swept\<rparr>"
  have "sched_step (\<lambda>_. []) utc_chrono sample_codec sample_swept ?s"
    by (rule s_skipped [of sample_occ "''w''" 130 160]) (simp add: sample_swept_log)
  moreover have "lone_sweep ?s"
  proof -
    have "sweeps sample_swept q \<noteq> None \<Longrightarrow> q = 0" for q
      unfolding sample_swept_def by (simp add: eval_nat_numeral run_statement_sweeps split: if_splits)
    then show ?thesis by (auto simp: lone_sweep_def)
  qed
  ultimately have "?R sample_swept ?s" by (simp add: serial_step_def)
  with sample_swept_run have run: "?R\<^sup>*\<^sup>* sample_state ?s" by (rule rtranclp.rtrancl_into_rtrancl)
  have "log ?s = [FiredOcc sample_occ, Granted sample_occ ''w'' 130 160]" by (simp add: sample_swept_log)
  with scheduled_occurrence_exclusive [OF sample_state_start serial_steps_run [OF run]] run serial_steps_run [OF run]
  show ?thesis by blast
qed

text \<open>
  C3: sweeps that overlap can hand out one scheduled time twice. From any start with a due item, two
  sweeps that begin together and interleave their statements both get a lease on the first due item for
  the same scheduled time, both live until the same second, on two occurrences: the second sweep inserts
  its row between the selects of the first, which then allocates the sequence after it. The leases are on
  different rows, so neither keeps the other out.
\<close>

theorem overlapping_sweeps_grant_twice:
  assumes "sched_start s" and "due_items now (sdb s) = (i, t) # due" and "0 \<le> ttl" and "in_i64 (now + ttl)"
  shows "\<exists>s' o1 o2. (sched_step sha c j)\<^sup>*\<^sup>* s s'
    \<and> occ_item_id o1 = i \<and> occ_item_id o2 = i \<and> occ_scheduled_for o1 = t \<and> occ_scheduled_for o2 = t
    \<and> occ_sequence o1 \<noteq> occ_sequence o2
    \<and> log s' = [Granted o2 b now (now + ttl), Granted o1 a now (now + ttl)]
    \<and> \<not> rows_apart (occs (sdb s'))"
proof -
  let ?w1 = "begin_sweep a now ttl (sdb s)" and ?w2 = "begin_sweep b now ttl (sdb s)"
  let ?s1 = "s\<lparr>sweeps := (sweeps s)(1 \<mapsto> ?w1)\<rparr>"
  let ?s2 = "?s1\<lparr>sweeps := (sweeps ?s1)(2 \<mapsto> ?w2)\<rparr>"
  let ?s' = "foldl (run_statement sha) ?s2 [2, 2, 1, 1, 1, 1, 1, 2, 2, 2]"
  let ?o1 = "new_occurrence sha i 1 t" and ?o2 = "new_occurrence sha i 2 t"
  have start: "occs (sdb s) = []" "log s = []" "sweeps s p = None" for p
    using assms(1) by (simp_all add: sched_start_def)
  have "sched_step sha c j s ?s1" using start assms(3,4) by (intro s_begin)
  moreover have "sched_step sha c j ?s1 (?s1\<lparr>sweeps := (sweeps ?s1)(2 \<mapsto> begin_sweep b now ttl (sdb ?s1))\<rparr>)"
    using start assms(3,4) by (intro s_begin) simp_all
  moreover have "(sched_step sha c j)\<^sup>*\<^sup>* ?s2 ?s'" by (rule run_statements_steps) simp
  ultimately have run: "(sched_step sha c j)\<^sup>*\<^sup>* s ?s'"
    by (simp add: converse_rtranclp_into_rtranclp)
  have ev: "log ?s' = [Granted ?o2 b now (now + ttl), Granted ?o1 a now (now + ttl)]
      \<and> map (\<lambda>r. (occ_key r, or_scheduled_for r)) (occs (sdb ?s')) = [((i, 1), Some t), ((i, 2), Some t)]"
    using start assms(2,4)
    by (simp add: statement_eval occ_rows_eval eval_nat_numeral)
  then have "\<not> rows_apart (occs (sdb ?s'))"
    by (auto simp: rows_apart_def map_eq_Cons_conv occ_key_def)
  with run ev show ?thesis
    by (intro exI [of _ ?s'] exI [of _ ?o1] exI [of _ ?o2]) simp
qed

theorem overlapping_sweeps_grant_twice_witness:
  "\<exists>s' o1 o2. (sched_step (\<lambda>_. []) utc_chrono sample_codec)\<^sup>*\<^sup>* sample_state s'
     \<and> occ_scheduled_for o1 = 100 \<and> occ_scheduled_for o2 = 100 \<and> occ_sequence o1 \<noteq> occ_sequence o2
     \<and> log s' = [Granted o2 ''b'' 130 160, Granted o1 ''a'' 130 160]"
proof -
  have "due_items 130 (sdb sample_state) = (''i'', 100) # []"
    by (simp add: sample_state_def claim_eval)
  from overlapping_sweeps_grant_twice [OF sample_state_start this, of 30 "\<lambda>_. []" utc_chrono sample_codec "''b''" "''a''"]
  show ?thesis by (auto simp: in_i64_def i64_min_def i64_max_def)
qed

text \<open>
  C2: a sweep that no other process disturbs claims exactly the work that is due and free: its leases are, in order of due time and
  id, those of the next occurrences of the due active items that have no row yet or whose row is
  pending and not under a live lease; each is for the caller, until the sweep's time plus the lease
  time. So due work whose lease has expired is recovered, and nothing else is claimed.
\<close>

theorem sweep_claims_due_and_free:
  assumes "primary_key ir_id (items db)" and "primary_key occ_key (occs db)"
  shows "map lease_occurrence (snd (claim_due sha now owner ttl db))
      = filter (\<lambda>o'. free_cand o' now db)
          (List.map_filter (\<lambda>(i, pa). next_claimable_occurrence sha i pa db) (due_items now db))
    \<and> (\<forall>l\<in>set (snd (claim_due sha now owner ttl db)).
         lease_owner l = owner \<and> lease_expires_at l = i64_add now ttl)"
  unfolding claim_due_def
  using claim_each_spec [OF assms(2) distinct_due_items [OF assms(1)]] by blast

theorem sweep_claims_due_and_free_witness:
  "map lease_occurrence (snd (claim_due (\<lambda>_. []) 130 ''w'' 30 sample_db)) = [sample_occ] \<and>
   filter (\<lambda>o'. free_cand o' 130 sample_db)
     (List.map_filter (\<lambda>(i, pa). next_claimable_occurrence (\<lambda>_. []) i pa sample_db) (due_items 130 sample_db))
   = [sample_occ]"
proof -
  have "primary_key ir_id (items sample_db)" "primary_key occ_key (occs sample_db)"
    by (simp_all add: sample_db_def primary_key_def)
  from sweep_claims_due_and_free [OF this, of "\<lambda>_. []" 130 "''w''" 30]
  show ?thesis by (simp add: sample_claim sample_occ_def)
qed

definition grant_of :: "int \<Rightarrow> lease \<Rightarrow> sched_event" where
  "grant_of now l = Granted (lease_occurrence l) (lease_owner l) now (lease_expires_at l)"

text \<open>A sweep at the head of its loop, with the due items it has still to visit.\<close>

definition sweep_left :: "string \<Rightarrow> int \<Rightarrow> int \<Rightarrow> (string \<times> int) list \<Rightarrow> lease list \<Rightarrow> sweep" where
  "sweep_left owner now ttl due ls =
     \<lparr>sw_owner = owner, sw_now = now, sw_ttl = ttl, sw_due = due, sw_at = SelectPending, sw_leases = ls\<rparr>"

definition next_state :: "sched_db \<Rightarrow> nat \<Rightarrow> sweep \<Rightarrow> sched_event list \<Rightarrow> sched_state \<Rightarrow> sched_state" where
  "next_state db p w evs s = s\<lparr>sdb := db, sweeps := (sweeps s)(p \<mapsto> w), log := evs @ log s\<rparr>"

lemma next_state_fields [simp]:
  "sdb (next_state db p w evs s) = db" "sweeps (next_state db p w evs s) p = Some w"
  "log (next_state db p w evs s) = evs @ log s"
  "next_state db p w evs (next_state db' p w' evs' s) = next_state db p w (evs @ evs') s"
  by (simp_all add: next_state_def)

lemma statement_then:
  assumes "sweeps s p = Some w" and "sweep_statement sha w (sdb s) = (w', db', evs)"
    and "(sched_step sha c j)\<^sup>*\<^sup>* (next_state db' p w' evs s) s'"
  shows "(sched_step sha c j)\<^sup>*\<^sup>* s s'"
proof -
  have "sched_step sha c j s (next_state db' p w' evs s)"
    unfolding next_state_def using assms(1,2) by (rule s_statement)
  from this assms(3) show ?thesis by (rule converse_rtranclp_into_rtranclp)
qed

text \<open>One item of the loop: its selects, then the statements of its lease.\<close>

lemma visit_nothing:
  assumes w: "sweeps s p = Some (sweep_left owner now ttl ((i, pa) # due) ls)"
    and "next_claimable_occurrence sha i pa (sdb s) = None"
    and rest: "(sched_step sha c j)\<^sup>*\<^sup>* (next_state (sdb s) p (sweep_left owner now ttl due ls) [] s) s'"
  shows "(sched_step sha c j)\<^sup>*\<^sup>* s s'"
proof -
  have "pending_row i (sdb s) = None" "already_fired i pa (sdb s)"
    using assms(2) by (auto simp: next_claimable_occurrence_def split: option.splits if_splits)
  then show ?thesis
    using rest
    by - (rule statement_then [OF w], simp add: sweep_statement_def sweep_left_def,
      rule statement_then [where p = p], simp, simp add: sweep_statement_def sweep_left_def, simp add: sweep_left_def)
qed

lemma visit_selects:
  assumes w: "sweeps s p = Some (sweep_left owner now ttl ((i, pa) # due) ls)"
    and occ: "next_claimable_occurrence sha i pa (sdb s) = Some o'"
    and rest: "(sched_step sha c j)\<^sup>*\<^sup>* (next_state (sdb s) p ((sweep_left owner now ttl due ls)\<lparr>sw_at := InsertPending o'\<rparr>) [] s) s'"
  shows "(sched_step sha c j)\<^sup>*\<^sup>* s s'"
proof (cases "pending_row i (sdb s)")
  case None
  then have "\<not> already_fired i pa (sdb s)" "o' = new_occurrence sha i (max_sequence i (sdb s) + 1) pa"
    using occ by (auto simp: next_claimable_occurrence_def split: if_splits)
  then show ?thesis
    using rest None
    by - (rule statement_then [OF w], simp add: sweep_statement_def sweep_left_def,
      rule statement_then [where p = p], simp, simp add: sweep_statement_def sweep_left_def,
      rule statement_then [where p = p], simp, simp add: sweep_statement_def sweep_left_def, simp add: sweep_left_def)
next
  case (Some r)
  then have "o' = new_occurrence sha i (or_seq r) (case or_scheduled_for r of None \<Rightarrow> pa | Some t \<Rightarrow> t)"
    using occ by (auto simp: next_claimable_occurrence_def)
  then show ?thesis
    using rest Some
    by - (rule statement_then [OF w], simp add: sweep_statement_def sweep_left_def, simp add: sweep_left_def)
qed

lemma visit_lease:
  assumes w: "sweeps s p = Some ((sweep_left owner now ttl due ls)\<lparr>sw_at := InsertPending o'\<rparr>)"
    and acq: "acquire_lease o' owner now ttl (sdb s) = (db1, v)" and pk: "primary_key occ_key (occs (sdb s))"
    and rest: "(sched_step sha c j)\<^sup>*\<^sup>*
      (next_state db1 p (sweep_left owner now ttl due (ls @ (case v of None \<Rightarrow> [] | Some l \<Rightarrow> [l])))
         (case v of None \<Rightarrow> [] | Some l \<Rightarrow> [grant_of now l]) s) s'"
  shows "(sched_step sha c j)\<^sup>*\<^sup>* s s'"
proof -
  obtain n where t: "take_lease o' owner now ttl (insert_pending o' (sdb s)) = (db1, n)"
    and v: "v = (if n = 0 then None else map_option (lease_for o' owner now ttl) (attempt_of o' db1))"
    using acq by (auto simp: acquire_lease_statements split: prod.splits)
  show ?thesis
  proof (cases "n = 0")
    case True
    with t v rest show ?thesis
      by - (rule statement_then [OF w], simp add: sweep_statement_def sweep_left_def,
        rule statement_then [where p = p], simp, simp add: sweep_statement_def sweep_left_def, simp add: sweep_left_def)
  next
    case False
    have "v \<noteq> None"
    proof
      assume "v = None"
      with acquire_lease_None(1) [OF acq [unfolded this] pk] have "n = 0"
        using t by (auto simp: take_lease_def count_where_0_iff)
      with False show False ..
    qed
    then obtain a where a: "attempt_of o' db1 = Some a" "v = Some (lease_for o' owner now ttl a)"
      using v by (auto split: if_splits)
    with t False rest show ?thesis
      by - (rule statement_then [OF w], simp add: sweep_statement_def sweep_left_def,
        rule statement_then [where p = p], simp, simp add: sweep_statement_def sweep_left_def,
        rule statement_then [where p = p], simp, simp add: sweep_statement_def sweep_left_def,
        simp add: sweep_left_def grant_of_def lease_for_def)
  qed
qed

lemma claim_each_steps:
  assumes "primary_key occ_key (occs (sdb s))" and "sweeps s p = Some (sweep_left owner now ttl due ls)"
    and "claim_each sha now owner ttl due (sdb s) = (db', new)"
  shows "(sched_step sha c j)\<^sup>*\<^sup>* s
    (next_state db' p (sweep_left owner now ttl [] (ls @ new)) (rev (map (grant_of now) new)) s)"
  using assms
proof (induction due arbitrary: s ls new)
  case Nil
  then have "next_state db' p (sweep_left owner now ttl [] (ls @ new)) (rev (map (grant_of now) new)) s = s"
    by (simp add: next_state_def fun_upd_idem)
  then show ?case by simp
next
  case (Cons d due)
  obtain i pa where d: "d = (i, pa)" by fastforce
  note w = Cons.prems(2) [unfolded d]
  show ?case
  proof (cases "next_claimable_occurrence sha i pa (sdb s)")
    case None
    show ?thesis
    proof (rule visit_nothing [OF w None])
      let ?s = "next_state (sdb s) p (sweep_left owner now ttl due ls) [] s"
      have "claim_each sha now owner ttl due (sdb ?s) = (db', new)" using Cons.prems(3) d None by simp
      from Cons.IH [OF _ _ this] Cons.prems(1)
      show "(sched_step sha c j)\<^sup>*\<^sup>* ?s
        (next_state db' p (sweep_left owner now ttl [] (ls @ new)) (rev (map (grant_of now) new)) s)" by simp
    qed
  next
    case (Some o')
    obtain db1 v where acq: "acquire_lease o' owner now ttl (sdb s) = (db1, v)"
      by (cases "acquire_lease o' owner now ttl (sdb s)")
    have pk: "primary_key occ_key (occs db1)"
      using acquire_lease_primary_key [OF Cons.prems(1), of o' owner now ttl] acq by simp
    define mine where "mine = (case v of None \<Rightarrow> [] | Some l \<Rightarrow> [l])"
    obtain new' where rest: "claim_each sha now owner ttl due db1 = (db', new')" and new: "new = mine @ new'"
      using Cons.prems(3) d Some acq by (auto simp: mine_def split: option.splits prod.splits)
    let ?s1 = "next_state (sdb s) p ((sweep_left owner now ttl due ls)\<lparr>sw_at := InsertPending o'\<rparr>) [] s"
    let ?s2 = "next_state db1 p (sweep_left owner now ttl due (ls @ mine)) (rev (map (grant_of now) mine)) s"
    have s2: "next_state db1 p (sweep_left owner now ttl due (ls @ (case v of None \<Rightarrow> [] | Some l \<Rightarrow> [l])))
        (case v of None \<Rightarrow> [] | Some l \<Rightarrow> [grant_of now l]) ?s1 = ?s2"
      by (simp add: mine_def split: option.split)
    have w1: "sweeps ?s1 p = Some ((sweep_left owner now ttl due ls)\<lparr>sw_at := InsertPending o'\<rparr>)"
      and acq1: "acquire_lease o' owner now ttl (sdb ?s1) = (db1, v)" and pk1: "primary_key occ_key (occs (sdb ?s1))"
      using acq Cons.prems(1) by simp_all
    have "(sched_step sha c j)\<^sup>*\<^sup>* ?s2
        (next_state db' p (sweep_left owner now ttl [] (ls @ new)) (rev (map (grant_of now) new)) s)"
      using Cons.IH [of ?s2 "ls @ mine" new'] pk rest by (simp add: new)
    then have "(sched_step sha c j)\<^sup>*\<^sup>* ?s1
        (next_state db' p (sweep_left owner now ttl [] (ls @ new)) (rev (map (grant_of now) new)) s)"
      unfolding s2 [symmetric] by (rule visit_lease [OF w1 acq1 pk1])
    then show ?thesis by (rule visit_selects [OF w Some])
  qed
qed

text \<open>
  The sweep the host calls is its statements in a row: from any state, a process that runs the statements
  of its sweep without interruption leaves the database of \<open>claim_due\<close>, has returned its leases, and has
  them in the log in their order.
\<close>

theorem sweep_is_run:
  assumes "0 \<le> ttl" and "in_i64 (now + ttl)" and "primary_key occ_key (occs (sdb s))" and "sweeps s p = None"
    and "claim_due sha now owner ttl (sdb s) = (db', ls)"
  shows "\<exists>s'. (sched_step sha c j)\<^sup>*\<^sup>* s s' \<and> sdb s' = db' \<and> log s' = rev (map (grant_of now) ls) @ log s
    \<and> (\<exists>w. sweeps s' p = Some w \<and> sw_at w = SelectPending \<and> sw_due w = [] \<and> sw_leases w = ls)"
proof -
  let ?w = "begin_sweep owner now ttl (sdb s)"
  let ?s1 = "s\<lparr>sweeps := (sweeps s)(p \<mapsto> ?w)\<rparr>"
  have w: "?w = sweep_left owner now ttl (due_items now (sdb s)) []"
    by (simp add: begin_sweep_def sweep_left_def)
  have "sched_step sha c j s ?s1" using assms(1,2,4) by (intro s_begin)
  moreover have "(sched_step sha c j)\<^sup>*\<^sup>* ?s1
      (next_state db' p (sweep_left owner now ttl [] ([] @ ls)) (rev (map (grant_of now) ls)) ?s1)"
    using assms(3,5) by (intro claim_each_steps) (simp_all add: claim_due_def w)
  ultimately have "(sched_step sha c j)\<^sup>*\<^sup>* s
      (next_state db' p (sweep_left owner now ttl [] ([] @ ls)) (rev (map (grant_of now) ls)) ?s1)"
    by (rule converse_rtranclp_into_rtranclp)
  then show ?thesis
    by (intro exI [of _ "next_state db' p (sweep_left owner now ttl [] ([] @ ls)) (rev (map (grant_of now) ls)) ?s1"])
      (simp add: sweep_left_def)
qed

theorem sweep_is_run_witness:
  "\<exists>s'. (sched_step (\<lambda>_. []) utc_chrono sample_codec)\<^sup>*\<^sup>* sample_state s' \<and> sdb s' = sample_claimed
     \<and> log s' = [Granted sample_occ ''w'' 130 160]"
proof -
  have run: "claim_due (\<lambda>_. []) 130 ''w'' 30 (sdb sample_state)
      = (sample_claimed, [\<lparr>lease_occurrence = sample_occ, lease_owner = ''w'', lease_expires_at = 160, lease_attempt = 1\<rparr>])"
    by (simp add: sample_state_def sample_claimed_def sample_claim sample_occ_def)
  have "primary_key occ_key (occs (sdb sample_state))" "sweeps sample_state 0 = None"
    by (simp_all add: sample_state_def sample_db_def primary_key_def)
  from sweep_is_run [OF _ _ this run, of utc_chrono sample_codec] show ?thesis
    by (auto simp: in_i64_def i64_min_def i64_max_def grant_of_def sample_state_def)
qed

section \<open>The source of truth and its projection\<close>

lemma recurrence_column_serialises:
  assumes "item_serialises j m"
  shows "\<exists>col. recurrence_column j (item_recurrence m) = Inr col \<and> read_recurrence j col = Inr (item_recurrence m)"
  using assms
  by (auto simp: item_serialises_def rec_serialises_def recurrence_column_def read_recurrence_def
      split: option.splits)

lemma volumes_column_serialises:
  assumes "item_serialises j m"
  shows "\<exists>col. volumes_column j (gate_volumes m) = Inr col \<and> read_volumes j col = Inr (gate_volumes m)"
  using assms
  by (auto simp: item_serialises_def vols_serialise_def volumes_column_def read_volumes_def
      split: option.splits)

definition item_of_meta :: "scheduled_meta \<Rightarrow> string option \<Rightarrow> projected_item" where
  "item_of_meta m sid =
     \<lparr>pi_id = scheduled_item_id m, pi_group = agent_group_id m, pi_session = sid,
      pi_intent = summary (intent m), pi_process_after = Some (process_after m),
      pi_recurrence = item_recurrence m, pi_status = status m, pi_revision = revision m,
      pi_gate_command = gate_command m, pi_gate_onecli_agent = gate_onecli_agent m,
      pi_gate_volumes = gate_volumes m, pi_gate_image = gate_image m, pi_run_as = run_as m\<rparr>"

lemma project_meta_reads_back:
  assumes "item_serialises j m" and "in_i64 (process_after m)"
  obtains row where "project_meta j m sid = Inr row" "row_to_item j row = Inr (item_of_meta m sid)"
    "ir_id row = scheduled_item_id m" "ir_status row = schedule_status_str (status m)"
    "ir_process_after row = Some (dec_of_int (process_after m))"
proof -
  obtain rc where rc: "recurrence_column j (item_recurrence m) = Inr rc" "read_recurrence j rc = Inr (item_recurrence m)"
    using recurrence_column_serialises [OF assms(1)] by blast
  obtain vc where vc: "volumes_column j (gate_volumes m) = Inr vc" "read_volumes j vc = Inr (gate_volumes m)"
    using volumes_column_serialises [OF assms(1)] by blast
  define row where "row = projr (project_meta j m sid)"
  have row: "project_meta j m sid = Inr row"
    and f: "ir_id row = scheduled_item_id m" "ir_group row = agent_group_id m" "ir_session row = sid"
      "ir_intent row = summary (intent m)" "ir_process_after row = Some (dec_of_int (process_after m))"
      "ir_recurrence row = rc" "ir_status row = schedule_status_str (status m)"
      "ir_revision row = revision m" "ir_gate_command row = gate_command m"
      "ir_gate_onecli_agent row = gate_onecli_agent m" "ir_gate_volumes row = vc"
      "ir_gate_image row = gate_image m" "ir_run_as row = run_as m"
    by (simp_all add: row_def project_meta_def rc vc)
  have "row_to_item j row = Inr (item_of_meta m sid)"
    by (simp add: row_to_item_def f rc vc read_process_after_def assms(2) read_status_def
        schedule_status_text.parse_as_str item_of_meta_def)
  with row f show thesis by (intro that) simp_all
qed

text \<open>
  what is projected is read back: after the projection of an item was written, its row reads as
  the item and its status as the item's, the other rows and the occurrences are as they were, and
  writing it again changes nothing.
\<close>

theorem projection_reads_back:
  assumes "item_serialises j m" and "in_i64 (process_after m)" and "primary_key ir_id (items db)"
  shows "\<exists>db' row. upsert_item j m sid db = (db', Inr ())
    \<and> get_item (items db') (scheduled_item_id m) = Some row \<and> row_to_item j row = Inr (item_of_meta m sid)
    \<and> item_status (scheduled_item_id m) db' = Inr (Some (status m))
    \<and> (\<forall>k. k \<noteq> scheduled_item_id m \<longrightarrow> get_item (items db') k = get_item (items db) k)
    \<and> (\<forall>k. get_item (items (fst (upsert_item j m sid db'))) k = get_item (items db') k)
    \<and> occs db' = occs db"
proof -
  obtain row where row: "project_meta j m sid = Inr row" "row_to_item j row = Inr (item_of_meta m sid)"
    "ir_id row = scheduled_item_id m" "ir_status row = schedule_status_str (status m)"
    using project_meta_reads_back [OF assms(1,2)] .
  have put: "upsert_item j m sid d = (d\<lparr>items := put_item row (items d)\<rparr>, Inr ())" for d
    by (simp add: upsert_item_def row(1))
  have "get_item (put_item row (items db)) (scheduled_item_id m) = Some row"
    using item_store.get_put_new [OF assms(3), of row] row(3) by simp
  moreover have "read_status (ir_status row) = Inr (status m)"
    by (simp add: read_status_def row(4) schedule_status_text.parse_as_str)
  ultimately show ?thesis
    using item_store.get_put_other [OF assms(3)] item_store.put_idem [OF assms(3)] row
    by (auto simp: put item_status_def)
qed

definition sample_meta :: scheduled_meta where
  "sample_meta = projr (create_meta (\<lambda>_. []) utc_chrono 7 sample_intent 100 (Some (Every 60)) CurrentMemory)"

lemma sample_meta_sel:
  "scheduled_item_id sample_meta = ''sched_''" "status sample_meta = Active" "process_after sample_meta = 100"
  "item_recurrence sample_meta = Some (Every 60)" "gate_volumes sample_meta = []" "occurrence_seq sample_meta = 0"
  by (simp_all add: sample_meta_def create_meta_def check_recurrence_def generate_scheduled_item_id_def hex_of_def)

lemma sample_meta_serialises: "item_serialises sample_codec sample_meta"
  by (simp add: item_serialises_def rec_serialises_def vols_serialise_def sample_meta_sel sample_codec_def)

lemma in_i64_100: "in_i64 100"
  by (simp add: in_i64_def i64_min_def i64_max_def)

theorem projection_reads_back_witness:
  "\<exists>db' row. upsert_item sample_codec sample_meta (Some ''s'') sample_db = (db', Inr ())
    \<and> get_item (items db') ''sched_'' = Some row
    \<and> row_to_item sample_codec row = Inr (item_of_meta sample_meta (Some ''s''))"
proof -
  have "primary_key ir_id (items sample_db)" by (simp add: sample_db_def primary_key_def)
  from projection_reads_back [OF sample_meta_serialises _ this] in_i64_100 show ?thesis
    by (fastforce simp: sample_meta_sel)
qed

lemma get_item_update_where:
  assumes "\<And>r. ir_id (f r) = ir_id r"
  shows "get_item (update_where (\<lambda>r. ir_id r = i \<and> Q r) f t) k
    = (if k = i then map_option (\<lambda>r. if Q r then f r else r) (get_item t i) else get_item t k)"
proof -
  have q: "get_item (update_where (\<lambda>r. ir_id r = i \<and> Q r) f t) k
      = map_option (\<lambda>r. if ir_id r = i \<and> Q r then f r else r) (get_item t k)"
    unfolding get_item_def by (rule query_row_update_where) (simp add: assms)
  show ?thesis
  proof (cases "get_item t k")
    case None
    with q show ?thesis by auto
  next
    case (Some r)
    then have "ir_id r = k" by (auto simp: get_item_def dest: query_row_SomeD)
    with q Some show ?thesis by auto
  qed
qed

lemma project_meta_fired:
  assumes "project_meta j m sid = Inr row"
  shows "project_meta j (m\<lparr>occurrence_seq := n, process_after := t\<rparr>) sid
      = Inr (row\<lparr>ir_process_after := Some (dec_of_int t)\<rparr>)"
    and "project_meta j (m\<lparr>occurrence_seq := n, status := st\<rparr>) sid
      = Inr (row\<lparr>ir_status := schedule_status_str st\<rparr>)"
  using assms by (auto simp: project_meta_def split: sum.splits)

text \<open>
  C4: finalising a firing centrally and recording it in the source keep the two in step: if the
  central row was the projection of an active item, then whenever the source can record the firing
  the central transaction succeeds, and the row it leaves is the projection of the item the source
  has recorded; no other row changes, and the occurrence is fired.
\<close>

theorem firing_agrees_with_source:
  assumes "project_meta j m sid = Inr row" and "get_item (items db) (scheduled_item_id m) = Some row"
    and "status m = Active" and "record_fired c occ m = Returns m'"
  shows "\<exists>db' row'. finalize_firing c occ (item_of_meta m sid) now db = Returns db'
    \<and> project_meta j m' sid = Inr row' \<and> get_item (items db') (scheduled_item_id m) = Some row'
    \<and> (\<forall>k. k \<noteq> scheduled_item_id m \<longrightarrow> get_item (items db') k = get_item (items db) k)
    \<and> (\<forall>r\<in>set (occs db'). occ_key r = occ_id occ \<longrightarrow> or_status r = ''fired'')"
proof -
  let ?db1 = "complete_occurrence occ now db"
  have fired: "\<forall>r\<in>set (occs ?db1). occ_key r = occ_id occ \<longrightarrow> or_status r = ''fired''"
    by (auto simp: complete_occurrence_occs fire_key_def)
  have items1: "items ?db1 = items db" by (simp add: complete_occurrence_def)
  have active: "ir_status row = ''active''"
    using assms(1,3) by (auto simp: project_meta_def split: sum.splits)
  show ?thesis
  proof (cases "item_recurrence m")
    case (Some rec)
    with assms(4) obtain t where t: "next_after c rec (occ_scheduled_for occ) = Returns t"
      and m': "m' = m\<lparr>occurrence_seq := occ_sequence occ, process_after := t\<rparr>"
      by (auto simp: record_fired_def Let_def split: outcome.splits)
    have "finalize_firing c occ (item_of_meta m sid) now db
        = Returns (advance_recurrence (scheduled_item_id m) t ?db1)"
      by (simp add: finalize_firing_def Let_def item_of_meta_def Some t)
    moreover have "get_item (items (advance_recurrence (scheduled_item_id m) t ?db1)) k
        = (if k = scheduled_item_id m then Some (row\<lparr>ir_process_after := Some (dec_of_int t)\<rparr>) else get_item (items db) k)" for k
      using get_item_update_where [where Q = "\<lambda>_. True" and i = "scheduled_item_id m" and t = "items db" and k = k]
      by (simp add: advance_recurrence_def items1 assms(2))
    ultimately show ?thesis
      using fired project_meta_fired(1) [OF assms(1), where n = "occ_sequence occ" and t = t] m'
      by (simp add: advance_recurrence_def)
  next
    case None
    with assms(4) have m': "m' = m\<lparr>occurrence_seq := occ_sequence occ, status := Completed\<rparr>"
      by (simp add: record_fired_def)
    have "finalize_firing c occ (item_of_meta m sid) now db
        = Returns (complete_item (scheduled_item_id m) ?db1)"
      by (simp add: finalize_firing_def Let_def item_of_meta_def None)
    moreover have "get_item (items (complete_item (scheduled_item_id m) ?db1)) k
        = (if k = scheduled_item_id m then Some (row\<lparr>ir_status := ''completed''\<rparr>) else get_item (items db) k)" for k
      using get_item_update_where [where Q = "\<lambda>r. ir_status r = ''active''" and i = "scheduled_item_id m" and t = "items db" and k = k]
      by (simp add: complete_item_def set_item_status_def items1 assms(2) active)
    ultimately show ?thesis
      using fired project_meta_fired(2) [OF assms(1), where n = "occ_sequence occ" and st = Completed] m'
      by (simp add: complete_item_def)
  qed
qed

theorem firing_agrees_with_source_witness:
  "\<exists>row db' row' m'. project_meta sample_codec sample_meta None = Inr row \<and>
     record_fired utc_chrono (new_occurrence (\<lambda>_. []) ''sched_'' 1 100) sample_meta = Returns m' \<and>
     process_after m' = 160 \<and>
     finalize_firing utc_chrono (new_occurrence (\<lambda>_. []) ''sched_'' 1 100) (item_of_meta sample_meta None) 130
       \<lparr>items = [row], occs = [], runs = []\<rparr> = Returns db' \<and>
     project_meta sample_codec m' None = Inr row' \<and> get_item (items db') ''sched_'' = Some row'"
proof -
  obtain row where row: "project_meta sample_codec sample_meta None = Inr row" "ir_id row = ''sched_''"
    using project_meta_reads_back [OF sample_meta_serialises, of None] in_i64_100 by (auto simp: sample_meta_sel)
  have get: "get_item (items \<lparr>items = [row], occs = [], runs = []\<rparr>) (scheduled_item_id sample_meta) = Some row"
    by (simp add: get_item_def row sample_meta_sel)
  obtain m' where m': "record_fired utc_chrono (new_occurrence (\<lambda>_. []) ''sched_'' 1 100) sample_meta = Returns m'"
    "process_after m' = 160"
    by (simp add: record_fired_def Let_def sample_meta_sel next_after_def new_occurrence_def i64_add_def i64_wrap_def)
  from firing_agrees_with_source [OF row(1) get sample_meta_sel(2) m'(1), of 130] row m' show ?thesis
    by (auto simp: sample_meta_sel)
qed

end
