(* ===== verification/Schedule_Repair.thy ===== *)
theory Schedule_Repair
  imports Schedule_Sweeps
begin

text \<open>
  Repair of the central index from the source of truth, the source's own round trip through the
  session's inbound database, and a late finalisation that stalls a recurrence.
\<close>

section \<open>Repair\<close>

definition phantom :: "string \<Rightarrow> nat \<Rightarrow> occ_row \<Rightarrow> bool" where
  "phantom i n r \<longleftrightarrow> or_item r = i \<and> n < or_seq r \<and> or_status r = ''fired''"

definition unfire :: "occ_row \<Rightarrow> occ_row" where
  "unfire r = r\<lparr>or_status := ''pending'', or_fired_at := None\<rparr>"

definition marker_row :: "(nat list \<Rightarrow> nat list) \<Rightarrow> string \<Rightarrow> nat \<Rightarrow> occ_row" where
  "marker_row sha i n =
     \<lparr>or_item = i, or_seq = n, or_key = occurrence_idempotency_key sha i n,
      or_scheduled_for = None, or_fired_at = None, or_status = ''fired'',
      or_owner = None, or_expires = None, or_attempt = 0\<rparr>"

definition mark_through :: "(nat list \<Rightarrow> nat list) \<Rightarrow> string \<Rightarrow> nat \<Rightarrow> occ_row list \<Rightarrow> occ_row list" where
  "mark_through sha i n t =
     (if 0 < n then upsert_row occ_key (\<lambda>old _. old\<lparr>or_status := ''fired''\<rparr>) (marker_row sha i n) t else t)"

lemma reconcile_item_conv:
  assumes "project_meta j m (Some sid) = Inr row"
  shows "reconcile_item sha j m sid db =
    (db\<lparr>items := put_item row (items db),
        occs := update_where (phantom (scheduled_item_id m) (occurrence_seq m)) unfire
          (mark_through sha (scheduled_item_id m) (occurrence_seq m) (occs db))\<rparr>,
     Inr (count_where (phantom (scheduled_item_id m) (occurrence_seq m))
       (mark_through sha (scheduled_item_id m) (occurrence_seq m) (occs db))))"
  by (simp add: reconcile_item_def upsert_item_def assms Let_def mark_through_def marker_row_def
      phantom_def [abs_def] unfire_def [abs_def])

lemma unfire_sel [simp]:
  "occ_key (unfire r) = occ_key r" "or_item (unfire r) = or_item r" "or_seq (unfire r) = or_seq r"
  "or_status (unfire r) = ''pending''" "or_owner (unfire r) = or_owner r"
  "or_expires (unfire r) = or_expires r" "or_attempt (unfire r) = or_attempt r"
  "or_scheduled_for (unfire r) = or_scheduled_for r"
  by (simp_all add: unfire_def occ_key_def)

text \<open>Each row of the table survives the marker with its key, lease and time.\<close>

definition same_lease :: "occ_row \<Rightarrow> occ_row \<Rightarrow> bool" where
  "same_lease r r' \<longleftrightarrow> occ_key r' = occ_key r \<and> or_owner r' = or_owner r \<and> or_expires r' = or_expires r
     \<and> or_attempt r' = or_attempt r \<and> or_scheduled_for r' = or_scheduled_for r"

lemma occ_key_status [simp]: "occ_key (r\<lparr>or_status := s\<rparr>) = occ_key r"
  by (simp add: occ_key_def)

lemma marker_row_sel [simp]:
  "occ_key (marker_row sha i n) = (i, n)" "or_status (marker_row sha i n) = ''fired''"
  by (simp_all add: marker_row_def occ_key_def)

lemma same_lease_refl [simp]: "same_lease r r" "same_lease r (r\<lparr>or_status := s\<rparr>)"
  by (simp_all add: same_lease_def)

lemma mark_through_fired:
  assumes "x \<in> set (mark_through sha i n t)" and "occ_key x = (i, n)" and "0 < n"
  shows "or_status x = ''fired''"
proof (cases "has_key occ_key (i, n) t")
  case True
  with assms show ?thesis by (auto simp: mark_through_def upsert_row_def split: if_splits)
next
  case False
  then have "occ_key y \<noteq> (i, n)" if "y \<in> set t" for y
    using imageI [OF that, of occ_key] unfolding has_key_def by metis
  with False assms show ?thesis by (auto simp: mark_through_def upsert_row_def)
qed

lemma mark_through_keeps:
  assumes "r \<in> set t"
  shows "\<exists>r'\<in>set (mark_through sha i n t). same_lease r r'"
proof -
  have "\<exists>r'\<in>set (map (\<lambda>x. if occ_key x = (i, n) then x\<lparr>or_status := ''fired''\<rparr> else x) t). same_lease r r'"
    using assms
    by (intro bexI [of _ "if occ_key r = (i, n) then r\<lparr>or_status := ''fired''\<rparr> else r"]) auto
  moreover have "\<exists>r'\<in>set (t @ [marker_row sha i n]). same_lease r r'" "\<exists>r'\<in>set t. same_lease r r'"
    using assms by (auto intro: bexI [of _ r])
  ultimately show ?thesis by (simp add: mark_through_def upsert_row_def)
qed

lemma mark_through_marks:
  assumes "0 < n"
  shows "\<exists>r\<in>set (mark_through sha i n t). occ_key r = (i, n) \<and> or_status r = ''fired''"
proof (cases "has_key occ_key (i, n) t")
  case True
  then obtain r where "r \<in> set t" "occ_key r = (i, n)" by (auto simp: has_key_def)
  with True assms show ?thesis
    by (intro bexI [of _ "r\<lparr>or_status := ''fired''\<rparr>"]) (auto simp: mark_through_def upsert_row_def)
next
  case False
  with assms show ?thesis
    by (intro bexI [of _ "marker_row sha i n"]) (simp_all add: mark_through_def upsert_row_def)
qed

lemma mark_through_other_item:
  assumes "k \<noteq> i"
  shows "filter (\<lambda>r. or_item r = k) (mark_through sha i n t) = filter (\<lambda>r. or_item r = k) t"
proof -
  have "filter (\<lambda>r. or_item r = k)
      (map (\<lambda>x. if occ_key x = (i, n) then x\<lparr>or_status := ''fired''\<rparr> else x) t) = filter (\<lambda>r. or_item r = k) t"
    using assms by (induction t) (auto simp: occ_key_def)
  with assms show ?thesis by (simp add: mark_through_def upsert_row_def marker_row_def occ_key_def)
qed

lemma mark_through_id:
  assumes "0 < n \<Longrightarrow> \<exists>r\<in>set t. occ_key r = (i, n)"
    and "\<And>r. r \<in> set t \<Longrightarrow> occ_key r = (i, n) \<Longrightarrow> or_status r = ''fired''"
  shows "mark_through sha i n t = t"
proof -
  have "x\<lparr>or_status := ''fired''\<rparr> = x" if "x \<in> set t" "occ_key x = (i, n)" for x
    using assms(2) [OF that] by simp
  then have "map (\<lambda>x. if occ_key x = (i, n) then x\<lparr>or_status := ''fired''\<rparr> else x) t = t"
    by (intro map_idI) auto
  moreover have "0 < n \<Longrightarrow> has_key occ_key (i, n) t" using assms(1) by (force simp: has_key_def)
  ultimately show ?thesis by (simp add: mark_through_def upsert_row_def)
qed

lemma put_item_twice: "put_item r (put_item r t) = put_item r t"
proof -
  have "has_key ir_id (ir_id r) (put_item r t)"
    unfolding put_item_def has_key_def by (simp add: upsert_row_keys)
  moreover have "map (\<lambda>x. if ir_id x = ir_id r then r else x) (put_item r t) = put_item r t"
  proof (rule map_idI)
    fix x
    assume x: "x \<in> set (put_item r t)"
    show "(if ir_id x = ir_id r then r else x) = x"
    proof (cases "has_key ir_id (ir_id r) t")
      case True
      with x show ?thesis by (auto simp: put_item_def upsert_row_def split: if_splits)
    next
      case False
      then have "ir_id y \<noteq> ir_id r" if "y \<in> set t" for y
        using imageI [OF that, of ir_id] unfolding has_key_def by metis
      with False x show ?thesis by (auto simp: put_item_def upsert_row_def)
    qed
  qed
  moreover have "put_item r t' = t'"
    if "has_key ir_id (ir_id r) t'" "map (\<lambda>x. if ir_id x = ir_id r then r else x) t' = t'" for t'
    using that by (simp add: put_item_def upsert_row_def)
  ultimately show ?thesis by blast
qed

text \<open>
  C5: repair makes the central index agree with the source. After an item is reconciled its row
  reads as the source's item; its occurrences recorded as fired are exactly not beyond the last
  firing of the source, which itself is recorded; every occurrence keeps its lease, attempts and
  scheduled time; other items are untouched; and reconciling again changes nothing.
\<close>

theorem repair_agrees_with_source:
  assumes "item_serialises j m" and "in_i64 (process_after m)" and "primary_key ir_id (items db)"
    and "reconcile_item sha j m sid db = (db', r)"
  shows "(\<exists>row. get_item (items db') (scheduled_item_id m) = Some row \<and> row_to_item j row = Inr (item_of_meta m (Some sid)))
    \<and> (\<forall>x\<in>set (occs db'). or_item x = scheduled_item_id m \<longrightarrow> or_status x = ''fired'' \<longrightarrow> or_seq x \<le> occurrence_seq m)
    \<and> (0 < occurrence_seq m \<longrightarrow>
         (\<exists>x\<in>set (occs db'). occ_key x = (scheduled_item_id m, occurrence_seq m) \<and> or_status x = ''fired''))
    \<and> (\<forall>x\<in>set (occs db). \<exists>x'\<in>set (occs db'). same_lease x x')
    \<and> (\<forall>k. k \<noteq> scheduled_item_id m \<longrightarrow> item_occs k db' = item_occs k db \<and> get_item (items db') k = get_item (items db) k)
    \<and> reconcile_item sha j m sid db' = (db', Inr 0)"
proof -
  let ?i = "scheduled_item_id m" and ?n = "occurrence_seq m"
  let ?t1 = "mark_through sha ?i ?n (occs db)"
  obtain row where row: "project_meta j m (Some sid) = Inr row" "row_to_item j row = Inr (item_of_meta m (Some sid))"
    "ir_id row = ?i"
    using project_meta_reads_back [OF assms(1,2)] .
  have db': "items db' = put_item row (items db)" "occs db' = update_where (phantom ?i ?n) unfire ?t1"
    using assms(4) reconcile_item_conv [OF row(1), of sha db] by auto
  have no_phantom: "\<not> phantom ?i ?n x" if "x \<in> set (occs db')" for x
    using that by (auto simp: db' set_update_where phantom_def)
  have item: "\<exists>row. get_item (items db') ?i = Some row \<and> row_to_item j row = Inr (item_of_meta m (Some sid))"
    using item_store.get_put_new [OF assms(3), of row] row by (simp add: db')
  have fired: "\<forall>x\<in>set (occs db'). or_item x = ?i \<longrightarrow> or_status x = ''fired'' \<longrightarrow> or_seq x \<le> ?n"
    using no_phantom by (fastforce simp: phantom_def)
  have marked: "\<exists>x\<in>set (occs db'). occ_key x = (?i, ?n) \<and> or_status x = ''fired''" if pos: "0 < ?n"
  proof -
    obtain x where "x \<in> set ?t1" "occ_key x = (?i, ?n)" "or_status x = ''fired''"
      using mark_through_marks [OF pos] by blast
    then show ?thesis by (intro bexI [of _ x]) (auto simp: db' set_update_where phantom_def occ_key_def)
  qed
  have leases: "\<exists>x'\<in>set (occs db'). same_lease x x'" if x: "x \<in> set (occs db)" for x
  proof -
    obtain y where y: "y \<in> set ?t1" "same_lease x y" using mark_through_keeps [OF x] by blast
    then show ?thesis
      by (cases "phantom ?i ?n y")
        (auto simp: db' set_update_where same_lease_def intro: bexI [of _ "unfire y"] bexI [of _ y])
  qed
  have other: "item_occs k db' = item_occs k db" if "k \<noteq> ?i" for k
  proof -
    have "filter (\<lambda>r. or_item r = k) (update_where (phantom ?i ?n) unfire ?t1)
        = update_where (phantom ?i ?n) unfire (filter (\<lambda>r. or_item r = k) ?t1)"
      by (rule filter_update_where) simp
    also have "\<dots> = filter (\<lambda>r. or_item r = k) ?t1"
      using that by (intro update_where_none) (auto simp: phantom_def)
    finally show ?thesis using mark_through_other_item [OF that] by (simp add: item_occs_def db')
  qed
  have others: "get_item (items db') k = get_item (items db) k" if "k \<noteq> ?i" for k
    using item_store.get_put_other [OF assms(3)] that row(3) by (simp add: db')
  have through: "or_status x = ''fired''" if "x \<in> set (occs db')" "occ_key x = (?i, ?n)" "0 < ?n" for x
  proof -
    from that(1) obtain y where y: "y \<in> set ?t1" "x = y \<or> phantom ?i ?n y \<and> x = unfire y"
      by (auto simp: db' set_update_where)
    with that(2) have "x = y" by (auto simp: phantom_def occ_key_def)
    with mark_through_fired [OF y(1)] that(2,3) show ?thesis by simp
  qed
  have "mark_through sha ?i ?n (occs db') = occs db'"
  proof (cases "0 < ?n")
    case True
    show ?thesis by (rule mark_through_id) (use marked through True in blast)+
  qed (simp add: mark_through_def)
  moreover have "update_where (phantom ?i ?n) unfire (occs db') = occs db'"
    using no_phantom by (intro update_where_none) blast
  moreover have "count_where (phantom ?i ?n) (occs db') = 0"
    using no_phantom by (simp add: count_where_0_iff)
  moreover have "put_item row (items db') = items db'"
    unfolding db'(1) by (rule put_item_twice)
  ultimately have again: "reconcile_item sha j m sid db' = (db', Inr 0)"
    using reconcile_item_conv [OF row(1), of sha db'] by simp
  from item fired marked leases other others again show ?thesis by blast
qed

theorem repair_agrees_with_source_witness:
  "\<exists>db'. reconcile_item (\<lambda>_. []) sample_codec sample_meta ''s''
       \<lparr>items = [], occs = [marker_row (\<lambda>_. []) ''sched_'' 4], runs = []\<rparr> = (db', Inr 1)
     \<and> (\<forall>x\<in>set (occs db'). or_item x = ''sched_'' \<longrightarrow> or_status x = ''fired'' \<longrightarrow> or_seq x \<le> 0)
     \<and> reconcile_item (\<lambda>_. []) sample_codec sample_meta ''s'' db' = (db', Inr 0)"
proof -
  let ?db = "\<lparr>items = [], occs = [marker_row (\<lambda>_. []) ''sched_'' 4], runs = []\<rparr>"
  obtain row where row: "project_meta sample_codec sample_meta (Some ''s'') = Inr row"
    using project_meta_reads_back [OF sample_meta_serialises, of "Some ''s''"] in_i64_100
    by (auto simp: sample_meta_sel)
  obtain db' where run: "reconcile_item (\<lambda>_. []) sample_codec sample_meta ''s'' ?db = (db', Inr 1)"
    using reconcile_item_conv [OF row, of "\<lambda>_. []" ?db]
    by (simp add: sample_meta_sel mark_through_def count_where_def phantom_def marker_row_def)
  have pk: "primary_key ir_id (items ?db)" by (simp add: primary_key_def)
  from repair_agrees_with_source [OF sample_meta_serialises _ pk run] run in_i64_100
  show ?thesis by (simp add: sample_meta_sel)
qed

section \<open>The source\<close>

lemma with_retry_Inr:
  "with_retry n op s = (s', Inr x) \<Longrightarrow> \<exists>s0. op s0 = (s', Inr x)"
  by (induction n arbitrary: s) (auto split: prod.splits sum.splits if_splits)

lemma with_retry_first: "op s = (s', Inr x) \<Longrightarrow> with_retry n op s = (s', Inr x)"
  by (cases n) simp_all

lemma upsert_rows_metadata:
  assumes "upsert_rows now key m t = (t', Inr n)"
  shows "metadata_of_key key t' = Inr (msg_metadata m) \<or> msg_metadata m = None"
proof (cases "seq_of_key key t")
  case (Some q)
  then obtain r where r: "query_row (\<lambda>r. im_key r = Some key) (messages_in t) = Some r" "im_seq r = q"
    by (auto simp: seq_of_key_def)
  define f where "f = (\<lambda>r :: in_msg. r\<lparr>im_content := msg_content m, im_metadata := msg_metadata m, im_edited := Some now\<rparr>)"
  have "messages_in t' = update_where (\<lambda>r. im_seq r = q) f (messages_in t)"
    using assms Some by (auto simp: upsert_rows_def f_def)
  then have "query_row (\<lambda>r. im_key r = Some key) (messages_in t') = Some (f r)"
    using r by (simp add: query_row_update_where f_def)
  then show ?thesis by (cases "msg_metadata m") (simp_all add: metadata_of_key_def f_def)
next
  case None
  let ?r = "new_inbound_row now m (Some key) None t"
  from None assms have "insert_message ?r t = (t', Inr n)" by (simp add: upsert_rows_def)
  then have "messages_in t' = messages_in t @ [?r]"
    by (cases rule: insert_message_cases [of ?r t]) auto
  with None show ?thesis
    by (cases "msg_metadata m")
      (auto simp: seq_of_key_def metadata_of_key_def query_row_append new_inbound_row_def)
qed

lemma latest_meta_after_write:
  assumes "additive_env env" and "meta_serialises j m" and "write_meta env j now m s = (s', Inr ())"
  shows "latest_meta env j (scheduled_item_id m) s' = (s', Inr (Some m))"
proof -
  let ?key = "meta_idempotency_key (scheduled_item_id m)"
  obtain js where js: "meta_to_json j m = Some js" "meta_from_json j js = Some m"
    using assms(2) by (auto simp: meta_serialises_def split: option.splits)
  let ?msg = "\<lparr>msg_sender = schedule_meta_sender, msg_content = summary (intent m),
       msg_metadata = Some js, msg_thread = None\<rparr>"
  obtain s0 where "(case upsert_inbound_meta env now ?key ?msg s0 of
      (s', Inl e) \<Rightarrow> (s', Inl (SourceSession e)) | (s', Inr _) \<Rightarrow> (s', Inr ())) = (s', Inr ())"
    using assms(3) with_retry_Inr by (fastforce simp: write_meta_def js)
  then obtain n where w: "with_inbound env (upsert_rows now ?key ?msg) s0 = (s', Inr n)"
    by (auto simp: upsert_inbound_meta_def split: prod.splits sum.splits)
  from w have "upsert_rows now ?key ?msg (in_rows s0) = (in_rows s', Inr n)"
    by (cases rule: with_inbound_cases [OF assms(1)]) auto
  then have "metadata_of_key ?key (in_rows s') = Inr (Some js)"
    using upsert_rows_metadata by fastforce
  moreover have "inbound_ready env s'" using w by (rule with_inbound_Inr_ready)
  ultimately have "with_inbound env (\<lambda>t. (t, metadata_of_key ?key t)) s' = (s', Inr (Some js))"
    by (intro with_inbound_ready) simp_all
  then show ?thesis
    unfolding latest_meta_def by (subst with_retry_first) (auto simp: js)
qed

text \<open>
  the source of truth reads back what was written: after an item's metadata was written to its
  session, reading the item gives exactly that item and changes nothing.
\<close>

theorem source_reads_back:
  assumes "additive_env env" and "meta_serialises j m" and "write_meta env j now m s = (s', Inr ())"
  shows "latest_meta env j (scheduled_item_id m) s' = (s', Inr (Some m))"
  by (rule latest_meta_after_write [OF assms])

definition meta_codec :: sched_codec where
  "meta_codec = sample_codec\<lparr>meta_from_json := (\<lambda>_. Some sample_meta)\<rparr>"

theorem source_reads_back_witness:
  "\<exists>s'. write_meta plain_env meta_codec ''t'' sample_meta empty_session = (s', Inr ()) \<and>
     latest_meta plain_env meta_codec ''sched_'' s' = (s', Inr (Some sample_meta))"
proof -
  have codec: "meta_serialises meta_codec sample_meta"
    by (simp add: meta_serialises_def meta_codec_def sample_codec_def)
  obtain s' where up: "upsert_inbound_meta plain_env ''t'' (meta_idempotency_key (scheduled_item_id sample_meta))
      \<lparr>msg_sender = schedule_meta_sender, msg_content = summary (intent sample_meta),
       msg_metadata = Some ''m'', msg_thread = None\<rparr> empty_session = (s', Inr 0)"
    by (simp add: upsert_inbound_meta_def upsert_rows_def session_eval)
  have "write_meta plain_env meta_codec ''t'' sample_meta empty_session = (s', Inr ())"
    unfolding write_meta_def by (simp add: meta_codec_def sample_codec_def, subst with_retry_first) (auto simp: up)
  from source_reads_back [OF plain_env_additive codec this] this show ?thesis
    by (auto simp: sample_meta_sel)
qed

section \<open>A late finalisation\<close>

text \<open>
  A worker whose lease ran out may still finalise its firing. When another worker has recovered the
  occurrence and fired the one after it in the meantime, the late call sets the due time of the item
  back to a time that has fired, and no later sweep claims the item again although it stays active.
\<close>

definition late_item :: projected_item where
  "late_item = item_of_meta (sample_meta\<lparr>scheduled_item_id := ''i''\<rparr>) None"

definition late_run :: "sched_db outcome" where
  "late_run =
     (let claim = (\<lambda>now w db. fst (claim_due (\<lambda>_. []) now w 30 db));
          occ = (\<lambda>n t. new_occurrence (\<lambda>_. []) ''i'' n t)
      in case finalize_firing utc_chrono (occ 1 100) late_item 210 (claim 200 ''b'' (claim 130 ''a'' sample_db)) of
           Panic \<Rightarrow> Panic
         | Returns db1 \<Rightarrow>
             (case finalize_firing utc_chrono (occ 2 160) late_item 230 (claim 220 ''b'' db1) of
                Panic \<Rightarrow> Panic
              | Returns db2 \<Rightarrow> finalize_firing utc_chrono (occ 1 100) late_item 240 db2))"

lemmas fire_eval = finalize_firing_def complete_occurrence_def advance_recurrence_def next_after_def
  late_item_def item_of_meta_def sample_meta_sel

lemma late_run_result:
  "\<exists>db r1 r2. late_run = Returns db \<and> items db = [sample_item\<lparr>ir_process_after := Some ''160''\<rparr>] \<and>
     occs db = [r1, r2] \<and> or_status r1 = ''fired'' \<and> or_status r2 = ''fired'' \<and>
     or_item r1 = ''i'' \<and> or_item r2 = ''i'' \<and> or_scheduled_for r2 = Some 160"
  by (simp add: late_run_def claim_eval fire_eval occurrence_idempotency_key_def hex_of_def Let_def
      dec_of_int_def dec_of_nat.simps digit_char_eval)

text \<open>
  C33: a recurrence can stall: there is a run of claims and finalisations, each by a process that was
  granted the occurrence, after which the recurring item is active and due but no sweep, at any
  time, claims anything.
\<close>

theorem late_finalisation_stalls:
  "\<exists>db. late_run = Returns db \<and> ir_status (hd (items db)) = ''active'' \<and> due_time (hd (items db)) = Some 160
     \<and> (\<forall>now owner ttl. snd (claim_due sha now owner ttl db) = [])"
proof -
  obtain db r1 r2 where db: "late_run = Returns db" "items db = [sample_item\<lparr>ir_process_after := Some ''160''\<rparr>]"
    "occs db = [r1, r2]" "or_status r1 = ''fired''" "or_status r2 = ''fired''"
    "or_item r1 = ''i''" "or_item r2 = ''i''" "or_scheduled_for r2 = Some 160"
    using late_run_result by blast
  have due: "due_time (sample_item\<lparr>ir_process_after := Some ''160''\<rparr>) = Some 160"
    by (simp add: due_time_def sql_cast_int_def is_sql_space_def is_digit_def digit_val_def i64_min_def i64_max_def)
  have "next_claimable_occurrence sha ''i'' 160 db = None"
    using db by (simp add: next_claimable_occurrence_def pending_row_def item_occs_def already_fired_def row_max_def)
  moreover have "due_items now db = (if 160 \<le> now then [(''i'', 160)] else [])" for now
    using db due by (simp add: due_items_def sample_item_def)
  ultimately have "snd (claim_due sha now owner ttl db) = []" for now owner ttl
    by (simp add: claim_due_def)
  with db due show ?thesis by (intro exI [of _ db]) (simp add: sample_item_def)
qed

end
