(* ===== verification/Permissions.thy ===== *)
theory Permissions
  imports Interfaces
begin

text \<open>
  \<open>crates/assistant-permissions\<close>: roles and the access policy (\<open>model.rs\<close>, \<open>access.rs\<close>), users, roles
  and DM routes (\<open>store.rs\<close>), standing instructions (\<open>standing.rs\<close>) and readiness (\<open>readiness.rs\<close>).
  An \<open>INTEGER PRIMARY KEY\<close> takes the number after the largest. Unicode lowercasing is the argument
  \<open>lower\<close>.
\<close>

section \<open>Roles and policies\<close>

datatype role = Member | Admin | Owner

fun role_str :: "role \<Rightarrow> string" where
  "role_str Member = ''member''"
| "role_str Admin = ''admin''"
| "role_str Owner = ''owner''"

definition parse_role :: "string \<Rightarrow> role option" where
  "parse_role s =
     (if s = ''member'' then Some Member
      else if s = ''admin'' then Some Admin
      else if s = ''owner'' then Some Owner
      else None)"

interpretation role_text: text_enum role_str parse_role
proof
  show "parse_role (role_str x) = Some x" for x by (cases x) (simp_all add: parse_role_def)
  show "parse_role s = Some x \<Longrightarrow> s = role_str x" for s x by (auto simp: parse_role_def split: if_splits)
qed

text \<open>The derived order of the enum: by privilege.\<close>

fun privilege :: "role \<Rightarrow> nat" where
  "privilege Member = 0"
| "privilege Admin = 1"
| "privilege Owner = 2"

lemma privilege_inject [simp]: "privilege r = privilege r' \<longleftrightarrow> r = r'"
  by (cases r; cases r') simp_all

instantiation role :: linorder
begin

definition less_eq_role :: "role \<Rightarrow> role \<Rightarrow> bool" where
  "less_eq_role r r' \<longleftrightarrow> privilege r \<le> privilege r'"

definition less_role :: "role \<Rightarrow> role \<Rightarrow> bool" where
  "less_role r r' \<longleftrightarrow> privilege r < privilege r'"

instance
  by standard (auto simp: less_eq_role_def less_role_def)

end

fun role_is_administrative :: "role \<Rightarrow> bool" where
  "role_is_administrative Owner = True"
| "role_is_administrative Admin = True"
| "role_is_administrative Member = False"

lemma role_is_administrative_iff: "role_is_administrative r \<longleftrightarrow> Admin \<le> r"
  by (cases r) (simp_all add: less_eq_role_def)

datatype unknown_policy = Strict | RequestApprovalPolicy | Public

fun unknown_policy_str :: "unknown_policy \<Rightarrow> string" where
  "unknown_policy_str Strict = ''strict''"
| "unknown_policy_str RequestApprovalPolicy = ''request_approval''"
| "unknown_policy_str Public = ''public''"

definition parse_unknown_policy :: "string \<Rightarrow> unknown_policy option" where
  "parse_unknown_policy s =
     (if s = ''strict'' then Some Strict
      else if s = ''request_approval'' then Some RequestApprovalPolicy
      else if s = ''public'' then Some Public
      else None)"

interpretation unknown_policy_text: text_enum unknown_policy_str parse_unknown_policy
proof
  show "parse_unknown_policy (unknown_policy_str x) = Some x" for x
    by (cases x) (simp_all add: parse_unknown_policy_def)
  show "parse_unknown_policy s = Some x \<Longrightarrow> s = unknown_policy_str x" for s x
    by (auto simp: parse_unknown_policy_def split: if_splits)
qed

datatype access_decision = Allow | RequestApproval string | Deny string

definition decide_access :: "bool \<Rightarrow> unknown_policy \<Rightarrow> access_decision" where
  "decide_access known policy =
     (if known then Allow
      else (case policy of
              Strict \<Rightarrow> Deny ''unknown identity under strict policy''
            | RequestApprovalPolicy \<Rightarrow> RequestApproval ''unknown identity awaiting approval''
            | Public \<Rightarrow> Allow))"

section \<open>Tables\<close>

datatype permission_error =
    PermSqlite
  | NotAuthorized int
  | OwnerAlreadyExists
  | UnknownUser int

record user =
  user_id :: int
  user_handle :: string
  user_display_name :: "string option"

record user_dm =
  dm_user :: int
  dm_channel :: string
  dm_address :: string

record standing_row =
  si_id :: int
  si_user :: int
  si_scope :: string
  si_body :: string
  si_active :: bool

record perm_db =
  users :: "user list"
  user_roles :: "(int \<times> string) list"
  user_dms :: "user_dm list"
  standing_instructions :: "standing_row list"

definition dm_key :: "user_dm \<Rightarrow> int \<times> string" where
  "dm_key d = (dm_user d, dm_channel d)"

definition create_user ::
  "string \<Rightarrow> string option \<Rightarrow> 'a perm_db_scheme \<Rightarrow> 'a perm_db_scheme \<times> (permission_error + int)" where
  "create_user handle name db =
     (if has_key user_handle handle (users db) then (db, Inl PermSqlite)
      else let i = next_rowid user_id (users db)
           in (db\<lparr>users := users db @ [\<lparr>user_id = i, user_handle = handle, user_display_name = name\<rparr>]\<rparr>, Inr i))"

definition get_user :: "int \<Rightarrow> 'a perm_db_scheme \<Rightarrow> user option" where
  "get_user i db = query_row (\<lambda>u. user_id u = i) (users db)"

definition find_user_by_handle :: "string \<Rightarrow> 'a perm_db_scheme \<Rightarrow> user option" where
  "find_user_by_handle h db = query_row (\<lambda>u. user_handle u = h) (users db)"

text \<open>Rows whose role does not parse are left out; the highest privilege comes first.\<close>

definition roles_of :: "int \<Rightarrow> 'a perm_db_scheme \<Rightarrow> role list" where
  "roles_of i db =
     rev (sort (List.map_filter (\<lambda>r. if fst r = i then parse_role (snd r) else None) (user_roles db)))"

definition has_role :: "int \<Rightarrow> role \<Rightarrow> 'a perm_db_scheme \<Rightarrow> bool" where
  "has_role i r db \<longleftrightarrow> 0 < count_where (\<lambda>x. x = (i, role_str r)) (user_roles db)"

definition is_administrative :: "int \<Rightarrow> 'a perm_db_scheme \<Rightarrow> bool" where
  "is_administrative i db \<longleftrightarrow>
     0 < count_where (\<lambda>x. fst x = i \<and> snd x \<in> set [''owner'', ''admin'']) (user_roles db)"

definition owner_exists :: "'a perm_db_scheme \<Rightarrow> bool" where
  "owner_exists db \<longleftrightarrow> 0 < count_where (\<lambda>x. snd x = ''owner'') (user_roles db)"

text \<open>Two writes in one transaction: any error leaves both undone.\<close>

definition bootstrap_owner ::
  "string \<Rightarrow> string option \<Rightarrow> 'a perm_db_scheme \<Rightarrow> 'a perm_db_scheme \<times> (permission_error + int)" where
  "bootstrap_owner handle name db =
     (if owner_exists db then (db, Inl OwnerAlreadyExists)
      else (case create_user handle name db of
              (db1, Inl e) \<Rightarrow> (db, Inl e)
            | (db1, Inr i) \<Rightarrow>
                if has_key (\<lambda>x. x) (i, ''owner'') (user_roles db1) then (db, Inl PermSqlite)
                else (db1\<lparr>user_roles := user_roles db1 @ [(i, ''owner'')]\<rparr>, Inr i)))"

definition grant_role ::
  "int \<Rightarrow> int \<Rightarrow> role \<Rightarrow> 'a perm_db_scheme \<Rightarrow> 'a perm_db_scheme \<times> (permission_error + unit)" where
  "grant_role actor target r db =
     (if \<not> is_administrative actor db then (db, Inl (NotAuthorized actor))
      else if r = Owner then (db, Inl (NotAuthorized actor))
      else if get_user target db = None then (db, Inl (UnknownUser target))
      else (db\<lparr>user_roles := insert_new (\<lambda>x. x) (target, role_str r) (user_roles db)\<rparr>, Inr ()))"

definition revoke_role ::
  "int \<Rightarrow> int \<Rightarrow> role \<Rightarrow> 'a perm_db_scheme \<Rightarrow> 'a perm_db_scheme \<times> (permission_error + unit)" where
  "revoke_role actor target r db =
     (if \<not> is_administrative actor db then (db, Inl (NotAuthorized actor))
      else if r = Owner then (db, Inl (NotAuthorized actor))
      else (db\<lparr>user_roles := delete_where (\<lambda>x. x = (target, role_str r)) (user_roles db)\<rparr>, Inr ()))"

definition add_user_dm ::
  "int \<Rightarrow> string \<Rightarrow> string \<Rightarrow> 'a perm_db_scheme \<Rightarrow> 'a perm_db_scheme \<times> (permission_error + unit)" where
  "add_user_dm i channel address db =
     (if get_user i db = None then (db, Inl (UnknownUser i))
      else (db\<lparr>user_dms := upsert_row dm_key (\<lambda>old r. old\<lparr>dm_address := dm_address r\<rparr>)
                 \<lparr>dm_user = i, dm_channel = channel, dm_address = address\<rparr> (user_dms db)\<rparr>, Inr ()))"

text \<open>When several users registered the address, which one is found is up to SQLite: here the first.\<close>

definition resolve_user_by_dm :: "string \<Rightarrow> string \<Rightarrow> 'a perm_db_scheme \<Rightarrow> int option" where
  "resolve_user_by_dm channel address db =
     map_option dm_user (query_row (\<lambda>d. dm_channel d = channel \<and> dm_address d = address) (user_dms db))"

definition evaluate_sender :: "string \<Rightarrow> string \<Rightarrow> unknown_policy \<Rightarrow> 'a perm_db_scheme \<Rightarrow> access_decision" where
  "evaluate_sender channel address policy db =
     decide_access (resolve_user_by_dm channel address db \<noteq> None) policy"

definition evaluate_channel :: "bool \<Rightarrow> unknown_policy \<Rightarrow> access_decision" where
  "evaluate_channel known policy = decide_access known policy"

definition require_admin :: "int \<Rightarrow> 'a perm_db_scheme \<Rightarrow> permission_error + unit" where
  "require_admin actor db =
     (if is_administrative actor db then Inr () else Inl (NotAuthorized actor))"

section \<open>Standing instructions\<close>

datatype instruction_class = PersistentInstruction | MemoryUpdate | CodeToolInvariant

record capture_outcome =
  co_class :: instruction_class
  co_stored_id :: "int option"
  co_memory_update :: "string option"
  co_invariant_report :: "string option"

definition hard_constraint_terms :: "string list" where
  "hard_constraint_terms =
     [''never'', ''always'', ''must'', [CHR ''d'', CHR ''o'', CHR ''n'', CHR 0x27, CHR ''t''], ''do not'',
      ''ensure'', ''no '']"

definition code_tool_terms :: "string list" where
  "code_tool_terms =
     [''code'', ''commit'', ''deploy'', ''test'', ''build'', ''lint'', '' ci'', ''tool'', ''command'',
      ''migration'', ''branch'', ''merge'', ''production'', ''secret'', ''pipeline'']"

definition classify :: "(string \<Rightarrow> string) \<Rightarrow> string \<Rightarrow> instruction_class" where
  "classify lower s =
     (let l = lower s;
          hard = list_ex (contains_str l) hard_constraint_terms;
          code_tool = list_ex (contains_str l) code_tool_terms
      in if hard \<and> code_tool then CodeToolInvariant
         else if hard \<or> is_prefix ''from now on'' l \<or> contains_str l ''whenever''
                 \<or> is_prefix ''please always'' l
         then PersistentInstruction
         else MemoryUpdate)"

definition invariant_report :: "string \<Rightarrow> string" where
  "invariant_report body =
     ''instruction implies a code/tool invariant; encode and verify it rather than relying on memory: '' @ body"

definition capture_as ::
  "int \<Rightarrow> string \<Rightarrow> string \<Rightarrow> instruction_class \<Rightarrow> 'a perm_db_scheme
   \<Rightarrow> 'a perm_db_scheme \<times> (permission_error + capture_outcome)" where
  "capture_as actor scope body cls db =
     (case require_admin actor db of
        Inl e \<Rightarrow> (db, Inl e)
      | Inr _ \<Rightarrow>
          (case cls of
             PersistentInstruction \<Rightarrow>
               (let i = next_rowid si_id (standing_instructions db)
                in (db\<lparr>standing_instructions := standing_instructions db @
                      [\<lparr>si_id = i, si_user = actor, si_scope = scope, si_body = body, si_active = True\<rparr>]\<rparr>,
                    Inr \<lparr>co_class = cls, co_stored_id = Some i, co_memory_update = None,
                         co_invariant_report = None\<rparr>))
           | MemoryUpdate \<Rightarrow>
               (db, Inr \<lparr>co_class = cls, co_stored_id = None, co_memory_update = Some body,
                         co_invariant_report = None\<rparr>)
           | CodeToolInvariant \<Rightarrow>
               (db, Inr \<lparr>co_class = cls, co_stored_id = None, co_memory_update = None,
                         co_invariant_report = Some (invariant_report body)\<rparr>)))"

definition capture ::
  "(string \<Rightarrow> string) \<Rightarrow> int \<Rightarrow> string \<Rightarrow> string \<Rightarrow> 'a perm_db_scheme
   \<Rightarrow> 'a perm_db_scheme \<times> (permission_error + capture_outcome)" where
  "capture lower actor scope body = capture_as actor scope body (classify lower body)"

definition active_standing_instructions :: "string option \<Rightarrow> 'a perm_db_scheme \<Rightarrow> standing_row list" where
  "active_standing_instructions scope db =
     rev (sort_key si_id (filter (\<lambda>r. si_active r \<and>
       (case scope of None \<Rightarrow> True | Some s \<Rightarrow> si_scope r = s)) (standing_instructions db)))"

definition deactivate ::
  "int \<Rightarrow> int \<Rightarrow> 'a perm_db_scheme \<Rightarrow> 'a perm_db_scheme \<times> (permission_error + unit)" where
  "deactivate actor i db =
     (case require_admin actor db of
        Inl e \<Rightarrow> (db, Inl e)
      | Inr _ \<Rightarrow>
          (db\<lparr>standing_instructions := update_where (\<lambda>r. si_id r = i) (\<lambda>r. r\<lparr>si_active := False\<rparr>)
                (standing_instructions db)\<rparr>, Inr ()))"

section \<open>Readiness\<close>

datatype perm_check = PermPass | PermFail string | PermSkipped string

definition admin_exists :: "'a perm_db_scheme \<Rightarrow> perm_check" where
  "admin_exists db =
     (if 0 < count_where (\<lambda>x. snd x \<in> set [''owner'', ''admin'']) (user_roles db) then PermPass
      else PermFail ''no owner or admin user exists'')"

definition references_intact :: "'a perm_db_scheme \<Rightarrow> perm_check" where
  "references_intact db =
     (let orphan_roles = count_where (\<lambda>x. \<not> has_key user_id (fst x) (users db)) (user_roles db);
          orphan_dms = count_where (\<lambda>d. \<not> has_key user_id (dm_user d) (users db)) (user_dms db)
      in if orphan_roles = 0 \<and> orphan_dms = 0 then PermPass
         else PermFail (dec_of_nat orphan_roles @ '' orphaned role row(s) and '' @ dec_of_nat orphan_dms
                        @ '' orphaned DM row(s)''))"

section \<open>Gates\<close>

lemma is_administrative_iff:
  "is_administrative i db \<longleftrightarrow> (i, ''owner'') \<in> set (user_roles db) \<or> (i, ''admin'') \<in> set (user_roles db)"
  by (force simp: is_administrative_def count_where_pos_iff)

lemma is_administrative_roles:
  "is_administrative i db \<longleftrightarrow> (\<exists>r. has_role i r db \<and> role_is_administrative r)"
proof
  assume "is_administrative i db"
  then consider "(i, role_str Owner) \<in> set (user_roles db)" | "(i, role_str Admin) \<in> set (user_roles db)"
    by (auto simp: is_administrative_iff)
  then show "\<exists>r. has_role i r db \<and> role_is_administrative r"
    by cases (auto simp: has_role_def count_where_pos_iff
        intro: exI [of _ Owner] exI [of _ Admin])
next
  assume "\<exists>r. has_role i r db \<and> role_is_administrative r"
  then obtain r where "has_role i r db" "role_is_administrative r" by blast
  then show "is_administrative i db"
    by (cases r) (auto simp: is_administrative_iff has_role_def count_where_pos_iff)
qed

interpretation grant_gate: gated_op "\<lambda>db actor. is_administrative actor db"
  "\<lambda>actor db (target, r). grant_role actor target r db"
  by unfold_locales (auto simp: grant_role_def split: prod.splits)

interpretation revoke_gate: gated_op "\<lambda>db actor. is_administrative actor db"
  "\<lambda>actor db (target, r). revoke_role actor target r db"
  by unfold_locales (auto simp: revoke_role_def split: prod.splits)

interpretation capture_gate: gated_op "\<lambda>db actor. is_administrative actor db"
  "\<lambda>actor db (scope, body, cls). capture_as actor scope body cls db"
  by unfold_locales (auto simp: capture_as_def require_admin_def split: prod.splits)

interpretation deactivate_gate: gated_op "\<lambda>db actor. is_administrative actor db"
  "\<lambda>actor db i. deactivate actor i db"
  by unfold_locales (auto simp: deactivate_def require_admin_def)

section \<open>Events\<close>

datatype role_change = Granted | Revoked

datatype permission_event =
    MembershipChanged int role role_change
  | AccessDenied string string string

definition record_permission_event :: "permission_event \<Rightarrow> permission_event list \<Rightarrow> permission_event list" where
  "record_permission_event e evs = evs @ [e]"

section \<open>The steps of the permission store\<close>

text \<open>One call of the public interface, whoever makes it and however it ends.\<close>

inductive perm_step :: "'a perm_db_scheme \<Rightarrow> 'a perm_db_scheme \<Rightarrow> bool" where
  step_create: "perm_step db (fst (create_user h n db))"
| step_bootstrap: "perm_step db (fst (bootstrap_owner h n db))"
| step_grant: "perm_step db (fst (grant_role actor target r db))"
| step_revoke: "perm_step db (fst (revoke_role actor target r db))"
| step_dm: "perm_step db (fst (add_user_dm i channel address db))"
| step_capture: "perm_step db (fst (capture_as actor scope body cls db))"
| step_deactivate: "perm_step db (fst (deactivate actor k db))"

inductive_cases perm_stepE: "perm_step db db'"

abbreviation perm_steps :: "'a perm_db_scheme \<Rightarrow> 'a perm_db_scheme \<Rightarrow> bool" where
  "perm_steps \<equiv> perm_step\<^sup>*\<^sup>*"

definition users_ok :: "'a perm_db_scheme \<Rightarrow> bool" where
  "users_ok db \<longleftrightarrow> primary_key user_id (users db) \<and> primary_key user_handle (users db)"

definition roles_ok :: "'a perm_db_scheme \<Rightarrow> bool" where
  "roles_ok db \<longleftrightarrow> distinct (user_roles db) \<and>
     (\<forall>x\<in>set (user_roles db). has_key user_id (fst x) (users db) \<and> parse_role (snd x) \<noteq> None)"

definition dms_ok :: "'a perm_db_scheme \<Rightarrow> bool" where
  "dms_ok db \<longleftrightarrow> primary_key dm_key (user_dms db) \<and>
     (\<forall>d\<in>set (user_dms db). has_key user_id (dm_user d) (users db))"

definition one_owner :: "'a perm_db_scheme \<Rightarrow> bool" where
  "one_owner db \<longleftrightarrow> (\<forall>a b. (a, ''owner'') \<in> set (user_roles db) \<longrightarrow> (b, ''owner'') \<in> set (user_roles db) \<longrightarrow> a = b)"

definition perm_ok :: "'a perm_db_scheme \<Rightarrow> bool" where
  "perm_ok db \<longleftrightarrow> users_ok db \<and> roles_ok db \<and> dms_ok db \<and> one_owner db"

lemmas perm_ok_defs = perm_ok_def users_ok_def roles_ok_def dms_ok_def one_owner_def

lemma get_user_None_iff: "get_user i db = None \<longleftrightarrow> \<not> has_key user_id i (users db)"
  by (auto simp: get_user_def query_row_None_iff has_key_def)

lemma has_key_append: "has_key key k (t @ s) \<longleftrightarrow> has_key key k t \<or> has_key key k s"
  by (auto simp: has_key_def)

lemma parse_role_owner [simp]: "parse_role ''owner'' = Some Owner"
  by (simp add: parse_role_def)

lemma role_str_eq_owner [simp]: "role_str r = ''owner'' \<longleftrightarrow> r = Owner" "''owner'' = role_str r \<longleftrightarrow> r = Owner"
  by (cases r; simp)+

lemma owner_exists_iff: "owner_exists db \<longleftrightarrow> (\<exists>i. (i, ''owner'') \<in> set (user_roles db))"
  by (force simp: owner_exists_def count_where_pos_iff)

text \<open>What each call changes, once its guards are taken apart.\<close>

lemma create_user_cases:
  obtains (refused) "create_user h n db = (db, Inl PermSqlite)"
  | (created) u where "create_user h n db = (db\<lparr>users := users db @ [u]\<rparr>, Inr (user_id u))"
      "user_id u = next_rowid user_id (users db)" "user_handle u = h" "\<not> has_key user_handle h (users db)"
  by (cases "has_key user_handle h (users db)") (auto simp: create_user_def Let_def)

lemma next_rowid_not_key: "\<not> has_key rid (next_rowid rid t) t"
  using next_rowid_fresh [of _ t rid] by (fastforce simp: has_key_def)

lemma primary_key_append_new:
  "primary_key key t \<Longrightarrow> \<not> has_key key (key r) t \<Longrightarrow> primary_key key (t @ [r])"
  by (simp add: primary_key_def has_key_def)

lemma create_user_ok: "perm_ok db \<Longrightarrow> perm_ok (fst (create_user h n db))"
proof (cases rule: create_user_cases [of h n db])
  case (created u)
  assume ok: "perm_ok db"
  have "primary_key user_id (users db @ [u])"
    using ok created(2) by (intro primary_key_append_new) (simp_all add: perm_ok_defs next_rowid_not_key)
  moreover have "primary_key user_handle (users db @ [u])"
    using ok created(3,4)
    by (intro primary_key_append_new) (simp_all add: perm_ok_defs)
  ultimately show ?thesis using ok created(1)
    by (simp add: perm_ok_defs has_key_append)
qed simp

lemma bootstrap_cases:
  obtains (refused) e where "bootstrap_owner h n db = (db, Inl e)"
  | (written) db1 i where "create_user h n db = (db1, Inr i)" "\<not> owner_exists db"
      "bootstrap_owner h n db = (db1\<lparr>user_roles := user_roles db @ [(i, ''owner'')]\<rparr>, Inr i)"
      "\<not> has_key user_id i (users db)" "has_key user_id i (users db1)" "user_roles db1 = user_roles db"
proof (cases rule: create_user_cases [of h n db])
  case refused
  then show ?thesis using that(1) [of "if owner_exists db then OwnerAlreadyExists else PermSqlite"]
    by (simp add: bootstrap_owner_def)
next
  case (created u)
  show ?thesis
  proof (cases "owner_exists db \<or> has_key (\<lambda>x. x) (user_id u, ''owner'') (user_roles db)")
    case True
    then show ?thesis using created that(1) [of "if owner_exists db then OwnerAlreadyExists else PermSqlite"]
      by (cases "owner_exists db") (simp_all add: bootstrap_owner_def)
  next
    case False
    with created show ?thesis
      by (intro that(2) [of "db\<lparr>users := users db @ [u]\<rparr>" "user_id u"])
        (simp_all add: bootstrap_owner_def next_rowid_not_key, simp add: has_key_def)
  qed
qed

lemma bootstrap_ok: "perm_ok db \<Longrightarrow> perm_ok (fst (bootstrap_owner h n db))"
proof (cases rule: bootstrap_cases [of h n db])
  case (written db1 i)
  assume ok: "perm_ok db"
  from create_user_ok [OF ok, of h n] written(1) have "perm_ok db1" by simp
  moreover have "(i, ''owner'') \<notin> set (user_roles db)"
    using written(2) by (auto simp: owner_exists_iff)
  ultimately show ?thesis using written(2-6)
    by (auto simp: perm_ok_defs owner_exists_iff)
qed simp

lemma grant_role_cases:
  obtains (refused) e where "grant_role actor target r db = (db, Inl e)"
  | (granted) "is_administrative actor db" "r \<noteq> Owner" "has_key user_id target (users db)"
      "grant_role actor target r db
        = (db\<lparr>user_roles := insert_new (\<lambda>x. x) (target, role_str r) (user_roles db)\<rparr>, Inr ())"
proof (cases "is_administrative actor db \<and> r \<noteq> Owner \<and> get_user target db \<noteq> None")
  case True
  then show ?thesis using granted by (simp add: grant_role_def get_user_None_iff)
next
  case False
  then have "\<exists>e. grant_role actor target r db = (db, Inl e)" by (auto simp: grant_role_def)
  then show ?thesis using refused by blast
qed

lemma distinct_insert_new_id [simp]: "distinct (insert_new (\<lambda>x. x) r t) = distinct t"
  by (simp add: insert_new_def has_key_def)

lemma set_insert_new_id [simp]: "set (insert_new (\<lambda>x. x) r t) = insert r (set t)"
  by (auto simp: insert_new_def has_key_def)

lemma grant_ok: "perm_ok db \<Longrightarrow> perm_ok (fst (grant_role actor target r db))"
proof (cases rule: grant_role_cases [of actor target r db])
  case granted
  then show "perm_ok db \<Longrightarrow> ?thesis"
    by (auto simp: perm_ok_defs role_text.parse_as_str)
qed simp

lemma revoke_role_cases:
  obtains (refused) e where "revoke_role actor target r db = (db, Inl e)"
  | (revoked) "is_administrative actor db" "r \<noteq> Owner"
      "revoke_role actor target r db
        = (db\<lparr>user_roles := delete_where (\<lambda>x. x = (target, role_str r)) (user_roles db)\<rparr>, Inr ())"
proof (cases "is_administrative actor db \<and> r \<noteq> Owner")
  case True
  then show ?thesis using revoked by (simp add: revoke_role_def)
next
  case False
  then have "\<exists>e. revoke_role actor target r db = (db, Inl e)" by (auto simp: revoke_role_def)
  then show ?thesis using refused by blast
qed

lemma set_delete_where [simp]: "set (delete_where P t) = {x \<in> set t. \<not> P x}"
  by (auto simp: delete_where_def)

lemma distinct_delete_where [simp]: "distinct t \<Longrightarrow> distinct (delete_where P t)"
  by (simp add: delete_where_def)

lemma revoke_ok: "perm_ok db \<Longrightarrow> perm_ok (fst (revoke_role actor target r db))"
proof (cases rule: revoke_role_cases [of actor target r db])
  case revoked
  then show "perm_ok db \<Longrightarrow> ?thesis" by (simp add: perm_ok_defs)
qed simp

lemma dm_key_address [simp]: "dm_key (d\<lparr>dm_address := a\<rparr>) = dm_key d"
  by (simp add: dm_key_def)

lemma upsert_row_users:
  "x \<in> set (upsert_row key merge r t) \<Longrightarrow> x = r \<or> (\<exists>y\<in>set t. x = y \<or> x = merge y r)"
  by (auto simp: upsert_row_def split: if_splits)

lemma add_user_dm_ok: "perm_ok db \<Longrightarrow> perm_ok (fst (add_user_dm i channel address db))"
proof (cases "get_user i db = None")
  case False
  assume ok: "perm_ok db"
  let ?r = "\<lparr>dm_user = i, dm_channel = channel, dm_address = address\<rparr>"
  let ?t = "upsert_row dm_key (\<lambda>old r. old\<lparr>dm_address := dm_address r\<rparr>) ?r (user_dms db)"
  have "primary_key dm_key ?t" using ok by (simp add: perm_ok_defs)
  moreover have "has_key user_id (dm_user d) (users db)" if "d \<in> set ?t" for d
    using upsert_row_users [OF that] ok False by (auto simp: perm_ok_defs get_user_None_iff)
  ultimately have "perm_ok (db\<lparr>user_dms := ?t\<rparr>)" using ok by (simp add: perm_ok_defs)
  with False ok show ?thesis by (simp add: add_user_dm_def)
qed (simp add: add_user_dm_def)

lemma capture_tables:
  "users (fst (capture_as actor scope body cls db)) = users db
   \<and> user_roles (fst (capture_as actor scope body cls db)) = user_roles db
   \<and> user_dms (fst (capture_as actor scope body cls db)) = user_dms db"
  by (simp add: capture_as_def Let_def split: sum.splits instruction_class.splits)

lemma deactivate_tables:
  "users (fst (deactivate actor i db)) = users db \<and> user_roles (fst (deactivate actor i db)) = user_roles db
   \<and> user_dms (fst (deactivate actor i db)) = user_dms db"
  by (simp add: deactivate_def split: sum.splits)

lemma perm_step_ok: "perm_step db db' \<Longrightarrow> perm_ok db \<Longrightarrow> perm_ok db'"
  by (erule perm_stepE)
    (simp_all add: create_user_ok bootstrap_ok grant_ok revoke_ok add_user_dm_ok,
     simp_all add: perm_ok_defs capture_tables deactivate_tables)

lemma perm_steps_ok: "perm_steps db db' \<Longrightarrow> perm_ok db \<Longrightarrow> perm_ok db'"
  by (induction rule: rtranclp_induct) (auto intro: perm_step_ok)

text \<open>The owner row is never removed, and administrators come from administrators.\<close>

lemma create_user_roles: "user_roles (fst (create_user h n db)) = user_roles db"
  by (simp add: create_user_def Let_def)

lemma add_user_dm_roles: "user_roles (fst (add_user_dm i channel address db)) = user_roles db"
  by (simp add: add_user_dm_def)

lemma owner_step: "perm_step db db' \<Longrightarrow> (i, ''owner'') \<in> set (user_roles db) \<Longrightarrow> (i, ''owner'') \<in> set (user_roles db')"
proof (erule perm_stepE)
  fix h n assume own: "(i, ''owner'') \<in> set (user_roles db)" and db': "db' = fst (bootstrap_owner h n db)"
  show "(i, ''owner'') \<in> set (user_roles db')"
    by (cases rule: bootstrap_cases [of h n db]) (use own db' in auto)
next
  fix actor target r assume own: "(i, ''owner'') \<in> set (user_roles db)" and db': "db' = fst (grant_role actor target r db)"
  show "(i, ''owner'') \<in> set (user_roles db')"
    by (cases rule: grant_role_cases [of actor target r db]) (use own db' in auto)
next
  fix actor target r assume own: "(i, ''owner'') \<in> set (user_roles db)" and db': "db' = fst (revoke_role actor target r db)"
  show "(i, ''owner'') \<in> set (user_roles db')"
    by (cases rule: revoke_role_cases [of actor target r db]) (use own db' in auto)
qed (simp_all add: create_user_roles add_user_dm_roles capture_tables deactivate_tables)

lemma owner_steps:
  "perm_steps db db' \<Longrightarrow> (i, ''owner'') \<in> set (user_roles db) \<Longrightarrow> (i, ''owner'') \<in> set (user_roles db')"
  by (induction rule: rtranclp_induct) (auto intro: owner_step)

text \<open>An administrative role appears by the bootstrap of an ownerless instance or a grant by an administrator.\<close>

lemma admin_step:
  assumes "perm_step db db'" "is_administrative i db'" "\<not> is_administrative i db"
  shows "\<not> owner_exists db \<or> (\<exists>actor. is_administrative actor db)"
  using assms(1)
proof (rule perm_stepE)
  fix h n assume db': "db' = fst (bootstrap_owner h n db)"
  show ?thesis
    by (cases rule: bootstrap_cases [of h n db]) (use assms(2,3) db' in auto)
next
  fix actor target r assume db': "db' = fst (grant_role actor target r db)"
  show ?thesis
    by (cases rule: grant_role_cases [of actor target r db]) (use assms(2,3) db' in auto)
next
  fix actor target r assume db': "db' = fst (revoke_role actor target r db)"
  show ?thesis
    by (cases rule: revoke_role_cases [of actor target r db])
      (use assms(2,3) db' in \<open>auto simp: is_administrative_iff\<close>)
qed (use assms(2,3) in \<open>simp_all add: is_administrative_iff create_user_roles add_user_dm_roles
      capture_tables deactivate_tables\<close>)

text \<open>Without an administrator of one's own no role of anybody changes once there is an owner.\<close>

lemma references_intact_ok: "perm_ok db \<Longrightarrow> references_intact db = PermPass"
  by (auto simp: references_intact_def perm_ok_defs count_where_0_iff Let_def)

lemma admin_exists_iff: "admin_exists db = PermPass \<longleftrightarrow> (\<exists>i. is_administrative i db)"
  by (force simp: admin_exists_def is_administrative_iff count_where_pos_iff)

lemma roles_of_sorted: "sorted_wrt (\<ge>) (roles_of i db)"
  by (simp add: roles_of_def sorted_wrt_rev)

lemma roles_of_mem: "r \<in> set (roles_of i db) \<longleftrightarrow> has_role i r db"
proof -
  have "r \<in> set (roles_of i db) \<longleftrightarrow> (\<exists>x\<in>set (user_roles db). fst x = i \<and> parse_role (snd x) = Some r)"
    by (force simp: roles_of_def List.map_filter_def image_iff)
  also have "\<dots> \<longleftrightarrow> has_role i r db"
    by (force simp: has_role_def count_where_pos_iff role_text.parse_Some_iff)
  finally show ?thesis .
qed

section \<open>Properties\<close>

definition empty_perm_db :: perm_db where
  "empty_perm_db = \<lparr>users = [], user_roles = [], user_dms = [], standing_instructions = []\<rparr>"

lemma empty_perm_ok: "perm_ok empty_perm_db"
  by (simp add: perm_ok_defs empty_perm_db_def primary_key_def)

text \<open>
  C36: whatever calls are made on a permission store that starts empty, user ids and handles stay
  unique, every role and DM route belongs to an existing user (the readiness check
  \<open>references_intact\<close> passes), every stored role is one of the enum, and at most one user is owner.
\<close>

theorem permissions_stay_sound:
  assumes "perm_steps empty_perm_db db"
  shows "distinct (map user_id (users db)) \<and> distinct (map user_handle (users db))
    \<and> references_intact db = PermPass
    \<and> (\<forall>x\<in>set (user_roles db). parse_role (snd x) \<noteq> None)
    \<and> (\<forall>a b. has_role a Owner db \<and> has_role b Owner db \<longrightarrow> a = b)"
proof -
  from perm_steps_ok [OF assms empty_perm_ok] have ok: "perm_ok db" .
  then have "\<forall>a b. has_role a Owner db \<and> has_role b Owner db \<longrightarrow> a = b"
    unfolding perm_ok_def one_owner_def by (auto simp: has_role_def count_where_pos_iff)
  with ok references_intact_ok [OF ok] show ?thesis by (simp add: perm_ok_defs primary_key_def)
qed

definition sample_perm_db :: perm_db where
  "sample_perm_db = fst (bootstrap_owner ''root'' None empty_perm_db)"

lemma sample_perm_steps: "perm_steps empty_perm_db sample_perm_db"
  unfolding sample_perm_db_def by (intro r_into_rtranclp step_bootstrap)

lemma sample_perm_db_eq:
  "sample_perm_db = \<lparr>users = [\<lparr>user_id = 1, user_handle = ''root'', user_display_name = None\<rparr>],
     user_roles = [(1, ''owner'')], user_dms = [], standing_instructions = []\<rparr>"
  by (simp add: sample_perm_db_def bootstrap_owner_def create_user_def empty_perm_db_def owner_exists_def
      has_key_def next_rowid_def max_of_def)

theorem permissions_stay_sound_witness:
  "references_intact sample_perm_db = PermPass \<and> has_role 1 Owner sample_perm_db"
  using permissions_stay_sound [OF sample_perm_steps]
  by (simp add: has_role_def sample_perm_db_eq)

text \<open>
  C35: the owner is permanent: once a user is owner, every sequence of calls leaves that user the
  owner, the instance never ends without an administrator, and a second bootstrap is refused with
  the store unchanged.
\<close>

theorem owner_is_permanent:
  assumes "perm_steps db db'" "has_role i Owner db"
  shows "has_role i Owner db' \<and> is_administrative i db' \<and> admin_exists db' = PermPass
    \<and> bootstrap_owner handle name db' = (db', Inl OwnerAlreadyExists)"
proof -
  from assms(2) have "(i, ''owner'') \<in> set (user_roles db)"
    by (auto simp: has_role_def count_where_pos_iff)
  with assms(1) have own: "(i, ''owner'') \<in> set (user_roles db')" by (rule owner_steps)
  then have "is_administrative i db'" "owner_exists db'" by (auto simp: is_administrative_iff owner_exists_iff)
  with own show ?thesis
    by (auto simp: has_role_def count_where_pos_iff admin_exists_iff bootstrap_owner_def)
qed

theorem owner_is_permanent_witness:
  "has_role 1 Owner (fst (revoke_role 1 1 Owner sample_perm_db))"
  using owner_is_permanent [of sample_perm_db "fst (revoke_role 1 1 Owner sample_perm_db)" 1 "''x''" None]
  by (simp add: r_into_rtranclp step_revoke has_role_def sample_perm_db_eq)

text \<open>
  C37: an actor without an administrative role changes nothing: whatever sequence of grants,
  revocations, standing instructions or deactivations such an actor issues, the store is as it was.
\<close>

theorem unprivileged_actor_powerless:
  assumes "\<not> is_administrative actor db"
  shows "run_as_actor (\<lambda>db (target, r). grant_role actor target r db) db grants = db
    \<and> run_as_actor (\<lambda>db (target, r). revoke_role actor target r db) db revocations = db
    \<and> run_as_actor (\<lambda>db (scope, body, cls). capture_as actor scope body cls db) db captures = db
    \<and> run_as_actor (\<lambda>db k. deactivate actor k db) db deactivations = db"
  using grant_gate.refused_run_unchanged [OF assms] revoke_gate.refused_run_unchanged [OF assms]
    capture_gate.refused_run_unchanged [OF assms] deactivate_gate.refused_run_unchanged [OF assms]
  by blast

theorem unprivileged_actor_powerless_witness:
  "run_as_actor (\<lambda>db (target, r). grant_role 7 target r db) sample_perm_db [(7, Admin)] = sample_perm_db"
  using unprivileged_actor_powerless [of 7 sample_perm_db "[(7, Admin)]" "[]" "[]" "[]"]
  by (simp add: is_administrative_def sample_perm_db_eq)

text \<open>
  Deny by default: a message is let in without approval exactly when its sender's address is a
  registered DM route on that channel or the configured policy for unknown identities is public.
\<close>

theorem sender_allowed_iff:
  "evaluate_sender channel address policy db = Allow
    \<longleftrightarrow> policy = Public \<or> (\<exists>d\<in>set (user_dms db). dm_channel d = channel \<and> dm_address d = address)"
  by (cases policy)
    (auto simp: evaluate_sender_def decide_access_def resolve_user_by_dm_def query_row_None_iff)

end
