(* ===== verification/Approvals.thy ===== *)
theory Approvals
  imports Permissions
begin

text \<open>
  \<open>crates/assistant-approvals\<close>: approval cards and free-form questions (\<open>model.rs\<close>, \<open>store.rs\<close>), the
  readiness check (\<open>readiness.rs\<close>). The rows keep the text columns of the table, so a value no
  enum has, or an expiry that is not a number, is an error of the read. \<open>now\<close> is the caller's clock.
\<close>

section \<open>Model\<close>

datatype approval_kind = Generic | Credential

fun approval_kind_str :: "approval_kind \<Rightarrow> string" where
  "approval_kind_str Generic = ''generic''"
| "approval_kind_str Credential = ''credential''"

definition parse_approval_kind :: "string \<Rightarrow> approval_kind option" where
  "parse_approval_kind s =
     (if s = ''generic'' then Some Generic
      else if s = ''credential'' then Some Credential
      else None)"

interpretation approval_kind_text: text_enum approval_kind_str parse_approval_kind
proof
  show "parse_approval_kind (approval_kind_str x) = Some x" for x
    by (cases x) (simp_all add: parse_approval_kind_def)
  show "parse_approval_kind s = Some x \<Longrightarrow> s = approval_kind_str x" for s x
    by (auto simp: parse_approval_kind_def split: if_splits)
qed

datatype approval_status = ApPending | ApGranted | ApDenied | ApExpired

fun approval_status_str :: "approval_status \<Rightarrow> string" where
  "approval_status_str ApPending = ''pending''"
| "approval_status_str ApGranted = ''granted''"
| "approval_status_str ApDenied = ''denied''"
| "approval_status_str ApExpired = ''expired''"

definition parse_approval_status :: "string \<Rightarrow> approval_status option" where
  "parse_approval_status s =
     (if s = ''pending'' then Some ApPending
      else if s = ''granted'' then Some ApGranted
      else if s = ''denied'' then Some ApDenied
      else if s = ''expired'' then Some ApExpired
      else None)"

interpretation approval_status_text: text_enum approval_status_str parse_approval_status
proof
  show "parse_approval_status (approval_status_str x) = Some x" for x
    by (cases x) (simp_all add: parse_approval_status_def)
  show "parse_approval_status s = Some x \<Longrightarrow> s = approval_status_str x" for s x
    by (auto simp: parse_approval_status_def split: if_splits)
qed

datatype question_status = QOpen | QAnswered

fun question_status_str :: "question_status \<Rightarrow> string" where
  "question_status_str QOpen = ''open''"
| "question_status_str QAnswered = ''answered''"

definition parse_question_status :: "string \<Rightarrow> question_status option" where
  "parse_question_status s =
     (if s = ''open'' then Some QOpen
      else if s = ''answered'' then Some QAnswered
      else None)"

interpretation question_status_text: text_enum question_status_str parse_question_status
proof
  show "parse_question_status (question_status_str x) = Some x" for x
    by (cases x) (simp_all add: parse_question_status_def)
  show "parse_question_status s = Some x \<Longrightarrow> s = question_status_str x" for s x
    by (auto simp: parse_question_status_def split: if_splits)
qed

record approval =
  ap_id :: int
  ap_kind :: approval_kind
  ap_subject :: string
  ap_status :: approval_status
  ap_requested_by :: "int option"
  ap_expires_at :: "int option"

record question =
  q_id :: int
  q_session :: "string option"
  q_prompt :: string
  q_status :: question_status

datatype approval_error =
    ApprovalSqlite
  | ApprovalNotAuthorized int
  | ApprovalNotFound int
  | NotDecidable int
  | ApprovalHasExpired int
  | ApprovalUnknownEnum string

fun approval_error_of :: "permission_error \<Rightarrow> approval_error" where
  "approval_error_of (NotAuthorized actor) = ApprovalNotAuthorized actor"
| "approval_error_of PermSqlite = ApprovalSqlite"
| "approval_error_of OwnerAlreadyExists = ApprovalUnknownEnum ''an owner already exists''"
| "approval_error_of (UnknownUser u) = ApprovalUnknownEnum (''unknown user '' @ dec_of_int u)"

datatype approval_event =
    ApprovalRequested int approval_kind
  | ApprovalGranted int int
  | ApprovalDenied int int
  | ApprovalExpiredEvent int

definition record_approval_event :: "approval_event \<Rightarrow> approval_event list \<Rightarrow> approval_event list" where
  "record_approval_event e evs = evs @ [e]"

section \<open>Store\<close>

record approval_row =
  ar_id :: int
  ar_kind :: string
  ar_subject :: string
  ar_status :: string
  ar_requested_by :: "int option"
  ar_expires_at :: "string option"

record question_row =
  qr_id :: int
  qr_session :: "string option"
  qr_prompt :: string
  qr_status :: string

record approvals_db = perm_db +
  pending_approvals :: "approval_row list"
  pending_questions :: "question_row list"

definition read_approval :: "approval_row \<Rightarrow> approval_error + approval" where
  "read_approval r =
     rbind (ok_or (ApprovalUnknownEnum (ar_kind r)) (parse_approval_kind (ar_kind r))) (\<lambda>kind.
     rbind (ok_or (ApprovalUnknownEnum (ar_status r)) (parse_approval_status (ar_status r))) (\<lambda>status.
     rbind (case ar_expires_at r of
              None \<Rightarrow> Inr None
            | Some s \<Rightarrow> rbind (ok_or (ApprovalUnknownEnum s) (parse_i64 s)) (\<lambda>e. Inr (Some e))) (\<lambda>expires.
     Inr \<lparr>ap_id = ar_id r, ap_kind = kind, ap_subject = ar_subject r, ap_status = status,
          ap_requested_by = ar_requested_by r, ap_expires_at = expires\<rparr>)))"

definition request_approval ::
  "approval_kind \<Rightarrow> string \<Rightarrow> int option \<Rightarrow> int option \<Rightarrow> 'a approvals_db_scheme
   \<Rightarrow> 'a approvals_db_scheme \<times> int" where
  "request_approval kind subject requested_by expires_at db =
     (let i = next_rowid ar_id (pending_approvals db)
      in (db\<lparr>pending_approvals := pending_approvals db @
            [\<lparr>ar_id = i, ar_kind = approval_kind_str kind, ar_subject = subject, ar_status = ''pending'',
              ar_requested_by = requested_by, ar_expires_at = map_option dec_of_int expires_at\<rparr>]\<rparr>, i))"

definition get_approval :: "int \<Rightarrow> 'a approvals_db_scheme \<Rightarrow> approval_error + approval option" where
  "get_approval i db =
     (case query_row (\<lambda>r. ar_id r = i) (pending_approvals db) of
        None \<Rightarrow> Inr None
      | Some r \<Rightarrow> rbind (read_approval r) (\<lambda>a. Inr (Some a)))"

definition set_status_if_pending :: "int \<Rightarrow> string \<Rightarrow> 'a approvals_db_scheme \<Rightarrow> 'a approvals_db_scheme" where
  "set_status_if_pending i status db =
     db\<lparr>pending_approvals := update_where (\<lambda>r. ar_id r = i \<and> ar_status r = ''pending'')
          (\<lambda>r. r\<lparr>ar_status := status\<rparr>) (pending_approvals db)\<rparr>"

definition decide ::
  "int \<Rightarrow> int \<Rightarrow> int \<Rightarrow> approval_status \<Rightarrow> 'a approvals_db_scheme
   \<Rightarrow> 'a approvals_db_scheme \<times> (approval_error + unit)" where
  "decide approver i now outcome db =
     (case rbind (map_err approval_error_of (require_admin approver db)) (\<lambda>_.
             rbind (get_approval i db) (ok_or (ApprovalNotFound i))) of
        Inl e \<Rightarrow> (db, Inl e)
      | Inr a \<Rightarrow>
          if ap_status a \<noteq> ApPending then (db, Inl (NotDecidable i))
          else if (case ap_expires_at a of Some e \<Rightarrow> e \<le> now | None \<Rightarrow> False)
          then (set_status_if_pending i ''expired'' db, Inl (ApprovalHasExpired i))
          else (set_status_if_pending i (approval_status_str outcome) db, Inr ()))"

definition grant ::
  "int \<Rightarrow> int \<Rightarrow> int \<Rightarrow> 'a approvals_db_scheme \<Rightarrow> 'a approvals_db_scheme \<times> (approval_error + unit)" where
  "grant approver i now = decide approver i now ApGranted"

definition deny ::
  "int \<Rightarrow> int \<Rightarrow> int \<Rightarrow> 'a approvals_db_scheme \<Rightarrow> 'a approvals_db_scheme \<times> (approval_error + unit)" where
  "deny approver i now = decide approver i now ApDenied"

definition past_expiry :: "int \<Rightarrow> approval_row \<Rightarrow> bool" where
  "past_expiry now r \<longleftrightarrow> ar_status r = ''pending''
     \<and> (case ar_expires_at r of None \<Rightarrow> False | Some s \<Rightarrow> sql_cast_int s \<le> now)"

definition sweep_expired :: "int \<Rightarrow> 'a approvals_db_scheme \<Rightarrow> 'a approvals_db_scheme \<times> nat" where
  "sweep_expired now db =
     (db\<lparr>pending_approvals := update_where (past_expiry now) (\<lambda>r. r\<lparr>ar_status := ''expired''\<rparr>)
          (pending_approvals db)\<rparr>,
      count_where (past_expiry now) (pending_approvals db))"

definition pending_past_expiry :: "int \<Rightarrow> 'a approvals_db_scheme \<Rightarrow> nat" where
  "pending_past_expiry now db = count_where (past_expiry now) (pending_approvals db)"

definition ask :: "string option \<Rightarrow> string \<Rightarrow> 'a approvals_db_scheme \<Rightarrow> 'a approvals_db_scheme \<times> int" where
  "ask session prompt db =
     (let i = next_rowid qr_id (pending_questions db)
      in (db\<lparr>pending_questions := pending_questions db @
            [\<lparr>qr_id = i, qr_session = session, qr_prompt = prompt, qr_status = ''open''\<rparr>]\<rparr>, i))"

definition get_question :: "int \<Rightarrow> 'a approvals_db_scheme \<Rightarrow> approval_error + question option" where
  "get_question i db =
     (case query_row (\<lambda>r. qr_id r = i) (pending_questions db) of
        None \<Rightarrow> Inr None
      | Some r \<Rightarrow>
          rbind (ok_or (ApprovalUnknownEnum (qr_status r)) (parse_question_status (qr_status r))) (\<lambda>status.
          Inr (Some \<lparr>q_id = qr_id r, q_session = qr_session r, q_prompt = qr_prompt r, q_status = status\<rparr>)))"

definition respond :: "int \<Rightarrow> 'a approvals_db_scheme \<Rightarrow> 'a approvals_db_scheme \<times> (approval_error + unit)" where
  "respond i db =
     (case rbind (get_question i db) (ok_or (ApprovalNotFound i)) of
        Inl e \<Rightarrow> (db, Inl e)
      | Inr q \<Rightarrow>
          if q_status q \<noteq> QOpen then (db, Inl (NotDecidable i))
          else (db\<lparr>pending_questions := update_where (\<lambda>r. qr_id r = i \<and> qr_status r = ''open'')
                     (\<lambda>r. r\<lparr>qr_status := ''answered''\<rparr>) (pending_questions db)\<rparr>, Inr ()))"

section \<open>Readiness\<close>

definition expiry_sweep_running :: "bool \<Rightarrow> perm_check" where
  "expiry_sweep_running alive =
     (if alive then PermPass else PermFail ''approval expiry sweep is not running'')"

definition no_approvals_stuck_past_expiry :: "int \<Rightarrow> 'a approvals_db_scheme \<Rightarrow> perm_check" where
  "no_approvals_stuck_past_expiry now db =
     (let stuck = pending_past_expiry now db
      in if stuck = 0 then PermPass
         else PermFail (dec_of_nat stuck @ '' pending approval(s) past expiry''))"

section \<open>What the calls change\<close>

inductive approval_step :: "int \<Rightarrow> 'a approvals_db_scheme \<Rightarrow> 'a approvals_db_scheme \<Rightarrow> bool" where
  step_request: "approval_step now db (fst (request_approval k s who expiry db))"
| step_grant: "approval_step now db (fst (grant approver i now db))"
| step_deny: "approval_step now db (fst (deny approver i now db))"
| step_sweep: "approval_step now db (fst (sweep_expired now db))"
| step_ask: "approval_step now db (fst (ask session prompt db))"
| step_respond: "approval_step now db (fst (respond i db))"
| step_permissions: "perm_step db db' \<Longrightarrow> approval_step now db db'"

inductive_cases approval_stepE: "approval_step now db db'"

inductive approval_run :: "(int \<times> 'a approvals_db_scheme) list \<Rightarrow> 'a approvals_db_scheme \<Rightarrow> 'a approvals_db_scheme \<Rightarrow> bool" where
  run_done: "approval_run [] db db"
| run_step: "approval_step now db db1 \<Longrightarrow> approval_run steps db1 db' \<Longrightarrow> approval_run ((now, db) # steps) db db'"

lemma perm_more_capture:
  "perm_db.more (fst (capture_as actor scope body cls db)) = perm_db.more db"
  by (simp add: capture_as_def Let_def split: sum.splits instruction_class.splits)

lemma perm_step_more: "perm_step db db' \<Longrightarrow> perm_db.more db' = perm_db.more db"
proof (erule perm_stepE)
  fix h n assume "db' = fst (bootstrap_owner h n db)"
  then show ?thesis
    by (cases rule: bootstrap_cases [of h n db]; cases rule: create_user_cases [of h n db]) auto
qed (simp_all add: create_user_def grant_role_def revoke_role_def add_user_dm_def deactivate_def
      perm_more_capture Let_def split: sum.splits)

lemma perm_step_tables:
  fixes db :: "'a approvals_db_scheme"
  assumes "perm_step db db'"
  shows "pending_approvals db' = pending_approvals db \<and> pending_questions db' = pending_questions db"
  using perm_step_more [OF assms] by (cases db; cases db') auto

text \<open>A decision is refused, expires the card, or takes it.\<close>

lemma read_approval_fields:
  "read_approval r = Inr a \<Longrightarrow> ar_status r = approval_status_str (ap_status a) \<and> ap_id a = ar_id r
    \<and> ap_expires_at a = (case ar_expires_at r of None \<Rightarrow> None | Some s \<Rightarrow> parse_i64 s)"
  by (auto simp: read_approval_def res_simps approval_status_text.parse_Some_iff split: option.splits)

lemma decide_cases:
  obtains (refused) e where "decide approver i now outcome db = (db, Inl e)"
  | (expired) r e where "query_row (\<lambda>r. ar_id r = i) (pending_approvals db) = Some r"
      "ar_status r = ''pending''" "is_administrative approver db"
      "map_option parse_i64 (ar_expires_at r) = Some (Some e)" "e \<le> now"
      "decide approver i now outcome db = (set_status_if_pending i ''expired'' db, Inl (ApprovalHasExpired i))"
  | (taken) r where "query_row (\<lambda>r. ar_id r = i) (pending_approvals db) = Some r"
      "ar_status r = ''pending''" "is_administrative approver db"
      "case ar_expires_at r of None \<Rightarrow> True | Some s \<Rightarrow> (\<exists>e. parse_i64 s = Some e \<and> now < e)"
      "decide approver i now outcome db = (set_status_if_pending i (approval_status_str outcome) db, Inr ())"
proof (cases "rbind (map_err approval_error_of (require_admin approver db)) (\<lambda>_.
    rbind (get_approval i db) (ok_or (ApprovalNotFound i)))")
  case (Inl e)
  then show ?thesis using refused by (simp add: decide_def)
next
  case (Inr a)
  then have adm: "is_administrative approver db" and get: "get_approval i db = Inr (Some a)"
    by (auto simp: res_simps require_admin_def split: if_splits)
  then obtain r where r: "query_row (\<lambda>r. ar_id r = i) (pending_approvals db) = Some r" "read_approval r = Inr a"
    by (auto simp: get_approval_def res_simps split: option.splits)
  note f = read_approval_fields [OF r(2)]
  show ?thesis
  proof (cases "ap_status a = ApPending")
    case False
    then show ?thesis using Inr refused by (simp add: decide_def)
  next
    case True
    have wf: "\<exists>e. parse_i64 s = Some e" if "ar_expires_at r = Some s" for s
      using r(2) that by (auto simp: read_approval_def res_simps)
    show ?thesis
    proof (cases "case ap_expires_at a of Some e \<Rightarrow> e \<le> now | None \<Rightarrow> False")
      case late: True
      then obtain e where e: "ap_expires_at a = Some e" "e \<le> now" by (auto split: option.splits)
      with f have "map_option parse_i64 (ar_expires_at r) = Some (Some e)" by (auto split: option.splits)
      with expired [OF r(1)] f True adm e Inr late show ?thesis by (simp add: decide_def)
    next
      case early: False
      then have "case ar_expires_at r of None \<Rightarrow> True | Some s \<Rightarrow> (\<exists>e. parse_i64 s = Some e \<and> now < e)"
        using f wf by (auto split: option.splits)
      with taken [OF r(1)] f True adm Inr early show ?thesis by (simp add: decide_def)
    qed
  qed
qed

definition approval_at :: "int \<Rightarrow> 'a approvals_db_scheme \<Rightarrow> approval_row option" where
  "approval_at i db = query_row (\<lambda>r. ar_id r = i) (pending_approvals db)"

definition question_at :: "int \<Rightarrow> 'a approvals_db_scheme \<Rightarrow> question_row option" where
  "question_at i db = query_row (\<lambda>r. qr_id r = i) (pending_questions db)"

lemma approval_at_set_status:
  "approval_at k (set_status_if_pending i status db)
    = map_option (\<lambda>r. if ar_id r = i \<and> ar_status r = ''pending'' then r\<lparr>ar_status := status\<rparr> else r) (approval_at k db)"
  by (simp add: approval_at_def set_status_if_pending_def query_row_update_where)

lemma approval_at_sweep:
  "approval_at k (fst (sweep_expired now db))
    = map_option (\<lambda>r. if past_expiry now r then r\<lparr>ar_status := ''expired''\<rparr> else r) (approval_at k db)"
  by (simp add: approval_at_def sweep_expired_def query_row_update_where)

lemma approval_at_request:
  "approval_at k (fst (request_approval kind s who expiry db))
    = (case approval_at k db of
         Some r \<Rightarrow> Some r
       | None \<Rightarrow> if k = next_rowid ar_id (pending_approvals db)
                 then Some \<lparr>ar_id = k, ar_kind = approval_kind_str kind, ar_subject = s, ar_status = ''pending'',
                            ar_requested_by = who, ar_expires_at = map_option dec_of_int expiry\<rparr>
                 else None)"
  by (auto simp: approval_at_def request_approval_def Let_def query_row_append split: option.splits)

text \<open>How the card \<open>r'\<close> of a step comes from the card \<open>r\<close> before it.\<close>

definition card_move :: "int \<Rightarrow> 'a approvals_db_scheme \<Rightarrow> approval_row option \<Rightarrow> approval_row option \<Rightarrow> bool" where
  "card_move now db v v' \<longleftrightarrow>
     v' = v
     \<or> (v = None \<and> (\<exists>r'. v' = Some r' \<and> ar_status r' = ''pending''))
     \<or> (\<exists>r. v = Some r \<and> ar_status r = ''pending''
          \<and> (v' = Some (r\<lparr>ar_status := ''expired''\<rparr>)
             \<or> ((\<exists>approver. is_administrative approver db)
                \<and> (case ar_expires_at r of None \<Rightarrow> True | Some s \<Rightarrow> (\<exists>e. parse_i64 s = Some e \<and> now < e))
                \<and> (v' = Some (r\<lparr>ar_status := ''granted''\<rparr>) \<or> v' = Some (r\<lparr>ar_status := ''denied''\<rparr>)))))"

lemma card_move_refl [simp]: "card_move now db v v"
  by (simp add: card_move_def)

lemma approval_at_id: "approval_at k db = Some r \<Longrightarrow> ar_id r = k"
  unfolding approval_at_def using query_row_SomeD by fastforce

lemma set_status_hit:
  "approval_at i db = Some r \<Longrightarrow> ar_status r = ''pending'' \<Longrightarrow>
   approval_at i (set_status_if_pending i status db) = Some (r\<lparr>ar_status := status\<rparr>)"
  by (simp add: approval_at_set_status approval_at_id)

lemma set_status_miss: "k \<noteq> i \<Longrightarrow> approval_at k (set_status_if_pending i status db) = approval_at k db"
  using approval_at_id [of k db] by (cases "approval_at k db") (auto simp: approval_at_set_status)

lemma card_move_decide:
  assumes "outcome \<in> {ApGranted, ApDenied}"
  shows "card_move now db (approval_at k db) (approval_at k (fst (decide approver i now outcome db)))"
proof (cases rule: decide_cases [of approver i now outcome db])
  case (expired r e)
  then have r: "approval_at i db = Some r" by (simp add: approval_at_def)
  show ?thesis
  proof (cases "k = i")
    case True
    with set_status_hit [OF r expired(2)] r expired(2,6) show ?thesis by (simp add: card_move_def)
  next
    case False
    with expired(6) show ?thesis by (simp add: set_status_miss)
  qed
next
  case (taken r)
  then have r: "approval_at i db = Some r" by (simp add: approval_at_def)
  show ?thesis
  proof (cases "k = i")
    case True
    with set_status_hit [OF r taken(2)] r taken(2-5) assms show ?thesis by (auto simp: card_move_def)
  next
    case False
    with taken(5) show ?thesis by (simp add: set_status_miss)
  qed
qed simp

lemma respond_approvals: "pending_approvals (fst (respond i db)) = pending_approvals db"
  by (simp add: respond_def split: sum.splits)

lemma approval_step_card:
  assumes "approval_step now db db'"
  shows "card_move now db (approval_at k db) (approval_at k db')"
  using assms
proof (rule approval_stepE)
  fix kind s who expiry assume "db' = fst (request_approval kind s who expiry db)"
  then show ?thesis by (auto simp: approval_at_request card_move_def split: option.splits)
next
  fix approver i assume "db' = fst (grant approver i now db)"
  then show ?thesis by (simp add: grant_def card_move_decide)
next
  fix approver i assume "db' = fst (deny approver i now db)"
  then show ?thesis by (simp add: deny_def card_move_decide)
next
  assume "db' = fst (sweep_expired now db)"
  then show ?thesis
    by (cases "approval_at k db") (auto simp: approval_at_sweep card_move_def past_expiry_def)
next
  fix session prompt assume "db' = fst (ask session prompt db)"
  then show ?thesis by (simp add: ask_def approval_at_def Let_def)
next
  fix i assume "db' = fst (respond i db)"
  then show ?thesis by (simp add: respond_approvals approval_at_def)
next
  assume "perm_step db db'"
  then show ?thesis using perm_step_tables [of db db'] by (simp add: approval_at_def)
qed

lemma decided_step: "approval_step now db db' \<Longrightarrow> approval_at k db = Some r \<Longrightarrow> ar_status r \<noteq> ''pending'' \<Longrightarrow>
   approval_at k db' = Some r"
  using approval_step_card [of now db db' k] by (auto simp: card_move_def)

lemma decided_run: "approval_run steps db db' \<Longrightarrow> approval_at k db = Some r \<Longrightarrow> ar_status r \<noteq> ''pending'' \<Longrightarrow>
   approval_at k db' = Some r"
  by (induction rule: approval_run.induct) (auto intro: decided_step)

text \<open>
  A step that leaves a card granted that was not is an accepted grant of it. \<open>grant_at\<close> is what such a
  grant found and left.
\<close>

definition grant_at :: "int \<Rightarrow> int \<Rightarrow> int \<Rightarrow> 'a approvals_db_scheme \<Rightarrow> 'a approvals_db_scheme \<Rightarrow> approval_row \<Rightarrow> bool" where
  "grant_at approver k now db db' r' \<longleftrightarrow> grant approver k now db = (db', Inr ()) \<and> is_administrative approver db
     \<and> (\<exists>r. approval_at k db = Some r \<and> ar_status r = ''pending'' \<and> r' = r\<lparr>ar_status := ''granted''\<rparr>
          \<and> approval_at k db' = Some r'
          \<and> (case ar_expires_at r of None \<Rightarrow> True | Some s \<Rightarrow> (\<exists>e. parse_i64 s = Some e \<and> now < e)))"

lemma granting_decision:
  assumes "approval_at k (fst (decide approver i now outcome db)) = Some r'" "ar_status r' = ''granted''"
    and "approval_at k db \<noteq> Some r'" and "outcome \<in> {ApGranted, ApDenied}"
  shows "outcome = ApGranted \<and> grant_at approver k now db (fst (decide approver i now outcome db)) r'"
proof (cases rule: decide_cases [of approver i now outcome db])
  case (refused e)
  with assms show ?thesis by simp
next
  case (expired r e)
  then have r: "approval_at i db = Some r" by (simp add: approval_at_def)
  have "approval_at k (fst (decide approver i now outcome db)) \<noteq> Some r'"
    using set_status_hit [OF r expired(2), of "''expired''"] set_status_miss [of k i "''expired''" db] expired(6) assms(2,3)
    by (cases "k = i") auto
  with assms(1) show ?thesis by simp
next
  case (taken r)
  then have r: "approval_at i db = Some r" by (simp add: approval_at_def)
  let ?st = "approval_status_str outcome"
  have k: "k = i" using assms(1,3) taken(5) set_status_miss [of k i ?st db] by (cases "k = i") auto
  with set_status_hit [OF r taken(2), of ?st] assms(1,2,4) taken(5)
  have "outcome = ApGranted" "r' = r\<lparr>ar_status := ''granted''\<rparr>" by auto
  with taken r k assms(1) show ?thesis by (simp add: grant_at_def grant_def)
qed

lemma granting_step:
  assumes "approval_step now db db'" and granted: "approval_at k db' = Some r'" "ar_status r' = ''granted''"
    and new: "approval_at k db \<noteq> Some r'"
  shows "\<exists>approver. grant_at approver k now db db' r'"
  using assms(1)
proof (rule approval_stepE)
  fix approver i assume "db' = fst (grant approver i now db)"
  with granting_decision [of k approver i now ApGranted db r'] granted new show ?thesis by (auto simp: grant_def)
next
  fix approver i assume "db' = fst (deny approver i now db)"
  with granting_decision [of k approver i now ApDenied db r'] granted new show ?thesis by (auto simp: deny_def)
next
  fix kind s who expiry assume "db' = fst (request_approval kind s who expiry db)"
  with granted new show ?thesis by (auto simp: approval_at_request split: option.splits if_splits)
next
  assume "db' = fst (sweep_expired now db)"
  with granted new show ?thesis by (auto simp: approval_at_sweep split: if_splits)
next
  fix session prompt assume "db' = fst (ask session prompt db)"
  with granted new show ?thesis by (simp add: ask_def approval_at_def Let_def)
next
  fix i assume "db' = fst (respond i db)"
  with granted new show ?thesis by (simp add: respond_approvals approval_at_def)
next
  assume "perm_step db db'"
  with perm_step_tables [of db db'] granted new show ?thesis by (simp add: approval_at_def)
qed

lemma granted_origin:
  assumes "approval_run steps db db'" "approval_at k db' = Some r'" "ar_status r' = ''granted''"
  shows "approval_at k db = Some r' \<or>
    (\<exists>before now db1 rest approver db2. steps = before @ (now, db1) # rest
       \<and> approval_run before db db1 \<and> grant_at approver k now db1 db2 r' \<and> approval_run rest db2 db')"
  using assms
proof (induction rule: approval_run.induct)
  case (run_step now db db1 steps db')
  from run_step.IH [OF run_step.prems] show ?case
  proof (elim disjE exE conjE)
    assume later: "approval_at k db1 = Some r'"
    show ?thesis
    proof (cases "approval_at k db = Some r'")
      case False
      with granting_step [OF run_step.hyps(1) later run_step.prems(2)] run_step.hyps(2) run_done
      show ?thesis by (metis append_Nil)
    qed simp
  next
    fix before now' db1' rest approver db2
    assume split: "steps = before @ (now', db1') # rest" "approval_run before db1 db1'"
      "grant_at approver k now' db1' db2 r'" "approval_run rest db2 db'"
    have "approval_run ((now, db) # before) db db1'"
      using run_step.hyps(1) split(2) by (rule approval_run.run_step)
    with split show ?thesis by (metis append_Cons)
  qed
qed simp

lemma respond_cases:
  obtains (refused) e where "respond i db = (db, Inl e)"
  | (answered) r where "question_at i db = Some r" "qr_status r = ''open''"
      "respond i db = (db\<lparr>pending_questions := update_where (\<lambda>r. qr_id r = i \<and> qr_status r = ''open'')
         (\<lambda>r. r\<lparr>qr_status := ''answered''\<rparr>) (pending_questions db)\<rparr>, Inr ())"
proof (cases "rbind (get_question i db) (ok_or (ApprovalNotFound i))")
  case (Inl e)
  then show ?thesis using refused by (simp add: respond_def)
next
  case (Inr q)
  then obtain r where r: "question_at i db = Some r" "question_status_str (q_status q) = qr_status r"
    by (auto simp: get_question_def question_at_def res_simps question_status_text.parse_Some_iff split: option.splits)
  show ?thesis
  proof (cases "q_status q = QOpen")
    case True
    with answered [OF r(1)] r(2) Inr show ?thesis by (simp add: respond_def)
  next
    case False
    with refused Inr show ?thesis by (simp add: respond_def)
  qed
qed

section \<open>The sweep and the check at decision time\<close>

text \<open>
  A table the store itself wrote: one row an id, and every expiry is the decimal text of an \<open>i64\<close>.
\<close>

definition cards_ok :: "'a approvals_db_scheme \<Rightarrow> bool" where
  "cards_ok db \<longleftrightarrow> primary_key ar_id (pending_approvals db)
     \<and> (\<forall>r\<in>set (pending_approvals db). \<forall>s. ar_expires_at r = Some s \<longrightarrow> (\<exists>e. in_i64 e \<and> s = dec_of_int e))"

abbreviation swept :: "int \<Rightarrow> 'a approvals_db_scheme \<Rightarrow> 'a approvals_db_scheme" where
  "swept now db \<equiv> fst (sweep_expired now db)"

lemma swept_admin [simp]: "is_administrative approver (swept now db) = is_administrative approver db"
  by (simp add: is_administrative_def sweep_expired_def)

lemma swept_not_past: "r \<in> set (pending_approvals (swept now db)) \<Longrightarrow> \<not> past_expiry now r"
  by (auto simp: sweep_expired_def set_update_where past_expiry_def)

lemma past_expiry_wf:
  "cards_ok db \<Longrightarrow> r \<in> set (pending_approvals db) \<Longrightarrow>
   past_expiry now r \<longleftrightarrow> ar_status r = ''pending'' \<and> (\<exists>s e. ar_expires_at r = Some s \<and> parse_i64 s = Some e \<and> e \<le> now)"
proof (cases "ar_expires_at r")
  case None
  then show ?thesis by (simp add: past_expiry_def)
next
  case (Some s)
  moreover assume "cards_ok db" "r \<in> set (pending_approvals db)"
  ultimately obtain e where "in_i64 e" "s = dec_of_int e" unfolding cards_ok_def by blast
  with Some show ?thesis by (simp add: past_expiry_def)
qed

lemma approval_at_mem: "approval_at i db = Some r \<Longrightarrow> r \<in> set (pending_approvals db)"
  unfolding approval_at_def using query_row_SomeD by fastforce

lemma decide_ok_iff:
  "is_ok (snd (decide approver i now outcome db)) \<longleftrightarrow>
     is_administrative approver db \<and>
     (\<exists>r a. approval_at i db = Some r \<and> read_approval r = Inr a \<and> ap_status a = ApPending
        \<and> (case ap_expires_at a of None \<Rightarrow> True | Some e \<Rightarrow> now < e))"
proof (cases "is_administrative approver db")
  case True
  show ?thesis
  proof (cases "approval_at i db")
    case None
    then show ?thesis by (simp add: decide_def get_approval_def approval_at_def True require_admin_def)
  next
    case (Some r)
    show ?thesis
    proof (cases "read_approval r")
      case (Inl e)
      with Some show ?thesis by (simp add: decide_def get_approval_def approval_at_def True require_admin_def)
    next
      case (Inr a)
      then have "rbind (map_err approval_error_of (require_admin approver db)) (\<lambda>_.
          rbind (get_approval i db) (ok_or (ApprovalNotFound i))) = Inr a"
        using Some True by (simp add: require_admin_def get_approval_def approval_at_def)
      with Some Inr True show ?thesis
        by (cases "ap_expires_at a") (auto simp: decide_def)
    qed
  qed
qed (simp add: decide_def require_admin_def)

lemma decide_ok_state:
  "is_ok (snd (decide approver i now outcome db)) \<Longrightarrow>
   fst (decide approver i now outcome db) = set_status_if_pending i (approval_status_str outcome) db"
  by (cases rule: decide_cases [of approver i now outcome db]) simp_all

lemma set_status_swept:
  assumes "cards_ok db" "approval_at i db = Some r" "past_expiry now r \<longleftrightarrow> st = ''expired''" "ar_status r = ''pending''"
  shows "swept now (set_status_if_pending i st db)
    = (if st = ''expired'' then swept now db else set_status_if_pending i st (swept now db))"
proof -
  have eq: "x = r" if "x \<in> set (pending_approvals db)" "ar_id x = i" for x
    using assms(1) that approval_at_mem [OF assms(2)] approval_at_id [OF assms(2)]
    by (auto simp: cards_ok_def intro: primary_key_unique)
  define hit where "hit x \<longleftrightarrow> ar_id x = i \<and> ar_status x = ''pending''" for x :: approval_row
  have hit: "x \<in> set (pending_approvals db) \<Longrightarrow> hit x \<longleftrightarrow> x = r" for x
    using eq assms(4) approval_at_id [OF assms(2)] by (auto simp: hit_def)
  have st: "\<not> past_expiry now (x\<lparr>ar_status := ''expired''\<rparr>)" for x by (simp add: past_expiry_def)
  have r: "ar_id r = i" using approval_at_id [OF assms(2)] .
  show ?thesis
  proof (cases "st = ''expired''")
    case True
    have "swept now (set_status_if_pending i st db) = swept now db"
      unfolding sweep_expired_def set_status_if_pending_def update_where_def hit_def [symmetric]
      using hit st assms(3) True by (auto intro!: arg_cong [of _ _ "\<lambda>t. db\<lparr>pending_approvals := t\<rparr>"])
    with True show ?thesis by simp
  next
    case False
    have exp: "\<not> hit (x\<lparr>ar_status := ''expired''\<rparr>)" for x by (simp add: hit_def)
    have "past_expiry now (r\<lparr>ar_status := st\<rparr>) \<Longrightarrow> past_expiry now r"
      using assms(4) by (auto simp: past_expiry_def)
    with False assms(3) have "\<not> past_expiry now (r\<lparr>ar_status := st\<rparr>)" by blast
    then have "swept now (set_status_if_pending i st db) = set_status_if_pending i st (swept now db)"
      unfolding sweep_expired_def set_status_if_pending_def update_where_def hit_def [symmetric]
      using hit exp assms(3) False by (auto intro!: arg_cong [of _ _ "\<lambda>t. db\<lparr>pending_approvals := t\<rparr>"])
    with False show ?thesis by simp
  qed
qed

lemma decide_not_ok_swept:
  assumes "cards_ok db" "\<not> is_ok (snd (decide approver i now outcome db))"
  shows "swept now (fst (decide approver i now outcome db)) = swept now db"
proof (cases rule: decide_cases [of approver i now outcome db])
  case (expired r e)
  then have r: "approval_at i db = Some r" by (simp add: approval_at_def)
  have "past_expiry now r"
    using past_expiry_wf [OF assms(1) approval_at_mem [OF r], of now] expired(2,4,5) by auto
  with set_status_swept [OF assms(1) r, of now "''expired''"] expired(2,6) show ?thesis by simp
next
  case (taken r)
  with assms(2) show ?thesis by simp
qed simp

lemma approval_at_swept_pending:
  "approval_at i (swept now db) = Some r \<and> ar_status r = ''pending''
    \<longleftrightarrow> approval_at i db = Some r \<and> ar_status r = ''pending'' \<and> \<not> past_expiry now r"
  by (auto simp: approval_at_sweep past_expiry_def split: if_splits)

lemma decide_ok_swept:
  assumes "cards_ok db"
  shows "is_ok (snd (decide approver i now outcome (swept now db))) = is_ok (snd (decide approver i now outcome db))"
proof -
  have "(\<exists>a. read_approval r = Inr a \<and> ap_status a = ApPending \<and> (case ap_expires_at a of None \<Rightarrow> True | Some e \<Rightarrow> now < e))
      \<longrightarrow> ar_status r = ''pending'' \<and> (case ar_expires_at r of None \<Rightarrow> True | Some s \<Rightarrow>
            (case parse_i64 s of None \<Rightarrow> True | Some e \<Rightarrow> now < e))" for r
  proof (intro impI, elim exE conjE)
    fix a assume a: "read_approval r = Inr a" "ap_status a = ApPending"
      "case ap_expires_at a of None \<Rightarrow> True | Some e \<Rightarrow> now < e"
    with read_approval_fields [OF a(1)] show "ar_status r = ''pending'' \<and> (case ar_expires_at r of None \<Rightarrow> True
        | Some s \<Rightarrow> (case parse_i64 s of None \<Rightarrow> True | Some e \<Rightarrow> now < e))"
      by (simp split: option.splits)
  qed
  then have "approval_at i (swept now db) = Some r \<longleftrightarrow> approval_at i db = Some r"
    if "read_approval r = Inr a" "ap_status a = ApPending" "case ap_expires_at a of None \<Rightarrow> True | Some e \<Rightarrow> now < e"
    for r a
    using approval_at_swept_pending [of i now db r] past_expiry_wf [OF assms approval_at_mem, of i r now] that
    by (fastforce split: option.splits)
  then show ?thesis by (auto simp: decide_ok_iff)
qed

lemma decide_swept_state:
  assumes "\<not> is_ok (snd (decide approver i now outcome (swept now db)))" "cards_ok (swept now db)"
  shows "fst (decide approver i now outcome (swept now db)) = swept now db"
proof (cases rule: decide_cases [of approver i now outcome "swept now db"])
  case (expired r e)
  then have r: "approval_at i (swept now db) = Some r" by (simp add: approval_at_def)
  have "past_expiry now r"
    using past_expiry_wf [OF assms(2) approval_at_mem [OF r], of now] expired(2,4,5) by auto
  with swept_not_past [OF approval_at_mem [OF r]] show ?thesis by simp
next
  case (taken r)
  with assms(1) show ?thesis by simp
qed simp

lemma cards_ok_swept: "cards_ok db \<Longrightarrow> cards_ok (swept now db)"
  by (auto simp: cards_ok_def sweep_expired_def set_update_where)

lemma cards_ok_request:
  assumes "cards_ok db" "case expiry of None \<Rightarrow> True | Some e \<Rightarrow> in_i64 e"
  shows "cards_ok (fst (request_approval k s who expiry db))"
proof -
  have "primary_key ar_id (pending_approvals (fst (request_approval k s who expiry db)))"
    using assms(1) unfolding request_approval_def Let_def cards_ok_def
    by (auto intro!: primary_key_append_new simp: next_rowid_not_key)
  with assms show ?thesis
    by (auto simp: cards_ok_def request_approval_def Let_def split: option.splits)
qed

section \<open>Questions\<close>

lemma question_at_respond:
  "snd (respond i db) = Inr () \<Longrightarrow>
   question_at k (fst (respond i db))
     = map_option (\<lambda>r. if qr_id r = i \<and> qr_status r = ''open'' then r\<lparr>qr_status := ''answered''\<rparr> else r) (question_at k db)"
  by (cases rule: respond_cases [of i db]) (simp_all add: question_at_def query_row_update_where)

lemma question_at_id: "question_at i db = Some r \<Longrightarrow> qr_id r = i"
  unfolding question_at_def using query_row_SomeD by fastforce

lemma decide_questions: "pending_questions (fst (decide approver i now outcome db)) = pending_questions db"
  by (cases rule: decide_cases [of approver i now outcome db]) (simp_all add: set_status_if_pending_def)

lemma answered_step:
  assumes "approval_step now db db'" "question_at k db = Some r" "qr_status r \<noteq> ''open''"
  shows "question_at k db' = Some r"
  using assms(1)
proof (rule approval_stepE)
  fix i assume db': "db' = fst (respond i db)"
  show ?thesis
  proof (cases rule: respond_cases [of i db])
    case (answered q)
    with question_at_respond [of i db k] db' assms(2,3) show ?thesis by simp
  qed (use db' assms(2) in simp)
next
  fix session prompt assume "db' = fst (ask session prompt db)"
  with assms(2) show ?thesis by (simp add: ask_def question_at_def Let_def query_row_append)
next
  assume "perm_step db db'"
  with perm_step_tables [of db db'] assms(2) show ?thesis by (simp add: question_at_def)
qed (use assms(2) in \<open>simp_all add: question_at_def request_approval_def sweep_expired_def grant_def deny_def
      decide_questions Let_def\<close>)

lemma answered_run:
  "approval_run steps db db' \<Longrightarrow> question_at k db = Some r \<Longrightarrow> qr_status r \<noteq> ''open'' \<Longrightarrow> question_at k db' = Some r"
  by (induction rule: approval_run.induct) (auto intro: answered_step)

section \<open>Properties\<close>

text \<open>
  C34: no stale or unauthorised grant: in every sequence of requests, grants, denials, sweeps, questions,
  answers and permission changes from a store without cards, a card that ends granted became granted by one
  accepted \<open>grant\<close> call of the sequence: the calls before it lead to the store it acted on and the calls after
  it continue from the store it left. In that store the card was pending, the caller of \<open>grant\<close> was an
  administrator, and the expiry of the card, if it has one, was readable and still in the future; the call
  set the status and nothing else of the card, and no later call changed it.
\<close>

theorem granted_only_before_expiry:
  assumes "approval_run steps db db'" "pending_approvals db = []"
    and "approval_at k db' = Some r'" "ar_status r' = ''granted''"
  shows "\<exists>before now db1 rest approver db2 r. steps = before @ (now, db1) # rest
       \<and> approval_run before db db1 \<and> grant approver k now db1 = (db2, Inr ()) \<and> approval_run rest db2 db'
       \<and> is_administrative approver db1 \<and> approval_at k db1 = Some r \<and> ar_status r = ''pending''
       \<and> (case ar_expires_at r of None \<Rightarrow> True | Some s \<Rightarrow> (\<exists>e. parse_i64 s = Some e \<and> now < e))
       \<and> r' = r\<lparr>ar_status := ''granted''\<rparr> \<and> approval_at k db2 = Some r'"
  using granted_origin [OF assms(1,3,4)] assms(2) by (auto simp: approval_at_def [of k db] grant_at_def) blast

text \<open>
  a card is decided once: once granted, denied or expired it is never changed again, whatever
  calls follow, and every later grant or denial of it is refused with the store unchanged.
\<close>

theorem decision_is_final:
  assumes "approval_run steps db db'" "approval_at k db = Some r" "ar_status r \<noteq> ''pending''"
  shows "approval_at k db' = Some r
    \<and> (\<forall>approver now. \<exists>e. grant approver k now db' = (db', Inl e))
    \<and> (\<forall>approver now. \<exists>e. deny approver k now db' = (db', Inl e))"
proof -
  have at: "approval_at k db' = Some r" by (rule decided_run [OF assms])
  have "\<exists>e. decide approver k now outcome db' = (db', Inl e)" for approver now outcome
    by (cases rule: decide_cases [of approver k now outcome db']) (use at assms(3) in \<open>auto simp: approval_at_def\<close>)
  with at show ?thesis by (simp add: grant_def deny_def)
qed

text \<open>
  the expiry holds whether or not the sweep has run: on a table the store wrote, sweeping before
  a decision neither allows nor prevents it, and the table after both is the same in either order.
\<close>

theorem expiry_independent_of_sweep:
  assumes "cards_ok db"
  shows "is_ok (snd (decide approver i now outcome (fst (sweep_expired now db))))
      = is_ok (snd (decide approver i now outcome db))
    \<and> (outcome \<noteq> ApExpired \<longrightarrow>
       fst (decide approver i now outcome (fst (sweep_expired now db)))
        = fst (sweep_expired now (fst (decide approver i now outcome db))))"
proof (cases "is_ok (snd (decide approver i now outcome db))")
  case True
  then obtain r a where ra: "approval_at i db = Some r" "read_approval r = Inr a" "ap_status a = ApPending"
      "case ap_expires_at a of None \<Rightarrow> True | Some e \<Rightarrow> now < e"
    by (auto simp: decide_ok_iff)
  note f = read_approval_fields [OF ra(2)]
  have "\<not> past_expiry now r"
    using past_expiry_wf [OF assms approval_at_mem [OF ra(1)], of now] f ra(4) by (auto split: option.splits)
  moreover have "approval_status_str outcome = ''expired'' \<longleftrightarrow> outcome = ApExpired"
    by (cases outcome) simp_all
  ultimately show ?thesis
    using set_status_swept [OF assms ra(1), of now "approval_status_str outcome"] f ra(3) True
      decide_ok_swept [OF assms, of approver i now outcome] by (auto simp: decide_ok_state)
next
  case False
  with decide_ok_swept [OF assms] decide_not_ok_swept [OF assms False]
    decide_swept_state [OF _ cards_ok_swept [OF assms]] show ?thesis by simp
qed

text \<open>
  After a sweep no card is stuck past its expiry: the readiness check passes, and the sweep
  reports exactly the number of cards the check would have complained about.
\<close>

theorem sweep_clears_readiness:
  "no_approvals_stuck_past_expiry now (fst (sweep_expired now db)) = PermPass
    \<and> snd (sweep_expired now db) = pending_past_expiry now db
    \<and> (no_approvals_stuck_past_expiry now db = PermPass \<longleftrightarrow> snd (sweep_expired now db) = 0)"
proof -
  have "pending_past_expiry now (swept now db) = 0"
    by (auto simp: pending_past_expiry_def count_where_0_iff swept_not_past)
  moreover have "snd (sweep_expired now db) = pending_past_expiry now db"
    by (simp add: sweep_expired_def pending_past_expiry_def)
  ultimately show ?thesis by (simp add: no_approvals_stuck_past_expiry_def Let_def)
qed

text \<open>
  A question is answered at most once: after an accepted answer, whatever calls follow, every
  further answer to that question is refused with the store unchanged, and no other question was
  touched by the answer.
\<close>

theorem question_answered_once:
  assumes "respond i db = (db1, Inr ())" "approval_run steps db1 db'"
  shows "(\<exists>e. respond i db' = (db', Inl e)) \<and> (\<forall>k. k \<noteq> i \<longrightarrow> question_at k db1 = question_at k db)"
proof (cases rule: respond_cases [of i db])
  case (answered r)
  have after: "question_at i db1 = Some (r\<lparr>qr_status := ''answered''\<rparr>)"
    using question_at_respond [of i db i] assms(1) answered(1,2) question_at_id [OF answered(1)] by simp
  then have at: "question_at i db' = Some (r\<lparr>qr_status := ''answered''\<rparr>)"
    using answered_run [OF assms(2)] by simp
  have "\<exists>e. respond i db' = (db', Inl e)"
    by (cases rule: respond_cases [of i db']) (use at in auto)
  moreover have "question_at k db1 = question_at k db" if "k \<noteq> i" for k
    using question_at_respond [of i db k] assms(1) that question_at_id [of k db]
    by (cases "question_at k db") auto
  ultimately show ?thesis by blast
next
  case (refused e)
  with assms(1) show ?thesis by simp
qed

section \<open>Witnesses\<close>

definition approvals_start :: approvals_db where
  "approvals_start = \<lparr>users = [\<lparr>user_id = 1, user_handle = ''root'', user_display_name = None\<rparr>],
     user_roles = [(1, ''owner'')], user_dms = [], standing_instructions = [],
     pending_approvals = [], pending_questions = []\<rparr>"

definition approvals_asked :: approvals_db where
  "approvals_asked = fst (request_approval Generic ''deploy'' (Some 1) (Some 50) approvals_start)"

definition approvals_granted :: approvals_db where
  "approvals_granted = fst (grant 1 1 40 approvals_asked)"

lemma dec_50 [simp]: "dec_of_int 50 = ''50''"
  by (simp add: dec_of_int_def dec_of_nat.simps digit_char_eval)

lemma parse_50 [simp]: "parse_i64 ''50'' = Some 50"
  using parse_i64_dec [of 50] by (simp add: in_i64_def i64_min_def i64_max_def)

lemma cast_50 [simp]: "sql_cast_int ''50'' = 50"
  using sql_cast_int_dec [of 50] by (simp add: in_i64_def i64_min_def i64_max_def)

lemma approvals_asked_eq:
  "approvals_asked = approvals_start\<lparr>pending_approvals := [\<lparr>ar_id = 1, ar_kind = ''generic'', ar_subject = ''deploy'',
      ar_status = ''pending'', ar_requested_by = Some 1, ar_expires_at = Some ''50''\<rparr>]\<rparr>"
  by (simp add: approvals_asked_def request_approval_def approvals_start_def next_rowid_def max_of_def Let_def)

lemma approvals_granted_eq:
  "approvals_granted = approvals_start\<lparr>pending_approvals := [\<lparr>ar_id = 1, ar_kind = ''generic'', ar_subject = ''deploy'',
      ar_status = ''granted'', ar_requested_by = Some 1, ar_expires_at = Some ''50''\<rparr>]\<rparr>"
  by (simp add: approvals_granted_def approvals_asked_eq grant_def decide_def require_admin_def is_administrative_def
      get_approval_def read_approval_def approvals_start_def parse_approval_kind_def parse_approval_status_def
      set_status_if_pending_def update_where_def count_where_def)

lemma approvals_run:
  "approval_run [(30, approvals_start), (40, approvals_asked)] approvals_start approvals_granted"
proof (rule run_step)
  show "approval_step 30 approvals_start approvals_asked"
    unfolding approvals_asked_def by (rule step_request)
  show "approval_run [(40, approvals_asked)] approvals_asked approvals_granted"
    by (rule run_step [OF _ run_done]) (simp add: approvals_granted_def step_grant)
qed

theorem granted_only_before_expiry_witness:
  "\<exists>now db1 approver db2. (now, db1) \<in> set [(30::int, approvals_start), (40, approvals_asked)]
     \<and> grant approver 1 now db1 = (db2, Inr ()) \<and> is_administrative approver db1"
proof -
  obtain r where r: "approval_at 1 approvals_granted = Some r" "ar_status r = ''granted''"
    by (simp add: approval_at_def approvals_granted_eq)
  have "pending_approvals approvals_start = []" by (simp add: approvals_start_def)
  from granted_only_before_expiry [OF approvals_run this r] show ?thesis
    by (elim exE conjE) (metis in_set_conv_decomp)
qed

theorem decision_is_final_witness: "\<exists>e. deny 1 1 45 approvals_granted = (approvals_granted, Inl e)"
proof -
  obtain r where r: "approval_at 1 approvals_granted = Some r" "ar_status r \<noteq> ''pending''"
    by (simp add: approval_at_def approvals_granted_eq)
  from decision_is_final [OF run_done r] show ?thesis by blast
qed

theorem expiry_independent_of_sweep_witness:
  "is_ok (snd (decide 1 1 60 ApGranted (fst (sweep_expired 60 approvals_asked))))
    = is_ok (snd (decide 1 1 60 ApGranted approvals_asked))"
proof -
  have "cards_ok (fst (request_approval Generic ''deploy'' (Some 1) (Some 50) approvals_start))"
    by (rule cards_ok_request)
      (simp_all add: approvals_start_def cards_ok_def primary_key_def in_i64_def i64_min_def i64_max_def)
  then have "cards_ok approvals_asked" by (simp add: approvals_asked_def)
  from expiry_independent_of_sweep [OF this] show ?thesis by blast
qed

definition question_db :: approvals_db where
  "question_db = fst (ask None ''why?'' approvals_start)"

lemma question_db_eq:
  "question_db = approvals_start\<lparr>pending_questions := [\<lparr>qr_id = 1, qr_session = None, qr_prompt = ''why?'', qr_status = ''open''\<rparr>]\<rparr>"
  by (simp add: question_db_def ask_def approvals_start_def next_rowid_def max_of_def Let_def)

theorem question_answered_once_witness:
  "\<exists>e. respond 1 (fst (respond 1 question_db)) = (fst (respond 1 question_db), Inl e)"
proof -
  have "respond 1 question_db = (fst (respond 1 question_db), Inr ())"
    by (simp add: respond_def get_question_def question_db_eq parse_question_status_def approvals_start_def)
  from question_answered_once [OF this run_done] show ?thesis by blast
qed

end
