(* ===== verification/Config.thy ===== *)
theory Config
  imports Strings
begin

text \<open>
  \<open>crates/assistant-config\<close>: instance paths (\<open>paths.rs\<close>), the configuration and its environment overlay
  (\<open>config.rs\<close>), and the specialists that a configuration registers (\<open>specialists.rs\<close>), with the
  specification of a specialist from \<open>crates/assistant-specialist-spec\<close>. Reading files is the argument
  \<open>read_file\<close>, parsing a bundle's JSON the argument \<open>parse_spec\<close>.
\<close>

section \<open>Instance paths\<close>

datatype path_error = InvalidNamespace string | InvalidInstance string

definition lower_or_digit :: "char \<Rightarrow> bool" where
  "lower_or_digit c \<longleftrightarrow> ascii_lowercase c \<or> is_digit c"

definition validate_namespace :: "string \<Rightarrow> path_error + unit" where
  "validate_namespace namespace =
     (if (case namespace of [] \<Rightarrow> False | c # _ \<Rightarrow> ascii_lowercase c) \<and> list_all lower_or_digit namespace
      then Inr () else Inl (InvalidNamespace namespace))"

definition validate_instance :: "string \<Rightarrow> path_error + unit" where
  "validate_instance name =
     (let charset_ok = name \<noteq> [] \<and> list_all (\<lambda>c. lower_or_digit c \<or> c = CHR ''-'') name;
          shape_ok = \<not> is_prefix ''-'' name \<and> \<not> is_prefix ''-'' (rev name) \<and> \<not> contains_str name ''--''
      in if charset_ok \<and> shape_ok then Inr () else Inl (InvalidInstance name))"

definition instance_dir_name :: "string \<Rightarrow> string option \<Rightarrow> path_error + string" where
  "instance_dir_name namespace inst =
     rbind (validate_namespace namespace) (\<lambda>_.
       (case inst of
          None \<Rightarrow> Inr (''.'' @ namespace)
        | Some name \<Rightarrow>
            rbind (validate_instance name) (\<lambda>_. Inr (''.'' @ namespace @ ''-'' @ name))))"

text \<open>An \<open>InstanceLayout\<close> is its root.\<close>

definition derive_instance :: "path \<Rightarrow> string \<Rightarrow> string option \<Rightarrow> path_error + path" where
  "derive_instance home namespace inst = rbind (instance_dir_name namespace inst) (\<lambda>name. Inr (home @ [name]))"

definition config_path :: "path \<Rightarrow> path" where "config_path root = root @ [''config.toml'']"
definition central_db_path :: "path \<Rightarrow> path" where "central_db_path root = root @ [''main.db'']"
definition sessions_dir :: "path \<Rightarrow> path" where "sessions_dir root = root @ [''sessions'']"
definition groups_dir :: "path \<Rightarrow> path" where "groups_dir root = root @ [''groups'']"
definition logs_dir :: "path \<Rightarrow> path" where "logs_dir root = root @ [''logs'']"
definition specialists_dir :: "path \<Rightarrow> path" where "specialists_dir root = root @ [''specialists'']"
definition setup_dir :: "path \<Rightarrow> path" where "setup_dir root = root @ [''setup'']"
definition setup_state_path :: "path \<Rightarrow> path" where "setup_state_path root = setup_dir root @ [''state.json'']"
definition readiness_path :: "path \<Rightarrow> path" where "readiness_path root = setup_dir root @ [''readiness.json'']"
definition web_token_path :: "path \<Rightarrow> path" where "web_token_path root = root @ [''web-token.json'']"
definition setup_log_path :: "path \<Rightarrow> path" where "setup_log_path root = logs_dir root @ [''setup.log'']"

definition instance_managed_dirs :: "path \<Rightarrow> path list" where
  "instance_managed_dirs root = [root, sessions_dir root, logs_dir root, setup_dir root]"

section \<open>Specialist specifications\<close>

record standing_task =
  st_id :: string
  st_summary :: string
  st_interval_secs :: nat
  st_gate_command :: "string option"
  st_gate_volumes :: "string list"
  st_gate_image :: "string option"
  st_run_as :: "string option"

record specialist_spec =
  ss_route_name :: string
  ss_description :: string
  ss_profile_id :: string
  ss_profile_version :: string
  ss_group_slug :: string
  ss_image_repository :: string
  ss_image_tag :: string
  ss_image_digest :: "string option"
  ss_max_specialists :: nat
  ss_max_concurrent_jobs :: nat
  ss_max_artifact_bytes :: nat
  ss_system_prompt :: string
  ss_tools :: "string list"
  ss_mcp_tools :: "string list"
  ss_allowed_tools :: "string list"
  ss_max_turns :: nat
  ss_turn_timeout_secs :: "nat option"
  ss_extra_env :: "(string \<times> string) list"
  ss_volumes :: "string list"
  ss_onecli_agent :: string
  ss_standing_tasks :: "standing_task list"
  ss_slack_wired :: bool
  ss_destinations :: "string list"

record specialist_overrides =
  so_image_digest :: "string option"
  so_max_specialists :: "nat option"
  so_max_concurrent_jobs :: "nat option"
  so_max_artifact_bytes :: "nat option"
  so_max_turns :: "nat option"

record specialist_entry =
  se_bundle :: string
  se_enabled :: bool
  se_overrides :: specialist_overrides

section \<open>Configuration\<close>

record product_config =
  pc_namespace :: string
  pc_product_id :: string
  pc_product_version :: string
  pc_platform_version :: string
  pc_instance :: "string option"
  pc_owner_handle :: "string option"

record web_config =
  web_enabled :: bool
  web_port :: nat

definition default_web_config :: web_config where
  "default_web_config = \<lparr>web_enabled = False, web_port = 8787\<rparr>"

record config =
  cfg_product :: product_config
  cfg_enabled_modules :: "string list"
  cfg_web :: web_config
  cfg_specialists :: "specialist_entry list"

datatype config_error =
    ConfigIo path
  | ConfigToml path
  | ConfigSerialize
  | InvalidEnv string string
  | ConfigPath path_error
  | SpecialistBundleIo path
  | SpecialistBundleParse path
  | SpecialistBundlePathEscape string
  | SpecialistMissingImageRef string

definition validate_config :: "config \<Rightarrow> config_error + unit" where
  "validate_config c =
     rbind (map_err ConfigPath (validate_namespace (pc_namespace (cfg_product c)))) (\<lambda>_.
       (case pc_instance (cfg_product c) of
          None \<Rightarrow> Inr ()
        | Some i \<Rightarrow> map_err ConfigPath (validate_instance i)))"

definition instance_layout :: "path \<Rightarrow> config \<Rightarrow> config_error + path" where
  "instance_layout home c =
     map_err ConfigPath (derive_instance home (pc_namespace (cfg_product c)) (pc_instance (cfg_product c)))"

definition parse_bool :: "string \<Rightarrow> bool option" where
  "parse_bool value =
     (let v = to_ascii_lowercase value
      in if v \<in> {''1'', ''true'', ''yes'', ''on''} then Some True
         else if v \<in> {''0'', ''false'', ''no'', ''off''} then Some False
         else None)"

text \<open>The overlay changes the configuration in place: what an error leaves is the first component.\<close>

definition overlay_strings :: "(string \<Rightarrow> string option) \<Rightarrow> config \<Rightarrow> config" where
  "overlay_strings env c =
     (let p = cfg_product c;
          p1 = (case env ''ASSISTANT_INSTANCE'' of None \<Rightarrow> p | Some v \<Rightarrow> p\<lparr>pc_instance := Some v\<rparr>);
          p2 = (case env ''ASSISTANT_OWNER_HANDLE'' of None \<Rightarrow> p1 | Some v \<Rightarrow> p1\<lparr>pc_owner_handle := Some v\<rparr>)
      in c\<lparr>cfg_product := p2\<rparr>)"

definition overlay_port :: "(string \<Rightarrow> string option) \<Rightarrow> config \<Rightarrow> config_error + config" where
  "overlay_port env c =
     (case env ''ASSISTANT_WEB_PORT'' of
        None \<Rightarrow> Inr c
      | Some v \<Rightarrow>
          (case parse_unsigned (2 ^ 16) v of
             None \<Rightarrow> Inl (InvalidEnv ''ASSISTANT_WEB_PORT'' v)
           | Some n \<Rightarrow> Inr (c\<lparr>cfg_web := (cfg_web c)\<lparr>web_port := n\<rparr>\<rparr>)))"

definition overlay_enabled :: "(string \<Rightarrow> string option) \<Rightarrow> config \<Rightarrow> config_error + config" where
  "overlay_enabled env c =
     (case env ''ASSISTANT_WEB_ENABLED'' of
        None \<Rightarrow> Inr c
      | Some v \<Rightarrow>
          (case parse_bool v of
             None \<Rightarrow> Inl (InvalidEnv ''ASSISTANT_WEB_ENABLED'' v)
           | Some b \<Rightarrow> Inr (c\<lparr>cfg_web := (cfg_web c)\<lparr>web_enabled := b\<rparr>\<rparr>)))"

definition apply_env_overlay :: "(string \<Rightarrow> string option) \<Rightarrow> config \<Rightarrow> config \<times> (config_error + unit)" where
  "apply_env_overlay env c =
     (let c1 = overlay_strings env c
      in case overlay_port env c1 of
           Inl e \<Rightarrow> (c1, Inl e)
         | Inr c2 \<Rightarrow>
             (case overlay_enabled env c2 of
                Inl e \<Rightarrow> (c2, Inl e)
              | Inr c3 \<Rightarrow> (c3, Inr ())))"

section \<open>Configured specialists\<close>

definition override_field :: "'v option \<Rightarrow> (('v \<Rightarrow> 'v) \<Rightarrow> 'r \<Rightarrow> 'r) \<Rightarrow> 'r \<Rightarrow> 'r" where
  "override_field v upd r = (case v of None \<Rightarrow> r | Some x \<Rightarrow> upd (\<lambda>_. x) r)"

definition apply_overrides :: "specialist_overrides \<Rightarrow> specialist_spec \<Rightarrow> specialist_spec" where
  "apply_overrides ov s =
     override_field (so_max_turns ov) ss_max_turns_update
       (override_field (so_max_artifact_bytes ov) ss_max_artifact_bytes_update
         (override_field (so_max_concurrent_jobs ov) ss_max_concurrent_jobs_update
           (override_field (so_max_specialists ov) ss_max_specialists_update
             (override_field (map_option Some (so_image_digest ov)) ss_image_digest_update s))))"

definition resolve_bundle_path :: "path \<Rightarrow> string \<Rightarrow> config_error + path" where
  "resolve_bundle_path dir bundle =
     (if is_absolute bundle \<or> ''..'' \<in> set (path_components bundle)
      then Inl (SpecialistBundlePathEscape bundle)
      else Inr (dir @ path_components bundle))"

definition validate_image_ref :: "specialist_spec \<Rightarrow> string \<Rightarrow> config_error + unit" where
  "validate_image_ref s bundle =
     (if trim (ss_image_repository s) \<noteq> [] \<and> (trim (ss_image_tag s) \<noteq> [] \<or> ss_image_digest s \<noteq> None)
      then Inr () else Inl (SpecialistMissingImageRef bundle))"

definition resolve_entry ::
  "(path \<Rightarrow> string option) \<Rightarrow> (string \<Rightarrow> specialist_spec option) \<Rightarrow> path \<Rightarrow> specialist_entry
   \<Rightarrow> config_error + specialist_spec" where
  "resolve_entry read_file parse_spec dir entry =
     rbind (resolve_bundle_path dir (se_bundle entry)) (\<lambda>p.
     rbind (ok_or (SpecialistBundleIo p) (read_file p)) (\<lambda>content.
     rbind (ok_or (SpecialistBundleParse p) (parse_spec content)) (\<lambda>spec0.
       (let spec = apply_overrides (se_overrides entry) spec0
        in rbind (validate_image_ref spec (se_bundle entry)) (\<lambda>_. Inr spec)))))"

definition resolve_specialists ::
  "(path \<Rightarrow> string option) \<Rightarrow> (string \<Rightarrow> specialist_spec option) \<Rightarrow> path \<Rightarrow> specialist_entry list
   \<Rightarrow> config_error + specialist_spec list" where
  "resolve_specialists read_file parse_spec dir entries =
     collect_results (map (resolve_entry read_file parse_spec dir) (filter se_enabled entries))"

section \<open>Lemmas\<close>

lemma validate_namespace_Inr:
  "validate_namespace ns = Inr () \<longleftrightarrow> (\<exists>c cs. ns = c # cs \<and> ascii_lowercase c) \<and> list_all lower_or_digit ns"
  by (auto simp: validate_namespace_def split: list.splits)

lemma lower_or_digit_no_hyphen: "lower_or_digit c \<Longrightarrow> c \<noteq> CHR ''-'' \<and> c \<noteq> CHR ''.'' \<and> c \<noteq> CHR ''/''"
  by (auto simp: lower_or_digit_def ascii_lowercase_def is_digit_def)

lemma namespace_no_hyphen: "validate_namespace ns = Inr () \<Longrightarrow> CHR ''-'' \<notin> set ns"
  using lower_or_digit_no_hyphen by (auto simp: validate_namespace_Inr list_all_iff)

lemma instance_dir_name_Inr:
  "instance_dir_name ns inst = Inr d \<longleftrightarrow>
     validate_namespace ns = Inr () \<and>
     (case inst of None \<Rightarrow> d = ''.'' @ ns
      | Some n \<Rightarrow> validate_instance n = Inr () \<and> d = ''.'' @ ns @ ''-'' @ n)"
  by (auto simp: instance_dir_name_def res_simps split: option.splits)

text \<open>The first hyphen of the name separates the namespace from the instance.\<close>

lemma instance_dir_name_inverse:
  "instance_dir_name ns inst = Inr d \<Longrightarrow>
   (case split_once (CHR ''-'') (tl d) of None \<Rightarrow> (tl d, None) | Some (a, b) \<Rightarrow> (a, Some b)) = (ns, inst)"
  using namespace_no_hyphen [of ns]
  by (cases inst) (auto simp: instance_dir_name_Inr split_once_None [THEN iffD2])

lemma collect_results_mem:
  "collect_results rs = Inr xs \<Longrightarrow> x \<in> set xs \<Longrightarrow> Inr x \<in> set rs"
  by (auto simp: collect_results_Inr_iff)

lemma override_field_other:
  "(\<And>f r. get (upd f r) = get r) \<Longrightarrow> get (override_field v upd r) = get r"
  by (simp add: override_field_def split: option.splits)

text \<open>What the overrides leave alone: everything but the five capacity and pinning fields.\<close>

lemma overrides_keep:
  "ss_route_name (apply_overrides ov s) = ss_route_name s"
  "ss_profile_id (apply_overrides ov s) = ss_profile_id s"
  "ss_system_prompt (apply_overrides ov s) = ss_system_prompt s"
  "ss_tools (apply_overrides ov s) = ss_tools s"
  "ss_mcp_tools (apply_overrides ov s) = ss_mcp_tools s"
  "ss_allowed_tools (apply_overrides ov s) = ss_allowed_tools s"
  "ss_extra_env (apply_overrides ov s) = ss_extra_env s"
  "ss_volumes (apply_overrides ov s) = ss_volumes s"
  "ss_onecli_agent (apply_overrides ov s) = ss_onecli_agent s"
  "ss_slack_wired (apply_overrides ov s) = ss_slack_wired s"
  "ss_destinations (apply_overrides ov s) = ss_destinations s"
  "ss_image_repository (apply_overrides ov s) = ss_image_repository s"
  "ss_image_tag (apply_overrides ov s) = ss_image_tag s"
  by (simp_all add: apply_overrides_def override_field_other)

lemma resolve_entry_Inr:
  assumes "resolve_entry read_file parse_spec dir entry = Inr spec"
  obtains content spec0 where "CHR ''/'' \<notin> \<Union> (set ` set (path_components (se_bundle entry)))"
    "''..'' \<notin> set (path_components (se_bundle entry))"
    "read_file (dir @ path_components (se_bundle entry)) = Some content" "parse_spec content = Some spec0"
    "spec = apply_overrides (se_overrides entry) spec0" "trim (ss_image_repository spec) \<noteq> []"
    "trim (ss_image_tag spec) \<noteq> [] \<or> ss_image_digest spec \<noteq> None"
proof -
  from assms show thesis
    by (auto simp: resolve_entry_def res_simps Let_def resolve_bundle_path_def validate_image_ref_def
        split: if_splits intro!: that dest: path_components_no_sep)
qed

section \<open>Properties\<close>

text \<open>
  different instances live in different directories: the directory name of an instance determines
  its product namespace and its instance name, and it is one hidden path component.
\<close>

theorem instance_directory_injective:
  assumes "instance_dir_name ns inst = Inr d" "instance_dir_name ns' inst' = Inr d'"
  shows "(d = d' \<longleftrightarrow> ns = ns' \<and> inst = inst') \<and> CHR ''/'' \<notin> set d \<and> d \<noteq> ''.'' \<and> d \<noteq> ''..''"
proof -
  have "d = d' \<longleftrightarrow> ns = ns' \<and> inst = inst'"
    using instance_dir_name_inverse [OF assms(1)] instance_dir_name_inverse [OF assms(2)] assms by auto
  moreover have ns: "list_all lower_or_digit ns" "ns \<noteq> []"
    using assms(1) by (auto simp: instance_dir_name_Inr validate_namespace_Inr)
  then obtain c cs where "ns = c # cs" "lower_or_digit c" by (cases ns) auto
  moreover have "CHR ''/'' \<notin> set ns" using ns lower_or_digit_no_hyphen by (auto simp: list_all_iff)
  moreover have "CHR ''/'' \<notin> set n" if "validate_instance n = Inr ()" for n
    using that lower_or_digit_no_hyphen by (auto simp: validate_instance_def Let_def list_all_iff split: if_splits)
  ultimately show ?thesis using assms(1) lower_or_digit_no_hyphen
    by (auto simp: instance_dir_name_Inr split: option.splits)
qed

theorem instance_directory_injective_witness:
  "''.cleo'' \<noteq> (''.cleo-work'' :: string)"
proof -
  have "instance_dir_name ''cleo'' None = Inr ''.cleo''" "instance_dir_name ''cleo'' (Some ''work'') = Inr ''.cleo-work''"
    by (simp_all add: instance_dir_name_def validate_namespace_def validate_instance_def lower_or_digit_def
        ascii_lowercase_def Let_def)
  from instance_directory_injective [OF this] show ?thesis by simp
qed

text \<open>
  configuration cannot widen a specialist: every specialist the configuration registers comes from
  an enabled entry whose bundle lies under the specialists directory, carries the prompt, tools,
  permission patterns, environment, volumes, identity, destinations and image of the parsed bundle
  unchanged, and names an image that can be pulled.
\<close>

theorem configured_specialists_keep_contract:
  assumes "resolve_specialists read_file parse_spec dir entries = Inr specs" "spec \<in> set specs"
  shows "\<exists>entry\<in>set entries. \<exists>rel content spec0. se_enabled entry
    \<and> ''..'' \<notin> set rel \<and> read_file (dir @ rel) = Some content \<and> parse_spec content = Some spec0
    \<and> ss_system_prompt spec = ss_system_prompt spec0 \<and> ss_tools spec = ss_tools spec0
    \<and> ss_mcp_tools spec = ss_mcp_tools spec0 \<and> ss_allowed_tools spec = ss_allowed_tools spec0
    \<and> ss_extra_env spec = ss_extra_env spec0 \<and> ss_volumes spec = ss_volumes spec0
    \<and> ss_onecli_agent spec = ss_onecli_agent spec0 \<and> ss_slack_wired spec = ss_slack_wired spec0
    \<and> ss_destinations spec = ss_destinations spec0 \<and> ss_image_repository spec = ss_image_repository spec0
    \<and> trim (ss_image_repository spec) \<noteq> [] \<and> (trim (ss_image_tag spec) \<noteq> [] \<or> ss_image_digest spec \<noteq> None)"
proof -
  from collect_results_mem [OF assms(1) [unfolded resolve_specialists_def] assms(2)]
  obtain entry where entry: "entry \<in> set entries" "se_enabled entry"
    "resolve_entry read_file parse_spec dir entry = Inr spec" by auto
  from resolve_entry_Inr [OF entry(3)] obtain content spec0 where
    "''..'' \<notin> set (path_components (se_bundle entry))"
    "read_file (dir @ path_components (se_bundle entry)) = Some content" "parse_spec content = Some spec0"
    and spec: "spec = apply_overrides (se_overrides entry) spec0" and "trim (ss_image_repository spec) \<noteq> []"
    "trim (ss_image_tag spec) \<noteq> [] \<or> ss_image_digest spec \<noteq> None" by metis
  with entry(1,2) show ?thesis
    by (intro bexI [of _ entry] exI [of _ "path_components (se_bundle entry)"] exI [of _ content] exI [of _ spec0])
      (simp_all add: overrides_keep)
qed

definition sample_spec :: specialist_spec where
  "sample_spec = \<lparr>ss_route_name = ''browser'', ss_description = [], ss_profile_id = ''browser-specialist'',
     ss_profile_version = ''1'', ss_group_slug = ''browser-1'', ss_image_repository = ''img'', ss_image_tag = ''1'',
     ss_image_digest = None, ss_max_specialists = 1, ss_max_concurrent_jobs = 2, ss_max_artifact_bytes = 10,
     ss_system_prompt = ''browse'', ss_tools = [''Bash''], ss_mcp_tools = [], ss_allowed_tools = [],
     ss_max_turns = 4, ss_turn_timeout_secs = None, ss_extra_env = [], ss_volumes = [], ss_onecli_agent = ''a'',
     ss_standing_tasks = [], ss_slack_wired = False, ss_destinations = []\<rparr>"

definition sample_entry :: specialist_entry where
  "sample_entry = \<lparr>se_bundle = ''b.json'', se_enabled = True, se_overrides =
     \<lparr>so_image_digest = None, so_max_specialists = Some 3, so_max_concurrent_jobs = None,
      so_max_artifact_bytes = None, so_max_turns = None\<rparr>\<rparr>"

theorem configured_specialists_keep_contract_witness:
  "\<exists>entry\<in>set [sample_entry]. se_enabled entry"
proof -
  let ?s = "sample_spec\<lparr>ss_max_specialists := 3\<rparr>"
  have trims: "trim ''img'' \<noteq> []" "trim ''1'' \<noteq> []"
    by (simp_all add: trim_graphic ascii_graphic_def)
  have res: "resolve_specialists (\<lambda>_. Some ''j'') (\<lambda>_. Some sample_spec) [''specialists''] [sample_entry] = Inr [?s]"
    using trims
    by (simp add: resolve_specialists_def resolve_entry_def resolve_bundle_path_def is_absolute_def
        path_components_def sample_entry_def apply_overrides_def override_field_def validate_image_ref_def
        sample_spec_def)
  have "?s \<in> set [?s]" by simp
  from configured_specialists_keep_contract [OF res this] show ?thesis
    by (elim bexE exE conjE) blast
qed

end
