(* ===== verification/Graph_Cycles.thy ===== *)
theory Graph_Cycles
  imports Prelude
begin

text \<open>
  The cycle search that \<open>assistant-core\<close> (\<open>validate.rs\<close>, over modules and prompt fragments) and
  \<open>assistant-agent-graph\<close> (\<open>routing.rs\<close>, over the routing allow-list) both carry, and the ordered maps it
  reads: a \<open>BTreeMap\<close> is its list of entries in key order, a \<open>BTreeSet\<close> its sorted list of elements.
\<close>

section \<open>Ordered maps\<close>

fun btree_insert :: "'k::linorder \<Rightarrow> 'v \<Rightarrow> ('k \<times> 'v) list \<Rightarrow> ('k \<times> 'v) list" where
  "btree_insert k v [] = [(k, v)]"
| "btree_insert k v ((k', v') # m) =
     (if k < k' then (k, v) # (k', v') # m
      else if k = k' then (k, v) # m
      else (k', v') # btree_insert k v m)"

definition btree_of :: "('k::linorder \<times> 'v) list \<Rightarrow> ('k \<times> 'v) list" where
  "btree_of xs = fold (\<lambda>(k, v). btree_insert k v) xs []"

text \<open>\<open>entry(k).or_default().push(v)\<close>\<close>

definition btree_push :: "'k::linorder \<Rightarrow> 'v \<Rightarrow> ('k \<times> 'v list) list \<Rightarrow> ('k \<times> 'v list) list" where
  "btree_push k v m = btree_insert k ((case map_of m k of None \<Rightarrow> [] | Some vs \<Rightarrow> vs) @ [v]) m"

definition btree_set :: "'k::linorder list \<Rightarrow> 'k list" where
  "btree_set xs = sort (remdups xs)"

abbreviation btree_ok :: "('k::linorder \<times> 'v) list \<Rightarrow> bool" where
  "btree_ok m \<equiv> sorted_wrt (<) (map fst m)"

lemma set_btree_insert_keys: "set (map fst (btree_insert k v m)) = insert k (set (map fst m))"
proof (induction m)
  case (Cons a m)
  then show ?case by (cases a) (simp add: insert_commute)
qed simp

lemma btree_insert_ok: "btree_ok m \<Longrightarrow> btree_ok (btree_insert k v m)"
proof (induction m)
  case (Cons a m)
  have "btree_ok m" "\<forall>x\<in>set (map fst m). fst a < x" using Cons.prems by auto
  moreover from this have "\<forall>x\<in>set (map fst (btree_insert k v m)). fst a < x" if "fst a < k"
    using that by (simp only: set_btree_insert_keys) auto
  ultimately show ?case
    using Cons by (cases a) auto
qed simp

lemma map_of_btree_insert:
  "btree_ok m \<Longrightarrow> map_of (btree_insert k v m) = (map_of m)(k \<mapsto> v)"
proof (induction m)
  case (Cons a m)
  then have "map_of m k = None" if "k < fst a"
    using that by (auto simp: map_of_eq_None_iff)
  with Cons show ?case by (cases a) (auto simp: fun_eq_iff)
qed simp

lemma btree_fold_ok:
  "btree_ok m \<Longrightarrow> btree_ok (fold (\<lambda>(k, v). btree_insert k v) xs m)
    \<and> map_of (fold (\<lambda>(k, v). btree_insert k v) xs m) = map_of m ++ map_of (rev xs)"
proof (induction xs arbitrary: m)
  case (Cons x xs)
  then show ?case
    by (cases x) (simp add: btree_insert_ok map_of_btree_insert map_add_assoc [symmetric] del: map_add_assoc,
      simp add: map_add_def fun_eq_iff split: option.splits)
qed simp

lemma btree_of_ok: "btree_ok (btree_of xs)"
  using btree_fold_ok [of "[]" xs] by (simp add: btree_of_def)

lemma map_of_btree_of: "map_of (btree_of xs) = map_of (rev xs)"
  using btree_fold_ok [of "[]" xs] by (simp add: btree_of_def)

lemma keys_btree_of: "set (map fst (btree_of xs)) = fst ` set xs"
proof -
  have "set (map fst (btree_of xs)) = dom (map_of (btree_of xs))"
    by (simp add: dom_map_of_conv_image_fst)
  then show ?thesis by (simp add: map_of_btree_of dom_map_of_conv_image_fst)
qed

lemma set_btree_set [simp]: "set (btree_set xs) = set xs"
  by (simp add: btree_set_def)

lemma btree_set_sorted: "sorted_wrt (<) (btree_set xs)"
  by (simp add: btree_set_def strict_sorted_iff)

section \<open>The search\<close>

datatype mark = Visiting | Done

type_synonym 'n adjacency = "('n \<times> 'n list) list"

definition neighbours :: "'n adjacency \<Rightarrow> 'n \<Rightarrow> 'n list" where
  "neighbours edges n = (case map_of edges n of None \<Rightarrow> [] | Some ns \<Rightarrow> ns)"

definition nodes_of :: "'n adjacency \<Rightarrow> 'n set" where
  "nodes_of edges = \<Union> (set ` snd ` set edges)"

lemma finite_nodes_of [simp]: "finite (nodes_of edges)"
  by (simp add: nodes_of_def)

lemma neighbours_nodes: "set (neighbours edges n) \<subseteq> nodes_of edges"
proof (cases "map_of edges n")
  case (Some ns)
  then have "(n, ns) \<in> set edges" by (rule map_of_SomeD)
  with Some show ?thesis by (force simp: neighbours_def nodes_of_def)
qed (simp add: neighbours_def)

text \<open>
  \<open>visit_each edges ns marks\<close> is the loop of \<open>visit\<close> over the neighbours still to look at, with the
  recursive call of \<open>visit\<close> on an unmarked neighbour written out: mark, loop, mark done.
\<close>

function visit_each :: "'n adjacency \<Rightarrow> 'n list \<Rightarrow> ('n \<Rightarrow> mark option) \<Rightarrow> ('n \<Rightarrow> mark option) \<times> bool" where
  "visit_each edges [] marks = (marks, False)"
| "visit_each edges (next # rest) marks =
     (case marks next of
        Some Visiting \<Rightarrow> (marks, True)
      | Some Done \<Rightarrow> visit_each edges rest marks
      | None \<Rightarrow>
          (case visit_each edges (neighbours edges next) (marks(next \<mapsto> Visiting)) of
             (marks1, found) \<Rightarrow>
               if found then (marks1, True)
               else visit_each edges rest (marks1(next \<mapsto> Done))))"
  by pat_completeness auto

lemma visit_each_dom_grows:
  "visit_each_dom (edges, ns, marks) \<Longrightarrow> dom marks \<subseteq> dom (fst (visit_each edges ns marks))"
proof (induction rule: visit_each.pinduct)
  case (1 edges marks)
  then show ?case by (simp add: visit_each.psimps)
next
  case (2 edges n rest marks)
  show ?case
  proof (cases "marks n")
    case None
    obtain marks1 found where r: "visit_each edges (neighbours edges n) (marks(n \<mapsto> Visiting)) = (marks1, found)"
      by fastforce
    have "dom (marks(n \<mapsto> Visiting)) \<subseteq> dom (fst (visit_each edges (neighbours edges n) (marks(n \<mapsto> Visiting))))"
      using 2(2) [OF None] by (simp only: fun_upd_def)
    then have grow: "dom marks \<subseteq> dom marks1" by (auto simp: r)
    show ?thesis
    proof (cases found)
      case True
      then show ?thesis using None r 2(1) grow by (simp add: visit_each.psimps)
    next
      case False
      have "dom (marks1(n \<mapsto> Done)) \<subseteq> dom (fst (visit_each edges rest (marks1(n \<mapsto> Done))))"
        using 2(3) [OF None r [symmetric]] False by (simp only: fun_upd_def) blast
      then have "dom marks1 \<subseteq> dom (fst (visit_each edges rest (marks1(n \<mapsto> Done))))" by auto
      with grow have "dom marks \<subseteq> dom (fst (visit_each edges rest (marks1(n \<mapsto> Done))))" by (rule subset_trans)
      then show ?thesis using None r 2(1) False by (simp add: visit_each.psimps)
    qed
  next
    case (Some m)
    then show ?thesis using 2(1,4) by (cases m) (auto simp: visit_each.psimps)
  qed
qed

termination visit_each
proof (relation "inv_image (less_than <*lex*> less_than)
    (\<lambda>(edges, ns, marks). (card ((nodes_of edges \<union> set ns) - dom marks), length ns))", goal_cases)
  case 1
  then show ?case by auto
next
  case (2 edges n rest marks)
  then have "nodes_of edges \<union> set (neighbours edges n) - dom (marks(n \<mapsto> Visiting))
      \<subset> nodes_of edges \<union> set (n # rest) - dom marks"
    using neighbours_nodes [of edges n] by auto
  then have "card (nodes_of edges \<union> set (neighbours edges n) - dom (marks(n \<mapsto> Visiting)))
      < card (nodes_of edges \<union> set (n # rest) - dom marks)"
    by (intro psubset_card_mono) auto
  then show ?case by simp
next
  case (3 edges n rest marks marks1)
  have "dom (marks(n \<mapsto> Visiting)) \<subseteq> dom marks1"
    using visit_each_dom_grows [OF 3(4)] by (simp only: 3(2) [symmetric] fst_conv)
  then have "nodes_of edges \<union> set rest - dom (marks1(n \<mapsto> Done)) \<subset> nodes_of edges \<union> set (n # rest) - dom marks"
    using 3(1) by auto
  then have "card (nodes_of edges \<union> set rest - dom (marks1(n \<mapsto> Done)))
      < card (nodes_of edges \<union> set (n # rest) - dom marks)"
    by (intro psubset_card_mono) auto
  then show ?case by simp
next
  case (4 edges n rest marks)
  have "card (nodes_of edges \<union> set rest - dom marks) \<le> card (nodes_of edges \<union> set (n # rest) - dom marks)"
    by (rule card_mono) auto
  then show ?case by auto
qed

definition visit :: "'n adjacency \<Rightarrow> 'n \<Rightarrow> ('n \<Rightarrow> mark option) \<Rightarrow> ('n \<Rightarrow> mark option) \<times> bool" where
  "visit edges n marks =
     (case visit_each edges (neighbours edges n) (marks(n \<mapsto> Visiting)) of
        (marks1, found) \<Rightarrow> if found then (marks1, True) else (marks1(n \<mapsto> Done), False))"

lemma visit_each_unmarked:
  "marks n = None \<Longrightarrow> visit_each edges (n # rest) marks =
     (case visit edges n marks of
        (marks1, found) \<Rightarrow> if found then (marks1, True) else visit_each edges rest marks1)"
  by (simp add: visit_def split: prod.splits)

fun find_cycle :: "'n adjacency \<Rightarrow> 'n list \<Rightarrow> ('n \<Rightarrow> mark option) \<Rightarrow> 'n option" where
  "find_cycle edges [] marks = None"
| "find_cycle edges (n # ns) marks =
     (if marks n \<noteq> None then find_cycle edges ns marks
      else (case visit edges n marks of
              (marks1, found) \<Rightarrow> if found then Some n else find_cycle edges ns marks1))"

text \<open>\<open>first_cycle_node\<close> of \<open>validate.rs\<close>: the nodes tried are the keys of the map.\<close>

definition first_cycle_node :: "'n adjacency \<Rightarrow> 'n option" where
  "first_cycle_node edges = find_cycle edges (map fst edges) Map.empty"

declare visit_each.simps(2) [simp del]

section \<open>Correctness\<close>

definition arcs :: "'n adjacency \<Rightarrow> ('n \<times> 'n) set" where
  "arcs edges = {(a, b). b \<in> set (neighbours edges a)}"

text \<open>A directed cycle can be reached from the node.\<close>

definition reaches_cycle :: "'n adjacency \<Rightarrow> 'n \<Rightarrow> bool" where
  "reaches_cycle edges n \<longleftrightarrow> (\<exists>m. (n, m) \<in> (arcs edges)\<^sup>* \<and> (m, m) \<in> (arcs edges)\<^sup>+)"

definition visiting :: "('n \<Rightarrow> mark option) \<Rightarrow> 'n set" where
  "visiting marks = {n. marks n = Some Visiting}"

definition finished :: "('n \<Rightarrow> mark option) \<Rightarrow> 'n set" where
  "finished marks = {n. marks n = Some Done}"

text \<open>The finished nodes are closed under arcs and none of them is on a cycle.\<close>

definition settled :: "'n adjacency \<Rightarrow> ('n \<Rightarrow> mark option) \<Rightarrow> bool" where
  "settled edges marks \<longleftrightarrow> arcs edges `` finished marks \<subseteq> finished marks
     \<and> (\<forall>n\<in>finished marks. (n, n) \<notin> (arcs edges)\<^sup>+)"

text \<open>Every node being visited leads to every node still to look at.\<close>

definition on_path :: "'n adjacency \<Rightarrow> ('n \<Rightarrow> mark option) \<Rightarrow> 'n list \<Rightarrow> bool" where
  "on_path edges marks ns \<longleftrightarrow> (\<forall>v\<in>visiting marks. \<forall>n\<in>set ns. (v, n) \<in> (arcs edges)\<^sup>+)"

lemma finished_upd: "finished (marks(n \<mapsto> Done)) = insert n (finished marks)"
  by (auto simp: finished_def)

lemma finished_visit: "marks n = None \<Longrightarrow> finished (marks(n \<mapsto> Visiting)) = finished marks"
  by (auto simp: finished_def)

lemma visiting_visit: "visiting (marks(n \<mapsto> Visiting)) = insert n (visiting marks)"
  by (auto simp: visiting_def)

lemma visiting_done: "visiting (marks(n \<mapsto> Done)) = visiting marks - {n}"
  by (auto simp: visiting_def)

lemma closed_trancl: "r `` A \<subseteq> A \<Longrightarrow> (a, b) \<in> r\<^sup>* \<Longrightarrow> a \<in> A \<Longrightarrow> b \<in> A"
proof -
  assume closed: "r `` A \<subseteq> A" and ab: "(a, b) \<in> r\<^sup>*" and a: "a \<in> A"
  from ab show "b \<in> A" by (induction rule: rtrancl_induct) (use closed a in auto)
qed

lemma settled_finish:
  assumes "settled edges marks" "marks n = Some Visiting" "set (neighbours edges n) \<subseteq> finished marks"
  shows "settled edges (marks(n \<mapsto> Done))"
proof -
  have closed: "arcs edges `` finished marks \<subseteq> finished marks"
    and acyc: "\<forall>m\<in>finished marks. (m, m) \<notin> (arcs edges)\<^sup>+"
    using assms(1) unfolding settled_def by blast+
  have n: "n \<notin> finished marks" using assms(2) by (simp add: finished_def)
  have "arcs edges `` insert n (finished marks) \<subseteq> insert n (finished marks)"
    using closed assms(3) by (auto simp: arcs_def)
  moreover have "(n, n) \<notin> (arcs edges)\<^sup>+"
  proof
    assume "(n, n) \<in> (arcs edges)\<^sup>+"
    then obtain d where d: "(n, d) \<in> arcs edges" "(d, n) \<in> (arcs edges)\<^sup>*" by (meson tranclD)
    then have "d \<in> finished marks" using assms(3) by (auto simp: arcs_def)
    from closed_trancl [OF closed d(2) this] n show False by blast
  qed
  ultimately show ?thesis using acyc by (auto simp: settled_def finished_upd)
qed

lemma visit_each_spec:
  assumes "settled edges marks" "on_path edges marks ns"
  shows "case visit_each edges ns marks of (marks', found) \<Rightarrow>
      (if found then (\<exists>n\<in>set ns. reaches_cycle edges n)
       else settled edges marks' \<and> visiting marks' = visiting marks
         \<and> finished marks \<union> set ns \<subseteq> finished marks')"
  using assms
proof (induction edges ns marks rule: visit_each.induct)
  case (1 edges marks)
  then show ?case by simp
next
  case (2 edges n rest marks)
  have rest: "on_path edges marks rest" using "2.prems"(2) by (simp add: on_path_def)
  show ?case
  proof (cases "marks n")
    case None
    obtain marks1 found where r: "visit_each edges (neighbours edges n) (marks(n \<mapsto> Visiting)) = (marks1, found)"
      by fastforce
    have set1: "settled edges (marks(n \<mapsto> Visiting))"
      using "2.prems"(1) None by (simp add: settled_def finished_visit)
    have path1: "on_path edges (marks(n \<mapsto> Visiting)) (neighbours edges n)"
      unfolding on_path_def visiting_visit
    proof (intro ballI)
      fix v a assume v: "v \<in> insert n (visiting marks)" and a: "a \<in> set (neighbours edges n)"
      from a have arc: "(n, a) \<in> arcs edges" by (simp add: arcs_def)
      show "(v, a) \<in> (arcs edges)\<^sup>+"
      proof (cases "v = n")
        case False
        with v "2.prems"(2) have "(v, n) \<in> (arcs edges)\<^sup>+" by (simp add: on_path_def)
        from this arc show ?thesis by (rule trancl_into_trancl)
      qed (use arc in blast)
    qed
    note ih1 = "2.IH"(1) [OF None set1 path1, unfolded r prod.case]
    show ?thesis
    proof (cases found)
      case True
      then obtain a where "a \<in> set (neighbours edges n)" "reaches_cycle edges a" using ih1 by auto
      then have "reaches_cycle edges n"
        unfolding reaches_cycle_def arcs_def by (auto intro: converse_rtrancl_into_rtrancl)
      with True None r show ?thesis by (simp add: visit_each.simps)
    next
      case False
      with ih1 have m1: "settled edges marks1" "visiting marks1 = insert n (visiting marks)"
          "finished marks \<union> set (neighbours edges n) \<subseteq> finished marks1"
        using None by (simp_all add: visiting_visit finished_visit)
      have "marks1 n = Some Visiting" using m1(2) by (auto simp: visiting_def)
      then have set2: "settled edges (marks1(n \<mapsto> Done))"
        by (rule settled_finish [OF m1(1)]) (use m1(3) in simp)
      have "n \<notin> visiting marks" using None by (simp add: visiting_def)
      then have vis2: "visiting (marks1(n \<mapsto> Done)) = visiting marks" using m1(2) by (simp add: visiting_done)
      then have path2: "on_path edges (marks1(n \<mapsto> Done)) rest" using rest by (simp add: on_path_def)
      have "\<not> found" using False .
      note ih2 = "2.IH"(2) [OF None r [symmetric] this set2 path2]
      obtain marks2 found2 where r2: "visit_each edges rest (marks1(n \<mapsto> Done)) = (marks2, found2)"
        by fastforce
      from ih2 have ih: "if found2 then (\<exists>n\<in>set rest. reaches_cycle edges n)
          else settled edges marks2 \<and> visiting marks2 = visiting marks
            \<and> finished (marks1(n \<mapsto> Done)) \<union> set rest \<subseteq> finished marks2"
        unfolding r2 prod.case vis2 .
      have res: "visit_each edges (n # rest) marks = (marks2, found2)"
        using None r False r2 by (simp add: visit_each.simps)
      have "insert n (finished marks) \<subseteq> finished (marks1(n \<mapsto> Done))"
        using m1(3) by (auto simp: finished_upd)
      then show ?thesis using ih unfolding res prod.case by (cases found2) auto
    qed
  next
    case (Some m)
    show ?thesis
    proof (cases m)
      case Visiting
      with Some "2.prems"(2) have "(n, n) \<in> (arcs edges)\<^sup>+" by (simp add: on_path_def visiting_def)
      then have "reaches_cycle edges n" by (auto simp: reaches_cycle_def)
      with Some Visiting show ?thesis by (simp add: visit_each.simps)
    next
      case Done
      have "n \<in> finished marks" using Some Done by (simp add: finished_def)
      with Some Done "2.IH"(3) [OF _ _ "2.prems"(1) rest] show ?thesis
        by (auto simp: visit_each.simps split: prod.splits if_splits)
    qed
  qed
qed

text \<open>With nothing being visited, a visit of an unmarked node decides whether a cycle is reachable.\<close>

lemma settled_no_cycle:
  assumes "settled edges marks" "n \<in> finished marks" shows "\<not> reaches_cycle edges n"
proof
  assume "reaches_cycle edges n"
  then obtain m where m: "(n, m) \<in> (arcs edges)\<^sup>*" "(m, m) \<in> (arcs edges)\<^sup>+" by (auto simp: reaches_cycle_def)
  have "m \<in> finished marks" using closed_trancl [OF _ m(1) assms(2)] assms(1) by (simp add: settled_def)
  with m(2) assms(1) show False by (auto simp: settled_def)
qed

lemma visit_spec:
  assumes "settled edges marks" "visiting marks = {}" "marks n = None"
  shows "case visit edges n marks of (marks', found) \<Rightarrow>
      (if found then reaches_cycle edges n
       else settled edges marks' \<and> visiting marks' = {} \<and> \<not> reaches_cycle edges n)"
proof -
  have "on_path edges marks [n]" using assms(2) by (simp add: on_path_def)
  from visit_each_spec [OF assms(1) this]
  have *: "case visit edges n marks of (marks', found) \<Rightarrow>
      (if found then reaches_cycle edges n
       else settled edges marks' \<and> visiting marks' = visiting marks \<and> finished marks \<union> {n} \<subseteq> finished marks')"
    using assms(3) by (simp add: visit_each_unmarked split: prod.splits if_splits)
  then show ?thesis using settled_no_cycle [of edges _ n] assms(2) by (auto split: prod.splits if_splits)
qed

lemma find_cycle_spec:
  assumes "settled edges marks" "visiting marks = {}"
  shows "find_cycle edges ns marks = find (reaches_cycle edges) ns"
  using assms
proof (induction ns arbitrary: marks)
  case (Cons n ns)
  show ?case
  proof (cases "marks n")
    case None
    obtain marks1 found where "visit edges n marks = (marks1, found)" by fastforce
    with visit_spec [OF Cons.prems None] Cons.IH [of marks1] None show ?thesis
      by (cases found) simp_all
  next
    case (Some m)
    with Cons.prems(2) have "n \<in> finished marks" by (cases m) (auto simp: visiting_def finished_def)
    with settled_no_cycle [OF Cons.prems(1)] Cons Some show ?thesis by simp
  qed
qed simp

lemma find_cycle_empty: "find_cycle edges ns Map.empty = find (reaches_cycle edges) ns"
  by (rule find_cycle_spec) (simp_all add: settled_def finished_def visiting_def)

lemma first_cycle_node_spec: "first_cycle_node edges = find (reaches_cycle edges) (map fst edges)"
  by (simp add: first_cycle_node_def find_cycle_empty)

lemma arc_from_key: "(a, b) \<in> arcs edges \<Longrightarrow> a \<in> set (map fst edges)"
  by (cases "map_of edges a") (auto simp: arcs_def neighbours_def intro: rev_image_eqI dest: map_of_SomeD)

lemma cyclic_key:
  assumes "\<not> acyclic (arcs edges)"
  shows "\<exists>n\<in>set (map fst edges). reaches_cycle edges n"
proof -
  from assms obtain n where n: "(n, n) \<in> (arcs edges)\<^sup>+" by (auto simp: acyclic_def)
  then obtain b where "(n, b) \<in> arcs edges" by (meson tranclD)
  with n show ?thesis using arc_from_key by (fastforce simp: reaches_cycle_def)
qed

lemma reaches_cycle_cyclic: "reaches_cycle edges n \<Longrightarrow> \<not> acyclic (arcs edges)"
  by (auto simp: reaches_cycle_def acyclic_def)

lemma first_cycle_node_None_iff: "first_cycle_node edges = None \<longleftrightarrow> acyclic (arcs edges)"
proof
  assume none: "first_cycle_node edges = None"
  show "acyclic (arcs edges)"
  proof (rule ccontr)
    assume "\<not> acyclic (arcs edges)"
    from cyclic_key [OF this] none show False by (auto simp: first_cycle_node_spec find_None_iff)
  qed
next
  assume "acyclic (arcs edges)"
  then have "\<not> reaches_cycle edges n" for n using reaches_cycle_cyclic [of edges n] by blast
  then show "first_cycle_node edges = None" by (simp add: first_cycle_node_spec find_None_iff)
qed

text \<open>On an ordered list \<open>find\<close> yields the least match.\<close>

lemma find_least:
  "sorted_wrt (<) xs \<Longrightarrow> find P xs = Some (x::'a::linorder) \<longleftrightarrow> x \<in> set xs \<and> P x \<and> (\<forall>y\<in>set xs. P y \<longrightarrow> x \<le> y)"
proof (induction xs)
  case (Cons z zs)
  have less: "\<forall>y\<in>set zs. z < y" using Cons.prems by simp
  have "sorted_wrt (<) zs" using Cons.prems by simp
  with Cons.IH have ih: "find P zs = Some x \<longleftrightarrow> x \<in> set zs \<and> P x \<and> (\<forall>y\<in>set zs. P y \<longrightarrow> x \<le> y)"
    by blast
  show ?case
  proof (cases "P z")
    case True
    have "x = z" if "x \<in> set zs" "x \<le> z" using that less by (meson leD)
    with True less show ?thesis by (auto intro: less_imp_le)
  next
    case False
    with ih show ?thesis by auto
  qed
qed simp

lemma find_set_cong:
  "sorted_wrt (<) xs \<Longrightarrow> sorted_wrt (<) ys \<Longrightarrow> set xs = set ys \<Longrightarrow> (\<And>x::'a::linorder. P x \<longleftrightarrow> Q x) \<Longrightarrow> find P xs = find Q ys"
proof (cases "find P xs")
  case None
  moreover assume "set xs = set ys" "\<And>x. P x \<longleftrightarrow> Q x"
  ultimately have "find Q ys = None" by (auto simp: find_None_iff)
  with None show ?thesis by simp
next
  case (Some x)
  moreover assume "sorted_wrt (<) xs" "sorted_wrt (<) ys" "set xs = set ys" "\<And>x. P x \<longleftrightarrow> Q x"
  ultimately have "find Q ys = Some x" by (simp add: find_least)
  with Some show ?thesis by simp
qed

text \<open>
  the cycle search is exact: it terminates on every graph, answers nothing exactly when the graph
  has no directed cycle, and otherwise names the least node of the map from which a cycle can be
  reached.
\<close>

theorem cycle_search_exact:
  fixes edges :: "'n::linorder adjacency"
  assumes "sorted_wrt (<) (map fst edges)"
  shows "(first_cycle_node edges = None \<longleftrightarrow> acyclic (arcs edges))
    \<and> (\<forall>n. first_cycle_node edges = Some n \<longleftrightarrow>
         n \<in> set (map fst edges) \<and> reaches_cycle edges n
         \<and> (\<forall>m\<in>set (map fst edges). reaches_cycle edges m \<longrightarrow> n \<le> m))"
  using first_cycle_node_None_iff [of edges] find_least [OF assms, of "reaches_cycle edges"]
  by (simp add: first_cycle_node_spec)

theorem cycle_search_exact_witness:
  "\<not> acyclic (arcs [(1::int, [2]), (2, [3]), (3, [2::int])])
   \<and> reaches_cycle [(1::int, [2]), (2, [3]), (3, [2::int])] 1"
proof -
  let ?g = "[(1::int, [2]), (2, [3]), (3, [2::int])]"
  have found: "first_cycle_node ?g = Some 1"
    by (simp add: first_cycle_node_def visit_def visit_each.simps neighbours_def)
  have "sorted_wrt (<) (map fst ?g)" by simp
  note exact = cycle_search_exact [OF this]
  from exact found have "\<not> acyclic (arcs ?g)" by (metis option.distinct(1))
  moreover from exact found have "reaches_cycle ?g 1" by blast
  ultimately show ?thesis ..
qed

end
