(* ===== verification/Core_Manifest.thy ===== *)
theory Core_Manifest
  imports Graph_Cycles Strings
begin

text \<open>
  \<open>crates/assistant-core\<close>: the manifest types (\<open>manifest.rs\<close>), the validations over the module graph, the
  prompt fragments and the contracts (\<open>validate.rs\<close>), and the compatibility report (\<open>compat.rs\<close>). Reading
  files and parsing TOML are outside the model: the report is built from loaded manifests.
\<close>

section \<open>Manifests\<close>

record module_node =
  mn_id :: string
  mn_depends_on :: "string list"

record platform_manifest =
  pm_platform_id :: string
  pm_platform_version :: string
  pm_runner_protocol_version :: string
  pm_schema_version :: string
  pm_image_contract_version :: string
  pm_conformance_version :: string
  pm_modules :: "module_node list"

record product_manifest =
  pr_product_id :: string
  pr_product_name :: string
  pr_product_version :: string
  pr_compatible_platform_version :: string
  pr_profile_id :: string
  pr_profile_version :: string
  pr_enabled_modules :: "string list"

record prompt_fragment =
  pf_id :: string
  pf_owner_module :: string
  pf_version :: string
  pf_target_agent_kind :: string
  pf_parameters :: "string list"
  pf_depends_on :: "string list"
  pf_order :: nat
  pf_override_rules :: string
  pf_assertions :: "string list"

section \<open>Diagnostics\<close>

datatype diagnostic_code =
    DuplicateModuleId
  | MissingModuleId
  | ModuleGraphCycle
  | UnknownEnabledModule
  | DuplicateFragmentId
  | UnknownFragmentOwnerModule
  | UnknownFragmentDependency
  | InvalidFragmentOrdering
  | FragmentDependencyCycle
  | MissingContractFile
  | ContractMissingSection
  | IncompatiblePlatformVersion

type_synonym diagnostic = "diagnostic_code \<times> string"

definition required_contract_sections :: "string list" where
  "required_contract_sections =
     [''Public API'', ''Persistence Ownership'', ''Config'', ''Events'', ''CLI/Web Surfaces'',
      ''Prompt Fragments'', ''Readiness Checks'', ''Conformance Tests'']"

text \<open>A name between grave accents, as the messages print it.\<close>

definition ticked :: "string \<Rightarrow> string" where
  "ticked s = [CHR 0x60] @ s @ [CHR 0x60]"

text \<open>The ids that a loop over a set of seen ids reports: every occurrence but the first.\<close>

fun duplicates_after :: "string set \<Rightarrow> string list \<Rightarrow> string list" where
  "duplicates_after seen [] = []"
| "duplicates_after seen (x # xs) =
     (if x \<in> seen then x # duplicates_after seen xs else duplicates_after (insert x seen) xs)"

lemma duplicates_after_Nil: "duplicates_after seen xs = [] \<longleftrightarrow> distinct xs \<and> set xs \<inter> seen = {}"
  by (induction xs arbitrary: seen) auto

definition module_edges :: "platform_manifest \<Rightarrow> string adjacency" where
  "module_edges m =
     btree_of (map (\<lambda>n. (mn_id n, filter (\<lambda>d. d \<in> mn_id ` set (pm_modules m)) (mn_depends_on n))) (pm_modules m))"

definition validate_module_graph :: "platform_manifest \<Rightarrow> diagnostic list" where
  "validate_module_graph m =
     (let known = mn_id ` set (pm_modules m)
      in map (\<lambda>i. (DuplicateModuleId, ''duplicate module id '' @ ticked i))
           (duplicates_after {} (map mn_id (pm_modules m)))
         @ concat (map (\<lambda>n. map (\<lambda>d. (MissingModuleId,
               ''module '' @ ticked (mn_id n) @ '' depends on unknown module '' @ ticked d))
             (filter (\<lambda>d. d \<notin> known) (mn_depends_on n))) (pm_modules m))
         @ (case first_cycle_node (module_edges m) of
              None \<Rightarrow> []
            | Some n \<Rightarrow> [(ModuleGraphCycle, ''module dependency cycle reachable from '' @ ticked n)]))"

definition validate_enabled_modules :: "product_manifest \<Rightarrow> platform_manifest \<Rightarrow> diagnostic list" where
  "validate_enabled_modules p m =
     map (\<lambda>e. (UnknownEnabledModule,
            ''product '' @ ticked (pr_product_id p) @ '' enables unknown module '' @ ticked e))
       (filter (\<lambda>e. e \<notin> mn_id ` set (pm_modules m)) (pr_enabled_modules p))"

definition order_by_id :: "prompt_fragment list \<Rightarrow> string \<Rightarrow> nat option" where
  "order_by_id fs = map_of (btree_of (map (\<lambda>f. (pf_id f, pf_order f)) fs))"

definition dependency_diagnostic :: "prompt_fragment list \<Rightarrow> prompt_fragment \<Rightarrow> string \<Rightarrow> diagnostic list" where
  "dependency_diagnostic fs f dep =
     (case order_by_id fs dep of
        None \<Rightarrow> [(UnknownFragmentDependency,
                  ''prompt fragment '' @ ticked (pf_id f) @ '' depends on unknown fragment '' @ ticked dep)]
      | Some dep_order \<Rightarrow>
          if pf_order f \<le> dep_order
          then [(InvalidFragmentOrdering,
                 ''prompt fragment '' @ ticked (pf_id f) @ '' (order '' @ dec_of_nat (pf_order f)
                 @ '') must render after dependency '' @ ticked dep @ '' (order '' @ dec_of_nat dep_order @ '')'')]
          else [])"

definition fragment_diagnostics :: "prompt_fragment list \<Rightarrow> string set \<Rightarrow> prompt_fragment \<Rightarrow> diagnostic list" where
  "fragment_diagnostics fs known f =
     (if pf_owner_module f \<in> known then []
      else [(UnknownFragmentOwnerModule,
             ''prompt fragment '' @ ticked (pf_id f) @ '' is owned by unknown module '' @ ticked (pf_owner_module f))])
     @ concat (map (dependency_diagnostic fs f) (pf_depends_on f))"

definition fragment_edges :: "prompt_fragment list \<Rightarrow> string adjacency" where
  "fragment_edges fs =
     btree_of (map (\<lambda>f. (pf_id f, filter (\<lambda>d. order_by_id fs d \<noteq> None) (pf_depends_on f))) fs)"

definition validate_prompt_fragments :: "prompt_fragment list \<Rightarrow> string set \<Rightarrow> diagnostic list" where
  "validate_prompt_fragments fs known =
     map (\<lambda>i. (DuplicateFragmentId, ''duplicate prompt fragment id '' @ ticked i))
       (duplicates_after {} (map pf_id fs))
     @ concat (map (fragment_diagnostics fs known) fs)
     @ (case first_cycle_node (fragment_edges fs) of
          None \<Rightarrow> []
        | Some n \<Rightarrow> [(FragmentDependencyCycle,
                      ''prompt fragment dependency cycle reachable from '' @ ticked n)])"

text \<open>The contracts: the required sections that each module's file declares.\<close>

definition check_contract_presence :: "string list \<Rightarrow> (string \<Rightarrow> string set option) \<Rightarrow> diagnostic list" where
  "check_contract_presence module_ids contracts =
     concat (map (\<lambda>i. case contracts i of
          None \<Rightarrow> [(MissingContractFile, ''module '' @ ticked i @ '' has no contract file'')]
        | Some present \<Rightarrow>
            map (\<lambda>s. (ContractMissingSection,
                ''contract for '' @ ticked i @ '' is missing required section '' @ ticked s))
              (filter (\<lambda>s. s \<notin> present) required_contract_sections)) module_ids)"

definition check_version_compatibility :: "product_manifest \<Rightarrow> platform_manifest \<Rightarrow> diagnostic list" where
  "check_version_compatibility p m =
     (if pr_compatible_platform_version p \<noteq> pm_platform_version m
      then [(IncompatiblePlatformVersion,
             ''product '' @ ticked (pr_product_id p) @ '' pins platform '' @ pr_compatible_platform_version p
             @ '' but platform is '' @ pm_platform_version m)]
      else [])"

section \<open>Contracts and the report\<close>

definition section_header :: "string \<Rightarrow> string option" where
  "section_header line =
     (let trimmed = trim_start line
      in if \<not> is_prefix ''#'' trimmed then None
         else let title = trim (trim_char (CHR ''#'') trimmed)
              in if title \<in> set required_contract_sections then Some title else None)"

definition section_headers :: "string \<Rightarrow> string set" where
  "section_headers content = set (List.map_filter section_header (str_lines content))"

text \<open>
  \<open>scan_contracts\<close> and its embedded twin: the directory listing is the list of file stems, whether the
  extension is \<open>md\<close>, and the content; a later entry with the same stem replaces an earlier one.
\<close>

fun scan_contracts :: "(string \<times> bool \<times> string) list \<Rightarrow> string \<Rightarrow> string set option" where
  "scan_contracts [] = Map.empty"
| "scan_contracts ((stem, is_md, content) # files) =
     (if is_md then ([stem \<mapsto> section_headers content]) ++ scan_contracts files else scan_contracts files)"

record compatibility_report =
  cr_ok :: bool
  cr_product_id :: string
  cr_product_version :: string
  cr_platform_id :: string
  cr_platform_version :: string
  cr_diagnostics :: "diagnostic list"

definition build_report ::
  "platform_manifest \<Rightarrow> prompt_fragment list \<Rightarrow> product_manifest \<Rightarrow> (string \<Rightarrow> string set option) \<Rightarrow> compatibility_report"
where
  "build_report platform fragments product contracts =
     (let diags = validate_module_graph platform
            @ validate_enabled_modules product platform
            @ validate_prompt_fragments fragments (mn_id ` set (pm_modules platform))
            @ check_contract_presence (map mn_id (pm_modules platform)) contracts
            @ check_version_compatibility product platform
      in \<lparr>cr_ok = (diags = []), cr_product_id = pr_product_id product,
          cr_product_version = pr_product_version product, cr_platform_id = pm_platform_id platform,
          cr_platform_version = pm_platform_version platform, cr_diagnostics = diags\<rparr>)"

section \<open>When each validation is silent\<close>

definition module_dependency :: "platform_manifest \<Rightarrow> (string \<times> string) set" where
  "module_dependency m = {(mn_id n, d) | n d. n \<in> set (pm_modules m) \<and> d \<in> set (mn_depends_on n)}"

definition fragment_dependency :: "prompt_fragment list \<Rightarrow> (string \<times> string) set" where
  "fragment_dependency fs = {(pf_id f, d) | f d. f \<in> set fs \<and> d \<in> set (pf_depends_on f)}"

lemma map_of_rev_distinct: "distinct (map fst xs) \<Longrightarrow> map_of (rev xs) = map_of xs"
  by (subst map_of_inject_set) (simp_all add: rev_map [symmetric])

lemma map_of_btree_distinct:
  assumes "distinct (map key xs)"
  shows "map_of (btree_of (map (\<lambda>x. (key x, val x)) xs)) k = Some v \<longleftrightarrow> (\<exists>x\<in>set xs. key x = k \<and> v = val x)"
proof -
  let ?ys = "map (\<lambda>x. (key x, val x)) xs"
  have d: "distinct (map fst ?ys)" using assms by (simp add: o_def)
  then have "map_of (btree_of ?ys) = map_of ?ys" by (simp add: map_of_btree_of map_of_rev_distinct)
  then have "map_of (btree_of ?ys) k = Some v \<longleftrightarrow> (k, v) \<in> set ?ys"
    using map_of_eq_Some_iff [OF d, of k v] by simp
  then show ?thesis by auto
qed

lemma arcs_btree:
  assumes "distinct (map key xs)"
  shows "arcs (btree_of (map (\<lambda>x. (key x, val x)) xs)) = {(key x, d) | x d. x \<in> set xs \<and> d \<in> set (val x)}"
proof -
  have arc: "(a, d) \<in> arcs (btree_of (map (\<lambda>x. (key x, val x)) xs))
      \<longleftrightarrow> (\<exists>v. map_of (btree_of (map (\<lambda>x. (key x, val x)) xs)) a = Some v \<and> d \<in> set v)" for a d
    by (cases "map_of (btree_of (map (\<lambda>x. (key x, val x)) xs)) a") (simp_all add: arcs_def neighbours_def)
  have val: "(\<exists>v. map_of (btree_of (map (\<lambda>x. (key x, val x)) xs)) a = Some v \<and> d \<in> set v) \<longleftrightarrow> (\<exists>x\<in>set xs. key x = a \<and> d \<in> set (val x))" for a d
    unfolding map_of_btree_distinct [OF assms, of val] by blast
  show ?thesis by (auto simp: arc val)
qed

text \<open>What a manifest without diagnostics satisfies, stated without the code's data structures.\<close>

definition module_graph_ok :: "platform_manifest \<Rightarrow> bool" where
  "module_graph_ok m \<longleftrightarrow> distinct (map mn_id (pm_modules m))
     \<and> snd ` module_dependency m \<subseteq> mn_id ` set (pm_modules m)
     \<and> acyclic (module_dependency m)"

definition fragments_ok :: "prompt_fragment list \<Rightarrow> string set \<Rightarrow> bool" where
  "fragments_ok fs known \<longleftrightarrow> distinct (map pf_id fs) \<and> pf_owner_module ` set fs \<subseteq> known
     \<and> (\<forall>f\<in>set fs. \<forall>d\<in>set (pf_depends_on f). \<exists>g\<in>set fs. pf_id g = d \<and> pf_order g < pf_order f)"

definition contracts_ok :: "string list \<Rightarrow> (string \<Rightarrow> string set option) \<Rightarrow> bool" where
  "contracts_ok ids contracts \<longleftrightarrow>
     (\<forall>i\<in>set ids. \<exists>present. contracts i = Some present \<and> set required_contract_sections \<subseteq> present)"

lemma dependency_range:
  "snd ` module_dependency m \<subseteq> K \<longleftrightarrow> (\<forall>n\<in>set (pm_modules m). \<forall>d\<in>set (mn_depends_on n). d \<in> K)"
  by (force simp: module_dependency_def)

lemma module_graph_silent: "validate_module_graph m = [] \<longleftrightarrow> module_graph_ok m"
proof (cases "distinct (map mn_id (pm_modules m)) \<and> snd ` module_dependency m \<subseteq> mn_id ` set (pm_modules m)")
  case True
  then have known: "\<forall>n\<in>set (pm_modules m). \<forall>d\<in>set (mn_depends_on n). d \<in> mn_id ` set (pm_modules m)"
    unfolding dependency_range by blast
  then have "module_edges m = btree_of (map (\<lambda>n. (mn_id n, mn_depends_on n)) (pm_modules m))"
    unfolding module_edges_def by (intro arg_cong [of _ _ btree_of] map_cong refl) (auto simp: filter_id_conv)
  then have "arcs (module_edges m) = module_dependency m"
    using arcs_btree [of mn_id "pm_modules m" mn_depends_on] True by (simp add: module_dependency_def)
  moreover have "validate_module_graph m = [] \<longleftrightarrow> first_cycle_node (module_edges m) = None"
    using True known by (simp add: validate_module_graph_def duplicates_after_Nil Let_def filter_empty_conv split: option.splits)
  ultimately show ?thesis using True first_cycle_node_None_iff [of "module_edges m"]
    by (simp add: module_graph_ok_def)
next
  case False
  then show ?thesis
    unfolding module_graph_ok_def dependency_range
    by (auto simp: validate_module_graph_def duplicates_after_Nil Let_def filter_empty_conv)
qed

lemma order_by_id_Some:
  "distinct (map pf_id fs) \<Longrightarrow> order_by_id fs d = Some n \<longleftrightarrow> (\<exists>g\<in>set fs. pf_id g = d \<and> n = pf_order g)"
  unfolding order_by_id_def by (rule map_of_btree_distinct)

lemma dependency_silent:
  "distinct (map pf_id fs) \<Longrightarrow> dependency_diagnostic fs f d = [] \<longleftrightarrow> (\<exists>g\<in>set fs. pf_id g = d \<and> pf_order g < pf_order f)"
proof -
  assume d: "distinct (map pf_id fs)"
  have "dependency_diagnostic fs f d = [] \<longleftrightarrow> (\<exists>n. order_by_id fs d = Some n \<and> n < pf_order f)"
    by (auto simp: dependency_diagnostic_def split: option.splits)
  then show ?thesis using order_by_id_Some [OF d] by auto
qed

text \<open>Dependencies that render earlier cannot form a cycle.\<close>

lemma decreasing_acyclic:
  assumes "\<And>a b. (a, b) \<in> r \<Longrightarrow> f b < (f a :: nat)"
  shows "acyclic r"
proof -
  have "f b < f a" if "(a, b) \<in> r\<^sup>+" for a b
    using that by induction (auto dest: assms intro: less_trans)
  then show ?thesis by (auto simp: acyclic_def)
qed

lemma ordered_acyclic:
  assumes "fragments_ok fs known"
  shows "acyclic (fragment_dependency fs)"
proof (rule decreasing_acyclic)
  fix a b assume ab: "(a, b) \<in> fragment_dependency fs"
  from assms have d: "distinct (map pf_id fs)" by (simp add: fragments_ok_def)
  from ab obtain f where f: "f \<in> set fs" "pf_id f = a" "b \<in> set (pf_depends_on f)"
    by (auto simp: fragment_dependency_def)
  with assms obtain g where g: "g \<in> set fs" "pf_id g = b" "pf_order g < pf_order f"
    unfolding fragments_ok_def by blast
  have "order_by_id fs a = Some (pf_order f)" "order_by_id fs b = Some (pf_order g)"
    using f g order_by_id_Some [OF d] by auto
  with g(3) show "the (order_by_id fs b) < the (order_by_id fs a)" by simp
qed

lemma fragments_silent: "validate_prompt_fragments fs known = [] \<longleftrightarrow> fragments_ok fs known"
proof (cases "distinct (map pf_id fs)")
  case True
  have owner: "fragment_diagnostics fs known f = [] \<longleftrightarrow>
      pf_owner_module f \<in> known \<and> (\<forall>d\<in>set (pf_depends_on f). \<exists>g\<in>set fs. pf_id g = d \<and> pf_order g < pf_order f)" for f
    using dependency_silent [OF True] by (auto simp: fragment_diagnostics_def)
  have "first_cycle_node (fragment_edges fs) = None" if "fragments_ok fs known"
  proof -
    have "order_by_id fs d \<noteq> None" if "f \<in> set fs" "d \<in> set (pf_depends_on f)" for f d
      using that \<open>fragments_ok fs known\<close> order_by_id_Some [OF True] unfolding fragments_ok_def by fastforce
    then have "fragment_edges fs = btree_of (map (\<lambda>f. (pf_id f, pf_depends_on f)) fs)"
      unfolding fragment_edges_def by (intro arg_cong [of _ _ btree_of] map_cong refl) (auto simp: filter_id_conv)
    then have "arcs (fragment_edges fs) = fragment_dependency fs"
      using arcs_btree [OF True, of pf_depends_on] by (simp add: fragment_dependency_def)
    with ordered_acyclic [OF that] first_cycle_node_None_iff [of "fragment_edges fs"] show ?thesis by simp
  qed
  moreover have "concat (map (fragment_diagnostics fs known) fs) = [] \<longleftrightarrow> fragments_ok fs known"
    using True owner by (auto simp: fragments_ok_def)
  ultimately show ?thesis
    using True by (cases "fragments_ok fs known") (simp_all add: validate_prompt_fragments_def duplicates_after_Nil)
next
  case False
  then show ?thesis by (simp add: validate_prompt_fragments_def fragments_ok_def duplicates_after_Nil)
qed

lemma contracts_silent: "check_contract_presence ids contracts = [] \<longleftrightarrow> contracts_ok ids contracts"
proof -
  have "(case contracts i of None \<Rightarrow> [(MissingContractFile, ''module '' @ ticked i @ '' has no contract file'')]
        | Some present \<Rightarrow> map (\<lambda>s. (ContractMissingSection,
                ''contract for '' @ ticked i @ '' is missing required section '' @ ticked s))
              (filter (\<lambda>s. s \<notin> present) required_contract_sections)) = []
      \<longleftrightarrow> (\<exists>present. contracts i = Some present \<and> set required_contract_sections \<subseteq> present)" for i
    by (cases "contracts i") (auto simp: filter_empty_conv)
  then show ?thesis by (simp add: check_contract_presence_def contracts_ok_def)
qed

section \<open>Properties\<close>

text \<open>
  The compatibility check passes exactly on well-formed manifests: module ids are distinct and
  their dependencies known and free of cycles, the product enables known modules, every fragment has
  a unique id, a known owner and only dependencies that render strictly before it, every module has a
  contract with all required sections, and the pinned platform version is the one shipped.
\<close>

theorem report_ok_iff:
  "cr_ok (build_report platform fragments product contracts) \<longleftrightarrow>
     module_graph_ok platform
     \<and> set (pr_enabled_modules product) \<subseteq> mn_id ` set (pm_modules platform)
     \<and> fragments_ok fragments (mn_id ` set (pm_modules platform))
     \<and> contracts_ok (map mn_id (pm_modules platform)) contracts
     \<and> pr_compatible_platform_version product = pm_platform_version platform"
  by (auto simp: build_report_def Let_def module_graph_silent fragments_silent contracts_silent
      validate_enabled_modules_def check_version_compatibility_def filter_empty_conv)

text \<open>
  rendering follows dependencies: when the fragment check is silent, the fragments in ascending
  order of \<open>order\<close> list every dependency before the fragment that needs it, and the cycle check of the
  same validation can never be the one that complains.
\<close>

theorem fragment_order_is_topological:
  assumes "validate_prompt_fragments fs known = []"
  shows "acyclic (fragment_dependency fs)
    \<and> (\<forall>f\<in>set fs. \<forall>d\<in>set (pf_depends_on f). \<exists>pre g post.
         sort_key pf_order fs = pre @ g # post \<and> pf_id g = d \<and> f \<in> set post)"
proof -
  from assms have ok: "fragments_ok fs known" by (simp add: fragments_silent)
  have "\<exists>pre g post. sort_key pf_order fs = pre @ g # post \<and> pf_id g = d \<and> f \<in> set post"
    if f: "f \<in> set fs" "d \<in> set (pf_depends_on f)" for f d
  proof -
    from ok f obtain g where g: "g \<in> set fs" "pf_id g = d" "pf_order g < pf_order f"
      unfolding fragments_ok_def by blast
    then have "g \<in> set (sort_key pf_order fs)" by simp
    then obtain pre post where s: "sort_key pf_order fs = pre @ g # post" by (meson split_list)
    have "sorted (map pf_order (sort_key pf_order fs))" by simp
    with s have "\<forall>x\<in>set pre. pf_order x \<le> pf_order g" by (simp add: sorted_append)
    with g(3) have "f \<notin> set pre" "f \<noteq> g" by auto
    moreover have "f \<in> set (sort_key pf_order fs)" using f(1) by simp
    ultimately have "f \<in> set post" using s by simp
    with s g(2) show ?thesis by blast
  qed
  with ordered_acyclic [OF ok] show ?thesis by blast
qed

definition sample_fragment :: "string \<Rightarrow> string list \<Rightarrow> nat \<Rightarrow> prompt_fragment" where
  "sample_fragment i deps n = \<lparr>pf_id = i, pf_owner_module = ''m'', pf_version = ''1'',
     pf_target_agent_kind = ''orchestrator'', pf_parameters = [], pf_depends_on = deps, pf_order = n,
     pf_override_rules = [], pf_assertions = []\<rparr>"

theorem fragment_order_is_topological_witness:
  "acyclic (fragment_dependency [sample_fragment ''a'' [''b''] 20, sample_fragment ''b'' [] 10])"
  by (rule conjunct1 [OF fragment_order_is_topological [of _ "{''m''}"]])
    (simp add: fragments_silent fragments_ok_def sample_fragment_def)

end
