(* ===== verification/Central_Migrations.thy ===== *)
theory Central_Migrations
  imports Interfaces "HOL-Library.Multiset"
begin

text \<open>
  The central migration registry, \<open>crates/assistant-db/src/migrate.rs\<close>: migrations ordered by
  module dependency and version, applied once each under a content checksum, with the recorded
  product and module versions. Executing a migration's SQL on the module tables is the argument
  \<open>exec\<close> (\<open>None\<close> is a SQLite error, which rolls the transaction back); SHA-256 is \<open>sha\<close>.
\<close>

section \<open>Migrations and their order\<close>

record migration =
  mig_module :: string
  mig_version :: nat
  mig_name :: string
  mig_sql :: string

definition checksum :: "(nat list \<Rightarrow> nat list) \<Rightarrow> migration \<Rightarrow> string" where
  "checksum sha m = hex_of (sha (bytes_of (mig_name m) @ [0] @ bytes_of (mig_sql m)))"

record migration_set =
  module_order :: "string list"
  set_migrations :: "migration list"

definition add_migration :: "migration \<Rightarrow> migration_set \<Rightarrow> migration_set" where
  "add_migration m s = s\<lparr>set_migrations := set_migrations s @ [m]\<rparr>"

datatype db_error =
    SqliteError
  | UnknownMigrationModule string
  | DuplicateMigration string nat
  | ChecksumMismatch string nat string string

definition module_rank :: "string list \<Rightarrow> string \<Rightarrow> nat option" where
  "module_rank order = map_of (rev (zip order [0..<length order]))"

definition mig_key :: "migration \<Rightarrow> string \<times> nat" where
  "mig_key m = (mig_module m, mig_version m)"

fun check_migrations ::
  "string list \<Rightarrow> (string \<times> nat) list \<Rightarrow> migration list \<Rightarrow> db_error + unit" where
  "check_migrations order seen [] = Inr ()"
| "check_migrations order seen (m # ms) =
     (if module_rank order (mig_module m) = None then Inl (UnknownMigrationModule (mig_module m))
      else if mig_key m \<in> set seen then Inl (DuplicateMigration (mig_module m) (mig_version m))
      else check_migrations order (mig_key m # seen) ms)"

definition order_key :: "string list \<Rightarrow> migration \<Rightarrow> nat \<times> nat" where
  "order_key order m = (the (module_rank order (mig_module m)), mig_version m)"

definition ordered :: "migration_set \<Rightarrow> db_error + migration list" where
  "ordered s =
     rbind (check_migrations (module_order s) [] (set_migrations s))
       (\<lambda>_. Inr (sort_key (order_key (module_order s)) (set_migrations s)))"

section \<open>Applying them\<close>

record mig_row =
  row_module :: string
  row_version :: nat
  row_name :: string
  row_checksum :: string

record version_row =
  vr_module :: string
  vr_module_version :: string
  vr_product_id :: string
  vr_product_version :: string
  vr_platform_version :: string
  vr_recorded_at :: string

record 'd central =
  schema_migrations :: "mig_row list"
  module_versions :: "version_row list"
  tables :: 'd

record migration_report =
  applied :: "(string \<times> nat) list"
  skipped :: "(string \<times> nat) list"

definition empty_report :: migration_report where
  "empty_report = \<lparr>applied = [], skipped = []\<rparr>"

definition row_key :: "mig_row \<Rightarrow> string \<times> nat" where
  "row_key r = (row_module r, row_version r)"

definition recorded_checksum :: "'d central \<Rightarrow> string \<times> nat \<Rightarrow> string option" where
  "recorded_checksum db k =
     map_option row_checksum (query_row (\<lambda>r. row_key r = k) (schema_migrations db))"

definition apply_one ::
  "(nat list \<Rightarrow> nat list) \<Rightarrow> (string \<Rightarrow> 'd \<Rightarrow> 'd option) \<Rightarrow> migration \<Rightarrow> 'd central
   \<Rightarrow> 'd central option" where
  "apply_one sha exec m db =
     (case exec (mig_sql m) (tables db) of
        None \<Rightarrow> None
      | Some t \<Rightarrow> Some (db\<lparr>tables := t,
          schema_migrations := schema_migrations db @
            [\<lparr>row_module = mig_module m, row_version = mig_version m, row_name = mig_name m,
              row_checksum = checksum sha m\<rparr>]\<rparr>))"

fun apply_loop ::
  "(nat list \<Rightarrow> nat list) \<Rightarrow> (string \<Rightarrow> 'd \<Rightarrow> 'd option) \<Rightarrow> migration_report \<Rightarrow> 'd central
   \<Rightarrow> migration list \<Rightarrow> 'd central \<times> (db_error + migration_report)" where
  "apply_loop sha exec rep db [] = (db, Inr rep)"
| "apply_loop sha exec rep db (m # ms) =
     (case recorded_checksum db (mig_key m) of
        Some c \<Rightarrow>
          if c \<noteq> checksum sha m
          then (db, Inl (ChecksumMismatch (mig_module m) (mig_version m) c (checksum sha m)))
          else apply_loop sha exec (rep\<lparr>skipped := skipped rep @ [mig_key m]\<rparr>) db ms
      | None \<Rightarrow>
          (case apply_one sha exec m db of
             None \<Rightarrow> (db, Inl SqliteError)
           | Some db' \<Rightarrow>
               apply_loop sha exec (rep\<lparr>applied := applied rep @ [mig_key m]\<rparr>) db' ms))"

definition apply_migrations ::
  "(nat list \<Rightarrow> nat list) \<Rightarrow> (string \<Rightarrow> 'd \<Rightarrow> 'd option) \<Rightarrow> migration_set \<Rightarrow> 'd central
   \<Rightarrow> 'd central \<times> (db_error + migration_report)" where
  "apply_migrations sha exec s db =
     (case ordered s of
        Inl e \<Rightarrow> (db, Inl e)
      | Inr ms \<Rightarrow> apply_loop sha exec empty_report db ms)"

section \<open>Recorded versions\<close>

record version_record =
  product_id :: string
  product_version :: string
  platform_version :: string
  modules :: "(string \<times> string) list"

definition record_versions :: "string \<Rightarrow> version_record \<Rightarrow> 'd central \<Rightarrow> 'd central" where
  "record_versions now rec db =
     db\<lparr>module_versions := fold (\<lambda>(m, v). upsert_row vr_module (\<lambda>old new. new)
          \<lparr>vr_module = m, vr_module_version = v, vr_product_id = product_id rec,
           vr_product_version = product_version rec,
           vr_platform_version = platform_version rec, vr_recorded_at = now\<rparr>)
        (modules rec) (module_versions db)\<rparr>"

text \<open>\<open>ORDER BY recorded_at DESC, module_id ASC\<close>: the latest row first, ties by module id.\<close>

definition newest_first :: "version_row list \<Rightarrow> version_row list" where
  "newest_first rows = concat (map (\<lambda>t. filter (\<lambda>r. vr_recorded_at r = t) (sort_key vr_module rows))
     (rev (sort (remdups (map vr_recorded_at rows)))))"

definition read_version_record :: "'d central \<Rightarrow> version_record option" where
  "read_version_record db =
     (case newest_first (module_versions db) of
        [] \<Rightarrow> None
      | r # _ \<Rightarrow> Some \<lparr>product_id = vr_product_id r, product_version = vr_product_version r,
          platform_version = vr_platform_version r,
          modules = sort (map (\<lambda>r. (vr_module r, vr_module_version r))
            (newest_first (module_versions db)))\<rparr>)"

definition applied_versions :: "'d central \<Rightarrow> (string \<times> nat) list" where
  "applied_versions db =
     map (\<lambda>m. (m, Max (row_version ` {r \<in> set (schema_migrations db). row_module r = m})))
       (sort (remdups (map row_module (schema_migrations db))))"

section \<open>The order\<close>

lemma check_migrations_Inr:
  "check_migrations order seen ms = Inr () \<longleftrightarrow>
     (\<forall>m\<in>set ms. module_rank order (mig_module m) \<noteq> None) \<and>
     distinct (map mig_key ms) \<and> set (map mig_key ms) \<inter> set seen = {}"
  by (induction ms arbitrary: seen) auto

lemma module_rank_Some_iff: "(\<exists>n. module_rank order x = Some n) \<longleftrightarrow> x \<in> set order"
proof -
  have "dom (module_rank order) = fst ` set (zip order [0..<length order])"
    by (simp add: module_rank_def dom_map_of_conv_image_fst)
  also have "\<dots> = set order" by (metis length_map list.set_map map_fst_zip map_nth)
  finally show ?thesis by (auto simp: dom_def)
qed

lemma ordered_ok_iff:
  "(\<exists>ms. ordered s = Inr ms) \<longleftrightarrow>
     (\<forall>m\<in>set (set_migrations s). mig_module m \<in> set (module_order s)) \<and>
     distinct (map mig_key (set_migrations s))"
  by (auto simp: ordered_def res_simps check_migrations_Inr module_rank_Some_iff [symmetric])

lemma ordered_spec:
  assumes "ordered s = Inr ms"
  shows "mset ms = mset (set_migrations s)"
    and "sorted (map (order_key (module_order s)) ms)"
    and "distinct (map mig_key ms)"
proof -
  from assms have ms: "ms = sort_key (order_key (module_order s)) (set_migrations s)"
    and ok: "check_migrations (module_order s) [] (set_migrations s) = Inr ()"
    by (auto simp: ordered_def res_simps)
  from ms show m: "mset ms = mset (set_migrations s)" by simp
  from ms show "sorted (map (order_key (module_order s)) ms)" by simp
  from ok have "distinct (map mig_key (set_migrations s))" by (simp add: check_migrations_Inr)
  moreover have "mset (map mig_key ms) = mset (map mig_key (set_migrations s))"
    using m by (simp add: mset_map)
  ultimately show "distinct (map mig_key ms)" using mset_eq_imp_distinct_iff by blast
qed

section \<open>The run\<close>

text \<open>The run as the contract of migration runs sees it: the database it leaves, and success.\<close>

definition migration_run_of ::
  "(nat list \<Rightarrow> nat list) \<Rightarrow> (string \<Rightarrow> 'd \<Rightarrow> 'd option) \<Rightarrow> 'd central \<Rightarrow> migration list
   \<Rightarrow> 'd central \<times> bool" where
  "migration_run_of sha exec db ms =
     (case apply_loop sha exec empty_report db ms of (db', r) \<Rightarrow> (db', is_ok r))"

text \<open>The report only accumulates: the effect and the additions of a run do not depend on it.\<close>

definition prepend_report :: "migration_report \<Rightarrow> migration_report \<Rightarrow> migration_report" where
  "prepend_report r1 r2 = \<lparr>applied = applied r1 @ applied r2, skipped = skipped r1 @ skipped r2\<rparr>"

lemma prepend_report_simps [simp]:
  "applied (prepend_report r1 r2) = applied r1 @ applied r2"
  "skipped (prepend_report r1 r2) = skipped r1 @ skipped r2"
  by (simp_all add: prepend_report_def)

lemma apply_loop_prepend:
  "apply_loop sha exec (prepend_report r1 r2) db ms =
     map_prod id (map_sum id (prepend_report r1)) (apply_loop sha exec r2 db ms)"
proof (induction ms arbitrary: r2 db)
  case Nil
  then show ?case by simp
next
  case (Cons m ms)
  have s: "(prepend_report r1 r2)\<lparr>skipped := skipped (prepend_report r1 r2) @ [k]\<rparr>
      = prepend_report r1 (r2\<lparr>skipped := skipped r2 @ [k]\<rparr>)"
    and a: "(prepend_report r1 r2)\<lparr>applied := applied (prepend_report r1 r2) @ [k]\<rparr>
      = prepend_report r1 (r2\<lparr>applied := applied r2 @ [k]\<rparr>)" for k
    by (simp_all add: prepend_report_def)
  show ?case unfolding apply_loop.simps s a
    by (simp add: Cons.IH split: option.splits del: prepend_report_simps)
qed

lemma prepend_empty: "prepend_report r empty_report = r"
  by (simp add: prepend_report_def empty_report_def)

lemma apply_loop_report:
  "apply_loop sha exec rep db ms =
     map_prod id (map_sum id (prepend_report rep)) (apply_loop sha exec empty_report db ms)"
  using apply_loop_prepend [of sha exec rep empty_report db ms] by (simp add: prepend_empty)

lemma is_ok_map_sum [simp]: "is_ok (map_sum id f r) = is_ok r"
  by (cases r) auto

lemma migration_run_of_conv:
  "(case apply_loop sha exec rep db ms of (db', r) \<Rightarrow> (db', is_ok r)) = migration_run_of sha exec db ms"
  by (subst apply_loop_report) (simp add: migration_run_of_def split: prod.splits)

lemma recorded_checksum_apply_one:
  "apply_one sha exec m db = Some db' \<Longrightarrow> recorded_checksum db (mig_key m) = None \<Longrightarrow>
   recorded_checksum db' k = (if k = mig_key m then Some (checksum sha m) else recorded_checksum db k)"
  by (auto simp: apply_one_def recorded_checksum_def query_row_append row_key_def mig_key_def
      split: option.splits)

interpretation central_run: migration_run "migration_run_of sha exec" "apply_one sha exec"
  recorded_checksum mig_key "checksum sha"
  for sha and exec :: "string \<Rightarrow> 'd \<Rightarrow> 'd option"
proof
  fix db :: "'d central" and m ms c db' k
  show "migration_run_of sha exec db [] = (db, True)"
    by (simp add: migration_run_of_def)
  show "recorded_checksum db (mig_key m) = Some c \<Longrightarrow> c \<noteq> checksum sha m \<Longrightarrow>
      migration_run_of sha exec db (m # ms) = (db, False)"
    by (simp add: migration_run_of_def)
  show "recorded_checksum db (mig_key m) = Some (checksum sha m) \<Longrightarrow>
      migration_run_of sha exec db (m # ms) = migration_run_of sha exec db ms"
    by (simp add: migration_run_of_def [of sha exec db "m # ms"] migration_run_of_conv)
  show "recorded_checksum db (mig_key m) = None \<Longrightarrow> apply_one sha exec m db = Some db' \<Longrightarrow>
      migration_run_of sha exec db (m # ms) = migration_run_of sha exec db' ms"
    by (simp add: migration_run_of_def [of sha exec db "m # ms"] migration_run_of_conv)
  show "recorded_checksum db (mig_key m) = None \<Longrightarrow> apply_one sha exec m db = None \<Longrightarrow>
      migration_run_of sha exec db (m # ms) = (db, False)"
    by (simp add: migration_run_of_def)
  show "apply_one sha exec m db = Some db' \<Longrightarrow> recorded_checksum db (mig_key m) = None \<Longrightarrow>
      recorded_checksum db' k
        = (if k = mig_key m then Some (checksum sha m) else recorded_checksum db k)"
    by (rule recorded_checksum_apply_one)
qed

lemma apply_migrations_run:
  "apply_migrations sha exec s db = (db', Inr rep) \<Longrightarrow>
   \<exists>ms. ordered s = Inr ms \<and> migration_run_of sha exec db ms = (db', True)
     \<and> apply_loop sha exec empty_report db ms = (db', Inr rep)"
  by (auto simp: apply_migrations_def migration_run_of_def split: sum.splits)

text \<open>What a successful run reports: each migration once, applied or skipped.\<close>

lemma apply_loop_partition:
  assumes "apply_loop sha exec rep db ms = (db', Inr rep')" and "distinct (map mig_key ms)"
  shows "applied rep' = applied rep @ filter (\<lambda>k. recorded_checksum db k = None) (map mig_key ms)
    \<and> skipped rep' = skipped rep @ filter (\<lambda>k. recorded_checksum db k \<noteq> None) (map mig_key ms)"
  using assms
proof (induction ms arbitrary: rep db)
  case Nil
  then show ?case by simp
next
  case (Cons m ms)
  show ?case
  proof (cases "recorded_checksum db (mig_key m)")
    case None
    with Cons.prems obtain db1 where db1: "apply_one sha exec m db = Some db1"
      and rest: "apply_loop sha exec (rep\<lparr>applied := applied rep @ [mig_key m]\<rparr>) db1 ms = (db', Inr rep')"
      by (auto split: option.splits)
    have "recorded_checksum db1 k = recorded_checksum db k" if "k \<in> set (map mig_key ms)" for k
    proof -
      from that Cons.prems(2) have "k \<noteq> mig_key m" by (metis distinct.simps(2) list.simps(9))
      then show ?thesis using recorded_checksum_apply_one [OF db1 None, of k] by simp
    qed
    then have "filter (\<lambda>k. recorded_checksum db1 k = None) (map mig_key ms)
        = filter (\<lambda>k. recorded_checksum db k = None) (map mig_key ms)"
      and "filter (\<lambda>k. recorded_checksum db1 k \<noteq> None) (map mig_key ms)
        = filter (\<lambda>k. recorded_checksum db k \<noteq> None) (map mig_key ms)"
      by (auto intro!: filter_cong)
    with Cons.IH [OF rest] Cons.prems(2) None show ?thesis by simp
  next
    case (Some c)
    with Cons.prems have
      "apply_loop sha exec (rep\<lparr>skipped := skipped rep @ [mig_key m]\<rparr>) db ms = (db', Inr rep')"
      by (auto split: if_splits)
    from Cons.IH [OF this] Cons.prems(2) Some show ?thesis by simp
  qed
qed

section \<open>Properties\<close>

lemma apply_migrations_recorded:
  assumes "apply_migrations sha exec s db = (db', Inr rep)" and "m \<in> set (set_migrations s)"
  shows "recorded_checksum db' (mig_key m) = Some (checksum sha m)"
proof -
  from apply_migrations_run [OF assms(1)] obtain ms where ms: "ordered s = Inr ms"
    and run: "migration_run_of sha exec db ms = (db', True)" by blast
  from ordered_spec(1) [OF ms] assms(2) have "m \<in> set ms" by (metis set_mset_mset)
  with central_run.run_ok_recorded [of sha exec db ms m] run show ?thesis by simp
qed

lemma apply_loop_recorded_noop:
  "\<forall>m\<in>set ms. recorded_checksum db (mig_key m) = Some (checksum sha m) \<Longrightarrow>
   apply_loop sha exec rep db ms = (db, Inr (rep\<lparr>skipped := skipped rep @ map mig_key ms\<rparr>))"
  by (induction ms arbitrary: rep) auto

text \<open>
  C32: a migration run that succeeded has recorded every migration of the set under its checksum,
  and running the set again changes nothing and skips all of it, in module and version order.
\<close>

theorem migrations_apply_once:
  assumes "apply_migrations sha exec s db = (db', Inr rep)"
  shows "(\<forall>m\<in>set (set_migrations s). recorded_checksum db' (mig_key m) = Some (checksum sha m))
    \<and> (\<exists>ms. mset ms = mset (set_migrations s) \<and> sorted (map (order_key (module_order s)) ms)
        \<and> apply_migrations sha exec s db' = (db', Inr \<lparr>applied = [], skipped = map mig_key ms\<rparr>)
        \<and> applied rep = filter (\<lambda>k. recorded_checksum db k = None) (map mig_key ms)
        \<and> skipped rep = filter (\<lambda>k. recorded_checksum db k \<noteq> None) (map mig_key ms))"
proof -
  from apply_migrations_run [OF assms] obtain ms where ms: "ordered s = Inr ms"
    and loop: "apply_loop sha exec empty_report db ms = (db', Inr rep)" by blast
  have rec: "\<forall>m\<in>set ms. recorded_checksum db' (mig_key m) = Some (checksum sha m)"
    using apply_migrations_recorded [OF assms] ordered_spec(1) [OF ms] by (metis set_mset_mset)
  have "apply_migrations sha exec s db' = (db', Inr \<lparr>applied = [], skipped = map mig_key ms\<rparr>)"
    using ms apply_loop_recorded_noop [OF rec] by (simp add: apply_migrations_def empty_report_def)
  with apply_migrations_recorded [OF assms] ordered_spec [OF ms]
    apply_loop_partition [OF loop] show ?thesis
    by (auto simp: empty_report_def)
qed

definition sample_set :: migration_set where
  "sample_set = \<lparr>module_order = [''core'', ''graph''], set_migrations =
     [\<lparr>mig_module = ''graph'', mig_version = 1, mig_name = ''g'', mig_sql = ''G''\<rparr>,
      \<lparr>mig_module = ''core'', mig_version = 1, mig_name = ''c'', mig_sql = ''C''\<rparr>]\<rparr>"

definition sample_central :: "string list central" where
  "sample_central = \<lparr>schema_migrations = [], module_versions = [], tables = []\<rparr>"

definition run_sql :: "string \<Rightarrow> string list \<Rightarrow> string list option" where
  "run_sql sql t = Some (t @ [sql])"

lemma sample_run:
  "apply_migrations (\<lambda>b. b) run_sql sample_set sample_central =
     (\<lparr>schema_migrations =
         [\<lparr>row_module = ''core'', row_version = 1, row_name = ''c'', row_checksum = hex_of [99, 0, 67]\<rparr>,
          \<lparr>row_module = ''graph'', row_version = 1, row_name = ''g'', row_checksum = hex_of [103, 0, 71]\<rparr>],
       module_versions = [], tables = [''C'', ''G'']\<rparr>,
      Inr \<lparr>applied = [(''core'', 1), (''graph'', 1)], skipped = []\<rparr>)"
  by (simp add: apply_migrations_def ordered_def sample_set_def sample_central_def run_sql_def
      module_rank_def order_key_def mig_key_def upt_rec apply_one_def recorded_checksum_def
      row_key_def checksum_def bytes_of_def empty_report_def)

theorem migrations_apply_once_witness:
  "apply_migrations (\<lambda>b. b) run_sql sample_set (fst (apply_migrations (\<lambda>b. b) run_sql sample_set sample_central))
     = (fst (apply_migrations (\<lambda>b. b) run_sql sample_set sample_central),
        Inr \<lparr>applied = [], skipped = [(''core'', 1), (''graph'', 1)]\<rparr>)"
proof -
  from migrations_apply_once [OF sample_run] obtain ms
    where "apply_migrations (\<lambda>b. b) run_sql sample_set (fst (apply_migrations (\<lambda>b. b) run_sql sample_set sample_central))
      = (fst (apply_migrations (\<lambda>b. b) run_sql sample_set sample_central), Inr \<lparr>applied = [], skipped = map mig_key ms\<rparr>)"
    and "[(''core'', 1), (''graph'', 1)] = filter (\<lambda>k. recorded_checksum sample_central k = None) (map mig_key ms)"
    by (auto simp: sample_run)
  then show ?thesis by (simp add: recorded_checksum_def sample_central_def)
qed

text \<open>
  An edited migration is refused: when the recorded checksum of a migration of the set differs
  from its own, no run of the set succeeds, and whatever it applies, no recorded
  checksum changes.
\<close>

theorem drifted_migration_refused:
  assumes "m \<in> set (set_migrations s)" and "recorded_checksum db (mig_key m) = Some c"
    and "c \<noteq> checksum sha m"
  shows "\<exists>db' e. apply_migrations sha exec s db = (db', Inl e) \<and>
    (\<forall>k x. recorded_checksum db k = Some x \<longrightarrow> recorded_checksum db' k = Some x)"
proof -
  obtain db' r where run: "apply_migrations sha exec s db = (db', r)"
    by (cases "apply_migrations sha exec s db")
  have keeps: "recorded_checksum db' k = Some x" if "recorded_checksum db k = Some x" for k x
  proof (cases "ordered s")
    case (Inl e)
    with run that show ?thesis by (simp add: apply_migrations_def)
  next
    case (Inr ms)
    with run have "fst (migration_run_of sha exec db ms) = db'"
      by (auto simp: apply_migrations_def migration_run_of_def)
    with central_run.run_keeps_recorded [OF that, of sha exec ms] show ?thesis by simp
  qed
  show ?thesis
  proof (cases r)
    case (Inr rep)
    from apply_migrations_recorded [of sha exec s db db' rep m] run Inr assms keeps show ?thesis
      by auto
  qed (use run keeps in blast)
qed

theorem drifted_migration_refused_witness:
  "\<exists>db' e. apply_migrations (\<lambda>b. b) run_sql sample_set
     (sample_central\<lparr>schema_migrations := [\<lparr>row_module = ''core'', row_version = 1, row_name = ''c'',
        row_checksum = ''old''\<rparr>]\<rparr>) = (db', Inl e)"
proof -
  let ?db = "sample_central\<lparr>schema_migrations := [\<lparr>row_module = ''core'', row_version = 1, row_name = ''c'',
        row_checksum = ''old''\<rparr>]\<rparr>"
  let ?m = "\<lparr>mig_module = ''core'', mig_version = 1, mig_name = ''c'', mig_sql = ''C''\<rparr>"
  have m: "?m \<in> set (set_migrations sample_set)" by (simp add: sample_set_def)
  have r: "recorded_checksum ?db (mig_key ?m) = Some ''old''"
    by (simp add: recorded_checksum_def row_key_def mig_key_def)
  have d: "''old'' \<noteq> checksum (\<lambda>b. b) ?m"
    by (auto simp: checksum_def bytes_of_def hex_of_def hex2_def)
  from drifted_migration_refused [OF m r d, of run_sql] show ?thesis by blast
qed

end
