(* ===== verification/Upgrade.thy ===== *)
theory Upgrade
  imports Config Core_Manifest Central_Migrations Session_Db
begin

text \<open>
  \<open>crates/assistant-upgrade\<close>: the inventory of an instance (\<open>inventory.rs\<close>), the upgrade run over the
  central database and every session (\<open>runner.rs\<close>), and the runtime compatibility matrix (\<open>matrix.rs\<close>).
  The directory tree is part of the instance; resolving symbolic links (\<open>fs::canonicalize\<close>) is the
  argument \<open>canon\<close>. Failing reads of directories are not modelled.
\<close>

section \<open>Instances\<close>

datatype upgrade_error =
    UpgradeDb db_error
  | UpgradeSession session_error
  | UpgradeLoad
  | UpgradeIo path
  | InstanceNotInitialized path
  | WriteOutsideRoot path

text \<open>A directory entry: its name (\<open>None\<close> when it is not valid UTF-8) and whether it is a directory.\<close>

record dir_entry =
  de_name :: "string option"
  de_is_dir :: bool

record 'd inst =
  i_root :: path
  i_central :: "'d central option"
  i_tree :: "(dir_entry \<times> dir_entry list) list option"
  i_session :: "string \<times> string \<Rightarrow> session"

definition discover_in_group :: "path \<Rightarrow> dir_entry \<times> dir_entry list \<Rightarrow> (string \<times> string) list" where
  "discover_in_group root g =
     (if \<not> de_is_dir (fst g) then []
      else (case de_name (fst g) of
              None \<Rightarrow> []
            | Some gid \<Rightarrow>
                List.map_filter (\<lambda>e.
                  if \<not> de_is_dir e then None
                  else (case de_name e of
                          None \<Rightarrow> None
                        | Some s \<Rightarrow>
                            (case derive_layout (sessions_dir root) gid s of
                               Inl _ \<Rightarrow> None
                             | Inr _ \<Rightarrow> Some (gid, s)))) (snd g)))"

definition discover_sessions :: "path \<Rightarrow> (dir_entry \<times> dir_entry list) list option \<Rightarrow> (string \<times> string) list" where
  "discover_sessions root tree =
     (case tree of None \<Rightarrow> [] | Some groups \<Rightarrow> sort (concat (map (discover_in_group root) groups)))"

record session_schema =
  sx_group :: string
  sx_session :: string
  sx_inbound :: "nat option"
  sx_outbound :: "nat option"

record instance_inventory =
  iv_central_present :: bool
  iv_recorded :: "version_record option"
  iv_applied :: "(string \<times> nat) list"
  iv_sessions :: "session_schema list"

definition read_session_version :: "'t session_db option \<Rightarrow> upgrade_error + nat option" where
  "read_session_version file =
     (case file of
        None \<Rightarrow> Inr None
      | Some db \<Rightarrow> rbind (map_err UpgradeSession (schema_version db)) (\<lambda>v. Inr (Some v)))"

definition inventory_session :: "'d inst \<Rightarrow> string \<times> string \<Rightarrow> upgrade_error + session_schema" where
  "inventory_session i k =
     rbind (read_session_version (inbound_db (i_session i k))) (\<lambda>a.
     rbind (read_session_version (outbound_db (i_session i k))) (\<lambda>b.
       Inr \<lparr>sx_group = fst k, sx_session = snd k, sx_inbound = a, sx_outbound = b\<rparr>))"

definition inventory :: "'d inst \<Rightarrow> upgrade_error + instance_inventory" where
  "inventory i =
     rbind (collect_results (map (inventory_session i) (discover_sessions (i_root i) (i_tree i)))) (\<lambda>ss.
       Inr (case i_central i of
              None \<Rightarrow> \<lparr>iv_central_present = False, iv_recorded = None, iv_applied = [], iv_sessions = ss\<rparr>
            | Some db \<Rightarrow> \<lparr>iv_central_present = True, iv_recorded = read_version_record db,
                iv_applied = applied_versions db, iv_sessions = ss\<rparr>))"

section \<open>The run\<close>

record session_upgrade =
  su_group :: string
  su_session :: string
  su_inbound :: "nat list"
  su_outbound :: "nat list"

record upgrade_report =
  ur_dry_run :: bool
  ur_applied :: "(string \<times> nat) list"
  ur_skipped :: "(string \<times> nat) list"
  ur_sessions :: "session_upgrade list"

definition guard_under_root :: "(path \<Rightarrow> path option) \<Rightarrow> path \<Rightarrow> path \<Rightarrow> upgrade_error + unit" where
  "guard_under_root canon root p =
     (if ''..'' \<in> set p then Inl (WriteOutsideRoot p)
      else rbind (ok_or (UpgradeIo root) (canon root)) (\<lambda>r.
           rbind (ok_or (UpgradeIo p) (canon p)) (\<lambda>c.
             if starts_with c r then Inr () else Inl (WriteOutsideRoot p))))"

definition recorded_max :: "'d central \<Rightarrow> string \<Rightarrow> nat" where
  "recorded_max db m = (case map_of (applied_versions db) m of None \<Rightarrow> 0 | Some v \<Rightarrow> v)"

definition plan_central ::
  "migration_set \<Rightarrow> 'd central \<Rightarrow> upgrade_error + (string \<times> nat) list \<times> (string \<times> nat) list" where
  "plan_central s db =
     rbind (map_err UpgradeDb (ordered s)) (\<lambda>ms.
       Inr (map mig_key (filter (\<lambda>m. recorded_max db (mig_module m) < mig_version m) ms),
            map mig_key (filter (\<lambda>m. \<not> recorded_max db (mig_module m) < mig_version m) ms)))"

definition apply_central ::
  "(nat list \<Rightarrow> nat list) \<Rightarrow> (string \<Rightarrow> 'd \<Rightarrow> 'd option) \<Rightarrow> string \<Rightarrow> migration_set \<Rightarrow> version_record
   \<Rightarrow> 'd central \<Rightarrow> 'd central \<times> (upgrade_error + (string \<times> nat) list \<times> (string \<times> nat) list)" where
  "apply_central sha exec now s rec db =
     (case apply_migrations sha exec s db of
        (db1, Inl e) \<Rightarrow> (db1, Inl (UpgradeDb e))
      | (db1, Inr rep) \<Rightarrow> (record_versions now rec db1, Inr (applied rep, skipped rep)))"

definition sweep_file ::
  "(nat list \<Rightarrow> nat list) \<Rightarrow> (string \<Rightarrow> 't \<Rightarrow> 't option) \<Rightarrow> (upgrade_error + unit) \<Rightarrow> db_kind \<Rightarrow> bool
   \<Rightarrow> 't session_db option \<Rightarrow> 't session_db option \<times> (upgrade_error + nat list)" where
  "sweep_file sha exec guarded kind dry file =
     (case file of
        None \<Rightarrow> (file, Inr [])
      | Some db \<Rightarrow>
          if dry
          then (file, rbind (map_err UpgradeSession (schema_version db)) (\<lambda>current.
                 Inr (filter (\<lambda>v. current < v) (map sm_version (migrations_for kind)))))
          else (case guarded of
                  Inl e \<Rightarrow> (file, Inl e)
                | Inr _ \<Rightarrow>
                    (case lazy_migrate sha exec kind (migrations_for kind) db of
                       (db', r) \<Rightarrow> (Some db', map_err UpgradeSession r))))"

definition sweep_session ::
  "session_env \<Rightarrow> (path \<Rightarrow> path option) \<Rightarrow> path \<Rightarrow> path \<Rightarrow> bool \<Rightarrow> session
   \<Rightarrow> session \<times> (upgrade_error + nat list \<times> nat list)" where
  "sweep_session env canon root dir dry s =
     (case sweep_file (env_sha env) (env_exec_in env) (guard_under_root canon root (db_path dir Inbound))
             Inbound dry (inbound_db s) of
        (f, r) \<Rightarrow>
          (let s1 = s\<lparr>inbound_db := f\<rparr>
           in case r of
                Inl e \<Rightarrow> (s1, Inl e)
              | Inr a \<Rightarrow>
                  (case sweep_file (env_sha env) (env_exec_out env)
                          (guard_under_root canon root (db_path dir Outbound)) Outbound dry (outbound_db s1) of
                     (f2, r2) \<Rightarrow> (s1\<lparr>outbound_db := f2\<rparr>, rbind r2 (\<lambda>b. Inr (a, b))))))"

fun sweep_sessions ::
  "session_env \<Rightarrow> (path \<Rightarrow> path option) \<Rightarrow> path \<Rightarrow> bool \<Rightarrow> (string \<times> string) list
   \<Rightarrow> (string \<times> string \<Rightarrow> session) \<Rightarrow> (string \<times> string \<Rightarrow> session) \<times> (upgrade_error + session_upgrade list)" where
  "sweep_sessions env canon root dry [] st = (st, Inr [])"
| "sweep_sessions env canon root dry (k # ks) st =
     (case sweep_session env canon root (sessions_dir root @ [fst k, snd k]) dry (st k) of
        (s, Inl e) \<Rightarrow> (st(k := s), Inl e)
      | (s, Inr (a, b)) \<Rightarrow>
          (case sweep_sessions env canon root dry ks (st(k := s)) of
             (st', r) \<Rightarrow> (st', rbind r (\<lambda>us.
               Inr (if a \<noteq> [] \<or> b \<noteq> []
                    then \<lparr>su_group = fst k, su_session = snd k, su_inbound = a, su_outbound = b\<rparr> # us
                    else us)))))"

definition upgrade_instance ::
  "(nat list \<Rightarrow> nat list) \<Rightarrow> (string \<Rightarrow> 'd \<Rightarrow> 'd option) \<Rightarrow> session_env \<Rightarrow> (path \<Rightarrow> path option) \<Rightarrow> string
   \<Rightarrow> migration_set \<Rightarrow> version_record \<Rightarrow> bool \<Rightarrow> 'd inst \<Rightarrow> 'd inst \<times> (upgrade_error + upgrade_report)" where
  "upgrade_instance sha exec env canon now s rec dry i =
     (case i_central i of
        None \<Rightarrow> (i, Inl (InstanceNotInitialized (central_db_path (i_root i))))
      | Some db \<Rightarrow>
          (case guard_under_root canon (i_root i) (central_db_path (i_root i)) of
             Inl e \<Rightarrow> (i, Inl e)
           | Inr _ \<Rightarrow>
               (case (if dry then (db, plan_central s db) else apply_central sha exec now s rec db) of
                  (db1, Inl e) \<Rightarrow> (i\<lparr>i_central := Some db1\<rparr>, Inl e)
                | (db1, Inr (a, sk)) \<Rightarrow>
                    (case sweep_sessions env canon (i_root i) dry (discover_sessions (i_root i) (i_tree i)) (i_session i) of
                       (st, r) \<Rightarrow>
                         (i\<lparr>i_central := Some db1, i_session := st\<rparr>,
                          rbind r (\<lambda>us. Inr \<lparr>ur_dry_run = dry, ur_applied = a, ur_skipped = sk, ur_sessions = us\<rparr>))))))"

section \<open>The runtime matrix\<close>

record runtime_versions =
  rv_platform :: string
  rv_image_contract :: string
  rv_profile_id :: string
  rv_profile_version :: string

datatype compat_code =
    PlatformVersionMismatch
  | ContainerImageMismatch
  | OrchestratorProfileMismatch
  | InstanceNewerThanRunner
  | UnsupportedSessionSchema

type_synonym compat_finding = "compat_code \<times> string"

text \<open>A version is one or more \<open>u64\<close> numbers separated by dots, compared number by number.\<close>

definition parse_version :: "string \<Rightarrow> nat list option" where
  "parse_version v = collect_options (map (parse_unsigned (2 ^ 64)) (split_on (CHR ''.'') v))"

text \<open>\<open>{:?}\<close> of a string is the argument \<open>dbg\<close>.\<close>

definition downgrade_findings :: "(string \<Rightarrow> string) \<Rightarrow> version_record option \<Rightarrow> string \<Rightarrow> compat_finding list" where
  "downgrade_findings dbg recorded running =
     (case recorded of
        None \<Rightarrow> []
      | Some vr \<Rightarrow>
          (case (parse_version (platform_version vr), parse_version running) of
             (Some rec, Some run) \<Rightarrow>
               if rec > run
               then [(InstanceNewerThanRunner, ''instance was written by platform '' @ platform_version vr
                       @ '' which is newer than the running platform '' @ running @ ''; refusing to downgrade'')]
               else []
           | _ \<Rightarrow> [(InstanceNewerThanRunner, ''cannot compare instance platform version ''
                    @ dbg (platform_version vr) @ '' with running platform '' @ dbg running
                    @ ''; refusing until the instance is verified not newer than the runner'')]))"

definition schema_finding :: "session_schema \<Rightarrow> string \<Rightarrow> nat option \<Rightarrow> nat \<Rightarrow> compat_finding list" where
  "schema_finding sx name found supported =
     (case found of
        None \<Rightarrow> []
      | Some v \<Rightarrow>
          if supported < v
          then [(UnsupportedSessionSchema, ''session '' @ sx_group sx @ ''/'' @ sx_session sx @ '' '' @ name
                  @ '' schema v'' @ dec_of_nat v @ '' exceeds supported v'' @ dec_of_nat supported)]
          else [])"

definition evaluate_runtime ::
  "(string \<Rightarrow> string) \<Rightarrow> platform_manifest \<Rightarrow> product_manifest \<Rightarrow> instance_inventory \<Rightarrow> runtime_versions
   \<Rightarrow> compat_finding list" where
  "evaluate_runtime dbg platform product iv rt =
     (if rv_platform rt \<noteq> pm_platform_version platform
      then [(PlatformVersionMismatch, ''running platform '' @ rv_platform rt @ '' does not match manifest platform ''
              @ pm_platform_version platform)] else [])
     @ (if rv_image_contract rt \<noteq> pm_image_contract_version platform
        then [(ContainerImageMismatch, ''container image contract '' @ rv_image_contract rt
                @ '' does not match manifest '' @ pm_image_contract_version platform)] else [])
     @ (if rv_profile_id rt \<noteq> pr_profile_id product \<or> rv_profile_version rt \<noteq> pr_profile_version product
        then [(OrchestratorProfileMismatch, ''running profile '' @ rv_profile_id rt @ '':'' @ rv_profile_version rt
                @ '' does not match product profile '' @ pr_profile_id product @ '':'' @ pr_profile_version product)]
        else [])
     @ downgrade_findings dbg (iv_recorded iv) (rv_platform rt)
     @ concat (map (\<lambda>sx. schema_finding sx ''inbound'' (sx_inbound sx) current_inbound_version
                       @ schema_finding sx ''outbound'' (sx_outbound sx) current_outbound_version) (iv_sessions iv))"

record compat_matrix =
  cm_ok :: bool
  cm_repo :: compatibility_report
  cm_findings :: "compat_finding list"

text \<open>The manifests and contracts are loaded by the caller of the model.\<close>

definition compatibility_matrix ::
  "(string \<Rightarrow> string) \<Rightarrow> platform_manifest \<Rightarrow> prompt_fragment list \<Rightarrow> product_manifest
   \<Rightarrow> (string \<Rightarrow> string set option) \<Rightarrow> 'd inst \<Rightarrow> runtime_versions \<Rightarrow> upgrade_error + compat_matrix" where
  "compatibility_matrix dbg platform fragments product contracts i rt =
     (let repo = build_report platform fragments product contracts
      in rbind (inventory i) (\<lambda>iv.
           let findings = evaluate_runtime dbg platform product iv rt
           in Inr \<lparr>cm_ok = (cr_ok repo \<and> findings = []), cm_repo = repo, cm_findings = findings\<rparr>))"

record conformance_report =
  cf_ok :: bool
  cf_matrix :: compat_matrix
  cf_preview :: "upgrade_report option"

definition conformance ::
  "(nat list \<Rightarrow> nat list) \<Rightarrow> (string \<Rightarrow> 'd \<Rightarrow> 'd option) \<Rightarrow> session_env \<Rightarrow> (path \<Rightarrow> path option) \<Rightarrow> string
   \<Rightarrow> migration_set \<Rightarrow> version_record \<Rightarrow> (string \<Rightarrow> string) \<Rightarrow> platform_manifest \<Rightarrow> prompt_fragment list
   \<Rightarrow> product_manifest \<Rightarrow> (string \<Rightarrow> string set option) \<Rightarrow> runtime_versions \<Rightarrow> 'd inst
   \<Rightarrow> upgrade_error + conformance_report" where
  "conformance sha exec env canon now s rec dbg platform fragments product contracts rt i =
     rbind (compatibility_matrix dbg platform fragments product contracts i rt) (\<lambda>m.
     rbind (if i_central i = None then Inr None
            else rbind (snd (upgrade_instance sha exec env canon now s rec True i)) (\<lambda>rep. Inr (Some rep))) (\<lambda>preview.
       Inr \<lparr>cf_ok = cm_ok m, cf_matrix = m, cf_preview = preview\<rparr>))"

section \<open>Dry runs\<close>

lemma map_err_Inr [res_simps]: "map_err g r = Inr x \<longleftrightarrow> r = Inr x"
  by (cases r) auto

lemma sweep_file_dry: "fst (sweep_file sha exec guarded kind True file) = file"
  by (simp add: sweep_file_def split: option.splits)

lemma sweep_session_dry: "fst (sweep_session env canon root dir True s) = s"
proof -
  obtain r where r: "sweep_file (env_sha env) (env_exec_in env) (guard_under_root canon root (db_path dir Inbound))
      Inbound True (inbound_db s) = (inbound_db s, r)"
    using sweep_file_dry by (metis prod.collapse)
  obtain r2 where "sweep_file (env_sha env) (env_exec_out env) (guard_under_root canon root (db_path dir Outbound))
      Outbound True (outbound_db s) = (outbound_db s, r2)"
    using sweep_file_dry by (metis prod.collapse)
  with r show ?thesis by (cases r) (simp_all add: sweep_session_def)
qed

lemma sweep_sessions_dry_Cons:
  "sweep_sessions env canon root True (k # ks) st =
     (case snd (sweep_session env canon root (sessions_dir root @ [fst k, snd k]) True (st k)) of
        Inl e \<Rightarrow> (st, Inl e)
      | Inr (a, b) \<Rightarrow>
          (case sweep_sessions env canon root True ks st of
             (st', r) \<Rightarrow> (st', rbind r (\<lambda>us.
               Inr (if a \<noteq> [] \<or> b \<noteq> []
                    then \<lparr>su_group = fst k, su_session = snd k, su_inbound = a, su_outbound = b\<rparr> # us
                    else us)))))"
proof -
  obtain r where "sweep_session env canon root (sessions_dir root @ [fst k, snd k]) True (st k) = (st k, r)"
    using sweep_session_dry by (metis prod.collapse)
  then show ?thesis by (cases r) (simp_all add: fun_upd_triv split: prod.splits)
qed

lemma sweep_sessions_dry: "fst (sweep_sessions env canon root True ks st) = st"
proof (induction ks)
  case (Cons k ks)
  then show ?case unfolding sweep_sessions_dry_Cons by (auto split: prod.splits sum.splits)
qed simp

text \<open>What a dry run reports depends on the sessions it looks at.\<close>

lemma sweep_sessions_dry_cong:
  "\<forall>k\<in>set ks. st k = st' k \<Longrightarrow>
   snd (sweep_sessions env canon root True ks st) = snd (sweep_sessions env canon root True ks st')"
proof (induction ks)
  case (Cons k ks)
  then show ?case unfolding sweep_sessions_dry_Cons by (auto split: prod.splits sum.splits)
qed simp

lemma upgrade_dry_unchanged: "fst (upgrade_instance sha exec env canon now s rec True i) = i"
proof (cases "i_central i")
  case None
  then show ?thesis by (simp add: upgrade_instance_def)
next
  case (Some db)
  then have same: "i\<lparr>i_central := Some db\<rparr> = i" "i\<lparr>i_central := Some db, i_session := i_session i\<rparr> = i" by simp_all
  show ?thesis
    using Some sweep_sessions_dry [of env canon "i_root i" "discover_sessions (i_root i) (i_tree i)" "i_session i"]
    by (auto simp: upgrade_instance_def same split: sum.splits prod.splits)
qed

text \<open>Where the recorded versions are an initial segment, the high-water mark decides what is pending.\<close>

definition central_contiguous :: "migration_set \<Rightarrow> 'd central \<Rightarrow> bool" where
  "central_contiguous s db \<longleftrightarrow>
     (\<forall>m\<in>set (set_migrations s).
        recorded_checksum db (mig_key m) = None \<longleftrightarrow> recorded_max db (mig_module m) < mig_version m)"

definition file_contiguous :: "db_kind \<Rightarrow> 't session_db option \<Rightarrow> bool" where
  "file_contiguous kind file \<longleftrightarrow>
     (case file of
        None \<Rightarrow> True
      | Some db \<Rightarrow> (\<exists>mr. meta_table db = Some (Some mr)
          \<and> (\<forall>m\<in>set (migrations_for kind). session_recorded db (sm_version m) = None \<longleftrightarrow> meta_version mr < sm_version m)))"

definition session_contiguous :: "session \<Rightarrow> bool" where
  "session_contiguous s \<longleftrightarrow> file_contiguous Inbound (inbound_db s) \<and> file_contiguous Outbound (outbound_db s)"

lemma plan_central_predicts:
  assumes "central_contiguous s db" "apply_central sha exec now s rec db = (db', Inr (a, sk))"
  shows "plan_central s db = Inr (a, sk)"
proof -
  obtain rep where rep: "apply_migrations sha exec s db = (fst (apply_migrations sha exec s db), Inr rep)"
      "a = applied rep" "sk = skipped rep"
    using assms(2) by (auto simp: apply_central_def split: prod.splits sum.splits)
  from apply_migrations_run [OF rep(1)] obtain ms where ms: "ordered s = Inr ms"
    and loop: "apply_loop sha exec empty_report db ms = (fst (apply_migrations sha exec s db), Inr rep)" by blast
  have part: "applied rep = filter (\<lambda>k. recorded_checksum db k = None) (map mig_key ms)"
    "skipped rep = filter (\<lambda>k. recorded_checksum db k \<noteq> None) (map mig_key ms)"
    using apply_loop_partition [OF loop ordered_spec(3) [OF ms]] by (simp_all add: empty_report_def)
  have mem: "set ms = set (set_migrations s)" using ordered_spec(1) [OF ms] by (metis set_mset_mset)
  have pend: "recorded_checksum db (mig_key m) = None \<longleftrightarrow> recorded_max db (mig_module m) < mig_version m"
    if "m \<in> set ms" for m
    using assms(1) that mem by (simp add: central_contiguous_def)
  have "filter (\<lambda>m. recorded_max db (mig_module m) < mig_version m) ms
      = filter ((\<lambda>k. recorded_checksum db k = None) \<circ> mig_key) ms"
    by (rule filter_cong) (simp_all add: pend)
  moreover have "filter (\<lambda>m. \<not> recorded_max db (mig_module m) < mig_version m) ms
      = filter ((\<lambda>k. recorded_checksum db k \<noteq> None) \<circ> mig_key) ms"
    by (rule filter_cong) (simp_all only: pend o_apply not_not refl HOL.simp_thms)
  ultimately have "filter (\<lambda>m. recorded_max db (mig_module m) < mig_version m) ms
      = filter ((\<lambda>k. recorded_checksum db k = None) \<circ> mig_key) ms
    \<and> filter (\<lambda>m. \<not> recorded_max db (mig_module m) < mig_version m) ms
      = filter ((\<lambda>k. recorded_checksum db k \<noteq> None) \<circ> mig_key) ms" by blast
  with ms part rep(2,3) show ?thesis by (simp add: plan_central_def filter_map)
qed

lemma migrate_loop_applied:
  assumes "migrate_loop sha exec kind done db ms = (db', Inr vs)" "distinct (map sm_version ms)"
  shows "vs = done @ filter (\<lambda>v. session_recorded db v = None) (map sm_version ms)"
  using assms
proof (induction ms arbitrary: "done" db)
  case (Cons m ms)
  show ?case
  proof (cases "session_recorded db (sm_version m)")
    case None
    with Cons.prems(1) obtain db1 where db1: "session_apply1 sha exec m db = Some db1"
      and rest: "migrate_loop sha exec kind (done @ [sm_version m]) db1 ms = (db', Inr vs)"
      by (auto split: option.splits)
    have "session_recorded db1 v = session_recorded db v" if "v \<in> set (map sm_version ms)" for v
    proof -
      have "v \<noteq> sm_version m" using that Cons.prems(2) by (metis distinct.simps(2) list.simps(9))
      then show ?thesis using session_run.apply1_records [OF db1 None, of v] by simp
    qed
    then have "filter (\<lambda>v. session_recorded db1 v = None) (map sm_version ms)
        = filter (\<lambda>v. session_recorded db v = None) (map sm_version ms)"
      by (auto intro!: filter_cong)
    with Cons.IH [OF rest] Cons.prems(2) None show ?thesis by simp
  next
    case (Some c)
    with Cons.prems have "migrate_loop sha exec kind done db ms = (db', Inr vs)" by (auto split: if_splits)
    from Cons.IH [OF this] Cons.prems(2) Some show ?thesis by simp
  qed
qed simp

lemma migrations_for_distinct: "distinct (map sm_version (migrations_for kind))"
  using check_sequence_shipped [of kind] by (simp add: check_sequence_Inr del: upt_Suc)

lemma sweep_file_predicts:
  assumes "file_contiguous kind file" "sweep_file sha exec guarded kind False file = (file', Inr vs)"
  shows "sweep_file sha exec guarded kind True file = (file, Inr vs)"
proof (cases "file")
  case None
  then show ?thesis using assms(2) by (simp add: sweep_file_def)
next
  case (Some db)
  from assms(1) Some obtain mr where mr: "meta_table db = Some (Some mr)"
    "\<forall>m\<in>set (migrations_for kind). session_recorded db (sm_version m) = None \<longleftrightarrow> meta_version mr < sm_version m"
    by (auto simp: file_contiguous_def)
  from assms(2) Some obtain db' where "lazy_migrate sha exec kind (migrations_for kind) db = (db', Inr vs)"
    by (auto simp: sweep_file_def res_simps split: sum.splits prod.splits)
  then obtain db1 where loop: "migrate_loop sha exec kind [] (ensure_meta kind db) (migrations_for kind) = (db1, Inr vs)"
    by (rule lazy_migrate_Inr)
  have "vs = filter (\<lambda>v. session_recorded db v = None) (map sm_version (migrations_for kind))"
    using migrate_loop_applied [OF loop migrations_for_distinct] mr(1) by (simp add: ensure_meta_id)
  also have "\<dots> = filter (\<lambda>v. meta_version mr < v) (map sm_version (migrations_for kind))"
    using mr(2) by (auto intro!: filter_cong)
  finally show ?thesis using Some mr(1) by (simp add: sweep_file_def schema_version_def)
qed

lemma sweep_session_predicts:
  assumes "session_contiguous s" "sweep_session env canon root dir False s = (s', Inr ab)"
  shows "sweep_session env canon root dir True s = (s, Inr ab)"
proof -
  obtain f a where f: "sweep_file (env_sha env) (env_exec_in env) (guard_under_root canon root (db_path dir Inbound))
      Inbound False (inbound_db s) = (f, Inr a)"
    and rest: "sweep_file (env_sha env) (env_exec_out env) (guard_under_root canon root (db_path dir Outbound))
      Outbound False (outbound_db s) = (outbound_db s', Inr (snd ab))" and a: "fst ab = a"
    using assms(2) by (auto simp: sweep_session_def Let_def res_simps split: prod.splits sum.splits)
  have "sweep_file (env_sha env) (env_exec_in env) (guard_under_root canon root (db_path dir Inbound))
      Inbound True (inbound_db s) = (inbound_db s, Inr a)"
    using sweep_file_predicts [OF _ f] assms(1) by (simp add: session_contiguous_def)
  moreover have "sweep_file (env_sha env) (env_exec_out env) (guard_under_root canon root (db_path dir Outbound))
      Outbound True (outbound_db s) = (outbound_db s, Inr (snd ab))"
    using sweep_file_predicts [OF _ rest] assms(1) by (simp add: session_contiguous_def)
  ultimately show ?thesis using a by (cases ab) (simp add: sweep_session_def)
qed



lemma sweep_sessions_predicts:
  assumes "sweep_sessions env canon root False ks st = (st', Inr us)" "distinct ks" "\<forall>k\<in>set ks. session_contiguous (st k)"
  shows "snd (sweep_sessions env canon root True ks st) = Inr us"
  using assms
proof (induction ks arbitrary: st us)
  case (Cons k ks)
  obtain s a b where s: "sweep_session env canon root (sessions_dir root @ [fst k, snd k]) False (st k) = (s, Inr (a, b))"
    using Cons.prems(1) by (auto split: prod.splits sum.splits)
  then obtain us' where us': "sweep_sessions env canon root False ks (st(k := s)) = (st', Inr us')"
      "us = (if a \<noteq> [] \<or> b \<noteq> [] then \<lparr>su_group = fst k, su_session = snd k, su_inbound = a, su_outbound = b\<rparr> # us' else us')"
    using Cons.prems(1) by (auto simp: res_simps split: prod.splits)
  have same: "\<forall>k'\<in>set ks. (st(k := s)) k' = st k'" using Cons.prems(2) by auto
  have "snd (sweep_sessions env canon root True ks (st(k := s))) = Inr us'"
    by (rule Cons.IH [OF us'(1)]) (use Cons.prems(2,3) same in auto)
  then have rest: "snd (sweep_sessions env canon root True ks st) = Inr us'"
    using sweep_sessions_dry_cong [OF same] by metis
  have "sweep_session env canon root (sessions_dir root @ [fst k, snd k]) True (st k) = (st k, Inr (a, b))"
    using sweep_session_predicts [OF _ s] Cons.prems(3) by simp
  with rest show ?case using us'(2) unfolding sweep_sessions_dry_Cons
    by (auto split: prod.splits)
qed simp

section \<open>Reruns\<close>

lemma record_versions_recorded [simp]: "recorded_checksum (record_versions now rec db) k = recorded_checksum db k"
  by (simp add: record_versions_def recorded_checksum_def)

lemma apply_central_again:
  assumes "apply_central sha exec now s rec db = (db', Inr (a, sk))"
  shows "\<exists>ms. ordered s = Inr ms
    \<and> apply_central sha exec now' s rec' db' = (record_versions now' rec' db', Inr ([], map mig_key ms))"
proof -
  obtain db1 rep where rep: "apply_migrations sha exec s db = (db1, Inr rep)" and db': "db' = record_versions now rec db1"
    using assms by (auto simp: apply_central_def split: prod.splits sum.splits)
  from apply_migrations_run [OF rep] obtain ms where ms: "ordered s = Inr ms" by blast
  have "set ms = set (set_migrations s)" using ordered_spec(1) [OF ms] by (metis set_mset_mset)
  then have "\<forall>m\<in>set ms. recorded_checksum db' (mig_key m) = Some (checksum sha m)"
    using apply_migrations_recorded [OF rep] by (simp add: db')
  from apply_loop_recorded_noop [OF this] ms show ?thesis
    by (simp add: apply_central_def apply_migrations_def empty_report_def)
qed

definition file_current :: "(nat list \<Rightarrow> nat list) \<Rightarrow> db_kind \<Rightarrow> 't session_db option \<Rightarrow> bool" where
  "file_current sha kind file \<longleftrightarrow> (case file of None \<Rightarrow> True | Some db \<Rightarrow> up_to_date sha (migrations_for kind) db)"

definition session_current :: "session_env \<Rightarrow> session \<Rightarrow> bool" where
  "session_current env s \<longleftrightarrow>
     file_current (env_sha env) Inbound (inbound_db s) \<and> file_current (env_sha env) Outbound (outbound_db s)"

lemma sweep_file_current:
  "sweep_file sha exec guarded kind False file = (file', Inr vs) \<Longrightarrow> file_current sha kind file'"
  using lazy_migrate_up_to_date [of sha exec kind "migrations_for kind"]
  by (auto simp: sweep_file_def file_current_def res_simps split: option.splits sum.splits prod.splits)

lemma sweep_file_again:
  "file_current sha kind file \<Longrightarrow> file = None \<or> guarded = Inr () \<Longrightarrow>
   sweep_file sha exec guarded kind False file = (file, Inr [])"
  using up_to_date_noop [OF check_sequence_shipped [of kind], of sha _ exec]
  by (auto simp: sweep_file_def file_current_def split: option.splits)

lemma sweep_file_None: "sweep_file sha exec guarded kind False file = (file', Inr vs) \<Longrightarrow>
   (file' = None \<longleftrightarrow> file = None) \<and> (file = None \<or> guarded = Inr ())"
  by (auto simp: sweep_file_def split: option.splits sum.splits prod.splits)

lemma sweep_session_again:
  assumes "sweep_session env canon root dir False s = (s', Inr ab)"
  shows "session_current env s' \<and> sweep_session env canon root dir False s' = (s', Inr ([], []))"
proof -
  let ?gi = "guard_under_root canon root (db_path dir Inbound)"
  let ?go = "guard_under_root canon root (db_path dir Outbound)"
  obtain a where f: "sweep_file (env_sha env) (env_exec_in env) ?gi Inbound False (inbound_db s) = (inbound_db s', Inr a)"
    and g: "sweep_file (env_sha env) (env_exec_out env) ?go Outbound False (outbound_db s) = (outbound_db s', Inr (snd ab))"
    using assms by (auto simp: sweep_session_def Let_def res_simps split: prod.splits sum.splits)
  have "sweep_file (env_sha env) (env_exec_in env) ?gi Inbound False (inbound_db s') = (inbound_db s', Inr [])"
    by (rule sweep_file_again [OF sweep_file_current [OF f]]) (use sweep_file_None [OF f] in auto)
  moreover have "sweep_file (env_sha env) (env_exec_out env) ?go Outbound False (outbound_db s') = (outbound_db s', Inr [])"
    by (rule sweep_file_again [OF sweep_file_current [OF g]]) (use sweep_file_None [OF g] in auto)
  ultimately show ?thesis using sweep_file_current [OF f] sweep_file_current [OF g]
    by (simp add: sweep_session_def session_current_def)
qed

text \<open>A session that a sweep leaves as it is stays so through the rest of the run.\<close>

abbreviation settled_session :: "session_env \<Rightarrow> (path \<Rightarrow> path option) \<Rightarrow> path \<Rightarrow> string \<times> string \<Rightarrow> session \<Rightarrow> bool" where
  "settled_session env canon root k s \<equiv>
     sweep_session env canon root (sessions_dir root @ [fst k, snd k]) False s = (s, Inr ([], []))"

lemma sweep_sessions_keeps:
  "settled_session env canon root k (st k) \<Longrightarrow> sweep_sessions env canon root False ks st = (st', Inr us) \<Longrightarrow>
   settled_session env canon root k (st' k)"
proof (induction ks arbitrary: st us)
  case (Cons k' ks)
  obtain s a b where s: "sweep_session env canon root (sessions_dir root @ [fst k', snd k']) False (st k') = (s, Inr (a, b))"
    using Cons.prems(2) by (auto split: prod.splits sum.splits)
  then obtain us' where us': "sweep_sessions env canon root False ks (st(k' := s)) = (st', Inr us')"
    using Cons.prems(2) by (auto simp: res_simps split: prod.splits)
  have "settled_session env canon root k ((st(k' := s)) k)"
    using Cons.prems(1) sweep_session_again [OF s] by (cases "k = k'") auto
  from Cons.IH [OF this us'] show ?case .
qed simp

lemma sweep_sessions_settles:
  "sweep_sessions env canon root False ks st = (st', Inr us) \<Longrightarrow> \<forall>k\<in>set ks. settled_session env canon root k (st' k)"
proof (induction ks arbitrary: st us)
  case (Cons k ks)
  obtain s a b where s: "sweep_session env canon root (sessions_dir root @ [fst k, snd k]) False (st k) = (s, Inr (a, b))"
    using Cons.prems by (auto split: prod.splits sum.splits)
  then obtain us' where us': "sweep_sessions env canon root False ks (st(k := s)) = (st', Inr us')"
    using Cons.prems by (auto simp: res_simps split: prod.splits)
  have "settled_session env canon root k ((st(k := s)) k)" using sweep_session_again [OF s] by simp
  from sweep_sessions_keeps [OF this us'] Cons.IH [OF us'] show ?case by simp
qed simp

lemma sweep_sessions_noop:
  "\<forall>k\<in>set ks. settled_session env canon root k (st k) \<Longrightarrow> sweep_sessions env canon root False ks st = (st, Inr [])"
  by (induction ks) (simp_all add: fun_upd_triv)

section \<open>Properties\<close>

lemma upgrade_ok_cases:
  assumes "upgrade_instance sha exec env canon now s rec False i = (i', Inr rep)"
  obtains db db1 a sk st us where "i_central i = Some db"
    "guard_under_root canon (i_root i) (central_db_path (i_root i)) = Inr ()"
    "apply_central sha exec now s rec db = (db1, Inr (a, sk))"
    "sweep_sessions env canon (i_root i) False (discover_sessions (i_root i) (i_tree i)) (i_session i) = (st, Inr us)"
    "i' = i\<lparr>i_central := Some db1, i_session := st\<rparr>"
    "rep = \<lparr>ur_dry_run = False, ur_applied = a, ur_skipped = sk, ur_sessions = us\<rparr>"
  using assms
  by (auto simp: upgrade_instance_def res_simps split: option.splits sum.splits prod.splits)

text \<open>
  a dry run writes nothing and tells the truth: it leaves the instance as it was, and where the
  recorded versions of each module and each session database are an initial segment of the shipped
  ones, an upgrade that succeeds reports exactly what the dry run before it reported.
\<close>

theorem dry_run_predicts:
  assumes "upgrade_instance sha exec env canon now s rec False i = (i', Inr rep)"
    and "\<And>db. i_central i = Some db \<Longrightarrow> central_contiguous s db"
    and "distinct (discover_sessions (i_root i) (i_tree i))"
    and "\<forall>k\<in>set (discover_sessions (i_root i) (i_tree i)). session_contiguous (i_session i k)"
  shows "upgrade_instance sha exec env canon now s rec True i = (i, Inr (rep\<lparr>ur_dry_run := True\<rparr>))"
proof -
  from assms(1) obtain db db1 a sk st us where ok: "i_central i = Some db"
    "guard_under_root canon (i_root i) (central_db_path (i_root i)) = Inr ()"
    "apply_central sha exec now s rec db = (db1, Inr (a, sk))"
    "sweep_sessions env canon (i_root i) False (discover_sessions (i_root i) (i_tree i)) (i_session i) = (st, Inr us)"
    "rep = \<lparr>ur_dry_run = False, ur_applied = a, ur_skipped = sk, ur_sessions = us\<rparr>"
    by (rule upgrade_ok_cases)
  have "snd (upgrade_instance sha exec env canon now s rec True i) = Inr (rep\<lparr>ur_dry_run := True\<rparr>)"
    using ok plan_central_predicts [OF assms(2) [OF ok(1)] ok(3)] sweep_sessions_predicts [OF ok(4) assms(3,4)]
    by (auto simp: upgrade_instance_def split: prod.splits)
  with upgrade_dry_unchanged [of sha exec env canon now s rec i] show ?thesis by (metis prod.collapse)
qed

text \<open>
  C38: an upgrade is idempotent but for the identity it records: after one that succeeded, another, whatever
  identity it records and whenever it runs, succeeds, applies no central migration and touches no session. It
  leaves the folders, every session database, the migrations recorded and the tables they made as they are;
  all it rewrites are the rows of \<open>module_versions\<close>, which get the identity and the time of the second run.
\<close>

theorem upgrade_idempotent:
  assumes "upgrade_instance sha exec env canon now s rec False i = (i', Inr rep)"
  shows "\<exists>db sk. i_central i' = Some db
    \<and> upgrade_instance sha exec env canon now' s rec' False i' =
        (i'\<lparr>i_central := Some (record_versions now' rec' db)\<rparr>,
         Inr \<lparr>ur_dry_run = False, ur_applied = [], ur_skipped = sk, ur_sessions = []\<rparr>)
    \<and> set sk = mig_key ` set (set_migrations s)
    \<and> (\<exists>rows. record_versions now' rec' db = db\<lparr>module_versions := rows\<rparr>)"
proof -
  from assms obtain db db1 a sk st us where ok: "i_central i = Some db"
    "guard_under_root canon (i_root i) (central_db_path (i_root i)) = Inr ()"
    "apply_central sha exec now s rec db = (db1, Inr (a, sk))"
    "sweep_sessions env canon (i_root i) False (discover_sessions (i_root i) (i_tree i)) (i_session i) = (st, Inr us)"
    "i' = i\<lparr>i_central := Some db1, i_session := st\<rparr>"
    by (rule upgrade_ok_cases)
  from apply_central_again [OF ok(3), of now' rec'] obtain ms where ms: "ordered s = Inr ms"
    "apply_central sha exec now' s rec' db1 = (record_versions now' rec' db1, Inr ([], map mig_key ms))" by blast
  have "mig_key ` set ms = mig_key ` set (set_migrations s)" using ordered_spec(1) [OF ms(1)] by (metis set_mset_mset)
  moreover have "sweep_sessions env canon (i_root i) False (discover_sessions (i_root i) (i_tree i)) st = (st, Inr [])"
    using sweep_sessions_noop [OF sweep_sessions_settles [OF ok(4)]] .
  ultimately show ?thesis using ok(2,5) ms(2)
    by (auto simp: upgrade_instance_def record_versions_def)
qed

text \<open>
  No silent downgrade: the matrix complains that the instance is newer than the runner exactly when
  the instance has recorded a platform version and that version and the running one cannot both be
  read, or the recorded one is the greater in the order of their number lists.
\<close>

theorem downgrade_refused_iff:
  "(\<exists>msg. (InstanceNewerThanRunner, msg) \<in> set (evaluate_runtime dbg platform product iv rt))
    \<longleftrightarrow> (\<exists>vr. iv_recorded iv = Some vr
          \<and> \<not> (\<exists>a b. parse_version (platform_version vr) = Some a \<and> parse_version (rv_platform rt) = Some b \<and> a \<le> b))"
proof -
  have no: "(InstanceNewerThanRunner, msg) \<notin> set (schema_finding sx name found supported)" for msg sx name found supported
    by (simp add: schema_finding_def split: option.splits)
  have "(InstanceNewerThanRunner, msg) \<in> set (evaluate_runtime dbg platform product iv rt)
      \<longleftrightarrow> (InstanceNewerThanRunner, msg) \<in> set (downgrade_findings dbg (iv_recorded iv) (rv_platform rt))" for msg
    using no by (auto simp: evaluate_runtime_def)
  moreover have "(\<exists>msg. (InstanceNewerThanRunner, msg) \<in> set (downgrade_findings dbg (iv_recorded iv) (rv_platform rt)))
      \<longleftrightarrow> (\<exists>vr. iv_recorded iv = Some vr
          \<and> \<not> (\<exists>a b. parse_version (platform_version vr) = Some a \<and> parse_version (rv_platform rt) = Some b \<and> a \<le> b))"
  proof (cases "iv_recorded iv")
    case (Some vr)
    then show ?thesis
      by (cases "parse_version (platform_version vr)"; cases "parse_version (rv_platform rt)")
        (simp_all add: downgrade_findings_def not_le)
  qed (simp add: downgrade_findings_def)
  ultimately show ?thesis by simp
qed

section \<open>Witnesses\<close>

text \<open>An instance at the first central migration, with one session that has never been opened.\<close>

definition sample_inst :: "string list inst" where
  "sample_inst = \<lparr>i_root = [''home'', ''.assistant''], i_central = Some sample_central,
     i_tree = Some [(\<lparr>de_name = Some ''g'', de_is_dir = True\<rparr>, [\<lparr>de_name = Some ''s1'', de_is_dir = True\<rparr>])],
     i_session = (\<lambda>_. \<lparr>inbound_db = None, outbound_db = None, heartbeat = None, lock_file = False\<rparr>)\<rparr>"

definition sample_record :: version_record where
  "sample_record = \<lparr>product_id = ''p'', product_version = ''1'', platform_version = ''0.1.0'', modules = []\<rparr>"

definition sample_env :: session_env where
  "sample_env = \<lparr>env_sha = (\<lambda>b. b), env_exec_in = (\<lambda>_. Some), env_exec_out = (\<lambda>_. Some)\<rparr>"

lemma sample_discover: "discover_sessions (i_root sample_inst) (i_tree sample_inst) = [(''g'', ''s1'')]"
  by (simp add: discover_sessions_def discover_in_group_def sample_inst_def List.map_filter_def derive_layout_def
      validate_id_def id_char_def ascii_alnum_def)

lemma sample_upgrade_run:
  "\<exists>i' rep. upgrade_instance (\<lambda>b. b) run_sql sample_env Some ''now'' sample_set sample_record False sample_inst
     = (i', Inr rep)"
proof -
  have "apply_central (\<lambda>b. b) run_sql ''now'' sample_set sample_record sample_central
      = (record_versions ''now'' sample_record (fst (apply_migrations (\<lambda>b. b) run_sql sample_set sample_central)),
         Inr ([(''core'', 1), (''graph'', 1)], []))"
    by (simp add: apply_central_def sample_run)
  moreover have "guard_under_root Some (i_root sample_inst) (central_db_path (i_root sample_inst)) = Inr ()"
    by (simp add: guard_under_root_def sample_inst_def central_db_path_def starts_with_def)
  moreover have "sweep_sessions sample_env Some (i_root sample_inst) False [(''g'', ''s1'')] (i_session sample_inst)
      = (i_session sample_inst, Inr [])"
    by (simp add: sweep_session_def sweep_file_def sample_inst_def fun_eq_iff)
  moreover have "i_central sample_inst = Some sample_central" by (simp add: sample_inst_def)
  ultimately show ?thesis by (simp add: upgrade_instance_def sample_discover)
qed

theorem dry_run_predicts_witness:
  "\<exists>rep. upgrade_instance (\<lambda>b. b) run_sql sample_env Some ''now'' sample_set sample_record True sample_inst
     = (sample_inst, Inr rep)"
proof -
  obtain i' rep where run: "upgrade_instance (\<lambda>b. b) run_sql sample_env Some ''now'' sample_set sample_record False
      sample_inst = (i', Inr rep)"
    using sample_upgrade_run by blast
  have "central_contiguous sample_set db" if "i_central sample_inst = Some db" for db
    using that by (auto simp: sample_inst_def central_contiguous_def sample_central_def recorded_checksum_def
        recorded_max_def applied_versions_def sample_set_def)
  moreover have "\<forall>k\<in>set (discover_sessions (i_root sample_inst) (i_tree sample_inst)).
      session_contiguous (i_session sample_inst k)"
    by (simp add: session_contiguous_def file_contiguous_def sample_inst_def)
  ultimately show ?thesis using dry_run_predicts [OF run] by (auto simp: sample_discover)
qed

theorem upgrade_idempotent_witness:
  "\<exists>i' i'' rep. upgrade_instance (\<lambda>b. b) run_sql sample_env Some ''later'' sample_set sample_record False i' = (i'', Inr rep)
     \<and> ur_applied rep = [] \<and> ur_sessions rep = []"
proof -
  obtain i' rep where run: "upgrade_instance (\<lambda>b. b) run_sql sample_env Some ''now'' sample_set sample_record False
      sample_inst = (i', Inr rep)"
    using sample_upgrade_run by blast
  from upgrade_idempotent [OF run, of "''later''" sample_record] show ?thesis by fastforce
qed

end
