(* ===== verification/Agent_Jobs.thy ===== *)
theory Agent_Jobs
  imports Strings Interfaces Graph_Cycles "HOL-Library.Word"
begin

text \<open>
  The values of \<open>crates/assistant-agent-graph\<close>: the specialist job and its state machine (\<open>job.rs\<close>),
  the audit events (\<open>audit.rs\<close>), the registry of profiles with the two admission policies
  (\<open>registry.rs\<close>), and the handoff packets and results with their checks (\<open>handoff.rs\<close>). A \<open>u64\<close> is a
  \<open>64 word\<close> and a \<open>u32\<close> a \<open>32 word\<close>.
\<close>

section \<open>Jobs\<close>

datatype job_status = Queued | Running | Cancelled | TimedOut | Succeeded | PartialResult | Failed

definition job_status_str :: "job_status \<Rightarrow> string" where
  "job_status_str s =
     (case s of
        Queued \<Rightarrow> ''queued''
      | Running \<Rightarrow> ''running''
      | Cancelled \<Rightarrow> ''cancelled''
      | TimedOut \<Rightarrow> ''timed_out''
      | Succeeded \<Rightarrow> ''succeeded''
      | PartialResult \<Rightarrow> ''partial_result''
      | Failed \<Rightarrow> ''failed'')"

definition parse_job_status :: "string \<Rightarrow> job_status option" where
  "parse_job_status s =
     (if s = ''queued'' then Some Queued
      else if s = ''running'' then Some Running
      else if s = ''cancelled'' then Some Cancelled
      else if s = ''timed_out'' then Some TimedOut
      else if s = ''succeeded'' then Some Succeeded
      else if s = ''partial_result'' then Some PartialResult
      else if s = ''failed'' then Some Failed
      else None)"

interpretation job_status_text: text_enum job_status_str parse_job_status
  by unfold_locales
    (auto simp: job_status_str_def parse_job_status_def split: job_status.splits if_splits)

definition job_is_terminal :: "job_status \<Rightarrow> bool" where
  "job_is_terminal s \<longleftrightarrow> s \<in> {Cancelled, TimedOut, Succeeded, PartialResult, Failed}"

definition job_is_in_flight :: "job_status \<Rightarrow> bool" where
  "job_is_in_flight s \<longleftrightarrow> s \<in> {Queued, Running}"

datatype job_event = Start | Complete | CompletePartial | Cancel | Timeout | Fail

datatype job_error = InvalidTransition job_status job_event

fun transition :: "job_status \<Rightarrow> job_event \<Rightarrow> job_error + job_status" where
  "transition Queued Start = Inr Running"
| "transition Queued Cancel = Inr Cancelled"
| "transition Running Cancel = Inr Cancelled"
| "transition Queued Timeout = Inr TimedOut"
| "transition Running Timeout = Inr TimedOut"
| "transition Queued Fail = Inr Failed"
| "transition Running Fail = Inr Failed"
| "transition Running Complete = Inr Succeeded"
| "transition Running CompletePartial = Inr PartialResult"
| "transition from_status event = Inl (InvalidTransition from_status event)"

text \<open>How many events a job can still accept.\<close>

definition job_rank :: "job_status \<Rightarrow> nat" where
  "job_rank s = (case s of Queued \<Rightarrow> 2 | Running \<Rightarrow> 1 | _ \<Rightarrow> 0)"

lemma transition_Inr_live: "transition s v = Inr s' \<Longrightarrow> \<not> job_is_terminal s"
  by (cases "(s, v)" rule: transition.cases) (auto simp: job_is_terminal_def)

lemma transition_falls: "transition s v = Inr s' \<Longrightarrow> job_rank s' < job_rank s"
  by (cases "(s, v)" rule: transition.cases) (auto simp: job_rank_def)

lemma transition_live: "\<not> job_is_terminal s \<Longrightarrow> transition s Cancel = Inr Cancelled"
  by (cases s) (auto simp: job_is_terminal_def)

interpretation job_machine: ranked_machine transition job_is_terminal job_rank
proof unfold_locales
  fix s v
  assume "job_is_terminal s"
  then show "\<exists>e. transition s v = Inl e" using transition_Inr_live by (cases "transition s v") auto
qed (use transition_live transition_falls in blast)+

lemma terminal_not_in_flight: "job_is_terminal s \<longleftrightarrow> \<not> job_is_in_flight s"
  by (cases s) (simp_all add: job_is_terminal_def job_is_in_flight_def)

lemma job_rank_terminal: "job_rank s = 0 \<longleftrightarrow> job_is_terminal s"
  by (cases s) (simp_all add: job_is_terminal_def job_rank_def)

lemma in_flight_text: "job_is_in_flight s \<longleftrightarrow> job_status_str s \<in> set [''queued'', ''running'']"
  by (cases s) (simp_all add: job_is_in_flight_def job_status_str_def)

record job_budget =
  max_tokens :: "64 word option"
  max_wall_secs :: "64 word option"

definition default_budget :: job_budget where
  "default_budget = \<lparr>max_tokens = None, max_wall_secs = None\<rparr>"

record specialist_job =
  sj_id :: string
  sj_orchestrator :: string
  sj_specialist :: string
  sj_profile :: string
  sj_status :: job_status
  sj_budget :: job_budget
  sj_timeout :: "64 word"
  sj_cancel_requested :: bool
  sj_run_links :: "string list"

definition new_job :: "string \<Rightarrow> string \<Rightarrow> string \<Rightarrow> string \<Rightarrow> job_budget \<Rightarrow> 64 word \<Rightarrow> specialist_job" where
  "new_job i orchestrator specialist profile budget timeout =
     \<lparr>sj_id = i, sj_orchestrator = orchestrator, sj_specialist = specialist, sj_profile = profile,
      sj_status = Queued, sj_budget = budget, sj_timeout = timeout, sj_cancel_requested = False,
      sj_run_links = []\<rparr>"

definition apply_job_event :: "job_event \<Rightarrow> specialist_job \<Rightarrow> specialist_job \<times> (job_error + unit)" where
  "apply_job_event event job =
     (case transition (sj_status job) event of
        Inl e \<Rightarrow> (job, Inl e)
      | Inr s \<Rightarrow> (job\<lparr>sj_status := s\<rparr>, Inr ()))"

definition request_cancel :: "specialist_job \<Rightarrow> specialist_job" where
  "request_cancel job = job\<lparr>sj_cancel_requested := True\<rparr>"

definition is_timed_out :: "64 word \<Rightarrow> 64 word \<Rightarrow> bool" where
  "is_timed_out elapsed timeout \<longleftrightarrow> timeout > 0 \<and> elapsed \<ge> timeout"

definition cancel_grace_exceeded :: "64 word \<Rightarrow> 64 word \<Rightarrow> bool" where
  "cancel_grace_exceeded elapsed grace \<longleftrightarrow> elapsed \<ge> grace"

section \<open>Audit events\<close>

datatype audit_event =
    SpecialistCreated string string
  | DelegationStarted string string string string
  | DelegationCompleted string job_status
  | AgentRouting string string string

definition record_audit :: "audit_event \<Rightarrow> audit_event list \<Rightarrow> audit_event list" where
  "record_audit e events = events @ [e]"

section \<open>The registry\<close>

record profile_limits =
  max_specialists :: "32 word"
  max_concurrent_jobs :: "32 word"

record registered_profile =
  rp_id :: string
  rp_version :: string
  rp_kind :: string
  rp_allows_external :: bool
  rp_limits :: profile_limits

definition specialist_profile :: "string \<Rightarrow> string \<Rightarrow> profile_limits \<Rightarrow> registered_profile" where
  "specialist_profile i version limits =
     \<lparr>rp_id = i, rp_version = version, rp_kind = ''specialist'', rp_allows_external = False, rp_limits = limits\<rparr>"

definition orchestrator_profile :: "string \<Rightarrow> string \<Rightarrow> profile_limits \<Rightarrow> registered_profile" where
  "orchestrator_profile i version limits =
     \<lparr>rp_id = i, rp_version = version, rp_kind = ''orchestrator'', rp_allows_external = True, rp_limits = limits\<rparr>"

definition is_specialist :: "registered_profile \<Rightarrow> bool" where
  "is_specialist p \<longleftrightarrow> rp_kind p = ''specialist''"

definition is_orchestrator :: "registered_profile \<Rightarrow> bool" where
  "is_orchestrator p \<longleftrightarrow> rp_kind p = ''orchestrator''"

type_synonym registry = "(string \<times> registered_profile) list"

definition register_profile :: "registered_profile \<Rightarrow> registry \<Rightarrow> registry" where
  "register_profile p reg = btree_insert (rp_id p) p reg"

definition get_profile :: "registry \<Rightarrow> string \<Rightarrow> registered_profile option" where
  "get_profile reg i = map_of reg i"

definition is_registered :: "registry \<Rightarrow> string \<Rightarrow> bool" where
  "is_registered reg i \<longleftrightarrow> get_profile reg i \<noteq> None"

definition registry_iter :: "registry \<Rightarrow> registered_profile list" where
  "registry_iter reg = map snd reg"

datatype policy_error =
    UnknownProfile string
  | NotASpecialist string
  | SpecialistLimitReached string "32 word"
  | ConcurrencyLimitReached string "32 word"

definition authorize_create :: "registry \<Rightarrow> string \<Rightarrow> 32 word \<Rightarrow> policy_error + registered_profile" where
  "authorize_create reg i existing =
     rbind (ok_or (UnknownProfile i) (get_profile reg i)) (\<lambda>p.
       if \<not> is_specialist p then Inl (NotASpecialist i)
       else if existing \<ge> max_specialists (rp_limits p)
       then Inl (SpecialistLimitReached i (max_specialists (rp_limits p)))
       else Inr p)"

definition authorize_job_start :: "registered_profile \<Rightarrow> 32 word \<Rightarrow> policy_error + unit" where
  "authorize_job_start p in_flight =
     (if in_flight \<ge> max_concurrent_jobs (rp_limits p)
      then Inl (ConcurrencyLimitReached (rp_id p) (max_concurrent_jobs (rp_limits p)))
      else Inr ())"

section \<open>Handoffs and results\<close>

definition handoff_kind :: string where "handoff_kind = ''specialist_handoff''"
definition result_kind :: string where "result_kind = ''specialist_result''"

datatype retention_label = Ephemeral | CiteOnly | MayPersist

record memory_fact =
  fact_text :: string
  fact_source :: "string option"
  fact_retention :: retention_label

record scope_labels =
  scope_user :: "string option"
  scope_channel :: "string option"
  scope_group :: "string option"
  scope_privacy :: "string list"

record credential_policy =
  allowed_scopes :: "string list"
  browser_session_allowed :: bool

record handoff_packet =
  hp_goal :: string
  hp_expected_schema :: "string option"
  hp_facts :: "memory_fact list"
  hp_scope :: scope_labels
  hp_attachments :: "string list"
  hp_constraints :: "string list"
  hp_non_goals :: "string list"
  hp_credentials :: credential_policy
  hp_budget_hint :: job_budget

definition new_handoff :: "string \<Rightarrow> handoff_packet" where
  "new_handoff goal =
     \<lparr>hp_goal = goal, hp_expected_schema = None, hp_facts = [],
      hp_scope = \<lparr>scope_user = None, scope_channel = None, scope_group = None, scope_privacy = []\<rparr>,
      hp_attachments = [], hp_constraints = [], hp_non_goals = [],
      hp_credentials = \<lparr>allowed_scopes = [], browser_session_allowed = False\<rparr>,
      hp_budget_hint = default_budget\<rparr>"

datatype specialist_status =
  SpecialistCompleted | SpecialistPartial | SpecialistFailed | SpecialistCancelled | SpecialistTimedOut

record result_artifact =
  ra_id :: string
  ra_kind :: string
  ra_by_reference :: bool
  ra_size :: "64 word option"

record specialist_result =
  sr_status :: specialist_status
  sr_summary :: string
  sr_answer :: string
  sr_evidence :: "string list"
  sr_artifacts :: "result_artifact list"
  sr_credential_changes :: "string list"
  sr_follow_ups :: "string list"

definition new_result :: "specialist_status \<Rightarrow> string \<Rightarrow> specialist_result" where
  "new_result status summary =
     \<lparr>sr_status = status, sr_summary = summary, sr_answer = [], sr_evidence = [], sr_artifacts = [],
      sr_credential_changes = [], sr_follow_ups = []\<rparr>"

datatype handoff_error = EmptyGoal | EmptyFactText

definition validate_handoff :: "handoff_packet \<Rightarrow> handoff_error + unit" where
  "validate_handoff p =
     (if trim (hp_goal p) = [] then Inl EmptyGoal
      else if list_ex (\<lambda>f. trim (fact_text f) = []) (hp_facts p) then Inl EmptyFactText
      else Inr ())"

datatype artifact_policy_error = NotByReference string | TooLarge string "64 word" "64 word"

definition artifact_violation :: "64 word \<Rightarrow> result_artifact \<Rightarrow> artifact_policy_error option" where
  "artifact_violation max_bytes a =
     (if \<not> ra_by_reference a then Some (NotByReference (ra_id a))
      else (case ra_size a of
              None \<Rightarrow> None
            | Some n \<Rightarrow> if n > max_bytes then Some (TooLarge (ra_id a) n max_bytes) else None))"

fun first_violation :: "64 word \<Rightarrow> result_artifact list \<Rightarrow> artifact_policy_error + unit" where
  "first_violation max_bytes [] = Inr ()"
| "first_violation max_bytes (a # as) =
     (case artifact_violation max_bytes a of None \<Rightarrow> first_violation max_bytes as | Some e \<Rightarrow> Inl e)"

definition artifacts_within_policy :: "specialist_result \<Rightarrow> 64 word \<Rightarrow> artifact_policy_error + unit" where
  "artifacts_within_policy result max_bytes = first_violation max_bytes (sr_artifacts result)"

lemma first_violation_Inr: "first_violation m as = Inr u \<longleftrightarrow> (\<forall>a\<in>set as. artifact_violation m a = None)"
  by (induction as) (auto split: option.splits)

lemma artifact_violation_None:
  "artifact_violation m a = None \<longleftrightarrow> ra_by_reference a \<and> (\<forall>n. ra_size a = Some n \<longrightarrow> unat n \<le> unat m)"
  by (auto simp: artifact_violation_def word_less_nat_alt not_less split: option.splits)

lemma get_profile_register:
  "btree_ok reg \<Longrightarrow> get_profile (register_profile p reg) i = (if i = rp_id p then Some p else get_profile reg i)"
  by (simp add: get_profile_def register_profile_def map_of_btree_insert)

lemma authorize_create_Inr [res_simps]:
  "authorize_create reg i n = Inr p \<longleftrightarrow> get_profile reg i = Some p \<and> is_specialist p \<and> n < max_specialists (rp_limits p)"
  by (auto simp: authorize_create_def res_simps not_le split: if_splits)

lemma authorize_job_start_Inr [res_simps]:
  "authorize_job_start p n = Inr u \<longleftrightarrow> n < max_concurrent_jobs (rp_limits p)"
  by (auto simp: authorize_job_start_def not_le)

end
