(* ===== verification/Delegation.thy ===== *)
theory Delegation
  imports Agent_Jobs Session_Steps
begin

text \<open>
  The specialist-job tables, the routing between agents and the delegation flow of
  \<open>crates/assistant-agent-graph\<close>: \<open>store.rs\<close>, \<open>routing.rs\<close>, \<open>delegation.rs\<close> and \<open>readiness.rs\<close>. The
  delegation functions act on the central database and the audit events recorded so far; routing
  acts on the session folders of the theory \<open>Session_Db\<close>. The JSON text of packets, results and
  envelopes is a parameter. SQLite errors other than constraint violations are not modelled.
\<close>

section \<open>The store\<close>

record job_row =
  jr_id :: string
  jr_orchestrator :: string
  jr_specialist :: string
  jr_profile :: string
  jr_status :: string
  jr_max_tokens :: "int option"
  jr_max_wall_secs :: "int option"
  jr_timeout :: int
  jr_cancel_requested :: int
  jr_created :: string
  jr_started :: "string option"
  jr_ended :: "string option"

record job_run_row =
  run_job :: string
  run_link :: string
  run_created :: string

record agent_group_row =
  ag_id :: int
  ag_slug :: string
  ag_kind :: string
  ag_profile :: string
  ag_profile_version :: string
  ag_created :: string

record graph_db =
  specialist_jobs :: "job_row list"
  specialist_job_runs :: "job_run_row list"
  agent_groups :: "agent_group_row list"

datatype store_error = StoreSqlite | JobNotFound string | UnknownStatus string

text \<open>\<open>v as i64\<close> of a \<open>u64\<close>, \<open>v as u64\<close> of an \<open>i64\<close>, and \<open>n as u32\<close> of a count.\<close>

definition as_i64 :: "64 word \<Rightarrow> int" where
  "as_i64 v = sint v"

definition as_u64 :: "int \<Rightarrow> 64 word" where
  "as_u64 v = word_of_int v"

definition count_u32 :: "nat \<Rightarrow> 32 word" where
  "count_u32 n = word_of_int (int n)"

definition job_to_row :: "string \<Rightarrow> specialist_job \<Rightarrow> job_row" where
  "job_to_row now job =
     \<lparr>jr_id = sj_id job, jr_orchestrator = sj_orchestrator job, jr_specialist = sj_specialist job,
      jr_profile = sj_profile job, jr_status = job_status_str (sj_status job),
      jr_max_tokens = map_option as_i64 (max_tokens (sj_budget job)),
      jr_max_wall_secs = map_option as_i64 (max_wall_secs (sj_budget job)),
      jr_timeout = as_i64 (sj_timeout job),
      jr_cancel_requested = (if sj_cancel_requested job then 1 else 0),
      jr_created = now, jr_started = None, jr_ended = None\<rparr>"

definition add_run_link :: "string \<Rightarrow> string \<Rightarrow> string \<Rightarrow> graph_db \<Rightarrow> graph_db" where
  "add_run_link now i link db =
     db\<lparr>specialist_job_runs := insert_new (\<lambda>r. (run_job r, run_link r))
          \<lparr>run_job = i, run_link = link, run_created = now\<rparr> (specialist_job_runs db)\<rparr>"

definition insert_job :: "string \<Rightarrow> specialist_job \<Rightarrow> graph_db \<Rightarrow> graph_db \<times> (store_error + unit)" where
  "insert_job now job db =
     (if has_key jr_id (sj_id job) (specialist_jobs db) then (db, Inl StoreSqlite)
      else (fold (add_run_link now (sj_id job)) (sj_run_links job)
              (db\<lparr>specialist_jobs := specialist_jobs db @ [job_to_row now job]\<rparr>), Inr ()))"

definition links_of :: "string \<Rightarrow> graph_db \<Rightarrow> string list" where
  "links_of i db = sort (map run_link (filter (\<lambda>r. run_job r = i) (specialist_job_runs db)))"

definition load_job :: "string \<Rightarrow> graph_db \<Rightarrow> store_error + specialist_job" where
  "load_job i db =
     rbind (ok_or (JobNotFound i) (query_row (\<lambda>r. jr_id r = i) (specialist_jobs db))) (\<lambda>row.
     rbind (ok_or (UnknownStatus (jr_status row)) (parse_job_status (jr_status row))) (\<lambda>status.
       Inr \<lparr>sj_id = i, sj_orchestrator = jr_orchestrator row, sj_specialist = jr_specialist row,
            sj_profile = jr_profile row, sj_status = status,
            sj_budget = \<lparr>max_tokens = map_option as_u64 (jr_max_tokens row),
                         max_wall_secs = map_option as_u64 (jr_max_wall_secs row)\<rparr>,
            sj_timeout = as_u64 (jr_timeout row), sj_cancel_requested = (jr_cancel_requested row \<noteq> 0),
            sj_run_links = links_of i db\<rparr>))"

definition stamp_status :: "string \<Rightarrow> job_status \<Rightarrow> job_row \<Rightarrow> job_row" where
  "stamp_status now s r =
     r\<lparr>jr_status := job_status_str s,
       jr_started := (if s = Running \<and> jr_started r = None then Some now else jr_started r),
       jr_ended := (if job_is_terminal s then Some now else jr_ended r)\<rparr>"

definition update_status :: "string \<Rightarrow> string \<Rightarrow> job_status \<Rightarrow> graph_db \<Rightarrow> graph_db \<times> (store_error + unit)" where
  "update_status now i s db =
     (if count_where (\<lambda>r. jr_id r = i) (specialist_jobs db) = 0 then (db, Inl (JobNotFound i))
      else (db\<lparr>specialist_jobs := update_where (\<lambda>r. jr_id r = i) (stamp_status now s) (specialist_jobs db)\<rparr>,
            Inr ()))"

definition set_cancel_requested :: "string \<Rightarrow> graph_db \<Rightarrow> graph_db \<times> (store_error + unit)" where
  "set_cancel_requested i db =
     (if count_where (\<lambda>r. jr_id r = i) (specialist_jobs db) = 0 then (db, Inl (JobNotFound i))
      else (db\<lparr>specialist_jobs := update_where (\<lambda>r. jr_id r = i) (\<lambda>r. r\<lparr>jr_cancel_requested := 1\<rparr>)
                 (specialist_jobs db)\<rparr>, Inr ()))"

definition row_in_flight :: "string \<Rightarrow> job_row \<Rightarrow> bool" where
  "row_in_flight p r \<longleftrightarrow> jr_profile r = p \<and> jr_status r \<in> set [''queued'', ''running'']"

definition running_or_queued_job_count :: "string \<Rightarrow> graph_db \<Rightarrow> 32 word" where
  "running_or_queued_job_count p db = count_u32 (count_where (row_in_flight p) (specialist_jobs db))"

definition is_specialist_group :: "string \<Rightarrow> agent_group_row \<Rightarrow> bool" where
  "is_specialist_group p g \<longleftrightarrow> ag_kind g = ''specialist'' \<and> ag_profile g = p"

definition specialist_group_count :: "string \<Rightarrow> graph_db \<Rightarrow> 32 word" where
  "specialist_group_count p db = count_u32 (count_where (is_specialist_group p) (agent_groups db))"

definition create_specialist_group ::
  "string \<Rightarrow> string \<Rightarrow> string \<Rightarrow> string \<Rightarrow> graph_db \<Rightarrow> graph_db \<times> (store_error + int)" where
  "create_specialist_group now slug p version db =
     (if has_key ag_slug slug (agent_groups db) then (db, Inl StoreSqlite)
      else let i = next_rowid ag_id (agent_groups db)
           in (db\<lparr>agent_groups := agent_groups db @
                 [\<lparr>ag_id = i, ag_slug = slug, ag_kind = ''specialist'', ag_profile = p,
                   ag_profile_version = version, ag_created = now\<rparr>]\<rparr>, Inr i))"

section \<open>Routing\<close>

record return_path =
  rt_orchestrator :: string
  rt_session :: string
  rt_inbound_seq :: int

record delegation_envelope =
  de_kind :: string
  de_return_path :: "return_path option"

text \<open>The session error stands for the text the source makes of it.\<close>

datatype routing_error =
    AclDenied string string
  | CyclicAcl string
  | ExternalDestinationForbidden string
  | RoutingSession session_error
  | EncodeFailed
  | NoResult

text \<open>\<open>serde_json\<close> on the three types that travel between agents.\<close>

record delegation_codec =
  handoff_to_json :: "handoff_packet \<Rightarrow> string option"
  handoff_from_json :: "string \<Rightarrow> handoff_packet option"
  result_to_json :: "specialist_result \<Rightarrow> string option"
  result_from_json :: "string \<Rightarrow> specialist_result option"
  envelope_to_json :: "delegation_envelope \<Rightarrow> string option"

text \<open>The allow-list, in whatever order its hash set iterates over the edges.\<close>

type_synonym a2a_acl = "(string \<times> string) list"

definition allow :: "string \<Rightarrow> string \<Rightarrow> a2a_acl \<Rightarrow> a2a_acl" where
  "allow f t acl = push_new (f, t) acl"

definition is_allowed :: "a2a_acl \<Rightarrow> string \<Rightarrow> string \<Rightarrow> bool" where
  "is_allowed acl f t \<longleftrightarrow> (f, t) \<in> set acl"

definition acl_adjacency :: "a2a_acl \<Rightarrow> string adjacency" where
  "acl_adjacency acl = fold (\<lambda>(f, t). btree_push f t) acl []"

definition acl_nodes :: "a2a_acl \<Rightarrow> string list" where
  "acl_nodes acl = btree_set (concat (map (\<lambda>(f, t). [f, t]) acl))"

definition acl_first_cycle_node :: "a2a_acl \<Rightarrow> string option" where
  "acl_first_cycle_node acl = find_cycle (acl_adjacency acl) (acl_nodes acl) Map.empty"

definition is_acyclic :: "a2a_acl \<Rightarrow> bool" where
  "is_acyclic acl \<longleftrightarrow> acl_first_cycle_node acl = None"

definition authorize_a2a :: "a2a_acl \<Rightarrow> string \<Rightarrow> string \<Rightarrow> routing_error + unit" where
  "authorize_a2a acl f t =
     (case acl_first_cycle_node acl of
        Some n \<Rightarrow> Inl (CyclicAcl n)
      | None \<Rightarrow> if is_allowed acl f t then Inr () else Inl (AclDenied f t))"

definition authorize_external_destination :: "registered_profile \<Rightarrow> routing_error + unit" where
  "authorize_external_destination p =
     (if rp_allows_external p then Inr () else Inl (ExternalDestinationForbidden (rp_id p)))"

text \<open>The two deliveries differ in the content and the envelope.\<close>

definition deliver_json ::
  "session_env \<Rightarrow> string \<Rightarrow> string \<Rightarrow> string option \<Rightarrow> string option \<Rightarrow> session \<Rightarrow> session \<times> (routing_error + int)" where
  "deliver_json env now sender content metadata s =
     (case content of
        None \<Rightarrow> (s, Inl EncodeFailed)
      | Some c \<Rightarrow>
          (case metadata of
             None \<Rightarrow> (s, Inl EncodeFailed)
           | Some m \<Rightarrow>
               (case enqueue_inbound env now
                       \<lparr>msg_sender = sender, msg_content = c, msg_metadata = Some m, msg_thread = None\<rparr> s of
                  (s', r) \<Rightarrow> (s', map_err RoutingSession r))))"

definition deliver_handoff ::
  "session_env \<Rightarrow> delegation_codec \<Rightarrow> string \<Rightarrow> string \<Rightarrow> handoff_packet \<Rightarrow> return_path \<Rightarrow> session
   \<Rightarrow> session \<times> (routing_error + int)" where
  "deliver_handoff env codec now sender handoff rt =
     deliver_json env now sender (handoff_to_json codec handoff)
       (envelope_to_json codec \<lparr>de_kind = handoff_kind, de_return_path = Some rt\<rparr>)"

definition collect_result :: "delegation_codec \<Rightarrow> session \<Rightarrow> routing_error + specialist_result" where
  "collect_result codec s =
     rbind (map_err RoutingSession (read_outbound current_outbound_compat s)) (\<lambda>outbound.
     rbind (ok_or NoResult (find (\<lambda>m. om_kind m = result_kind) (rev outbound))) (\<lambda>last_result.
       ok_or EncodeFailed (result_from_json codec (om_content last_result))))"

definition deliver_result ::
  "session_env \<Rightarrow> delegation_codec \<Rightarrow> string \<Rightarrow> string \<Rightarrow> specialist_result \<Rightarrow> session
   \<Rightarrow> session \<times> (routing_error + int)" where
  "deliver_result env codec now sender result =
     deliver_json env now sender (result_to_json codec result)
       (envelope_to_json codec \<lparr>de_kind = result_kind, de_return_path = None\<rparr>)"

text \<open>The files are a map; making the directories of the target and copying a file onto itself are not modelled.\<close>

definition forward_attachment ::
  "path \<Rightarrow> path \<Rightarrow> string \<Rightarrow> (path \<Rightarrow> nat list option) \<Rightarrow> (path \<Rightarrow> nat list option) \<times> (routing_error + path)" where
  "forward_attachment from_dir to_dir name files =
     (case (safe_attachment_path from_dir name, safe_attachment_path to_dir name) of
        (Inr src, Inr dst) \<Rightarrow>
          (case files src of
             None \<Rightarrow> (files, Inl (RoutingSession SessionIo))
           | Some bytes \<Rightarrow> (files(dst \<mapsto> bytes), Inr dst))
      | (Inl e, _) \<Rightarrow> (files, Inl (RoutingSession e))
      | (_, Inl e) \<Rightarrow> (files, Inl (RoutingSession e)))"

section \<open>The delegation flow\<close>

datatype delegation_error =
    Policy policy_error
  | Store store_error
  | Routing routing_error
  | JobTransition job_error

type_synonym graph_state = "graph_db \<times> audit_event list"

definition create_specialist ::
  "registry \<Rightarrow> string \<Rightarrow> string \<Rightarrow> string \<Rightarrow> graph_state \<Rightarrow> graph_state \<times> (delegation_error + string)" where
  "create_specialist reg now p slug st =
     (case st of (db, audit) \<Rightarrow>
        (case authorize_create reg p (specialist_group_count p db) of
           Inl e \<Rightarrow> (st, Inl (Policy e))
         | Inr profile \<Rightarrow>
             (case create_specialist_group now slug p (rp_version profile) db of
                (db', Inl e) \<Rightarrow> ((db', audit), Inl (Store e))
              | (db', Inr _) \<Rightarrow> ((db', record_audit (SpecialistCreated p slug) audit), Inr slug))))"

definition start_job ::
  "registry \<Rightarrow> string \<Rightarrow> specialist_job \<Rightarrow> graph_state \<Rightarrow> graph_state \<times> (delegation_error + unit)" where
  "start_job reg now job st =
     (case st of (db, audit) \<Rightarrow>
        (case get_profile reg (sj_profile job) of
           None \<Rightarrow> (st, Inl (Policy (UnknownProfile (sj_profile job))))
         | Some profile \<Rightarrow>
             (case authorize_job_start profile (running_or_queued_job_count (sj_profile job) db) of
                Inl e \<Rightarrow> (st, Inl (Policy e))
              | Inr _ \<Rightarrow>
                  (case insert_job now job db of
                     (db', Inl e) \<Rightarrow> ((db', audit), Inl (Store e))
                   | (db', Inr _) \<Rightarrow>
                       ((db', record_audit (DelegationStarted (sj_id job) (sj_orchestrator job)
                                (sj_specialist job) (sj_profile job)) audit), Inr ())))))"

definition transition_job ::
  "string \<Rightarrow> string \<Rightarrow> job_event \<Rightarrow> graph_state \<Rightarrow> graph_state \<times> (delegation_error + job_status)" where
  "transition_job now i event st =
     (case st of (db, audit) \<Rightarrow>
        (case load_job i db of
           Inl e \<Rightarrow> (st, Inl (Store e))
         | Inr job \<Rightarrow>
             (case transition (sj_status job) event of
                Inl e \<Rightarrow> (st, Inl (JobTransition e))
              | Inr s \<Rightarrow>
                  (case update_status now i s db of
                     (db', Inl e) \<Rightarrow> ((db', audit), Inl (Store e))
                   | (db', Inr _) \<Rightarrow>
                       ((db', if job_is_terminal s then record_audit (DelegationCompleted i s) audit else audit),
                        Inr s)))))"

definition route_handoff ::
  "session_env \<Rightarrow> delegation_codec \<Rightarrow> a2a_acl \<Rightarrow> string \<Rightarrow> string \<Rightarrow> string \<Rightarrow> handoff_packet \<Rightarrow> return_path
   \<Rightarrow> session \<times> audit_event list \<Rightarrow> (session \<times> audit_event list) \<times> (delegation_error + int)" where
  "route_handoff env codec acl now f t handoff rt st =
     (case st of (s, audit) \<Rightarrow>
        (case authorize_a2a acl f t of
           Inl e \<Rightarrow> (st, Inl (Routing e))
         | Inr _ \<Rightarrow>
             (case deliver_handoff env codec now f handoff rt s of
                (s', Inl e) \<Rightarrow> ((s', audit), Inl (Routing e))
              | (s', Inr n) \<Rightarrow> ((s', record_audit (AgentRouting f t handoff_kind) audit), Inr n))))"

definition route_result ::
  "session_env \<Rightarrow> delegation_codec \<Rightarrow> string \<Rightarrow> string \<Rightarrow> string \<Rightarrow> specialist_result
   \<Rightarrow> session \<times> audit_event list \<Rightarrow> (session \<times> audit_event list) \<times> (delegation_error + int)" where
  "route_result env codec now f t result st =
     (case st of (s, audit) \<Rightarrow>
        (case deliver_result env codec now f result s of
           (s', Inl e) \<Rightarrow> ((s', audit), Inl (Routing e))
         | (s', Inr n) \<Rightarrow> ((s', record_audit (AgentRouting f t result_kind) audit), Inr n)))"

section \<open>Readiness\<close>

datatype graph_check = GraphPass | GraphFail string | GraphSkipped string

definition profiles_resolve :: "registry \<Rightarrow> string list \<Rightarrow> graph_check" where
  "profiles_resolve reg required =
     (let missing = filter (\<lambda>i. \<not> is_registered reg i) required
      in if missing = [] then GraphPass
         else GraphFail (''unregistered specialist profiles: '' @ join_str '', '' missing))"

definition find_orphaned_jobs :: "specialist_job list \<Rightarrow> string list" where
  "find_orphaned_jobs jobs = map sj_id (filter (\<lambda>j. \<not> job_is_terminal (sj_status j)) jobs)"

definition no_orphaned_jobs :: "graph_db \<Rightarrow> graph_check" where
  "no_orphaned_jobs db =
     (let stranded = count_where (\<lambda>r. jr_status r \<in> set [''queued'', ''running'']) (specialist_jobs db)
      in if stranded = 0 then GraphPass
         else GraphFail (dec_of_nat stranded @ '' specialist job(s) stranded in a non-terminal state''))"

end
