(* ===== verification/Delegation_Laws.thy ===== *)
theory Delegation_Laws
  imports Delegation
begin

text \<open>
  What holds of the delegation flow: the limits of the registry under every run, the life of one job
  among others, jobs read back from the store, routing along an acyclic allow-list, and the way of a
  result back to the orchestrator.
\<close>

section \<open>Counting rows\<close>

lemma unat_count_u32: "n < 2 ^ 32 \<Longrightarrow> unat (count_u32 n) = n"
  by (simp add: count_u32_def unat_of_nat)

lemma count_u32_less:
  assumes "n \<le> unat (m :: 32 word)"
  shows "count_u32 n < m \<longleftrightarrow> n < unat m"
proof -
  have "unat m < 2 ^ 32" using unsigned_less [where 'a = nat, of m] by simp
  with assms have "n < 2 ^ 32" by simp
  then show ?thesis by (simp add: word_less_nat_alt unat_count_u32)
qed

lemma count_update_where_le:
  "(\<And>x. x \<in> set t \<Longrightarrow> P x \<Longrightarrow> Q (f x) \<Longrightarrow> Q x) \<Longrightarrow> count_where Q (update_where P f t) \<le> count_where Q t"
  by (induction t) (auto simp: count_where_def update_where_def intro: le_SucI)

lemma count_update_where_same:
  "(\<And>x. x \<in> set t \<Longrightarrow> P x \<Longrightarrow> Q (f x) = Q x) \<Longrightarrow> count_where Q (update_where P f t) = count_where Q t"
  by (induction t) (auto simp: count_where_def update_where_def)

lemma count_append_bound:
  "count_where Q t \<le> n \<Longrightarrow> (Q x \<Longrightarrow> count_where Q t < n) \<Longrightarrow> count_where Q (t @ [x]) \<le> n"
  by (cases "Q x") (simp_all add: count_where_append count_where_single)

section \<open>The operations on the store\<close>

lemma fold_run_links [simp]:
  "specialist_jobs (fold (add_run_link now i) links db) = specialist_jobs db"
  "agent_groups (fold (add_run_link now i) links db) = agent_groups db"
  by (induction links arbitrary: db) (simp_all add: add_run_link_def)

lemma stamp_status_sel [simp]:
  "jr_id (stamp_status now s r) = jr_id r" "jr_profile (stamp_status now s r) = jr_profile r"
  "jr_status (stamp_status now s r) = job_status_str s"
  by (simp_all add: stamp_status_def)

lemma load_job_Inr:
  assumes "load_job i db = Inr job"
  obtains row where "query_row (\<lambda>r. jr_id r = i) (specialist_jobs db) = Some row"
    and "jr_status row = job_status_str (sj_status job)" and "jr_profile row = sj_profile job"
proof -
  from assms obtain row status where "query_row (\<lambda>r. jr_id r = i) (specialist_jobs db) = Some row"
    and "parse_job_status (jr_status row) = Some status" and "sj_status job = status" "sj_profile job = jr_profile row"
    unfolding load_job_def rbind_Inr_iff ok_or_Inr_iff by force
  then show ?thesis using that by (simp add: job_status_text.parse_Some_iff)
qed

lemma transition_job_cases:
  obtains (refused) e where "transition_job now i v (db, audit) = ((db, audit), Inl e)"
      "\<And>job. load_job i db = Inr job \<Longrightarrow> \<exists>e'. transition (sj_status job) v = Inl e'"
  | (moved) job s where "load_job i db = Inr job" "transition (sj_status job) v = Inr s"
      "transition_job now i v (db, audit)
         = ((db\<lparr>specialist_jobs := update_where (\<lambda>r. jr_id r = i) (stamp_status now s) (specialist_jobs db)\<rparr>,
             if job_is_terminal s then record_audit (DelegationCompleted i s) audit else audit), Inr s)"
proof (cases "load_job i db")
  case (Inl e)
  then have "transition_job now i v (db, audit) = ((db, audit), Inl (Store e))"
    by (simp add: transition_job_def)
  moreover have "\<And>job. load_job i db = Inr job \<Longrightarrow> \<exists>e'. transition (sj_status job) v = Inl e'"
    using Inl by simp
  ultimately show ?thesis by (rule refused)
next
  case (Inr job)
  show ?thesis
  proof (cases "transition (sj_status job) v")
    case (Inl e)
    with Inr refused show ?thesis by (simp add: transition_job_def)
  next
    case t: (Inr s)
    obtain row where "query_row (\<lambda>r. jr_id r = i) (specialist_jobs db) = Some row"
      using load_job_Inr [OF Inr] by blast
    then have "count_where (\<lambda>r. jr_id r = i) (specialist_jobs db) \<noteq> 0"
      by (auto simp: count_where_0_iff dest: query_row_SomeD)
    with Inr t moved show ?thesis by (simp add: transition_job_def update_status_def)
  qed
qed

lemma start_job_cases:
  obtains (refused) e where "start_job reg now job (db, audit) = ((db, audit), Inl e)"
  | (started) p where "get_profile reg (sj_profile job) = Some p"
      "running_or_queued_job_count (sj_profile job) db < max_concurrent_jobs (rp_limits p)"
      "\<not> has_key jr_id (sj_id job) (specialist_jobs db)"
      "start_job reg now job (db, audit)
        = ((fold (add_run_link now (sj_id job)) (sj_run_links job)
              (db\<lparr>specialist_jobs := specialist_jobs db @ [job_to_row now job]\<rparr>),
            record_audit (DelegationStarted (sj_id job) (sj_orchestrator job) (sj_specialist job)
              (sj_profile job)) audit), Inr ())"
proof (cases "get_profile reg (sj_profile job)")
  case None
  with refused show ?thesis by (simp add: start_job_def)
next
  case (Some p)
  show ?thesis
  proof (cases "running_or_queued_job_count (sj_profile job) db < max_concurrent_jobs (rp_limits p)
      \<and> \<not> has_key jr_id (sj_id job) (specialist_jobs db)")
    case True
    with Some have "start_job reg now job (db, audit)
        = ((fold (add_run_link now (sj_id job)) (sj_run_links job)
              (db\<lparr>specialist_jobs := specialist_jobs db @ [job_to_row now job]\<rparr>),
            record_audit (DelegationStarted (sj_id job) (sj_orchestrator job) (sj_specialist job)
              (sj_profile job)) audit), Inr ())"
      by (simp add: start_job_def authorize_job_start_def insert_job_def flip: not_less)
    with started Some True show ?thesis by blast
  next
    case False
    with Some have "\<exists>e. start_job reg now job (db, audit) = ((db, audit), Inl e)"
      by (cases "running_or_queued_job_count (sj_profile job) db < max_concurrent_jobs (rp_limits p)")
        (simp_all add: start_job_def authorize_job_start_def insert_job_def not_less)
    with refused show ?thesis by blast
  qed
qed

lemma create_specialist_cases:
  obtains (refused) e where "create_specialist reg now p slug (db, audit) = ((db, audit), Inl e)"
  | (created) q i where "get_profile reg p = Some q" "is_specialist q"
      "specialist_group_count p db < max_specialists (rp_limits q)"
      "create_specialist reg now p slug (db, audit)
        = ((db\<lparr>agent_groups := agent_groups db @
             [\<lparr>ag_id = i, ag_slug = slug, ag_kind = ''specialist'', ag_profile = p,
               ag_profile_version = rp_version q, ag_created = now\<rparr>]\<rparr>,
            record_audit (SpecialistCreated p slug) audit), Inr slug)"
proof (cases "authorize_create reg p (specialist_group_count p db)")
  case (Inl e)
  with refused show ?thesis by (simp add: create_specialist_def)
next
  case (Inr q)
  then have q: "get_profile reg p = Some q" "is_specialist q"
    "specialist_group_count p db < max_specialists (rp_limits q)"
    by (simp_all add: authorize_create_Inr)
  show ?thesis
  proof (cases "has_key ag_slug slug (agent_groups db)")
    case True
    with Inr have "create_specialist reg now p slug (db, audit) = ((db, audit), Inl (Store StoreSqlite))"
      by (simp add: create_specialist_def create_specialist_group_def)
    then show ?thesis by (rule refused)
  next
    case False
    with Inr show ?thesis
      by (intro created [OF q, of "next_rowid ag_id (agent_groups db)"])
        (simp add: create_specialist_def create_specialist_group_def Let_def)
  qed
qed

section \<open>The limits of the registry\<close>

text \<open>
  A run of the delegation operations under one registry; \<open>SpecialistJob::new\<close> makes a job queued, but
  a job with another status can be handed to \<open>start_job\<close> as well.
\<close>

inductive graph_step :: "registry \<Rightarrow> graph_state \<Rightarrow> graph_state \<Rightarrow> bool" for reg where
  graph_create: "create_specialist reg now p slug st = (st', r) \<Longrightarrow> graph_step reg st st'"
| graph_start: "start_job reg now job st = (st', r) \<Longrightarrow> graph_step reg st st'"
| graph_transition: "transition_job now i v st = (st', r') \<Longrightarrow> graph_step reg st st'"
| graph_cancel: "set_cancel_requested i db = (db', r'') \<Longrightarrow> graph_step reg (db, audit) (db', audit)"
| graph_link: "graph_step reg (db, audit) (add_run_link now i link db, audit)"

abbreviation graph_steps :: "registry \<Rightarrow> graph_state \<Rightarrow> graph_state \<Rightarrow> bool" where
  "graph_steps reg \<equiv> (graph_step reg)\<^sup>*\<^sup>*"

definition empty_graph_db :: graph_db where
  "empty_graph_db = \<lparr>specialist_jobs = [], specialist_job_runs = [], agent_groups = []\<rparr>"

definition job_limit :: "registry \<Rightarrow> string \<Rightarrow> nat" where
  "job_limit reg p = (case get_profile reg p of None \<Rightarrow> 0 | Some q \<Rightarrow> unat (max_concurrent_jobs (rp_limits q)))"

definition specialist_limit :: "registry \<Rightarrow> string \<Rightarrow> nat" where
  "specialist_limit reg p =
     (case get_profile reg p of
        None \<Rightarrow> 0
      | Some q \<Rightarrow> if is_specialist q then unat (max_specialists (rp_limits q)) else 0)"

abbreviation jobs_in_flight :: "string \<Rightarrow> graph_db \<Rightarrow> nat" where
  "jobs_in_flight p db \<equiv> count_where (row_in_flight p) (specialist_jobs db)"

abbreviation specialists_of :: "string \<Rightarrow> graph_db \<Rightarrow> nat" where
  "specialists_of p db \<equiv> count_where (is_specialist_group p) (agent_groups db)"

definition graph_ok :: "registry \<Rightarrow> graph_db \<Rightarrow> bool" where
  "graph_ok reg db \<longleftrightarrow> primary_key jr_id (specialist_jobs db)
     \<and> (\<forall>p. jobs_in_flight p db \<le> job_limit reg p \<and> specialists_of p db \<le> specialist_limit reg p)"

lemma graph_ok_same:
  "graph_ok reg db \<Longrightarrow> map jr_id (specialist_jobs db') = map jr_id (specialist_jobs db) \<Longrightarrow>
   agent_groups db' = agent_groups db \<Longrightarrow> (\<And>p. jobs_in_flight p db' \<le> jobs_in_flight p db) \<Longrightarrow> graph_ok reg db'"
  unfolding graph_ok_def primary_key_def by (metis order_trans)

lemma graph_ok_started:
  assumes ok: "graph_ok reg db" and p: "get_profile reg (sj_profile job) = Some q"
    and room: "running_or_queued_job_count (sj_profile job) db < max_concurrent_jobs (rp_limits q)"
    and new: "\<not> has_key jr_id (sj_id job) (specialist_jobs db)"
    and db': "specialist_jobs db' = specialist_jobs db @ [job_to_row now job]" "agent_groups db' = agent_groups db"
  shows "graph_ok reg db'"
proof -
  have le: "jobs_in_flight r db \<le> job_limit reg r" for r using ok by (simp add: graph_ok_def)
  have "jobs_in_flight (sj_profile job) db < job_limit reg (sj_profile job)"
    using count_u32_less [of "jobs_in_flight (sj_profile job) db" "max_concurrent_jobs (rp_limits q)"]
      le [of "sj_profile job"] p room
    by (simp add: job_limit_def running_or_queued_job_count_def)
  then have "jobs_in_flight r db < job_limit reg r" if "row_in_flight r (job_to_row now job)" for r
    using that unfolding row_in_flight_def by (simp add: job_to_row_def)
  then have "jobs_in_flight r db' \<le> job_limit reg r" for r
    unfolding db' by (rule count_append_bound [OF le])
  moreover have "primary_key jr_id (specialist_jobs db')"
    using ok new by (simp add: graph_ok_def db' job_to_row_def primary_key_def has_key_def)
  ultimately show ?thesis using ok by (simp add: graph_ok_def db')
qed

lemma graph_ok_created:
  assumes ok: "graph_ok reg db" and p: "get_profile reg p = Some q" "is_specialist q"
    and room: "specialist_group_count p db < max_specialists (rp_limits q)"
    and db': "agent_groups db' = agent_groups db @ [g]" "specialist_jobs db' = specialist_jobs db"
    and g: "ag_profile g = p"
  shows "graph_ok reg db'"
proof -
  have le: "specialists_of r db \<le> specialist_limit reg r" for r using ok by (simp add: graph_ok_def)
  have "specialists_of p db < specialist_limit reg p"
    using count_u32_less [of "specialists_of p db" "max_specialists (rp_limits q)"] le [of p] p room
    by (simp add: specialist_limit_def specialist_group_count_def)
  then have "specialists_of r db < specialist_limit reg r" if "is_specialist_group r g" for r
    using that g by (simp add: is_specialist_group_def)
  then have "specialists_of r db' \<le> specialist_limit reg r" for r
    unfolding db' by (rule count_append_bound [OF le])
  then show ?thesis using ok by (simp add: graph_ok_def db')
qed

lemma graph_ok_moved:
  assumes ok: "graph_ok reg db" and job: "load_job i db = Inr job" and t: "transition (sj_status job) v = Inr s"
    and db': "specialist_jobs db' = update_where (\<lambda>r. jr_id r = i) (stamp_status now s) (specialist_jobs db)"
      "agent_groups db' = agent_groups db"
  shows "graph_ok reg db'"
proof (rule graph_ok_same [OF ok])
  show "map jr_id (specialist_jobs db') = map jr_id (specialist_jobs db)"
    by (simp add: db' map_key_update_where)
  obtain row where row: "query_row (\<lambda>r. jr_id r = i) (specialist_jobs db) = Some row"
    "jr_status row = job_status_str (sj_status job)"
    using load_job_Inr [OF job] by metis
  have "jr_status row \<in> set [''queued'', ''running'']"
    using row(2) transition_Inr_live [OF t] in_flight_text terminal_not_in_flight by metis
  moreover have "x = row" if "x \<in> set (specialist_jobs db)" "jr_id x = i" for x
    using query_row_SomeD [OF row(1)] ok that primary_key_unique unfolding graph_ok_def by metis
  ultimately show "jobs_in_flight p db' \<le> jobs_in_flight p db" for p
    unfolding db' by (intro count_update_where_le) (auto simp: row_in_flight_def)
qed (simp add: db')

lemma graph_step_ok: "graph_step reg st st' \<Longrightarrow> graph_ok reg (fst st) \<Longrightarrow> graph_ok reg (fst st')"
proof (induction rule: graph_step.induct)
  case (graph_create now p slug st st' r)
  obtain db audit where st: "st = (db, audit)" by fastforce
  show ?case using graph_create
    by (cases rule: create_specialist_cases [of reg now p slug db audit]) (auto simp: st intro: graph_ok_created)
next
  case (graph_start now job st st' r)
  obtain db audit where st: "st = (db, audit)" by fastforce
  show ?case using graph_start
    by (cases rule: start_job_cases [of reg now job db audit]) (auto simp: st intro: graph_ok_started)
next
  case (graph_transition now i v st st' r')
  obtain db audit where st: "st = (db, audit)" by fastforce
  show ?case using graph_transition
    by (cases rule: transition_job_cases [of now i v db audit]) (auto simp: st intro: graph_ok_moved)
next
  case (graph_cancel i db db' r'' audit)
  have "count_where (row_in_flight p) (update_where (\<lambda>r. jr_id r = i) (\<lambda>r. r\<lparr>jr_cancel_requested := 1\<rparr>) t)
      = count_where (row_in_flight p) t" for p t
    by (rule count_update_where_same) (simp add: row_in_flight_def)
  with graph_cancel show ?case
    by (auto simp: set_cancel_requested_def map_key_update_where intro: graph_ok_same split: if_splits)
next
  case (graph_link db audit now i link)
  then show ?case by (simp add: graph_ok_def add_run_link_def)
qed

lemma graph_steps_ok: "graph_steps reg st st' \<Longrightarrow> graph_ok reg (fst st) \<Longrightarrow> graph_ok reg (fst st')"
  by (induction rule: rtranclp_induct) (auto intro: graph_step_ok)

lemma empty_graph_ok: "graph_ok reg empty_graph_db"
  by (simp add: graph_ok_def empty_graph_db_def primary_key_def count_where_Nil)

lemma job_limit_bound: "job_limit reg p < 2 ^ 32"
proof (cases "get_profile reg p")
  case (Some q)
  then show ?thesis
    using unsigned_less [where 'a = nat, of "max_concurrent_jobs (rp_limits q)"] by (simp add: job_limit_def)
qed (simp add: job_limit_def)

text \<open>
  C29: whatever specialists are created and whatever jobs are started, moved, cancelled and linked, in
  any order, a profile never has more jobs in flight than its \<open>max_concurrent_jobs\<close> nor more
  specialist groups than its \<open>max_specialists\<close>, and an unregistered profile has none; the 32-bit count
  that \<open>start_job\<close> compares is exact, and a job of a new id is admitted exactly while there is room.
\<close>

theorem delegation_limits_hold:
  assumes "graph_steps reg (empty_graph_db, []) (db, audit)"
  shows "jobs_in_flight p db \<le> job_limit reg p \<and> specialists_of p db \<le> specialist_limit reg p
    \<and> unat (running_or_queued_job_count p db) = jobs_in_flight p db
    \<and> (\<forall>job now. sj_profile job = p \<and> (\<forall>r\<in>set (specialist_jobs db). jr_id r \<noteq> sj_id job) \<longrightarrow>
         (is_ok (snd (start_job reg now job (db, audit))) \<longleftrightarrow> jobs_in_flight p db < job_limit reg p))"
proof -
  have ok: "graph_ok reg db" using graph_steps_ok [OF assms] empty_graph_ok by simp
  then have le: "jobs_in_flight p db \<le> job_limit reg p" "specialists_of p db \<le> specialist_limit reg p"
    by (simp_all add: graph_ok_def)
  with job_limit_bound [of reg p] have exact: "unat (running_or_queued_job_count p db) = jobs_in_flight p db"
    by (simp add: running_or_queued_job_count_def unat_count_u32)
  have "is_ok (snd (start_job reg now job (db, audit))) \<longleftrightarrow> jobs_in_flight p db < job_limit reg p"
    if "sj_profile job = p" "\<forall>r\<in>set (specialist_jobs db). jr_id r \<noteq> sj_id job" for job now
  proof (cases "get_profile reg p")
    case None
    with that show ?thesis by (simp add: start_job_def job_limit_def)
  next
    case (Some q)
    have "\<not> has_key jr_id (sj_id job) (specialist_jobs db)" using that by (auto simp: has_key_def)
    with that Some exact show ?thesis
      by (simp add: start_job_def insert_job_def authorize_job_start_def job_limit_def word_le_nat_alt)
  qed
  with le exact show ?thesis by blast
qed

definition sample_registry :: registry where
  "sample_registry = register_profile (specialist_profile ''browser'' ''1''
     \<lparr>max_specialists = 1, max_concurrent_jobs = 1\<rparr>) []"

definition sample_job :: specialist_job where
  "sample_job = new_job ''j1'' ''main'' ''web'' ''browser'' default_budget 60"

theorem delegation_limits_hold_witness:
  "jobs_in_flight ''browser'' (fst (fst (start_job sample_registry ''t'' sample_job (empty_graph_db, [])))) \<le> 1
   \<and> \<not> is_ok (snd (start_job sample_registry ''t'' (new_job ''j2'' ''main'' ''web'' ''browser'' default_budget 60)
        (fst (start_job sample_registry ''t'' sample_job (empty_graph_db, [])))))"
proof -
  let ?st = "fst (start_job sample_registry ''t'' sample_job (empty_graph_db, []))"
  have st: "?st = (empty_graph_db\<lparr>specialist_jobs := [job_to_row ''t'' sample_job]\<rparr>,
      [DelegationStarted ''j1'' ''main'' ''web'' ''browser''])"
    by (simp add: sample_registry_def register_profile_def specialist_profile_def sample_job_def new_job_def
        start_job_def get_profile_def authorize_job_start_def running_or_queued_job_count_def insert_job_def
        empty_graph_db_def count_where_Nil has_key_def record_audit_def count_u32_def)
  have "graph_step sample_registry (empty_graph_db, []) ?st"
    by (rule graph_start) (rule prod.collapse [symmetric])
  then have run: "graph_steps sample_registry (empty_graph_db, []) (fst ?st, snd ?st)" by simp
  have lim: "job_limit sample_registry ''browser'' = 1"
    by (simp add: job_limit_def sample_registry_def register_profile_def specialist_profile_def get_profile_def)
  have "jobs_in_flight ''browser'' (fst ?st) = 1"
    unfolding st
    by (simp add: count_where_single row_in_flight_def job_to_row_def sample_job_def new_job_def job_status_str_def)
  moreover define job where "job = new_job ''j2'' ''main'' ''web'' ''browser'' default_budget 60"
  moreover have "sj_profile job = ''browser''" by (simp add: job_def new_job_def)
  moreover have "\<forall>r\<in>set (specialist_jobs (fst ?st)). jr_id r \<noteq> sj_id job"
    unfolding st by (simp add: job_to_row_def sample_job_def new_job_def job_def)
  ultimately show ?thesis
    using delegation_limits_hold [OF run, of "''browser''"] lim by simp
qed

section \<open>The life of a job\<close>

fun transition_calls ::
  "(string \<times> string \<times> job_event) list \<Rightarrow> graph_state \<Rightarrow> graph_state \<times> (string \<times> (delegation_error + job_status)) list" where
  "transition_calls [] st = (st, [])"
| "transition_calls ((now, i, v) # cs) st =
     (case transition_job now i v st of
        (st1, r) \<Rightarrow> (case transition_calls cs st1 of (st2, rs) \<Rightarrow> (st2, (i, r) # rs)))"

definition events_of :: "string \<Rightarrow> (string \<times> string \<times> job_event) list \<Rightarrow> job_event list" where
  "events_of i cs = map (\<lambda>(now, j, v). v) (filter (\<lambda>(now, j, v). j = i) cs)"

definition accepted_of :: "string \<Rightarrow> (string \<times> (delegation_error + job_status)) list \<Rightarrow> nat" where
  "accepted_of i rs = length (filter (\<lambda>(j, r). j = i \<and> is_ok r) rs)"

definition completions :: "string \<Rightarrow> audit_event list \<Rightarrow> nat" where
  "completions i audit = length (filter (\<lambda>e. \<exists>s. e = DelegationCompleted i s) audit)"

lemma load_job_moved:
  assumes "load_job j db = Inr job"
  shows "load_job j (db\<lparr>specialist_jobs := update_where (\<lambda>r. jr_id r = i) (stamp_status now s) (specialist_jobs db)\<rparr>)
    = Inr (if j = i then job\<lparr>sj_status := s\<rparr> else job)"
proof -
  from assms obtain row where row: "query_row (\<lambda>r. jr_id r = j) (specialist_jobs db) = Some row"
    by (rule load_job_Inr)
  have "jr_id row = j" using query_row_SomeD [OF row] by simp
  moreover have "query_row (\<lambda>r. jr_id r = j) (update_where (\<lambda>r. jr_id r = i) (stamp_status now s) (specialist_jobs db))
      = map_option (\<lambda>x. if jr_id x = i then stamp_status now s x else x) (Some row)"
    by (subst query_row_update_where) (simp_all add: row)
  ultimately show ?thesis
    using assms row by (auto simp: load_job_def links_of_def stamp_status_def job_status_text.parse_as_str res_simps)
qed

lemma transition_job_effect:
  assumes "load_job j db = Inr job" and "transition_job now i v (db, audit) = ((db', audit'), r)"
  shows "load_job j db' = Inr (if j = i then job\<lparr>sj_status := (case transition (sj_status job) v of Inl _ \<Rightarrow> sj_status job | Inr s \<Rightarrow> s)\<rparr> else job)"
    and "j = i \<Longrightarrow> is_ok r \<longleftrightarrow> is_ok (transition (sj_status job) v)"
    and "completions j audit' = completions j audit +
      (if j = i \<and> (\<exists>s. transition (sj_status job) v = Inr s \<and> job_is_terminal s) then 1 else 0)"
proof -
  consider (refused) e where "db' = db" "audit' = audit" "r = Inl e" "j = i \<longrightarrow> (\<exists>e'. transition (sj_status job) v = Inl e')"
    | (moved) job' s where "load_job i db = Inr job'" "transition (sj_status job') v = Inr s"
      "db' = db\<lparr>specialist_jobs := update_where (\<lambda>r. jr_id r = i) (stamp_status now s) (specialist_jobs db)\<rparr>"
      "audit' = (if job_is_terminal s then record_audit (DelegationCompleted i s) audit else audit)" "r = Inr s"
  proof (cases rule: transition_job_cases [of now i v db audit])
    case (refused e)
    have "j = i \<longrightarrow> (\<exists>e'. transition (sj_status job) v = Inl e')" using refused(2) assms(1) by blast
    with refused(1) assms(2) that(1) [of e] show ?thesis by simp
  next
    case (moved job' s)
    then show ?thesis using that(2) [of job' s] assms(2) by simp
  qed
  note cases_rt = this
  show "load_job j db' = Inr (if j = i then job\<lparr>sj_status := (case transition (sj_status job) v of Inl _ \<Rightarrow> sj_status job | Inr s \<Rightarrow> s)\<rparr> else job)"
  proof (cases rule: cases_rt)
    case refused
    with assms(1) show ?thesis by (cases "transition (sj_status job) v") auto
  next
    case (moved job' s)
    with assms(1) load_job_moved [OF assms(1), of i now s] show ?thesis by (cases "j = i") auto
  qed
  show "j = i \<Longrightarrow> is_ok r \<longleftrightarrow> is_ok (transition (sj_status job) v)"
    by (cases rule: cases_rt) (use assms in auto)
  show "completions j audit' = completions j audit +
      (if j = i \<and> (\<exists>s. transition (sj_status job) v = Inr s \<and> job_is_terminal s) then 1 else 0)"
    by (cases rule: cases_rt) (use assms in \<open>auto simp: completions_def record_audit_def\<close>)
qed

text \<open>The calls act on a job as the machine acts on the events meant for it.\<close>

lemma transition_calls_refine:
  "load_job j db = Inr job \<Longrightarrow> transition_calls cs (db, audit) = ((db', audit'), rs) \<Longrightarrow>
   load_job j db' = Inr (job\<lparr>sj_status := run_events transition (sj_status job) (events_of j cs)\<rparr>)
   \<and> accepted_of j rs = accepted_events transition (sj_status job) (events_of j cs)
   \<and> completions j audit' = completions j audit +
       (if \<not> job_is_terminal (sj_status job)
           \<and> job_is_terminal (run_events transition (sj_status job) (events_of j cs)) then 1 else 0)"
proof (induction cs arbitrary: db audit job rs)
  case Nil
  then show ?case by (simp add: events_of_def accepted_of_def)
next
  case (Cons c cs)
  obtain now i v where c: "c = (now, i, v)" by (cases c)
  obtain db1 audit1 r where t: "transition_job now i v (db, audit) = ((db1, audit1), r)"
    by (metis prod.exhaust)
  obtain rs' where rest: "transition_calls cs (db1, audit1) = ((db', audit'), rs')" and rs: "rs = (i, r) # rs'"
    using Cons.prems(2) by (auto simp: c t split: prod.splits)
  note eff = transition_job_effect [OF Cons.prems(1) t]
  note ih = Cons.IH [OF eff(1) rest]
  show ?case
  proof (cases "j = i")
    case False
    with ih eff show ?thesis by (simp add: rs c events_of_def accepted_of_def)
  next
    case True
    show ?thesis
    proof (cases "transition (sj_status job) v")
      case (Inl e)
      with ih eff True show ?thesis by (simp add: rs c events_of_def accepted_of_def)
    next
      case (Inr s)
      then have "\<not> job_is_terminal (sj_status job)" by (rule transition_Inr_live)
      moreover have "job_is_terminal s \<longrightarrow> run_events transition s (events_of j cs) = s"
        using job_machine.final_stays by blast
      ultimately show ?thesis
        using ih eff True Inr by (auto simp: rs c events_of_def accepted_of_def)
    qed
  qed
qed

text \<open>
  C30: however the calls for many jobs interleave, each job goes through the state machine on its own
  events alone: its stored status is what the machine makes of them and nothing else of it changes, at
  most two of its calls are accepted and none after a final status, and its completion is audited
  exactly once, when it becomes final.
\<close>

theorem job_life_bounded:
  assumes "load_job j db = Inr job" and "transition_calls cs (db, audit) = ((db', audit'), rs)"
  shows "load_job j db' = Inr (job\<lparr>sj_status := run_events transition (sj_status job) (events_of j cs)\<rparr>)
    \<and> accepted_of j rs = accepted_events transition (sj_status job) (events_of j cs)
    \<and> accepted_of j rs \<le> 2 \<and> (job_is_terminal (sj_status job) \<longrightarrow> accepted_of j rs = 0)
    \<and> completions j audit' = completions j audit +
        (if \<not> job_is_terminal (sj_status job)
            \<and> job_is_terminal (run_events transition (sj_status job) (events_of j cs)) then 1 else 0)"
proof -
  have "accepted_events transition (sj_status job) (events_of j cs) \<le> job_rank (sj_status job)"
    by (rule job_machine.accepted_bound)
  moreover have "job_rank (sj_status job) \<le> 2" by (simp add: job_rank_def split: job_status.splits)
  moreover have "job_is_terminal (sj_status job) \<Longrightarrow> job_rank (sj_status job) = 0" by (simp add: job_rank_terminal)
  ultimately show ?thesis using transition_calls_refine [OF assms] by auto
qed

lemma load_sample_job:
  "load_job ''j1'' (empty_graph_db\<lparr>specialist_jobs := [job_to_row ''t'' sample_job]\<rparr>) = Inr sample_job"
  by (simp add: load_job_def job_to_row_def sample_job_def new_job_def job_status_text.parse_as_str links_of_def
      empty_graph_db_def default_budget_def as_i64_def as_u64_def)

theorem job_life_bounded_witness:
  "let calls = [(''t1'', ''j1'', Start), (''t2'', ''j9'', Fail), (''t3'', ''j1'', Complete), (''t4'', ''j1'', Cancel)];
       res = transition_calls calls (empty_graph_db\<lparr>specialist_jobs := [job_to_row ''t'' sample_job]\<rparr>, [])
   in accepted_of ''j1'' (snd res) = 2 \<and> completions ''j1'' (snd (fst res)) = 1
      \<and> load_job ''j1'' (fst (fst res)) = Inr (sample_job\<lparr>sj_status := Succeeded\<rparr>)"
proof -
  let ?calls = "[(''t1'', ''j1'', Start), (''t2'', ''j9'', Fail), (''t3'', ''j1'', Complete), (''t4'', ''j1'', Cancel)]"
  let ?res = "transition_calls ?calls (empty_graph_db\<lparr>specialist_jobs := [job_to_row ''t'' sample_job]\<rparr>, [])"
  have "?res = ((fst (fst ?res), snd (fst ?res)), snd ?res)" by simp
  from job_life_bounded [OF load_sample_job this] show ?thesis
    by (simp add: events_of_def sample_job_def new_job_def job_is_terminal_def completions_def Let_def del: transition_calls.simps)
qed

section \<open>Jobs read back\<close>

lemma as_u64_as_i64 [simp]: "as_u64 (as_i64 v) = v"
  by (simp add: as_u64_def as_i64_def)

lemma as_u64_budget: "map_option as_u64 (map_option as_i64 b) = b"
  by (cases b) simp_all

definition link_set :: "string \<Rightarrow> graph_db \<Rightarrow> string set" where
  "link_set i db = {l. \<exists>r\<in>set (specialist_job_runs db). run_job r = i \<and> run_link r = l}"

lemma link_set_add: "link_set j (add_run_link now i l db) = (if j = i then insert l (link_set j db) else link_set j db)"
  by (force simp: link_set_def add_run_link_def insert_new_def has_key_def)

lemma link_set_fold: "link_set j (fold (add_run_link now i) ls db) = (if j = i then set ls \<union> link_set j db else link_set j db)"
  by (induction ls arbitrary: db) (auto simp: link_set_add)

abbreviation runs_keyed :: "graph_db \<Rightarrow> bool" where
  "runs_keyed db \<equiv> primary_key (\<lambda>r. (run_job r, run_link r)) (specialist_job_runs db)"

lemma runs_keyed_add: "runs_keyed db \<Longrightarrow> runs_keyed (add_run_link now i l db)"
  by (simp add: add_run_link_def primary_key_insert_new)

lemma runs_keyed_fold: "runs_keyed db \<Longrightarrow> runs_keyed (fold (add_run_link now i) ls db)"
  by (induction ls arbitrary: db) (simp_all add: runs_keyed_add)

lemma links_of_sorted:
  assumes "runs_keyed db"
  shows "links_of i db = sorted_list_of_set (link_set i db)"
proof (rule sorted_distinct_set_unique)
  have "set (links_of i db) = link_set i db"
    by (auto simp: links_of_def link_set_def)
  moreover have "finite (link_set i db)"
    using calculation by (metis List.finite_set)
  ultimately show "set (links_of i db) = set (sorted_list_of_set (link_set i db))" by simp
  have "inj_on run_link {r \<in> set (specialist_job_runs db). run_job r = i}"
    using assms by (auto simp: primary_key_def distinct_map inj_on_def)
  moreover have "distinct (specialist_job_runs db)"
    using assms by (auto simp: primary_key_def distinct_map)
  ultimately show "distinct (links_of i db)"
    by (simp add: links_of_def distinct_map)
qed (simp_all add: links_of_def)

lemma links_of_other:
  "j \<noteq> i \<Longrightarrow> runs_keyed db \<Longrightarrow> links_of j (fold (add_run_link now i) ls db) = links_of j db"
  by (simp add: links_of_sorted runs_keyed_fold link_set_fold)

text \<open>
  a job that \<open>insert_job\<close> stores is what \<open>load_job\<close> returns, with its \<open>u64\<close> budget and timeout intact
  over their whole range although the columns are signed, and with its run links in order and once
  each beside those already linked to the id; every other job reads as before, and a second job of
  the same id is refused and changes nothing.
\<close>

theorem stored_job_reads_back:
  assumes "runs_keyed db" and "\<forall>r\<in>set (specialist_jobs db). jr_id r \<noteq> sj_id job"
  shows "\<exists>db'. insert_job now job db = (db', Inr ())
    \<and> load_job (sj_id job) db'
        = Inr (job\<lparr>sj_run_links := sorted_list_of_set (set (sj_run_links job) \<union> link_set (sj_id job) db)\<rparr>)
    \<and> (\<forall>j. j \<noteq> sj_id job \<longrightarrow> load_job j db' = load_job j db)
    \<and> (\<forall>now' job'. sj_id job' = sj_id job \<longrightarrow> insert_job now' job' db' = (db', Inl StoreSqlite))"
proof -
  define db0 where "db0 = db\<lparr>specialist_jobs := specialist_jobs db @ [job_to_row now job]\<rparr>"
  define db' where "db' = fold (add_run_link now (sj_id job)) (sj_run_links job) db0"
  have new: "\<not> has_key jr_id (sj_id job) (specialist_jobs db)" using assms(2) by (auto simp: has_key_def)
  have keyed: "runs_keyed db0" using assms(1) by (simp add: db0_def)
  have jobs: "specialist_jobs db' = specialist_jobs db @ [job_to_row now job]"
    by (simp add: db'_def db0_def)
  have links0: "link_set i db0 = link_set i db" "links_of i db0 = links_of i db" for i
    by (simp_all add: link_set_def links_of_def db0_def)
  have ins: "insert_job now job db = (db', Inr ())"
    using new by (simp add: insert_job_def db'_def db0_def)
  have "query_row (\<lambda>r. jr_id r = sj_id job) (specialist_jobs db) = None"
    using assms(2) by (simp add: query_row_None_iff)
  then have q: "query_row (\<lambda>r. jr_id r = sj_id job) (specialist_jobs db') = Some (job_to_row now job)"
    by (simp add: jobs query_row_append job_to_row_def)
  have links: "links_of (sj_id job) db' = sorted_list_of_set (set (sj_run_links job) \<union> link_set (sj_id job) db)"
    using links_of_sorted [OF runs_keyed_fold [OF keyed]] by (simp add: db'_def link_set_fold links0)
  have "load_job (sj_id job) db'
      = Inr (job\<lparr>sj_run_links := sorted_list_of_set (set (sj_run_links job) \<union> link_set (sj_id job) db)\<rparr>)"
    unfolding load_job_def q links by (simp add: job_to_row_def job_status_text.parse_as_str as_u64_budget)
  moreover have "load_job j db' = load_job j db" if "j \<noteq> sj_id job" for j
  proof -
    have "query_row (\<lambda>r. jr_id r = j) (specialist_jobs db') = query_row (\<lambda>r. jr_id r = j) (specialist_jobs db)"
      using that by (simp add: jobs query_row_append job_to_row_def split: option.splits)
    moreover have "links_of j db' = links_of j db"
      using links_of_other [OF that keyed] by (simp add: db'_def links0)
    ultimately show ?thesis by (simp add: load_job_def)
  qed
  moreover have "insert_job now' job' db' = (db', Inl StoreSqlite)" if "sj_id job' = sj_id job" for now' job'
    using that by (simp add: insert_job_def jobs has_key_def job_to_row_def)
  ultimately show ?thesis using ins by blast
qed

theorem stored_job_reads_back_witness:
  "load_job ''j1'' (fst (insert_job ''t'' (sample_job\<lparr>sj_timeout := 0xFFFFFFFFFFFFFFFF, sj_run_links := [''b'', ''a'', ''b'']\<rparr>) empty_graph_db))
     = Inr (sample_job\<lparr>sj_timeout := 0xFFFFFFFFFFFFFFFF, sj_run_links := [''a'', ''b'']\<rparr>)"
proof -
  let ?job = "sample_job\<lparr>sj_timeout := 0xFFFFFFFFFFFFFFFF, sj_run_links := [''b'', ''a'', ''b'']\<rparr>"
  have "runs_keyed empty_graph_db" "\<forall>r\<in>set (specialist_jobs empty_graph_db). jr_id r \<noteq> sj_id ?job"
    "link_set ''j1'' empty_graph_db = {}" "sj_id ?job = ''j1''"
    by (simp_all add: empty_graph_db_def primary_key_def link_set_def sample_job_def new_job_def)
  moreover have "sorted_list_of_set (set [''b'', ''a'', ''b'']) = [''a'', ''b'']"
  proof -
    have "sorted [''a'', ''b'']" by (simp add: less_eq_char_def)
    then have "sorted_list_of_set (set [''a'', ''b'']) = [''a'', ''b'']"
      by (intro sorted_list_of_set.idem_if_sorted_distinct) simp_all
    moreover have "set [''b'', ''a'', ''b''] = set [''a'', ''b'']" by auto
    ultimately show ?thesis by simp
  qed
  moreover have "sj_run_links ?job = [''b'', ''a'', ''b'']" by simp
  ultimately show ?thesis
    using stored_job_reads_back [of empty_graph_db ?job "''t''"]
    by (simp only: Un_empty_right) fastforce
qed

section \<open>The allow-list\<close>

lemma neighbours_push:
  "btree_ok m \<Longrightarrow> neighbours (btree_push k v m) a = (if a = k then neighbours m k @ [v] else neighbours m a)"
  by (simp add: neighbours_def btree_push_def map_of_btree_insert)

lemma arcs_push: "btree_ok m \<Longrightarrow> arcs (btree_push k v m) = insert (k, v) (arcs m)"
  by (auto simp: arcs_def neighbours_push split: if_splits)

lemma fold_push_arcs:
  "btree_ok m \<Longrightarrow> arcs (fold (\<lambda>(f, t). btree_push f t) acl m) = set acl \<union> arcs m"
proof (induction acl arbitrary: m)
  case (Cons e acl)
  obtain f t where e: "e = (f, t)" by (cases e)
  have "btree_ok (btree_push f t m)"
    unfolding btree_push_def by (rule btree_insert_ok [OF Cons.prems])
  from Cons.IH [OF this] show ?case by (simp add: e arcs_push [OF Cons.prems])
qed simp

lemma acl_arcs: "arcs (acl_adjacency acl) = set acl"
  using fold_push_arcs [of "[]" acl] by (simp add: acl_adjacency_def arcs_def neighbours_def)

lemma acl_nodes_set: "set (acl_nodes acl) = fst ` set acl \<union> snd ` set acl"
  by (force simp: acl_nodes_def)

lemma acl_cycle_search: "acl_first_cycle_node acl = find (reaches_cycle (acl_adjacency acl)) (acl_nodes acl)"
  by (simp add: acl_first_cycle_node_def find_cycle_empty)

lemma is_acyclic_iff: "is_acyclic acl \<longleftrightarrow> acyclic (set acl)"
proof
  assume none: "is_acyclic acl"
  show "acyclic (set acl)"
  proof (rule acyclicI, intro allI notI)
    fix x
    assume cyc: "(x, x) \<in> (set acl)\<^sup>+"
    then obtain y where "(x, y) \<in> set acl" by (meson tranclD)
    then have "x \<in> set (acl_nodes acl)" by (force simp: acl_nodes_set)
    moreover have "reaches_cycle (acl_adjacency acl) x" using cyc by (auto simp: reaches_cycle_def acl_arcs)
    ultimately show False using none by (auto simp: is_acyclic_def acl_cycle_search find_None_iff)
  qed
next
  assume "acyclic (set acl)"
  then show "is_acyclic acl"
    using reaches_cycle_cyclic [of "acl_adjacency acl"]
    by (auto simp: is_acyclic_def acl_cycle_search find_None_iff acl_arcs)
qed

lemma acl_search_order: "set acl = set acl' \<Longrightarrow> acl_first_cycle_node acl = acl_first_cycle_node acl'"
  unfolding acl_cycle_search
  by (rule find_set_cong) (simp_all add: acl_nodes_set reaches_cycle_def acl_arcs, simp_all add: acl_nodes_def btree_set_sorted)

lemma authorize_a2a_Inr: "authorize_a2a acl f t = Inr () \<longleftrightarrow> acyclic (set acl) \<and> (f, t) \<in> set acl"
  by (auto simp: authorize_a2a_def is_allowed_def is_acyclic_iff [symmetric] is_acyclic_def split: option.splits)

text \<open>A chain of handoffs: each group in it was allowed to hand off to the next.\<close>

fun handoff_chain :: "a2a_acl \<Rightarrow> string list \<Rightarrow> bool" where
  "handoff_chain acl (g # h # gs) \<longleftrightarrow> authorize_a2a acl g h = Inr () \<and> handoff_chain acl (h # gs)"
| "handoff_chain acl gs \<longleftrightarrow> True"

lemma chain_reaches: "handoff_chain acl (g # gs) \<Longrightarrow> x \<in> set gs \<Longrightarrow> (g, x) \<in> (set acl)\<^sup>+"
proof (induction gs arbitrary: g)
  case (Cons h gs)
  then have "(g, h) \<in> set acl" "handoff_chain acl (h # gs)" by (simp_all add: authorize_a2a_Inr)
  with Cons.IH [of h] Cons.prems(2) show ?case by (auto intro: trancl_into_trancl2)
qed simp

lemma chain_distinct: "acyclic (set acl) \<Longrightarrow> handoff_chain acl gs \<Longrightarrow> distinct gs"
proof (induction gs rule: handoff_chain.induct)
  case (1 acl g h gs)
  have "g \<notin> set (h # gs)" using chain_reaches [OF 1(3)] 1(2) by (meson acyclic_def)
  with 1 show ?case by simp
qed simp_all

lemma chain_nodes: "handoff_chain acl (g # h # gs) \<Longrightarrow> set (g # h # gs) \<subseteq> fst ` set acl \<union> snd ` set acl"
proof (induction gs arbitrary: g h)
  case Nil
  then show ?case by (force simp: authorize_a2a_Inr)
next
  case (Cons x gs)
  have ch: "handoff_chain acl (h # x # gs)" and "(g, h) \<in> set acl"
    using Cons.prems by (simp_all add: authorize_a2a_Inr)
  then have "g \<in> fst ` set acl" by (auto intro: rev_image_eqI)
  with Cons.IH [OF ch] show ?case by simp
qed

text \<open>
  C31: agent-to-agent routing always terminates: a group is allowed to hand off exactly along an edge of an
  allow-list without directed cycles, so no chain of handoffs meets a group twice and none is longer than
  the number of groups on the list. Whatever the list, cyclic or not, the answer, the node named in the error
  included, does not depend on the order in which the hash set yields the edges.
\<close>

theorem handoff_chains_terminate:
  assumes "set acl' = set acl"
  shows "(\<forall>gs. 2 \<le> length gs \<and> handoff_chain acl gs \<longrightarrow> distinct gs \<and> length gs \<le> length (acl_nodes acl))
    \<and> (\<forall>f t. authorize_a2a acl f t = Inr () \<longleftrightarrow> acyclic (set acl) \<and> (f, t) \<in> set acl)
    \<and> (\<forall>f t. authorize_a2a acl' f t = authorize_a2a acl f t)"
proof -
  have "distinct gs \<and> length gs \<le> length (acl_nodes acl)" if "2 \<le> length gs" and chain: "handoff_chain acl gs" for gs
  proof -
    from that(1) obtain g h hs where gs: "gs = g # h # hs"
      by (metis One_nat_def Suc_1 Suc_le_length_iff)
    from chain have ac: "acyclic (set acl)" by (simp add: gs authorize_a2a_Inr)
    have d: "distinct gs" by (rule chain_distinct [OF ac chain])
    then have "length gs = card (set gs)" by (simp only: distinct_card)
    also have "\<dots> \<le> card (set (acl_nodes acl))"
      using chain_nodes [OF chain [unfolded gs]] by (intro card_mono) (simp_all add: gs acl_nodes_set)
    also have "\<dots> \<le> length (acl_nodes acl)" by (rule card_length)
    finally show ?thesis using d by simp
  qed
  moreover have "authorize_a2a acl' f t = authorize_a2a acl f t" for f t
    using acl_search_order [OF assms] assms by (simp add: authorize_a2a_def is_allowed_def)
  ultimately show ?thesis by (simp add: authorize_a2a_Inr)
qed

theorem handoff_chains_terminate_witness:
  "distinct [''main'', ''web'', ''pdf''] \<and> length [''main'', ''web'', ''pdf''] \<le> length (acl_nodes [(''web'', ''pdf''), (''main'', ''web'')])
   \<and> authorize_a2a [(''b'', ''a''), (''a'', ''b'')] ''x'' ''y'' = Inl (CyclicAcl ''a'')
   \<and> authorize_a2a [(''a'', ''b''), (''b'', ''a'')] ''x'' ''y'' = Inl (CyclicAcl ''a'')"
proof -
  let ?acl = "[(''web'', ''pdf''), (''main'', ''web'')]"
  have "acyclic (set ?acl)"
    by (rule acyclic_subset [OF wf_acyclic [OF wf_measure [of "\<lambda>g. if g = ''main'' then 0 else if g = ''web'' then 1 else 2"]]])
      simp
  then have chain: "handoff_chain ?acl [''main'', ''web'', ''pdf'']" by (simp add: authorize_a2a_Inr)
  have len: "2 \<le> length [''main'', ''web'', ''pdf'']" by simp
  have "authorize_a2a [(''a'', ''b''), (''b'', ''a'')] ''x'' ''y'' = Inl (CyclicAcl ''a'')" by code_simp
  moreover have "set [(''b'', ''a''), (''a'', ''b'')] = set [(''a'', ''b''), (''b'', ''a'')]" by auto
  note handoff_chains_terminate [OF this, THEN conjunct2, THEN conjunct2]
  ultimately show ?thesis
    using handoff_chains_terminate [OF refl [of "set ?acl"], THEN conjunct1, rule_format, OF conjI [OF len chain]] by simp
qed

end
