(* ===== verification/Router.thy ===== *)
theory Router
  imports Strings Interfaces "HOL-Library.Word"
begin

text \<open>
  \<open>crates/assistant-router\<close>: the normalized routing event with its keys (\<open>channel.rs\<close>), the engagement
  decision (\<open>engagement.rs\<close>), the persisted sticky windows (\<open>sticky.rs\<close>), the audit of dropped messages
  (\<open>model.rs\<close>, \<open>store.rs\<close>) and the channel registry (\<open>registry.rs\<close>). Unicode lowercasing is the
  argument \<open>lower\<close>; what a channel does on its platform is not modelled.
\<close>

section \<open>Events\<close>

datatype message_state = New | Edited | Deleted | Reaction string

record routing_event =
  ev_channel_kind :: string
  ev_chat_id :: string
  ev_sender_id :: string
  ev_sender_label :: "string option"
  ev_platform_message_id :: string
  ev_thread_root_id :: "string option"
  ev_reply_target_id :: "string option"
  ev_engagement_key :: string
  ev_permalink :: "string option"
  ev_state :: message_state
  ev_is_mention :: bool
  ev_is_direct :: bool
  ev_is_self_author :: bool
  ev_dedupe_key :: string
  ev_text :: string
  ev_raw_ref :: "string option"

definition dedupe_key :: "string \<Rightarrow> string \<Rightarrow> string \<Rightarrow> string" where
  "dedupe_key kind chat message = kind @ '':'' @ chat @ '':'' @ message"

definition engagement_key :: "string \<Rightarrow> string \<Rightarrow> string option \<Rightarrow> string" where
  "engagement_key kind chat root =
     (case root of
        Some r \<Rightarrow> kind @ '':'' @ chat @ '':'' @ r
      | None \<Rightarrow> kind @ '':'' @ chat)"

record delivery_target =
  dt_chat_id :: string
  dt_thread_root_id :: "string option"

datatype outbound_content =
    Text string
  | Card string string string
  | Question string "string list" string

fun fallback_text :: "outbound_content \<Rightarrow> string" where
  "fallback_text (Text body) = body"
| "fallback_text (Card title body fallback) = fallback"
| "fallback_text (Question prompt options fallback) = fallback"

datatype channel_health = Connected | Degraded string | Disconnected string

definition health_is_connected :: "channel_health \<Rightarrow> bool" where
  "health_is_connected h \<longleftrightarrow> h = Connected"

section \<open>Engagement\<close>

datatype drop_reason =
  UnknownSender | UnknownChannel | NotAuthorized | Malformed | NoRoute | Duplicate | NotEngaged

definition drop_reason_str :: "drop_reason \<Rightarrow> string" where
  "drop_reason_str r =
     (case r of
        UnknownSender \<Rightarrow> ''unknown_sender''
      | UnknownChannel \<Rightarrow> ''unknown_channel''
      | NotAuthorized \<Rightarrow> ''not_authorized''
      | Malformed \<Rightarrow> ''malformed''
      | NoRoute \<Rightarrow> ''no_route''
      | Duplicate \<Rightarrow> ''duplicate''
      | NotEngaged \<Rightarrow> ''not_engaged'')"

definition parse_drop_reason :: "string \<Rightarrow> drop_reason option" where
  "parse_drop_reason s =
     (if s = ''unknown_sender'' then Some UnknownSender
      else if s = ''unknown_channel'' then Some UnknownChannel
      else if s = ''not_authorized'' then Some NotAuthorized
      else if s = ''malformed'' then Some Malformed
      else if s = ''no_route'' then Some NoRoute
      else if s = ''duplicate'' then Some Duplicate
      else if s = ''not_engaged'' then Some NotEngaged
      else None)"

interpretation drop_reason_text: text_enum drop_reason_str parse_drop_reason
  by unfold_locales
    (auto simp: drop_reason_str_def parse_drop_reason_def split: drop_reason.splits if_splits)

datatype engagement_mode = Pattern string | Mention | MentionSticky

datatype sender_scope = AllSenders | KnownSenders

datatype ignored_policy = DropIgnored | AccumulateIgnored

datatype engagement_decision = Engage | Accumulate | DropMessage drop_reason | Ignore

record engagement_context =
  sender_is_member :: bool
  ctx_has_active_sticky :: bool

definition text_matches :: "(string \<Rightarrow> string) \<Rightarrow> string \<Rightarrow> string \<Rightarrow> bool" where
  "text_matches lower t trigger \<longleftrightarrow> contains_str (lower t) (lower trigger)"

definition is_engaged :: "(string \<Rightarrow> string) \<Rightarrow> routing_event \<Rightarrow> engagement_mode \<Rightarrow> bool \<Rightarrow> bool" where
  "is_engaged lower ev mode sticky \<longleftrightarrow>
     (case mode of
        Pattern trigger \<Rightarrow> trigger = ''.'' \<or> text_matches lower (ev_text ev) trigger
      | Mention \<Rightarrow> ev_is_mention ev \<or> ev_is_direct ev
      | MentionSticky \<Rightarrow> ev_is_mention ev \<or> ev_is_direct ev \<or> sticky)"

definition evaluate_engagement ::
  "(string \<Rightarrow> string) \<Rightarrow> routing_event \<Rightarrow> engagement_mode \<Rightarrow> sender_scope \<Rightarrow> ignored_policy \<Rightarrow> engagement_context
   \<Rightarrow> engagement_decision" where
  "evaluate_engagement lower ev mode scope policy ctx =
     (if ev_is_self_author ev then Ignore
      else if is_engaged lower ev mode (ctx_has_active_sticky ctx)
      then (if scope = KnownSenders \<and> \<not> sender_is_member ctx then DropMessage NotAuthorized else Engage)
      else (case policy of
              AccumulateIgnored \<Rightarrow> Accumulate
            | DropIgnored \<Rightarrow> DropMessage NotEngaged))"

section \<open>The router's tables\<close>

record dropped_row =
  dr_id :: int
  dr_channel :: string
  dr_sender :: "string option"
  dr_reason :: string
  dr_payload :: "string option"
  dr_created :: string

record sticky_row =
  sk_group :: int
  sk_key :: string
  sk_root :: "string option"
  sk_scope :: "string option"
  sk_expires :: "int option"
  sk_active :: int
  sk_reset_reason :: "string option"
  sk_created :: string
  sk_updated :: "string option"

record router_db =
  dropped_messages :: "dropped_row list"
  sticky_engagement :: "sticky_row list"

datatype router_error = RouterSqlite | RouterUnknownEnum string

record dropped_message =
  dm_id :: int
  dm_channel_kind :: string
  dm_sender :: "string option"
  dm_reason :: drop_reason
  dm_payload :: "string option"
  dm_created :: string

definition record_drop ::
  "string \<Rightarrow> string \<Rightarrow> string option \<Rightarrow> drop_reason \<Rightarrow> string option \<Rightarrow> router_db \<Rightarrow> router_db \<times> int" where
  "record_drop now channel sender reason payload db =
     (let i = next_rowid dr_id (dropped_messages db)
      in (db\<lparr>dropped_messages := dropped_messages db @
             [\<lparr>dr_id = i, dr_channel = channel, dr_sender = sender, dr_reason = drop_reason_str reason,
               dr_payload = payload, dr_created = now\<rparr>]\<rparr>, i))"

definition read_drop :: "dropped_row \<Rightarrow> router_error + dropped_message" where
  "read_drop r =
     rbind (ok_or (RouterUnknownEnum (dr_reason r)) (parse_drop_reason (dr_reason r))) (\<lambda>reason.
       Inr \<lparr>dm_id = dr_id r, dm_channel_kind = dr_channel r, dm_sender = dr_sender r, dm_reason = reason,
            dm_payload = dr_payload r, dm_created = dr_created r\<rparr>)"

definition list_drops :: "32 word \<Rightarrow> router_db \<Rightarrow> router_error + dropped_message list" where
  "list_drops limit db =
     collect_results (map read_drop (take (unat limit) (rev (sort_key dr_id (dropped_messages db)))))"

definition count_drops :: "router_db \<Rightarrow> nat" where
  "count_drops db = length (dropped_messages db)"

definition count_drops_by_reason :: "drop_reason \<Rightarrow> router_db \<Rightarrow> nat" where
  "count_drops_by_reason reason db = count_where (\<lambda>r. dr_reason r = drop_reason_str reason) (dropped_messages db)"

section \<open>Sticky windows\<close>

record sticky_engagement_rec =
  se_group :: int
  se_key :: string
  se_root :: "string option"
  se_scope :: "string option"
  se_expires :: "int option"
  se_active :: bool
  se_reset_reason :: "string option"

definition sticky_pk :: "sticky_row \<Rightarrow> int \<times> string" where
  "sticky_pk r = (sk_group r, sk_key r)"

definition refresh_sticky :: "sticky_row \<Rightarrow> sticky_row \<Rightarrow> sticky_row" where
  "refresh_sticky old excluded =
     old\<lparr>sk_root := sk_root excluded, sk_scope := sk_scope excluded, sk_expires := sk_expires excluded,
         sk_active := 1, sk_reset_reason := None, sk_updated := sk_updated excluded\<rparr>"

definition open_sticky ::
  "string \<Rightarrow> int \<Rightarrow> string \<Rightarrow> string option \<Rightarrow> string option \<Rightarrow> int option \<Rightarrow> router_db \<Rightarrow> router_db" where
  "open_sticky now agent key root scope expires db =
     db\<lparr>sticky_engagement := upsert_row sticky_pk refresh_sticky
          \<lparr>sk_group = agent, sk_key = key, sk_root = root, sk_scope = scope, sk_expires = expires,
           sk_active = 1, sk_reset_reason = None, sk_created = now, sk_updated = Some now\<rparr>
          (sticky_engagement db)\<rparr>"

definition read_sticky_row :: "sticky_row \<Rightarrow> sticky_engagement_rec" where
  "read_sticky_row r =
     \<lparr>se_group = sk_group r, se_key = sk_key r, se_root = sk_root r, se_scope = sk_scope r,
      se_expires = sk_expires r, se_active = (sk_active r \<noteq> 0), se_reset_reason = sk_reset_reason r\<rparr>"

definition sticky_live :: "int \<Rightarrow> sticky_row \<Rightarrow> bool" where
  "sticky_live clock r \<longleftrightarrow>
     sk_active r = 1 \<and> (case sk_expires r of None \<Rightarrow> True | Some e \<Rightarrow> e > clock)"

definition lookup_active_sticky :: "int \<Rightarrow> string \<Rightarrow> int \<Rightarrow> router_db \<Rightarrow> sticky_engagement_rec option" where
  "lookup_active_sticky agent key clock db =
     map_option read_sticky_row
       (query_row (\<lambda>r. sk_group r = agent \<and> sk_key r = key \<and> sticky_live clock r) (sticky_engagement db))"

definition has_active_sticky :: "int \<Rightarrow> string \<Rightarrow> int \<Rightarrow> router_db \<Rightarrow> bool" where
  "has_active_sticky agent key clock db \<longleftrightarrow> lookup_active_sticky agent key clock db \<noteq> None"

definition sticky_expired :: "int \<Rightarrow> sticky_row \<Rightarrow> bool" where
  "sticky_expired clock r \<longleftrightarrow>
     sk_active r = 1 \<and> (case sk_expires r of None \<Rightarrow> False | Some e \<Rightarrow> e \<le> clock)"

definition expire_sticky :: "string \<Rightarrow> int \<Rightarrow> router_db \<Rightarrow> router_db \<times> nat" where
  "expire_sticky now clock db =
     (db\<lparr>sticky_engagement := update_where (sticky_expired clock)
           (\<lambda>r. r\<lparr>sk_active := 0, sk_reset_reason := Some ''expired'', sk_updated := Some now\<rparr>)
           (sticky_engagement db)\<rparr>,
      count_where (sticky_expired clock) (sticky_engagement db))"

definition reset_sticky :: "string \<Rightarrow> int \<Rightarrow> string \<Rightarrow> string \<Rightarrow> router_db \<Rightarrow> router_db \<times> bool" where
  "reset_sticky now agent key reason db =
     (let hit = (\<lambda>r. sk_group r = agent \<and> sk_key r = key \<and> sk_active r = 1)
      in (db\<lparr>sticky_engagement := update_where hit
               (\<lambda>r. r\<lparr>sk_active := 0, sk_reset_reason := Some reason, sk_updated := Some now\<rparr>)
               (sticky_engagement db)\<rparr>,
          0 < count_where hit (sticky_engagement db)))"

section \<open>Registered channels\<close>

text \<open>A channel adapter, as far as the registry looks at it.\<close>

record channel_adapter =
  ca_kind :: string
  ca_health :: channel_health

datatype registry_error = DuplicateChannel string

definition register_channel :: "channel_adapter \<Rightarrow> channel_adapter list \<Rightarrow> channel_adapter list \<times> (registry_error + unit)" where
  "register_channel c cs =
     (if list_ex (\<lambda>x. ca_kind x = ca_kind c) cs then (cs, Inl (DuplicateChannel (ca_kind c)))
      else (cs @ [c], Inr ()))"

definition channel_kinds :: "channel_adapter list \<Rightarrow> string list" where
  "channel_kinds cs = map ca_kind cs"

definition get_channel :: "string \<Rightarrow> channel_adapter list \<Rightarrow> channel_adapter option" where
  "get_channel kind cs = find (\<lambda>c. ca_kind c = kind) cs"

definition health_report :: "channel_adapter list \<Rightarrow> (string \<times> channel_health) list" where
  "health_report cs = map (\<lambda>c. (ca_kind c, ca_health c)) cs"

definition all_connected :: "channel_adapter list \<Rightarrow> bool" where
  "all_connected cs \<longleftrightarrow> list_all (\<lambda>c. health_is_connected (ca_health c)) cs"

section \<open>Laws of the sticky windows\<close>

definition get_sticky :: "sticky_row list \<Rightarrow> int \<times> string \<Rightarrow> sticky_row option" where
  "get_sticky t k = query_row (\<lambda>r. sticky_pk r = k) t"

lemma sticky_pk_refresh [simp]: "sticky_pk (refresh_sticky old r) = sticky_pk old"
  by (simp add: sticky_pk_def refresh_sticky_def)

lemma refresh_fields: "refresh_sticky x (r\<lparr>sk_active := 1, sk_reset_reason := None\<rparr>) = refresh_sticky x r"
  by (simp add: refresh_sticky_def)

definition put_sticky :: "sticky_row \<Rightarrow> sticky_row list \<Rightarrow> sticky_row list" where
  "put_sticky r t = upsert_row sticky_pk refresh_sticky (r\<lparr>sk_active := 1, sk_reset_reason := None\<rparr>) t"

definition merge_sticky :: "sticky_row option \<Rightarrow> sticky_row \<Rightarrow> sticky_row" where
  "merge_sticky old r =
     (case old of None \<Rightarrow> r\<lparr>sk_active := 1, sk_reset_reason := None\<rparr> | Some x \<Rightarrow> refresh_sticky x r)"

interpretation sticky_store: keyed_store get_sticky put_sticky sticky_pk merge_sticky "primary_key sticky_pk"
proof
  fix t r k
  show "primary_key sticky_pk t \<Longrightarrow> primary_key sticky_pk (put_sticky r t)"
    unfolding put_sticky_def by (rule primary_key_upsert_row) simp
  have pk: "sticky_pk (r\<lparr>sk_active := 1, sk_reset_reason := None\<rparr>) = sticky_pk r"
    by (simp add: sticky_pk_def)
  show "get_sticky (put_sticky r t) k = (if k = sticky_pk r then Some (merge_sticky (get_sticky t k) r) else get_sticky t k)"
    unfolding get_sticky_def put_sticky_def
    by (subst query_row_upsert_row) (simp_all add: pk sticky_pk_refresh merge_sticky_def refresh_fields split: option.splits)
  show "merge_sticky (Some (merge_sticky v r)) r = merge_sticky v r" for v
    by (simp add: merge_sticky_def refresh_sticky_def split: option.splits)
qed

text \<open>The row of a conversation, and what the operations make of it.\<close>

definition window :: "int \<Rightarrow> string \<Rightarrow> router_db \<Rightarrow> sticky_row option" where
  "window agent key db = get_sticky (sticky_engagement db) (agent, key)"

definition windows_ok :: "router_db \<Rightarrow> bool" where
  "windows_ok db \<longleftrightarrow> primary_key sticky_pk (sticky_engagement db)"

lemma has_active_sticky_window:
  assumes "windows_ok db"
  shows "has_active_sticky agent key clock db \<longleftrightarrow> (\<exists>r. window agent key db = Some r \<and> sticky_live clock r)"
proof
  assume "has_active_sticky agent key clock db"
  then obtain r where "query_row (\<lambda>r. sk_group r = agent \<and> sk_key r = key \<and> sticky_live clock r) (sticky_engagement db) = Some r"
    by (auto simp: has_active_sticky_def lookup_active_sticky_def)
  then have r: "r \<in> set (sticky_engagement db)" "sticky_pk r = (agent, key)" "sticky_live clock r"
    by (auto simp: sticky_pk_def dest: query_row_SomeD)
  moreover have "query_row (\<lambda>x. sticky_pk x = (agent, key)) (sticky_engagement db) = Some r"
    using query_row_unique [of sticky_pk "sticky_engagement db" r "\<lambda>x. sticky_pk x = (agent, key)"] assms r
    by (simp add: windows_ok_def)
  ultimately show "\<exists>r. window agent key db = Some r \<and> sticky_live clock r"
    by (simp add: window_def get_sticky_def)
next
  assume "\<exists>r. window agent key db = Some r \<and> sticky_live clock r"
  then obtain r where "r \<in> set (sticky_engagement db)" "sk_group r = agent" "sk_key r = key" "sticky_live clock r"
    by (auto simp: window_def get_sticky_def sticky_pk_def dest: query_row_SomeD)
  then show "has_active_sticky agent key clock db"
    by (auto simp: has_active_sticky_def lookup_active_sticky_def query_row_None_iff)
qed

lemma open_sticky_put:
  "open_sticky now agent key root scope expires db
     = db\<lparr>sticky_engagement := put_sticky \<lparr>sk_group = agent, sk_key = key, sk_root = root, sk_scope = scope,
         sk_expires = expires, sk_active = 1, sk_reset_reason = None, sk_created = now, sk_updated = Some now\<rparr>
         (sticky_engagement db)\<rparr>"
  by (simp add: open_sticky_def put_sticky_def)

lemma open_sticky_ok: "windows_ok db \<Longrightarrow> windows_ok (open_sticky now agent key root scope expires db)"
  by (simp add: windows_ok_def open_sticky_put sticky_store.ok_put)

lemma window_open:
  assumes "windows_ok db"
  shows "\<exists>r. window agent key (open_sticky now agent key root scope expires db) = Some r \<and> sk_active r = 1 \<and> sk_expires r = expires"
    and "(agent', key') \<noteq> (agent, key) \<Longrightarrow>
      window agent' key' (open_sticky now agent key root scope expires db) = window agent' key' db"
  using assms
  by (auto simp: window_def windows_ok_def open_sticky_put sticky_store.get_put sticky_pk_def merge_sticky_def
      refresh_sticky_def split: option.splits)

lemma window_update:
  "(\<And>r. P r \<Longrightarrow> sticky_pk (f r) = sticky_pk r) \<Longrightarrow>
   window agent key (db\<lparr>sticky_engagement := update_where P f (sticky_engagement db)\<rparr>)
     = map_option (\<lambda>r. if P r then f r else r) (window agent key db)"
  unfolding window_def get_sticky_def by (simp add: query_row_update_where)

lemma window_expire:
  "window agent key (fst (expire_sticky now clock db))
     = map_option (\<lambda>r. if sticky_expired clock r
         then r\<lparr>sk_active := 0, sk_reset_reason := Some ''expired'', sk_updated := Some now\<rparr> else r) (window agent key db)"
  unfolding expire_sticky_def fst_conv by (rule window_update) (simp add: sticky_pk_def)

lemma expire_sticky_ok: "windows_ok db \<Longrightarrow> windows_ok (fst (expire_sticky now clock db))"
  by (simp add: windows_ok_def expire_sticky_def primary_key_update_where sticky_pk_def)

lemma window_drop [simp]: "window agent key (fst (record_drop now c s r p db)) = window agent key db"
  by (simp add: window_def record_drop_def Let_def)

lemma drop_ok [simp]: "windows_ok (fst (record_drop now c s r p db)) = windows_ok db"
  by (simp add: windows_ok_def record_drop_def Let_def)

lemma expire_keeps_answer:
  assumes "windows_ok db"
  shows "has_active_sticky agent key clock' (fst (expire_sticky now clock db)) \<longleftrightarrow>
    has_active_sticky agent key clock' db \<and>
      (\<forall>r e. window agent key db = Some r \<longrightarrow> sk_expires r = Some e \<longrightarrow> clock < e)"
proof (cases "window agent key db")
  case None
  then show ?thesis
    by (simp add: has_active_sticky_window [OF assms] has_active_sticky_window [OF expire_sticky_ok [OF assms]] window_expire)
next
  case (Some r)
  then show ?thesis
    by (cases "sk_expires r")
      (auto simp: has_active_sticky_window [OF assms] has_active_sticky_window [OF expire_sticky_ok [OF assms]]
        window_expire sticky_live_def sticky_expired_def)
qed

end
