(* ===== verification/Serve_Gate.thy ===== *)
theory Serve_Gate
  imports Router Permissions Session_Db
begin

text \<open>
  What stands between a Slack event and a turn in \<open>crates/assistant-host/src/slack.rs\<close>: the filter of
  \<open>handle_event\<close>, the bounded record of events already handled (\<open>RecentlySeen\<close>), and \<open>passes_gate\<close>, which
  asks the permissions and the engagement tables and audits what it refuses. The clock is an argument,
  as is the text of \<open>datetime('now')\<close>.
\<close>

section \<open>Redeliveries\<close>

record recently_seen =
  seen_order :: "string list"
  seen_keys :: "string set"
  seen_capacity :: nat

definition seen_new :: "nat \<Rightarrow> recently_seen" where
  "seen_new capacity = \<lparr>seen_order = [], seen_keys = {}, seen_capacity = capacity\<rparr>"

definition seen_evict :: "recently_seen \<Rightarrow> recently_seen" where
  "seen_evict s =
     (if seen_capacity s \<le> length (seen_order s)
      then (case seen_order s of
              [] \<Rightarrow> s
            | old # rest \<Rightarrow> s\<lparr>seen_order := rest, seen_keys := seen_keys s - {old}\<rparr>)
      else s)"

definition seen_insert :: "string \<Rightarrow> recently_seen \<Rightarrow> recently_seen \<times> bool" where
  "seen_insert key s =
     (if key \<in> seen_keys s then (s, False)
      else let s1 = seen_evict s
           in (s1\<lparr>seen_order := seen_order s1 @ [key], seen_keys := insert key (seen_keys s1)\<rparr>, True))"

definition seen_max :: nat where "seen_max = 1024"

section \<open>The gate\<close>

definition host_agent_group :: int where "host_agent_group = 1"
definition sticky_ttl_secs :: int where "sticky_ttl_secs = 3600"

record gate_options =
  opt_engagement :: engagement_mode
  opt_policy :: unknown_policy

definition thread_root :: "routing_event \<Rightarrow> string" where
  "thread_root ev =
     (case ev_thread_root_id ev of Some r \<Rightarrow> r | None \<Rightarrow> ev_platform_message_id ev)"

definition window_key :: "routing_event \<Rightarrow> string" where
  "window_key ev = engagement_key (ev_channel_kind ev) (ev_chat_id ev) (Some (thread_root ev))"

definition audit_drop :: "string \<Rightarrow> routing_event \<Rightarrow> drop_reason \<Rightarrow> router_db \<Rightarrow> router_db" where
  "audit_drop now ev reason db =
     fst (record_drop now (ev_channel_kind ev) (Some (ev_sender_id ev)) reason (Some (ev_text ev)) db)"

definition passes_gate ::
  "(string \<Rightarrow> string) \<Rightarrow> gate_options \<Rightarrow> string \<Rightarrow> int \<Rightarrow> 'a perm_db_scheme \<Rightarrow> routing_event \<Rightarrow> router_db
   \<Rightarrow> router_db \<times> bool" where
  "passes_gate lower opts now clock perms ev db =
     (if evaluate_sender (ev_channel_kind ev) (ev_sender_id ev) (opt_policy opts) perms \<noteq> Allow
      then (audit_drop now ev UnknownSender db, False)
      else
        (let sticky = has_active_sticky host_agent_group (ev_engagement_key ev) clock db;
             ctx = \<lparr>sender_is_member = True, ctx_has_active_sticky = sticky\<rparr>
         in case evaluate_engagement lower ev (opt_engagement opts) AllSenders DropIgnored ctx of
              Engage \<Rightarrow>
                (if opt_engagement opts = MentionSticky
                 then open_sticky now host_agent_group (window_key ev) (Some (thread_root ev)) None
                        (Some (i64_add clock sticky_ttl_secs)) db
                 else db, True)
            | DropMessage reason \<Rightarrow> (audit_drop now ev reason db, False)
            | Accumulate \<Rightarrow> (db, False)
            | Ignore \<Rightarrow> (db, False)))"

text \<open>
  \<open>handle_event\<close> up to the turn: the message for the session of the channel and where its replies go,
  when the event drives a turn.
\<close>

definition drives_nothing :: "routing_event \<Rightarrow> bool" where
  "drives_nothing ev \<longleftrightarrow> ev_is_self_author ev \<or> ev_state ev \<noteq> New \<or> trim (ev_text ev) = []"

definition admit_event ::
  "(string \<Rightarrow> string) \<Rightarrow> gate_options \<Rightarrow> string \<Rightarrow> int \<Rightarrow> 'a perm_db_scheme \<Rightarrow> routing_event
   \<Rightarrow> recently_seen \<times> router_db \<Rightarrow> (recently_seen \<times> router_db) \<times> (inbound_message \<times> delivery_target) option" where
  "admit_event lower opts now clock perms ev st =
     (if drives_nothing ev then (st, None)
      else
        (case seen_insert (ev_dedupe_key ev) (fst st) of
           (seen, False) \<Rightarrow> ((seen, snd st), None)
         | (seen, True) \<Rightarrow>
             (case passes_gate lower opts now clock perms ev (snd st) of
                (db, False) \<Rightarrow> ((seen, db), None)
              | (db, True) \<Rightarrow>
                  ((seen, db),
                   Some (\<lparr>msg_sender = ev_sender_id ev, msg_content = ev_text ev, msg_metadata = None,
                          msg_thread = Some (thread_root ev)\<rparr>,
                         \<lparr>dt_chat_id = ev_chat_id ev, dt_thread_root_id = Some (thread_root ev)\<rparr>)))))"

section \<open>What is remembered\<close>

definition seen_ok :: "recently_seen \<Rightarrow> bool" where
  "seen_ok s \<longleftrightarrow> distinct (seen_order s) \<and> seen_keys s = set (seen_order s)
     \<and> length (seen_order s) \<le> seen_capacity s \<and> 0 < seen_capacity s"

lemma seen_insert_spec:
  assumes "seen_ok s"
  shows "snd (seen_insert k s) \<longleftrightarrow> k \<notin> set (seen_order s)"
    and "k \<in> set (seen_order s) \<Longrightarrow> fst (seen_insert k s) = s"
    and "k \<notin> set (seen_order s) \<Longrightarrow> seen_ok (fst (seen_insert k s))
       \<and> seen_order (fst (seen_insert k s))
           = drop (Suc (length (seen_order s)) - seen_capacity s) (seen_order s @ [k])
       \<and> seen_capacity (fst (seen_insert k s)) = seen_capacity s"
proof -
  show "snd (seen_insert k s) \<longleftrightarrow> k \<notin> set (seen_order s)"
    using assms by (simp add: seen_insert_def seen_ok_def Let_def)
  show "k \<in> set (seen_order s) \<Longrightarrow> fst (seen_insert k s) = s"
    using assms by (simp add: seen_insert_def seen_ok_def)
  assume k: "k \<notin> set (seen_order s)"
  show "seen_ok (fst (seen_insert k s))
       \<and> seen_order (fst (seen_insert k s))
           = drop (Suc (length (seen_order s)) - seen_capacity s) (seen_order s @ [k])
       \<and> seen_capacity (fst (seen_insert k s)) = seen_capacity s"
  proof (cases "seen_capacity s \<le> length (seen_order s)")
    case True
    with assms have full: "length (seen_order s) = seen_capacity s" by (simp add: seen_ok_def)
    with assms obtain old rest where o: "seen_order s = old # rest" by (cases "seen_order s") (auto simp: seen_ok_def)
    have "set (old # rest) - {old} = set rest" using assms o by (auto simp: seen_ok_def)
    with assms k True full o show ?thesis
      by (simp add: seen_insert_def seen_evict_def seen_ok_def Let_def)
  next
    case False
    with assms k show ?thesis by (simp add: seen_insert_def seen_evict_def seen_ok_def Let_def)
  qed
qed

fun insert_all :: "string list \<Rightarrow> recently_seen \<Rightarrow> recently_seen \<times> string list" where
  "insert_all [] s = (s, [])"
| "insert_all (k # ks) s =
     (case seen_insert k s of
        (s1, fresh) \<Rightarrow> (case insert_all ks s1 of (s2, acc) \<Rightarrow> (s2, if fresh then k # acc else acc)))"

definition last_of :: "nat \<Rightarrow> 'a list \<Rightarrow> 'a list" where
  "last_of n xs = drop (length xs - n) xs"

lemma last_of_append: "last_of n (last_of n xs @ ys) = last_of n (xs @ ys)"
proof (cases "length xs \<le> n")
  case False
  then have "length (last_of n xs) = n" by (simp add: last_of_def)
  with False show ?thesis by (simp add: last_of_def add.commute)
qed (simp add: last_of_def)

lemma last_of_take: "last_of n xs = xs" if "length xs \<le> n"
  using that by (simp add: last_of_def)

lemma insert_all_order:
  "seen_ok s \<Longrightarrow> insert_all ks s = (s', acc) \<Longrightarrow>
   seen_ok s' \<and> seen_capacity s' = seen_capacity s \<and> seen_order s' = last_of (seen_capacity s) (seen_order s @ acc)"
proof (induction ks arbitrary: s acc)
  case Nil
  then show ?case by (simp add: last_of_take seen_ok_def)
next
  case (Cons k ks)
  obtain s1 fresh where s1: "seen_insert k s = (s1, fresh)" by fastforce
  obtain acc1 where rest: "insert_all ks s1 = (s', acc1)" and acc: "acc = (if fresh then k # acc1 else acc1)"
    using Cons.prems(2) by (auto simp: s1 split: prod.splits)
  show ?case
  proof (cases "k \<in> set (seen_order s)")
    case True
    with seen_insert_spec [OF Cons.prems(1), of k] s1 have "s1 = s" "\<not> fresh" by auto
    with Cons.IH [OF Cons.prems(1)] rest acc show ?thesis by simp
  next
    case False
    with seen_insert_spec [OF Cons.prems(1), of k] s1
    have ok: "seen_ok s1" and cap: "seen_capacity s1 = seen_capacity s" and f: "fresh"
      and ord: "seen_order s1 = last_of (seen_capacity s) (seen_order s @ [k])"
      by (auto simp: last_of_def)
    from Cons.IH [OF ok rest] show ?thesis
      by (simp add: ord cap acc f last_of_append)
  qed
qed

section \<open>Which events drive a turn\<close>

lemma evaluate_sender_Allow:
  "evaluate_sender channel address policy perms = Allow \<longleftrightarrow>
     resolve_user_by_dm channel address perms \<noteq> None \<or> policy = Public"
  by (auto simp: evaluate_sender_def decide_access_def split: unknown_policy.splits)

abbreviation sender_known :: "gate_options \<Rightarrow> 'a perm_db_scheme \<Rightarrow> routing_event \<Rightarrow> bool" where
  "sender_known opts perms ev \<equiv>
     resolve_user_by_dm (ev_channel_kind ev) (ev_sender_id ev) perms \<noteq> None \<or> opt_policy opts = Public"

abbreviation event_engages :: "(string \<Rightarrow> string) \<Rightarrow> gate_options \<Rightarrow> int \<Rightarrow> routing_event \<Rightarrow> router_db \<Rightarrow> bool" where
  "event_engages lower opts clock ev db \<equiv>
     is_engaged lower ev (opt_engagement opts) (has_active_sticky host_agent_group (ev_engagement_key ev) clock db)"

lemma passes_gate_unknown:
  "\<not> sender_known opts perms ev \<Longrightarrow> passes_gate lower opts now clock perms ev db = (audit_drop now ev UnknownSender db, False)"
  by (simp add: passes_gate_def evaluate_sender_Allow)

lemma passes_gate_idle:
  "sender_known opts perms ev \<Longrightarrow> \<not> ev_is_self_author ev \<Longrightarrow> \<not> event_engages lower opts clock ev db \<Longrightarrow>
   passes_gate lower opts now clock perms ev db = (audit_drop now ev NotEngaged db, False)"
  by (simp add: passes_gate_def evaluate_sender_Allow evaluate_engagement_def Let_def)

lemma passes_gate_engaged:
  "sender_known opts perms ev \<Longrightarrow> \<not> ev_is_self_author ev \<Longrightarrow> event_engages lower opts clock ev db \<Longrightarrow>
   passes_gate lower opts now clock perms ev db =
     (if opt_engagement opts = MentionSticky
      then open_sticky now host_agent_group (window_key ev) (Some (thread_root ev)) None
             (Some (i64_add clock sticky_ttl_secs)) db
      else db, True)"
  by (simp add: passes_gate_def evaluate_sender_Allow evaluate_engagement_def Let_def)

lemma passes_gate_self:
  "sender_known opts perms ev \<Longrightarrow> ev_is_self_author ev \<Longrightarrow> passes_gate lower opts now clock perms ev db = (db, False)"
  by (simp add: passes_gate_def evaluate_sender_Allow evaluate_engagement_def Let_def)

lemma audit_drop_rows:
  "dropped_messages (audit_drop now ev reason db)
     = dropped_messages db @ [\<lparr>dr_id = next_rowid dr_id (dropped_messages db), dr_channel = ev_channel_kind ev,
         dr_sender = Some (ev_sender_id ev), dr_reason = drop_reason_str reason, dr_payload = Some (ev_text ev),
         dr_created = now\<rparr>]"
  by (simp add: audit_drop_def record_drop_def Let_def)

lemma open_sticky_drops [simp]:
  "dropped_messages (open_sticky now agent key root scope expires db) = dropped_messages db"
  by (simp add: open_sticky_def)

text \<open>
  C27: an event drives a turn exactly when it is a new, non-empty message of somebody else that was not
  handled before, its sender is registered for the channel or the policy is public, and it engages the
  agent; the turn then gets the text under the thread its replies go to. Every other new message leaves
  exactly one row in the audit of dropped messages, with its reason, and a redelivery leaves no trace.
\<close>

theorem event_drives_turn_iff:
  "case admit_event lower opts now clock perms ev (seen, db) of
     ((seen', db'), Some (m, target)) \<Rightarrow>
       \<not> drives_nothing ev \<and> ev_dedupe_key ev \<notin> seen_keys seen \<and> sender_known opts perms ev
       \<and> event_engages lower opts clock ev db \<and> dropped_messages db' = dropped_messages db
       \<and> msg_content m = ev_text ev \<and> msg_sender m = ev_sender_id ev
       \<and> dt_chat_id target = ev_chat_id ev \<and> dt_thread_root_id target = msg_thread m
   | ((seen', db'), None) \<Rightarrow>
       (drives_nothing ev \<or> ev_dedupe_key ev \<in> seen_keys seen) \<and> (seen', db') = (seen, db)
       \<or> (\<not> drives_nothing ev \<and> ev_dedupe_key ev \<notin> seen_keys seen
          \<and> (\<exists>reason i. dropped_messages db' = dropped_messages db @
                [\<lparr>dr_id = i, dr_channel = ev_channel_kind ev, dr_sender = Some (ev_sender_id ev),
                  dr_reason = drop_reason_str reason, dr_payload = Some (ev_text ev), dr_created = now\<rparr>]
              \<and> (reason = UnknownSender \<and> \<not> sender_known opts perms ev
                 \<or> reason = NotEngaged \<and> sender_known opts perms ev \<and> \<not> event_engages lower opts clock ev db)))"
proof (cases "drives_nothing ev \<or> ev_dedupe_key ev \<in> seen_keys seen")
  case True
  then show ?thesis by (cases "drives_nothing ev") (simp_all add: admit_event_def seen_insert_def)
next
  case False
  then have self: "\<not> ev_is_self_author ev" by (simp add: drives_nothing_def)
  obtain seen1 where seen1: "seen_insert (ev_dedupe_key ev) seen = (seen1, True)"
    using False by (auto simp: seen_insert_def Let_def)
  consider "\<not> sender_known opts perms ev"
    | "sender_known opts perms ev" "\<not> event_engages lower opts clock ev db"
    | "sender_known opts perms ev" "event_engages lower opts clock ev db"
    by blast
  then show ?thesis
  proof cases
    case 1
    then show ?thesis
      using False by (auto simp: admit_event_def seen1 passes_gate_unknown [OF 1] audit_drop_rows)
  next
    case 2
    then show ?thesis
      using False by (auto simp: admit_event_def seen1 passes_gate_idle [OF 2(1) self 2(2)] audit_drop_rows)
  next
    case 3
    then show ?thesis
      using False by (auto simp: admit_event_def seen1 passes_gate_engaged [OF 3(1) self 3(2)])
  qed
qed

section \<open>Redeliveries are ignored\<close>

fun serve_events ::
  "(string \<Rightarrow> string) \<Rightarrow> gate_options \<Rightarrow> 'a perm_db_scheme \<Rightarrow> (string \<times> int \<times> routing_event) list
   \<Rightarrow> recently_seen \<times> router_db \<Rightarrow> (recently_seen \<times> router_db) \<times> string list" where
  "serve_events lower opts perms [] st = (st, [])"
| "serve_events lower opts perms ((now, clock, ev) # es) st =
     (case admit_event lower opts now clock perms ev st of
        (st1, _) \<Rightarrow>
          (case serve_events lower opts perms es st1 of
             (st2, handled) \<Rightarrow>
               (st2, if \<not> drives_nothing ev \<and> ev_dedupe_key ev \<notin> seen_keys (fst st) then ev_dedupe_key ev # handled
                     else handled)))"

lemma admit_event_seen:
  "fst (fst (admit_event lower opts now clock perms ev st))
     = (if drives_nothing ev then fst st else fst (seen_insert (ev_dedupe_key ev) (fst st)))"
  by (auto simp: admit_event_def split: prod.splits bool.splits)

lemma serve_events_inserts:
  assumes "serve_events lower opts perms es st = (st', handled)"
  shows "insert_all (map (\<lambda>(_, _, ev). ev_dedupe_key ev) (filter (\<lambda>(_, _, ev). \<not> drives_nothing ev) es)) (fst st)
    = (fst st', handled)"
  using assms
proof (induction es arbitrary: st handled)
  case (Cons e es)
  obtain now clock ev where e: "e = (now, clock, ev)" by (cases e)
  obtain st1 r where st1: "admit_event lower opts now clock perms ev st = (st1, r)" by fastforce
  obtain h where rest: "serve_events lower opts perms es st1 = (st', h)"
    and handled: "handled = (if \<not> drives_nothing ev \<and> ev_dedupe_key ev \<notin> seen_keys (fst st) then ev_dedupe_key ev # h else h)"
    using Cons.prems by (auto simp: e st1 split: prod.splits)
  have fst1: "fst st1 = (if drives_nothing ev then fst st else fst (seen_insert (ev_dedupe_key ev) (fst st)))"
    using admit_event_seen [of lower opts now clock perms ev st] by (simp add: st1)
  obtain s1 b where s1: "seen_insert (ev_dedupe_key ev) (fst st) = (s1, b)" by fastforce
  have "b \<longleftrightarrow> ev_dedupe_key ev \<notin> seen_keys (fst st)"
    using s1 by (auto simp: seen_insert_def Let_def split: if_splits)
  then show ?case
    using Cons.IH [OF rest] fst1 s1 handled by (cases "drives_nothing ev") (auto simp: e)
qed simp

text \<open>
  however Slack delivers, the record of handled events holds exactly the last 1024 that were new, once
  each, and never more; an event that is among them is dropped without a second look at the gate.
\<close>

theorem redelivered_event_ignored:
  assumes "serve_events lower opts perms es (seen_new seen_max, db) = ((seen, db'), handled)"
  shows "seen_order seen = last_of seen_max handled \<and> distinct (seen_order seen) \<and> length (seen_order seen) \<le> seen_max
    \<and> (\<forall>now clock ev. ev_dedupe_key ev \<in> set (last_of seen_max handled) \<longrightarrow>
         admit_event lower opts now clock perms ev (seen, db') = ((seen, db'), None))"
proof -
  have "seen_ok (seen_new seen_max)" by (simp add: seen_ok_def seen_new_def seen_max_def)
  from insert_all_order [OF this serve_events_inserts [OF assms, unfolded fst_conv]]
  have ok: "seen_ok seen" and ord: "seen_order seen = last_of seen_max handled" and cap: "seen_capacity seen = seen_max"
    by (simp_all add: seen_new_def)
  have "admit_event lower opts now clock perms ev (seen, db') = ((seen, db'), None)"
    if "ev_dedupe_key ev \<in> set (last_of seen_max handled)" for now clock ev
    using that ok ord by (simp add: admit_event_def seen_insert_def seen_ok_def)
  with ok ord cap show ?thesis by (simp add: seen_ok_def)
qed

definition sample_event :: routing_event where
  "sample_event =
     \<lparr>ev_channel_kind = ''slack'', ev_chat_id = ''C1'', ev_sender_id = ''U1'', ev_sender_label = None,
      ev_platform_message_id = ''17'', ev_thread_root_id = None, ev_reply_target_id = None,
      ev_engagement_key = engagement_key ''slack'' ''C1'' None, ev_permalink = None, ev_state = New,
      ev_is_mention = True, ev_is_direct = False, ev_is_self_author = False,
      ev_dedupe_key = dedupe_key ''slack'' ''C1'' ''17'', ev_text = ''hi'', ev_raw_ref = None\<rparr>"

definition open_options :: gate_options where
  "open_options = \<lparr>opt_engagement = MentionSticky, opt_policy = Public\<rparr>"

definition empty_router_db :: router_db where
  "empty_router_db = \<lparr>dropped_messages = [], sticky_engagement = []\<rparr>"

lemma sample_event_speaks: "\<not> drives_nothing sample_event"
proof -
  have "trim ''hi'' = ''hi''" by (rule trim_graphic) (simp_all add: ascii_graphic_def)
  then show ?thesis by (simp add: drives_nothing_def sample_event_def)
qed

theorem redelivered_event_ignored_witness:
  "\<exists>seen db'. serve_events (\<lambda>s. s) open_options sample_perm_db [(''t'', 5, sample_event)] (seen_new seen_max, empty_router_db)
       = ((seen, db'), [dedupe_key ''slack'' ''C1'' ''17''])
     \<and> admit_event (\<lambda>s. s) open_options ''u'' 9 sample_perm_db sample_event (seen, db') = ((seen, db'), None)"
proof -
  obtain seen db' handled where run:
    "serve_events (\<lambda>s. s) open_options sample_perm_db [(''t'', 5, sample_event)] (seen_new seen_max, empty_router_db)
       = ((seen, db'), handled)"
    by (metis prod.exhaust)
  then have handled: "handled = [ev_dedupe_key sample_event]"
    using sample_event_speaks by (auto simp: seen_new_def split: prod.splits)
  have "ev_dedupe_key sample_event \<in> set (last_of seen_max handled)"
    by (simp add: handled last_of_def seen_max_def)
  with redelivered_event_ignored [OF run] run handled show ?thesis
    by (auto simp: sample_event_def)
qed

section \<open>Follow-ups stay engaged\<close>

text \<open>What else the serve loop does to the windows while the clock is in a span: other events, expiry sweeps.\<close>

inductive window_step ::
  "(string \<Rightarrow> string) \<Rightarrow> gate_options \<Rightarrow> 'a perm_db_scheme \<Rightarrow> int \<Rightarrow> int \<Rightarrow> router_db \<Rightarrow> router_db \<Rightarrow> bool"
  for lower opts perms lo hi where
  window_gate: "lo \<le> clock \<Longrightarrow> clock < hi \<Longrightarrow> passes_gate lower opts now clock perms ev db = (db', b) \<Longrightarrow>
    window_step lower opts perms lo hi db db'"
| window_sweep: "clock < hi \<Longrightarrow> expire_sticky now clock db = (db', n) \<Longrightarrow> window_step lower opts perms lo hi db db'"

definition window_holds :: "string \<Rightarrow> int \<Rightarrow> router_db \<Rightarrow> bool" where
  "window_holds key until db \<longleftrightarrow> windows_ok db
     \<and> (\<exists>r e. window host_agent_group key db = Some r \<and> sk_active r = 1 \<and> sk_expires r = Some e \<and> until \<le> e)"

lemma passes_gate_cases:
  obtains (audited) reason where "passes_gate lower opts now clock perms ev db = (audit_drop now ev reason db, False)"
  | (silent) b where "passes_gate lower opts now clock perms ev db = (db, b)" "b \<Longrightarrow> opt_engagement opts \<noteq> MentionSticky"
  | (opened) "opt_engagement opts = MentionSticky" "passes_gate lower opts now clock perms ev db
      = (open_sticky now host_agent_group (window_key ev) (Some (thread_root ev)) None
           (Some (i64_add clock sticky_ttl_secs)) db, True)"
proof (cases "sender_known opts perms ev")
  case False
  with audited passes_gate_unknown show ?thesis by blast
next
  case known: True
  show ?thesis
  proof (cases "ev_is_self_author ev")
    case True
    with known silent [of False] passes_gate_self show ?thesis by blast
  next
    case False
    with known audited silent [of True] opened passes_gate_idle [OF known False] passes_gate_engaged [OF known False]
    show ?thesis by (cases "event_engages lower opts clock ev db"; cases "opt_engagement opts = MentionSticky") auto
  qed
qed

lemma window_holds_drop: "window_holds key until (audit_drop now ev reason db) = window_holds key until db"
  by (simp add: window_holds_def audit_drop_def)

lemma window_holds_open:
  assumes "window_holds key until db" and "until \<le> e"
  shows "window_holds key until (open_sticky now host_agent_group key' root scope (Some e) db)"
proof -
  have ok: "windows_ok db" using assms(1) by (simp add: window_holds_def)
  show ?thesis
  proof (cases "key' = key")
    case True
    with window_open(1) [OF ok, of host_agent_group key now root scope "Some e"] assms(2) open_sticky_ok [OF ok]
    show ?thesis by (auto simp: window_holds_def)
  next
    case False
    with window_open(2) [OF ok, of host_agent_group key host_agent_group key' now root scope "Some e"] assms(1)
      open_sticky_ok [OF ok]
    show ?thesis by (auto simp: window_holds_def)
  qed
qed

lemma window_holds_step:
  assumes "window_step lower opts perms lo hi db db'" and "window_holds key until db"
    and "hi \<le> until" "until \<le> lo + sticky_ttl_secs" "in_i64 lo" "in_i64 (hi + sticky_ttl_secs)"
  shows "window_holds key until db'"
  using assms(1)
proof cases
  case (window_gate clock now ev b)
  show ?thesis
  proof (cases rule: passes_gate_cases [of lower opts now clock perms ev db])
    case (audited reason)
    with window_gate have "db' = audit_drop now ev reason db" by simp
    with assms(2) show ?thesis by (simp add: window_holds_drop)
  next
    case (silent b)
    with window_gate assms(2) show ?thesis by simp
  next
    case opened
    have "in_i64 (clock + sticky_ttl_secs)"
      using window_gate(1,2) assms(5,6) by (simp add: in_i64_def sticky_ttl_secs_def)
    then have "i64_add clock sticky_ttl_secs = clock + sticky_ttl_secs" by (rule i64_add_exact)
    with window_holds_open [OF assms(2), of "clock + sticky_ttl_secs"] opened window_gate assms(4) show ?thesis by simp
  qed
next
  case (window_sweep clock now n)
  then have db': "db' = fst (expire_sticky now clock db)" by simp
  from assms(2) obtain r e where r: "window host_agent_group key db = Some r" "sk_active r = 1" "sk_expires r = Some e" "until \<le> e"
    by (auto simp: window_holds_def)
  then have "\<not> sticky_expired clock r" using window_sweep(1) assms(3) by (simp add: sticky_expired_def)
  with r assms(2) show ?thesis
    by (simp add: window_holds_def db' window_expire expire_sticky_ok)
qed

lemma window_holds_steps:
  assumes "(window_step lower opts perms lo hi)\<^sup>*\<^sup>* db db'" and "window_holds key until db"
    and "hi \<le> until" "until \<le> lo + sticky_ttl_secs" "in_i64 lo" "in_i64 (hi + sticky_ttl_secs)"
  shows "window_holds key until db'"
  using assms(1,2) by (induction rule: rtranclp_induct) (blast intro: window_holds_step assms(3-6))+

text \<open>
  C28: a message that engages the agent at a time \<open>c\<close> keeps its thread engaged for the next hour: whatever
  other events pass or fail the gate and whatever sweeps run meanwhile, a follow-up in that thread by a
  sender the gate lets in drives a turn without a mention, at any time before \<open>c + 3600\<close>; and where
  nothing renewed the window, from then on it is refused without a mention.
\<close>

theorem follow_up_stays_engaged:
  assumes "passes_gate lower opts now c perms ev db = (db1, True)" and "opt_engagement opts = MentionSticky"
    and "windows_ok db" and "in_i64 c" "in_i64 (c + 2 * sticky_ttl_secs)"
    and "(window_step lower opts perms c (c + sticky_ttl_secs))\<^sup>*\<^sup>* db1 db2"
    and "ev_engagement_key ev2 = window_key ev" "sender_known opts perms ev2" "\<not> ev_is_self_author ev2"
  shows "(\<forall>c2 now2. c2 < c + sticky_ttl_secs \<longrightarrow> snd (passes_gate lower opts now2 c2 perms ev2 db2))
    \<and> (\<forall>c2 now2. c + sticky_ttl_secs \<le> c2 \<and> \<not> ev_is_mention ev2 \<and> \<not> ev_is_direct ev2 \<longrightarrow>
         \<not> snd (passes_gate lower opts now2 c2 perms ev2 db1))"
proof -
  have exact: "i64_add c sticky_ttl_secs = c + sticky_ttl_secs"
    by (rule i64_add_exact) (use assms(4,5) in \<open>simp add: in_i64_def sticky_ttl_secs_def\<close>)
  have db1: "db1 = open_sticky now host_agent_group (window_key ev) (Some (thread_root ev)) None
      (Some (c + sticky_ttl_secs)) db"
    using assms(1,2) exact by (cases rule: passes_gate_cases [of lower opts now c perms ev db]) auto
  obtain r where r: "window host_agent_group (window_key ev) db1 = Some r" "sk_active r = 1"
    "sk_expires r = Some (c + sticky_ttl_secs)"
    using window_open(1) [OF assms(3)] db1 by blast
  have ok1: "windows_ok db1" using open_sticky_ok [OF assms(3)] db1 by simp
  then have "window_holds (window_key ev) (c + sticky_ttl_secs) db1" using r by (simp add: window_holds_def)
  then have holds: "window_holds (window_key ev) (c + sticky_ttl_secs) db2"
    by (rule window_holds_steps [OF assms(6)])
      (use assms(4,5) in \<open>simp_all add: sticky_ttl_secs_def add.commute\<close>)
  have "snd (passes_gate lower opts now2 c2 perms ev2 db2)" if "c2 < c + sticky_ttl_secs" for c2 now2
  proof -
    have "has_active_sticky host_agent_group (ev_engagement_key ev2) c2 db2"
      using holds that assms(7) by (auto simp: window_holds_def has_active_sticky_window sticky_live_def)
    then have "event_engages lower opts c2 ev2 db2" using assms(2) by (simp add: is_engaged_def)
    from passes_gate_engaged [OF assms(8,9) this] show ?thesis by simp
  qed
  moreover have "\<not> snd (passes_gate lower opts now2 c2 perms ev2 db1)"
    if "c + sticky_ttl_secs \<le> c2" "\<not> ev_is_mention ev2" "\<not> ev_is_direct ev2" for c2 now2
  proof -
    have "\<not> has_active_sticky host_agent_group (ev_engagement_key ev2) c2 db1"
      using r that assms(7) ok1 by (simp add: has_active_sticky_window sticky_live_def)
    then have "\<not> event_engages lower opts c2 ev2 db1" using assms(2) that by (simp add: is_engaged_def)
    from passes_gate_idle [OF assms(8,9) this] show ?thesis by simp
  qed
  ultimately show ?thesis by blast
qed

definition sample_follow_up :: routing_event where
  "sample_follow_up = sample_event\<lparr>ev_is_mention := False, ev_thread_root_id := Some ''17'',
     ev_engagement_key := engagement_key ''slack'' ''C1'' (Some ''17''), ev_platform_message_id := ''18''\<rparr>"

theorem follow_up_stays_engaged_witness:
  "\<exists>db1. passes_gate (\<lambda>s. s) open_options ''t'' 5 sample_perm_db sample_event empty_router_db = (db1, True)
     \<and> snd (passes_gate (\<lambda>s. s) open_options ''u'' 3000 sample_perm_db sample_follow_up (fst (expire_sticky ''v'' 2000 db1)))
     \<and> \<not> snd (passes_gate (\<lambda>s. s) open_options ''u'' 4000 sample_perm_db sample_follow_up db1)"
proof -
  have public: "sender_known open_options sample_perm_db ev" for ev by (simp add: open_options_def)
  have self: "\<not> ev_is_self_author sample_event" "\<not> ev_is_self_author sample_follow_up"
    by (simp_all add: sample_event_def sample_follow_up_def)
  have "event_engages (\<lambda>s. s) open_options 5 sample_event empty_router_db"
    by (simp add: is_engaged_def open_options_def sample_event_def)
  from passes_gate_engaged [OF public self(1) this] obtain db1 where
    db1: "passes_gate (\<lambda>s. s) open_options ''t'' 5 sample_perm_db sample_event empty_router_db = (db1, True)"
    by (simp add: open_options_def)
  have steps: "(window_step (\<lambda>s. s) open_options sample_perm_db 5 (5 + sticky_ttl_secs))\<^sup>*\<^sup>* db1 (fst (expire_sticky ''v'' 2000 db1))"
    by (rule r_into_rtranclp, rule window_sweep [of 2000 _ "''v''" _ _ "snd (expire_sticky ''v'' 2000 db1)"])
      (simp_all add: sticky_ttl_secs_def)
  have key: "ev_engagement_key sample_follow_up = window_key sample_event"
    by (simp add: sample_follow_up_def sample_event_def window_key_def thread_root_def)
  have "windows_ok empty_router_db" by (simp add: windows_ok_def empty_router_db_def primary_key_def)
  note fu = follow_up_stays_engaged [OF db1 _ this _ _ steps key public self(2)]
  have "\<not> ev_is_mention sample_follow_up" "\<not> ev_is_direct sample_follow_up"
    by (simp_all add: sample_event_def sample_follow_up_def)
  with db1 fu show ?thesis
    by (simp add: open_options_def in_i64_def i64_min_def i64_max_def sticky_ttl_secs_def)
qed

text \<open>A mention drives a turn, and its redelivery or an unrelated message does not.\<close>

theorem event_drives_turn_iff_witness:
  "\<exists>seen db m target. admit_event (\<lambda>s. s) open_options ''t'' 5 sample_perm_db sample_event (seen_new seen_max, empty_router_db)
       = ((seen, db), Some (m, target))
     \<and> msg_content m = ''hi'' \<and> dt_chat_id target = ''C1'' \<and> dropped_messages db = []"
proof -
  obtain seen db out where out:
    "admit_event (\<lambda>s. s) open_options ''t'' 5 sample_perm_db sample_event (seen_new seen_max, empty_router_db) = ((seen, db), out)"
    by (metis prod.exhaust)
  have known: "sender_known open_options sample_perm_db sample_event" by (simp add: open_options_def)
  have engages: "event_engages (\<lambda>s. s) open_options 5 sample_event empty_router_db"
    by (simp add: is_engaged_def open_options_def sample_event_def)
  have fresh: "ev_dedupe_key sample_event \<notin> seen_keys (seen_new seen_max)" by (simp add: seen_new_def)
  have sample: "ev_text sample_event = ''hi''" "ev_chat_id sample_event = ''C1''" by (simp_all add: sample_event_def)
  note iff = event_drives_turn_iff [where lower = "\<lambda>s. s" and opts = open_options and now = "''t''" and clock = 5
      and perms = sample_perm_db and ev = sample_event and seen = "seen_new seen_max" and db = empty_router_db, unfolded out]
  show ?thesis
  proof (cases out)
    case None
    with iff known engages fresh sample_event_speaks show ?thesis by simp
  next
    case (Some mt)
    with iff out sample show ?thesis by (cases mt) (simp add: empty_router_db_def)
  qed
qed

end
