(* ===== verification/Memory_Entries.thy ===== *)
theory Memory_Entries
  imports Session_Files Interfaces
begin

text \<open>
  Memory entries: \<open>entry.rs\<close>, \<open>root.rs\<close>, \<open>taxonomy.rs\<close>, \<open>archive.rs\<close> and \<open>journal.rs\<close> of
  \<open>crates/assistant-memory\<close>. An entry is a markdown file, YAML front matter between two fences and then
  the body; YAML (\<open>serde_yaml\<close>) and SHA-256 are parameters.
\<close>

section \<open>Stored enums\<close>

datatype scope = AllChats | ChannelScope | ThreadScope | UserScope | OwnerAdmin | NoRag

datatype source_type = UserSaid | Observed | Backfilled | Inferred | Imported | SpecialistDerived | Manual

datatype source_channel = SlackSource | TelegramSource | CliSource | AgentSource | SystemSource

datatype confidence = High | Medium | Low | Unknown

datatype reuse_policy = SameScope | BroaderOk | CiteOnly | NoRagReuse

datatype retention = NormalRetention | Ephemeral | ArchiveOnly

fun scope_str :: "scope \<Rightarrow> string" where
  "scope_str AllChats = ''all_chats''"
| "scope_str ChannelScope = ''channel''"
| "scope_str ThreadScope = ''thread''"
| "scope_str UserScope = ''user''"
| "scope_str OwnerAdmin = ''owner_admin''"
| "scope_str NoRag = ''no_rag''"

definition parse_scope :: "string \<Rightarrow> scope option" where
  "parse_scope s =
     (if s = ''all_chats'' then Some AllChats else if s = ''channel'' then Some ChannelScope
      else if s = ''thread'' then Some ThreadScope else if s = ''user'' then Some UserScope
      else if s = ''owner_admin'' then Some OwnerAdmin else if s = ''no_rag'' then Some NoRag else None)"

fun source_type_str :: "source_type \<Rightarrow> string" where
  "source_type_str UserSaid = ''user_said''"
| "source_type_str Observed = ''observed''"
| "source_type_str Backfilled = ''backfilled''"
| "source_type_str Inferred = ''inferred''"
| "source_type_str Imported = ''imported''"
| "source_type_str SpecialistDerived = ''specialist_derived''"
| "source_type_str Manual = ''manual''"

definition parse_source_type :: "string \<Rightarrow> source_type option" where
  "parse_source_type s =
     (if s = ''user_said'' then Some UserSaid else if s = ''observed'' then Some Observed
      else if s = ''backfilled'' then Some Backfilled else if s = ''inferred'' then Some Inferred
      else if s = ''imported'' then Some Imported else if s = ''specialist_derived'' then Some SpecialistDerived
      else if s = ''manual'' then Some Manual else None)"

fun source_channel_str :: "source_channel \<Rightarrow> string" where
  "source_channel_str SlackSource = ''slack''"
| "source_channel_str TelegramSource = ''telegram''"
| "source_channel_str CliSource = ''cli''"
| "source_channel_str AgentSource = ''agent''"
| "source_channel_str SystemSource = ''system''"

definition parse_source_channel :: "string \<Rightarrow> source_channel option" where
  "parse_source_channel s =
     (if s = ''slack'' then Some SlackSource else if s = ''telegram'' then Some TelegramSource
      else if s = ''cli'' then Some CliSource else if s = ''agent'' then Some AgentSource
      else if s = ''system'' then Some SystemSource else None)"

fun confidence_str :: "confidence \<Rightarrow> string" where
  "confidence_str High = ''high''"
| "confidence_str Medium = ''medium''"
| "confidence_str Low = ''low''"
| "confidence_str Unknown = ''unknown''"

definition parse_confidence :: "string \<Rightarrow> confidence option" where
  "parse_confidence s =
     (if s = ''high'' then Some High else if s = ''medium'' then Some Medium else if s = ''low'' then Some Low
      else if s = ''unknown'' then Some Unknown else None)"

fun reuse_policy_str :: "reuse_policy \<Rightarrow> string" where
  "reuse_policy_str SameScope = ''same_scope''"
| "reuse_policy_str BroaderOk = ''broader_ok''"
| "reuse_policy_str CiteOnly = ''cite_only''"
| "reuse_policy_str NoRagReuse = ''no_rag''"

definition parse_reuse_policy :: "string \<Rightarrow> reuse_policy option" where
  "parse_reuse_policy s =
     (if s = ''same_scope'' then Some SameScope else if s = ''broader_ok'' then Some BroaderOk
      else if s = ''cite_only'' then Some CiteOnly else if s = ''no_rag'' then Some NoRagReuse else None)"

fun retention_str :: "retention \<Rightarrow> string" where
  "retention_str NormalRetention = ''normal''"
| "retention_str Ephemeral = ''ephemeral''"
| "retention_str ArchiveOnly = ''archive_only''"

definition parse_retention :: "string \<Rightarrow> retention option" where
  "parse_retention s =
     (if s = ''normal'' then Some NormalRetention else if s = ''ephemeral'' then Some Ephemeral
      else if s = ''archive_only'' then Some ArchiveOnly else None)"

interpretation scope_text: text_enum scope_str parse_scope
proof
  show "parse_scope (scope_str x) = Some x" for x by (cases x) (simp_all add: parse_scope_def)
  show "parse_scope s = Some x \<Longrightarrow> s = scope_str x" for s x by (auto simp: parse_scope_def split: if_splits)
qed

interpretation source_type_text: text_enum source_type_str parse_source_type
proof
  show "parse_source_type (source_type_str x) = Some x" for x by (cases x) (simp_all add: parse_source_type_def)
  show "parse_source_type s = Some x \<Longrightarrow> s = source_type_str x" for s x
    by (auto simp: parse_source_type_def split: if_splits)
qed

interpretation source_channel_text: text_enum source_channel_str parse_source_channel
proof
  show "parse_source_channel (source_channel_str x) = Some x" for x
    by (cases x) (simp_all add: parse_source_channel_def)
  show "parse_source_channel s = Some x \<Longrightarrow> s = source_channel_str x" for s x
    by (auto simp: parse_source_channel_def split: if_splits)
qed

interpretation confidence_text: text_enum confidence_str parse_confidence
proof
  show "parse_confidence (confidence_str x) = Some x" for x by (cases x) (simp_all add: parse_confidence_def)
  show "parse_confidence s = Some x \<Longrightarrow> s = confidence_str x" for s x
    by (auto simp: parse_confidence_def split: if_splits)
qed

interpretation reuse_policy_text: text_enum reuse_policy_str parse_reuse_policy
proof
  show "parse_reuse_policy (reuse_policy_str x) = Some x" for x by (cases x) (simp_all add: parse_reuse_policy_def)
  show "parse_reuse_policy s = Some x \<Longrightarrow> s = reuse_policy_str x" for s x
    by (auto simp: parse_reuse_policy_def split: if_splits)
qed

interpretation retention_text: text_enum retention_str parse_retention
proof
  show "parse_retention (retention_str x) = Some x" for x by (cases x) (simp_all add: parse_retention_def)
  show "parse_retention s = Some x \<Longrightarrow> s = retention_str x" for s x
    by (auto simp: parse_retention_def split: if_splits)
qed

section \<open>Documents\<close>

record source_ref =
  sr_channel :: "source_channel option"
  sr_chat_id :: "string option"
  sr_thread_id :: "string option"
  sr_message_id :: "string option"
  sr_permalink :: "string option"

record front_matter =
  fm_memory_id :: string
  fm_owner :: string
  fm_scope :: scope
  fm_source_type :: source_type
  fm_source_ref :: "source_ref option"
  fm_source_user :: "string option"
  fm_captured_at :: "string option"
  fm_confidence :: confidence
  fm_reuse_policy :: reuse_policy
  fm_retention :: retention

record memory_document =
  doc_front_matter :: front_matter
  doc_body :: string

record yaml =
  yaml_to :: "front_matter \<Rightarrow> string"
  yaml_from :: "string \<Rightarrow> front_matter option"

datatype entry_error = MalformedFrontMatter

abbreviation newline :: char where
  "newline \<equiv> char_of (10::nat)"

abbreviation carriage :: char where
  "carriage \<equiv> char_of (13::nat)"

lemma newline_char: "newline = CHR 0x0A"
  by code_simp

lemma carriage_char: "carriage = CHR 0x0D"
  by code_simp

definition fence :: string where
  "fence = ''---''"

fun find_str :: "string \<Rightarrow> string \<Rightarrow> nat option" where
  "find_str p [] = (if p = [] then Some 0 else None)"
| "find_str p (c # cs) = (if is_prefix p (c # cs) then Some 0 else map_option Suc (find_str p cs))"

definition closing_at :: "string \<Rightarrow> nat \<Rightarrow> bool" where
  "closing_at s i \<longleftrightarrow> (i = 0 \<or> s ! (i - 1) = newline)
     \<and> (case drop (i + length fence) s of [] \<Rightarrow> True | c # _ \<Rightarrow> c = newline \<or> c = carriage)"

lemma find_str_Some:
  "find_str p s = Some i \<longleftrightarrow> i \<le> length s \<and> is_prefix p (drop i s) \<and> (\<forall>j<i. \<not> is_prefix p (drop j s))"
proof (induction s arbitrary: i)
  case (Cons c cs)
  show ?case
  proof (cases "is_prefix p (c # cs)")
    case True
    then show ?thesis by (auto intro: gr0I)
  next
    case False
    then show ?thesis
      by (cases i) (auto simp: Cons.IH less_Suc_eq_0_disj)
  qed
qed (auto simp: is_prefix_iff)

lemma find_str_None: "find_str p s = None \<Longrightarrow> i \<le> length s \<Longrightarrow> \<not> is_prefix p (drop i s)"
proof (induction s arbitrary: i)
  case (Cons c cs)
  then show ?case by (cases i) (auto split: if_splits)
qed (auto simp: is_prefix_iff split: if_splits)

lemma find_fence_room: "find_str fence s = Some i \<Longrightarrow> i + 3 \<le> length s"
  using is_prefix_length [of fence "drop i s"] by (auto simp: find_str_Some fence_def)

function closing_fence :: "string \<Rightarrow> nat \<Rightarrow> nat option" where
  "closing_fence s from =
     (case find_str fence (drop from s) of
        None \<Rightarrow> None
      | Some idx \<Rightarrow> if closing_at s (from + idx) then Some (from + idx) else closing_fence s (from + idx + length fence))"
  by pat_completeness auto

termination
  by (relation "measure (\<lambda>(s, from). length s - from)") (auto simp: fence_def dest!: find_fence_room [unfolded fence_def])

declare closing_fence.simps [simp del]

definition byte_order_mark :: string where
  "byte_order_mark = map char_of [239, 187, 191::nat]"

definition split_front_matter :: "string \<Rightarrow> string option \<times> string" where
  "split_front_matter raw =
     (let trimmed = (case strip_prefix byte_order_mark raw of Some r \<Rightarrow> r | None \<Rightarrow> raw)
      in case (case strip_prefix (fence @ [newline]) trimmed of
                 Some r \<Rightarrow> Some r | None \<Rightarrow> strip_prefix (fence @ [carriage, newline]) trimmed) of
           None \<Rightarrow> (None, raw)
         | Some s \<Rightarrow>
             (case closing_fence s 0 of
                None \<Rightarrow> (None, raw)
              | Some i \<Rightarrow>
                  (let after = drop (i + length fence) s
                   in (Some (take i s),
                       case strip_prefix [newline] after of
                         Some b \<Rightarrow> b
                       | None \<Rightarrow>
                           (case strip_prefix [carriage, newline] after of
                              Some b \<Rightarrow> b
                            | None \<Rightarrow> (case strip_prefix [carriage] after of Some b \<Rightarrow> b | None \<Rightarrow> []))))))"

definition parse_document :: "yaml \<Rightarrow> string \<Rightarrow> entry_error + memory_document" where
  "parse_document y raw =
     (case split_front_matter raw of
        (None, _) \<Rightarrow> Inl MalformedFrontMatter
      | (Some text, body) \<Rightarrow>
          (case yaml_from y text of
             None \<Rightarrow> Inl MalformedFrontMatter
           | Some fm \<Rightarrow> Inr \<lparr>doc_front_matter = fm, doc_body = body\<rparr>))"

definition generate_memory_id :: "(nat list \<Rightarrow> nat list) \<Rightarrow> string \<Rightarrow> string \<Rightarrow> string" where
  "generate_memory_id sha owner basis =
     ''mem_'' @ hex_of (take 12 (sha (bytes_of owner @ [0] @ bytes_of basis)))"

definition manual_front_matter :: "(nat list \<Rightarrow> nat list) \<Rightarrow> string \<Rightarrow> string \<Rightarrow> front_matter" where
  "manual_front_matter sha owner body =
     \<lparr>fm_memory_id = generate_memory_id sha owner body, fm_owner = owner, fm_scope = NoRag, fm_source_type = Manual,
      fm_source_ref = None, fm_source_user = None, fm_captured_at = None, fm_confidence = Unknown,
      fm_reuse_policy = NoRagReuse, fm_retention = NormalRetention\<rparr>"

definition normalize_document :: "(nat list \<Rightarrow> nat list) \<Rightarrow> yaml \<Rightarrow> string \<Rightarrow> string \<Rightarrow> memory_document" where
  "normalize_document sha y owner raw =
     (case parse_document y raw of
        Inr d \<Rightarrow> d
      | Inl _ \<Rightarrow>
          (let body = snd (split_front_matter raw)
           in \<lparr>doc_front_matter = manual_front_matter sha owner body, doc_body = body\<rparr>))"

definition ended_with_newline :: "string \<Rightarrow> string" where
  "ended_with_newline s = (if s \<noteq> [] \<and> last s = newline then s else s @ [newline])"

definition to_markdown :: "yaml \<Rightarrow> memory_document \<Rightarrow> string" where
  "to_markdown y d =
     fence @ [newline] @ ended_with_newline (yaml_to y (doc_front_matter d)) @ fence @ [newline] @ doc_body d"

section \<open>Memory roots\<close>

datatype isolation_error =
    EscapeName string
  | EscapePath path
  | OutsideRoot path
  | InvalidSpecialistFolder string
  | OwnerMismatch string string

record memory_root =
  mr_owner :: string
  mr_root :: path

text \<open>One component of a relative name; a leading \<open>.\<close> counts as a component of its own.\<close>

definition is_safe_segment :: "string \<Rightarrow> bool" where
  "is_safe_segment s \<longleftrightarrow> s \<noteq> [] \<and> \<not> is_absolute s \<and> \<not> is_prefix ''./'' s
     \<and> (case path_components s of [c] \<Rightarrow> c \<noteq> ''..'' | _ \<Rightarrow> False)"

definition lexically_contained :: "string \<Rightarrow> bool" where
  "lexically_contained s \<longleftrightarrow> s \<noteq> [] \<and> \<not> is_absolute s \<and> ''..'' \<notin> set (path_components s)"

definition orchestrator_root :: "path \<Rightarrow> string \<Rightarrow> memory_root" where
  "orchestrator_root groups owner = \<lparr>mr_owner = owner, mr_root = groups @ [''orchestrator'', ''memory'']\<rparr>"

definition specialist_root :: "path \<Rightarrow> string \<Rightarrow> string \<Rightarrow> isolation_error + memory_root" where
  "specialist_root groups owner folder =
     (if \<not> is_safe_segment folder then Inl (InvalidSpecialistFolder folder)
      else Inr \<lparr>mr_owner = owner, mr_root = groups @ [''specialists''] @ path_components folder @ [''memory'']\<rparr>)"

definition resolve_memory :: "memory_root \<Rightarrow> string \<Rightarrow> isolation_error + path" where
  "resolve_memory root rel =
     (if \<not> lexically_contained rel then Inl (EscapeName rel)
      else let joined = mr_root root @ path_components rel
           in if starts_with joined (mr_root root) then Inr joined else Inl (EscapePath joined))"

definition confine_memory :: "memory_root \<Rightarrow> path \<Rightarrow> isolation_error + path" where
  "confine_memory root candidate =
     (if ''..'' \<in> set candidate then Inl (EscapePath candidate)
      else if starts_with candidate (mr_root root) then Inr candidate else Inl (OutsideRoot candidate))"

definition authorize_owner :: "memory_root \<Rightarrow> string \<Rightarrow> isolation_error + unit" where
  "authorize_owner root owner =
     (if owner = mr_owner root then Inr () else Inl (OwnerMismatch (mr_owner root) owner))"

section \<open>Taxonomy\<close>

datatype taxonomy_error = InvalidCategory string | DuplicateCategory string

definition index_file :: string where
  "index_file = ''INDEX.md''"

fun taxonomy_from :: "string list \<Rightarrow> string list \<Rightarrow> taxonomy_error + string list" where
  "taxonomy_from done [] = Inr done"
| "taxonomy_from done (c # cs) =
     (if \<not> is_safe_segment c \<or> c = index_file then Inl (InvalidCategory c)
      else if c \<in> set done then Inl (DuplicateCategory c)
      else taxonomy_from (done @ [c]) cs)"

definition taxonomy_new :: "string list \<Rightarrow> taxonomy_error + string list" where
  "taxonomy_new cs = taxonomy_from [] cs"

definition render_index :: "string list \<Rightarrow> string" where
  "render_index cs = ''# Memory taxonomy'' @ [newline, newline] @ concat (map (\<lambda>c. ''- '' @ c @ [newline]) cs)"

text \<open>The directories made, in order, and the index file written.\<close>

definition scaffold :: "memory_root \<Rightarrow> string list \<Rightarrow> isolation_error + path list \<times> path \<times> string" where
  "scaffold root cs =
     rbind (collect_results (map (\<lambda>c. rbind (resolve_memory root c) (confine_memory root)) cs)) (\<lambda>dirs.
     rbind (resolve_memory root index_file) (\<lambda>p.
     rbind (confine_memory root p) (\<lambda>p'.
       Inr (mr_root root # dirs, p', render_index cs))))"

section \<open>Archive pointers\<close>

record archive_target =
  at_path :: string
  at_time :: string

definition archive_pointer :: "front_matter \<Rightarrow> archive_target \<Rightarrow> memory_document" where
  "archive_pointer fm t =
     \<lparr>doc_front_matter = fm\<lparr>fm_scope := NoRag, fm_reuse_policy := NoRagReuse, fm_retention := ArchiveOnly\<rparr>,
      doc_body = ''Archived entry.'' @ [newline, newline] @ ''archived_path: '' @ at_path t @ [newline]
        @ ''archived_at: '' @ at_time t @ [newline]\<rparr>"

definition body_field :: "string \<Rightarrow> string \<Rightarrow> string option" where
  "body_field body key =
     map_option trim (case List.map_filter (strip_prefix (key @ '': '')) (str_lines body) of [] \<Rightarrow> None | v # _ \<Rightarrow> Some v)"

definition read_archive_pointer :: "memory_document \<Rightarrow> archive_target option" where
  "read_archive_pointer d =
     (if fm_retention (doc_front_matter d) \<noteq> ArchiveOnly then None
      else (case body_field (doc_body d) ''archived_path'' of
              None \<Rightarrow> None
            | Some p \<Rightarrow>
                (case body_field (doc_body d) ''archived_at'' of
                   None \<Rightarrow> None
                 | Some t \<Rightarrow> Some \<lparr>at_path = p, at_time = t\<rparr>)))"

section \<open>Journals\<close>

datatype journal_error =
    MissingDateHeading
  | InvalidDateHeading nat string
  | EmptyBullet nat
  | UnexpectedLine nat string

definition validate_journal_bullet :: "string \<Rightarrow> journal_error + string" where
  "validate_journal_bullet l =
     (case strip_prefix ''- '' l of
        Some rest \<Rightarrow> if trim rest = [] then Inl (EmptyBullet 0) else Inr (trim rest)
      | None \<Rightarrow> Inl (UnexpectedLine 0 l))"

text \<open>\<open>u8\<close> of two digits.\<close>

definition two_digits :: "string \<Rightarrow> nat" where
  "two_digits s = (case parse_unsigned 256 s of None \<Rightarrow> 0 | Some n \<Rightarrow> n)"

definition is_iso_date :: "string \<Rightarrow> bool" where
  "is_iso_date s \<longleftrightarrow> length s = 10 \<and> s ! 4 = CHR ''-'' \<and> s ! 7 = CHR ''-''
     \<and> list_all is_digit (take 4 s) \<and> list_all is_digit (take 2 (drop 5 s)) \<and> list_all is_digit (drop 8 s)
     \<and> 1 \<le> two_digits (take 2 (drop 5 s)) \<and> two_digits (take 2 (drop 5 s)) \<le> 12
     \<and> 1 \<le> two_digits (drop 8 s) \<and> two_digits (drop 8 s) \<le> 31"

fun journal_bullets :: "nat \<Rightarrow> (nat \<times> string) list \<Rightarrow> journal_error + nat" where
  "journal_bullets n [] = Inr n"
| "journal_bullets n ((i, l) # ls) =
     (if trim l = [] then journal_bullets n ls
      else
        (case validate_journal_bullet l of
           Inr _ \<Rightarrow> journal_bullets (n + 1) ls
         | Inl (EmptyBullet _) \<Rightarrow> Inl (EmptyBullet (i + 1))
         | Inl _ \<Rightarrow> Inl (UnexpectedLine (i + 1) l)))"

fun journal_from :: "(nat \<times> string) list \<Rightarrow> journal_error + string \<times> nat" where
  "journal_from [] = Inl MissingDateHeading"
| "journal_from ((i, l) # ls) =
     (if trim l = [] then journal_from ls
      else
        (case strip_prefix ''# '' l of
           None \<Rightarrow> Inl (InvalidDateHeading (i + 1) l)
         | Some h \<Rightarrow>
             if is_iso_date (trim h) then rbind (journal_bullets 0 ls) (\<lambda>n. Inr (trim h, n))
             else Inl (InvalidDateHeading (i + 1) l)))"

definition validate_journal :: "string \<Rightarrow> journal_error + string \<times> nat" where
  "validate_journal content = (let ls = str_lines content in journal_from (zip [0..<length ls] ls))"

section \<open>Documents read back\<close>

lemma closing_fence_hit:
  assumes "is_prefix fence (drop n s)" and "closing_at s n"
    and "\<And>i. i < n \<Longrightarrow> is_prefix fence (drop i s) \<Longrightarrow> \<not> closing_at s i \<and> i + length fence \<le> n"
  shows "from \<le> n \<Longrightarrow> closing_fence s from = Some n"
proof (induction "n - from" arbitrary: "from" rule: less_induct)
  case less
  have here: "is_prefix fence (drop (n - from) (drop from s))" using assms(1) less(2) by simp
  have room: "n \<le> length s" using assms(1) is_prefix_length [of fence "drop n s"] by (simp add: fence_def)
  then obtain idx where idx: "find_str fence (drop from s) = Some idx"
    using find_str_None [of fence "drop from s" "n - from"] here by fastforce
  then have hit: "is_prefix fence (drop (from + idx) s)" and le: "from + idx \<le> n"
  proof -
    show "is_prefix fence (drop (from + idx) s)" using idx by (simp add: find_str_Some add.commute)
    have "\<not> n - from < idx" using idx here by (auto simp: find_str_Some)
    then show "from + idx \<le> n" using less(2) by simp
  qed
  show ?case
  proof (cases "closing_at s (from + idx)")
    case True
    with assms(3) hit le have "from + idx = n" by (metis le_neq_implies_less)
    with True idx show ?thesis by (simp add: closing_fence.simps [of s "from"])
  next
    case False
    with le assms(2) have "from + idx < n" by (metis le_neq_implies_less)
    with assms(3) hit have further: "from + idx + length fence \<le> n" by blast
    have "length fence = 3" by (simp add: fence_def)
    with further have "n - (from + idx + length fence) < n - from" by linarith
    with further less(1) have "closing_fence s (from + idx + length fence) = Some n" by blast
    with idx False show ?thesis by (simp add: closing_fence.simps [of s "from"])
  qed
qed

text \<open>What the emitter of YAML guarantees: no line of the text looks like a fence, and the text reads back.\<close>

definition fence_free :: "string \<Rightarrow> bool" where
  "fence_free text \<longleftrightarrow>
     list_all (\<lambda>i. i = 0 \<or> text ! (i - 1) = newline \<longrightarrow> \<not> is_prefix fence (drop i text)) [0..<length text]"

definition yaml_reads_back :: "yaml \<Rightarrow> front_matter \<Rightarrow> bool" where
  "yaml_reads_back y fm \<longleftrightarrow> fence_free (ended_with_newline (yaml_to y fm))
     \<and> yaml_from y (ended_with_newline (yaml_to y fm)) = Some fm"

lemma prefix_within:
  assumes "is_prefix p (drop i (t @ u))" and "i < length t" and "last t \<notin> set p"
  shows "i + length p \<le> length t" and "is_prefix p (drop i t)"
proof -
  obtain r where r: "drop i t @ u = p @ r" using assms(1,2) by (auto simp: is_prefix_iff)
  have "length p \<le> length (drop i t)"
  proof (rule ccontr)
    assume "\<not> ?thesis"
    with r have "drop i t = take (length (drop i t)) p"
      by (metis append_eq_append_conv_if linorder_not_le nat_le_linear)
    moreover have "last t \<in> set (drop i t)" using assms(2) by (metis drop_eq_Nil last_drop last_in_set not_le)
    ultimately show False using assms(3) by (metis in_set_takeD)
  qed
  then show "i + length p \<le> length t" using assms(2) by simp
  have "take (length p) (drop i t @ u) = p" using r by simp
  with \<open>length p \<le> length (drop i t)\<close> have "take (length p) (drop i t) = p" by simp
  then show "is_prefix p (drop i t)" unfolding is_prefix_iff by (metis append_take_drop_id)
qed

lemma not_bom: "char_of (239::nat) \<noteq> CHR ''-''"
  by code_simp

lemma split_front_matter_hit:
  assumes "fence_free text" and "text \<noteq> []" and "last text = newline"
  shows "split_front_matter (fence @ [newline] @ text @ fence @ [newline] @ body) = (Some text, body)"
proof -
  let ?s = "text @ fence @ [newline] @ body" and ?n = "length text"
  have nl: "newline \<notin> set fence" by (simp add: fence_def newline_char)
  have "closing_fence ?s 0 = Some ?n"
  proof (rule closing_fence_hit)
    show "is_prefix fence (drop ?n ?s)" by (auto simp: is_prefix_iff)
    show "closing_at ?s ?n"
      using assms(2,3) by (simp add: closing_at_def nth_append last_conv_nth fence_def)
    show "\<not> closing_at ?s i \<and> i + length fence \<le> ?n" if i: "i < ?n" "is_prefix fence (drop i ?s)" for i
    proof -
      have within: "i + length fence \<le> ?n" "is_prefix fence (drop i text)"
        using prefix_within [OF i(2,1)] assms(3) nl by auto
      have "i = 0 \<or> text ! (i - 1) = newline \<longrightarrow> \<not> is_prefix fence (drop i text)"
        using assms(1) i(1) by (simp add: fence_free_def list_all_iff)
      with within have "i \<noteq> 0" "text ! (i - 1) \<noteq> newline" by auto
      moreover have "i - 1 < length text" using i(1) by simp
      ultimately show ?thesis using within by (simp add: closing_at_def nth_append)
    qed
  qed simp
  moreover have "strip_prefix byte_order_mark (fence @ r) = None" for r
    by (simp add: strip_prefix_def fence_def byte_order_mark_def not_bom)
  moreover have "strip_prefix (fence @ [newline]) (fence @ newline # r) = Some r" for r
    by (simp add: strip_prefix_Some)
  moreover have "strip_prefix [newline] (newline # r) = Some r" for r by (simp add: strip_prefix_Some)
  ultimately show ?thesis by (simp add: split_front_matter_def Let_def)
qed

lemma parse_to_markdown:
  assumes "yaml_reads_back y (doc_front_matter d)"
  shows "parse_document y (to_markdown y d) = Inr d"
proof -
  let ?t = "ended_with_newline (yaml_to y (doc_front_matter d))"
  have "split_front_matter (to_markdown y d) = (Some ?t, doc_body d)"
    unfolding to_markdown_def
    using assms by (intro split_front_matter_hit) (auto simp: yaml_reads_back_def ended_with_newline_def)
  with assms show ?thesis by (simp add: parse_document_def yaml_reads_back_def)
qed

text \<open>
  a memory document that was written reads back as it was, whatever its body holds - fences, blank
  lines, carriage returns - and normalising it never replaces its front matter.
\<close>

theorem memory_document_reads_back:
  assumes "yaml_reads_back y (doc_front_matter d)"
  shows "parse_document y (to_markdown y d) = Inr d \<and> normalize_document sha y owner (to_markdown y d) = d"
  using parse_to_markdown [OF assms] by (simp add: normalize_document_def)

definition sample_front_matter :: front_matter where
  "sample_front_matter = manual_front_matter (\<lambda>_. []) ''1'' ''note''"

definition sample_yaml :: yaml where
  "sample_yaml = \<lparr>yaml_to = (\<lambda>_. ''a: --- b''), yaml_from = (\<lambda>_. Some sample_front_matter)\<rparr>"

theorem memory_document_reads_back_witness:
  "parse_document sample_yaml (to_markdown sample_yaml
     \<lparr>doc_front_matter = sample_front_matter, doc_body = ''x'' @ [newline] @ ''---'' @ [newline] @ ''y''\<rparr>)
   = Inr \<lparr>doc_front_matter = sample_front_matter, doc_body = ''x'' @ [newline] @ ''---'' @ [newline] @ ''y''\<rparr>"
proof -
  have "yaml_reads_back sample_yaml sample_front_matter"
    unfolding yaml_reads_back_def sample_yaml_def sample_front_matter_def by (intro conjI) (code_simp, simp)
  then show ?thesis using memory_document_reads_back [of sample_yaml "\<lparr>doc_front_matter = sample_front_matter,
      doc_body = ''x'' @ [newline] @ ''---'' @ [newline] @ ''y''\<rparr>"] by simp
qed

section \<open>Roots are apart\<close>

definition agent_root :: "path \<Rightarrow> memory_root \<Rightarrow> bool" where
  "agent_root groups r \<longleftrightarrow>
     (\<exists>owner. r = orchestrator_root groups owner) \<or> (\<exists>owner folder. specialist_root groups owner folder = Inr r)"

lemma agent_root_cases:
  assumes "agent_root groups r"
  obtains "mr_root r = groups @ [''orchestrator'', ''memory'']"
  | c where "mr_root r = groups @ [''specialists'', c, ''memory'']" "c \<noteq> ''..''"
  using assms
  by (auto simp: agent_root_def orchestrator_root_def specialist_root_def is_safe_segment_def split: if_splits list.splits)

lemma resolve_memory_Inr:
  "resolve_memory root rel = Inr p \<longleftrightarrow> lexically_contained rel \<and> p = mr_root root @ path_components rel"
  by (auto simp: resolve_memory_def Let_def starts_with_def)

text \<open>
  C25: an agent's memory is out of reach of every other agent. A name resolved in a root stays below it,
  by plain components only, and is accepted by the root's own confinement; and no root of another agent
  accepts the path. A name that is refused is empty, absolute or has a parent component.
\<close>

theorem memory_roots_isolated:
  "(case resolve_memory a rel of
      Inr p \<Rightarrow> (\<exists>cs. p = mr_root a @ cs \<and> list_all plain_component cs)
        \<and> (''..'' \<notin> set (mr_root a) \<longrightarrow> confine_memory a p = Inr p)
        \<and> (\<forall>b. agent_root groups a \<and> agent_root groups b \<and> mr_root b \<noteq> mr_root a \<longrightarrow> \<not> is_ok (confine_memory b p))
    | Inl e \<Rightarrow> e = EscapeName rel \<and> (rel = [] \<or> is_absolute rel \<or> ''..'' \<in> set (path_components rel)))"
proof (cases "resolve_memory a rel")
  case (Inl e)
  then show ?thesis
    by (auto simp: resolve_memory_def Let_def starts_with_def lexically_contained_def split: if_splits)
next
  case (Inr p)
  then have p: "p = mr_root a @ path_components rel" and inside: "lexically_contained rel"
    by (simp_all add: resolve_memory_Inr)
  have plain: "list_all plain_component (path_components rel)"
    using inside path_components_no_sep [of _ rel]
    by (auto simp: lexically_contained_def list_all_iff plain_component_def path_components_def)
  have own: "confine_memory a p = Inr p" if "''..'' \<notin> set (mr_root a)"
    using that inside by (simp add: confine_memory_def p lexically_contained_def starts_with_def)
  have other: "\<not> is_ok (confine_memory b p)"
    if a: "agent_root groups a" and b: "agent_root groups b" and ne: "mr_root b \<noteq> mr_root a" for b
  proof -
    have "\<not> starts_with p (mr_root b)"
      using a
    proof (cases rule: agent_root_cases)
      case 1
      from b show ?thesis
        by (cases rule: agent_root_cases) (use 1 ne in \<open>auto simp: p starts_with_iff\<close>)
    next
      case (2 c)
      from b show ?thesis
        by (cases rule: agent_root_cases) (use 2 ne in \<open>auto simp: p starts_with_iff\<close>)
    qed
    then show ?thesis by (simp add: confine_memory_def is_ok_def)
  qed
  from Inr p plain own other show ?thesis by auto
qed

theorem memory_roots_isolated_witness:
  "\<exists>p. resolve_memory (orchestrator_root [''g''] ''1'') ''notes/a.md'' = Inr p
     \<and> \<not> is_ok (confine_memory (projr (specialist_root [''g''] ''2'' ''browser'')) p)"
proof -
  let ?a = "orchestrator_root [''g''] ''1''" and ?b = "\<lparr>mr_owner = ''2'', mr_root = [''g'', ''specialists'', ''browser'', ''memory'']\<rparr>"
  have p: "resolve_memory ?a ''notes/a.md'' = Inr [''g'', ''orchestrator'', ''memory'', ''notes'', ''a.md'']" by code_simp
  have b: "specialist_root [''g''] ''2'' ''browser'' = Inr ?b" by code_simp
  then have "agent_root [''g''] ?b" "agent_root [''g''] ?a" by (auto simp: agent_root_def)
  moreover have "mr_root ?b \<noteq> mr_root ?a" by (simp add: orchestrator_root_def)
  ultimately show ?thesis
    using memory_roots_isolated [where a = ?a and rel = "''notes/a.md''" and groups = "[''g'']"] p b
    by simp
qed

section \<open>Archive pointers read back\<close>

lemma str_lines_line: "newline \<notin> set l \<Longrightarrow> str_lines (l @ newline # r) = strip_cr l # str_lines r"
  by (simp add: str_lines_def split_on_append Let_def)

definition one_line :: "string \<Rightarrow> bool" where
  "one_line s \<longleftrightarrow> newline \<notin> set s \<and> carriage \<notin> set s \<and> trim s = s"

lemma strip_cr_field: "carriage \<notin> set s \<Longrightarrow> carriage \<notin> set p \<Longrightarrow> strip_cr (p @ s) = p @ s"
  using last_in_set [of "p @ s"] by (auto simp: strip_cr_def)

lemma archive_lines:
  assumes "one_line (at_path t)" and "one_line (at_time t)"
  shows "str_lines (doc_body (archive_pointer fm t))
    = [''Archived entry.'', [], ''archived_path: '' @ at_path t, ''archived_at: '' @ at_time t]"
proof -
  have keys: "newline \<notin> set ''Archived entry.''" "carriage \<notin> set ''Archived entry.''"
    "newline \<notin> set ''archived_path: ''" "carriage \<notin> set ''archived_path: ''"
    "newline \<notin> set ''archived_at: ''" "carriage \<notin> set ''archived_at: ''"
    by code_simp+
  have body: "doc_body (archive_pointer fm t) = ''Archived entry.'' @ newline # [] @ newline #
      (''archived_path: '' @ at_path t) @ newline # (''archived_at: '' @ at_time t) @ newline # []"
    by (simp add: archive_pointer_def)
  have none: "newline \<notin> set (''archived_path: '' @ at_path t)" "newline \<notin> set (''archived_at: '' @ at_time t)"
    using assms keys by (auto simp: one_line_def)
  have cr: "strip_cr (''archived_path: '' @ at_path t) = ''archived_path: '' @ at_path t"
    "strip_cr (''archived_at: '' @ at_time t) = ''archived_at: '' @ at_time t"
    "strip_cr ''Archived entry.'' = ''Archived entry.''" "strip_cr [] = []"
    using assms keys strip_cr_field [of "at_path t" "''archived_path: ''"] strip_cr_field [of "at_time t" "''archived_at: ''"]
      strip_cr_field [of "[]" "''Archived entry.''"]
    by (auto simp: one_line_def strip_cr_def)
  have "str_lines [] = []" and blank: "str_lines (newline # r) = [] # str_lines r" for r
    using str_lines_line [of "[]" r] by (simp_all add: str_lines_def strip_cr_def)
  then show ?thesis
    unfolding body append_Nil
    by (simp only: str_lines_line [OF keys(1)] str_lines_line [OF none(1)] str_lines_line [OF none(2)] blank cr)
qed

text \<open>
  an archived entry stays readable and is never read into a turn: the pointer keeps the identity of
  the entry, gives back where and when it was archived, also after it went through its file, and carries
  the scope and reuse policy that exclude it from retrieval. A document that is no pointer reads as none.
\<close>

theorem archive_pointer_reads_back:
  assumes "one_line (at_path t)" and "one_line (at_time t)"
    and "yaml_reads_back y (doc_front_matter (archive_pointer fm t))"
  shows "(\<exists>d. parse_document y (to_markdown y (archive_pointer fm t)) = Inr d \<and> read_archive_pointer d = Some t
      \<and> fm_memory_id (doc_front_matter d) = fm_memory_id fm \<and> fm_owner (doc_front_matter d) = fm_owner fm
      \<and> fm_scope (doc_front_matter d) = NoRag \<and> fm_reuse_policy (doc_front_matter d) = NoRagReuse)"
proof -
  let ?d = "archive_pointer fm t"
  have fields: "body_field (doc_body ?d) ''archived_path'' = Some (at_path t)"
    "body_field (doc_body ?d) ''archived_at'' = Some (at_time t)"
    using assms(1,2)
    by (simp_all add: body_field_def archive_lines [OF assms(1,2)] strip_prefix_def List.map_filter_def one_line_def)
  then have "read_archive_pointer ?d = Some t"
    by (simp add: read_archive_pointer_def) (simp add: archive_pointer_def)
  moreover have "parse_document y (to_markdown y ?d) = Inr ?d" by (rule parse_to_markdown [OF assms(3)])
  ultimately show ?thesis by (auto simp: archive_pointer_def)
qed

theorem archive_pointer_reads_back_witness:
  "\<exists>d. parse_document \<lparr>yaml_to = (\<lambda>_. ''a: b''), yaml_from = (\<lambda>_. Some (doc_front_matter
        (archive_pointer sample_front_matter \<lparr>at_path = ''archive/x.md'', at_time = ''2026''\<rparr>)))\<rparr>
      (to_markdown \<lparr>yaml_to = (\<lambda>_. ''a: b''), yaml_from = (\<lambda>_. Some (doc_front_matter
        (archive_pointer sample_front_matter \<lparr>at_path = ''archive/x.md'', at_time = ''2026''\<rparr>)))\<rparr>
        (archive_pointer sample_front_matter \<lparr>at_path = ''archive/x.md'', at_time = ''2026''\<rparr>)) = Inr d
    \<and> read_archive_pointer d = Some \<lparr>at_path = ''archive/x.md'', at_time = ''2026''\<rparr>"
proof -
  let ?t = "\<lparr>at_path = ''archive/x.md'', at_time = ''2026''\<rparr>"
  let ?y = "\<lparr>yaml_to = (\<lambda>_. ''a: b''), yaml_from = (\<lambda>_. Some (doc_front_matter (archive_pointer sample_front_matter ?t)))\<rparr>"
  have line: "one_line ''archive/x.md''" "one_line ''2026''"
    by (simp_all add: one_line_def newline_char carriage_char trim_graphic ascii_graphic_def)
  have "fence_free (ended_with_newline ''a: b'')" by code_simp
  then have "yaml_reads_back ?y (doc_front_matter (archive_pointer sample_front_matter ?t))"
    by (simp add: yaml_reads_back_def)
  from archive_pointer_reads_back [of ?t, OF _ _ this] line show ?thesis by auto
qed

end
