(* ===== verification/Memory_Catalog.thy ===== *)
theory Memory_Catalog
  imports Memory_Entries
begin

text \<open>
  The memory catalog and what a turn is shown of it: \<open>catalog.rs\<close>, \<open>rag.rs\<close>, \<open>health.rs\<close>, \<open>reindex.rs\<close>
  and the types of \<open>qmd.rs\<close> in \<open>crates/assistant-memory\<close>, with \<open>crates/assistant-host/src/memory.rs\<close>, which
  saves an agent's note and puts the text of the notes into the retrieved block. A memory folder is the
  list of its files; the index of qmd is a parameter.
\<close>

section \<open>The catalog\<close>

record memory_row =
  me_id :: string
  me_group :: int
  me_rel_path :: string
  me_scope :: string
  me_source_type :: string
  me_channel :: "string option"
  me_chat :: "string option"
  me_thread :: "string option"
  me_message :: "string option"
  me_permalink :: "string option"
  me_user :: "string option"
  me_captured :: "string option"
  me_confidence :: string
  me_reuse :: string
  me_retention :: string
  me_indexed :: string

datatype memory_db_error = MemSqlite | MemUnknownEnum string string

record catalog_entry =
  ce_memory_id :: string
  ce_group :: int
  ce_rel_path :: string
  ce_scope :: scope
  ce_source_type :: source_type
  ce_source_ref :: "source_ref option"
  ce_source_user :: "string option"
  ce_captured_at :: "string option"
  ce_confidence :: confidence
  ce_reuse :: reuse_policy
  ce_retention :: retention
  ce_indexed_at :: string

definition memory_row_of :: "string \<Rightarrow> int \<Rightarrow> string \<Rightarrow> front_matter \<Rightarrow> memory_row" where
  "memory_row_of now g rel fm =
     \<lparr>me_id = fm_memory_id fm, me_group = g, me_rel_path = rel, me_scope = scope_str (fm_scope fm),
      me_source_type = source_type_str (fm_source_type fm),
      me_channel = (case fm_source_ref fm of None \<Rightarrow> None | Some s \<Rightarrow> map_option source_channel_str (sr_channel s)),
      me_chat = (case fm_source_ref fm of None \<Rightarrow> None | Some s \<Rightarrow> sr_chat_id s),
      me_thread = (case fm_source_ref fm of None \<Rightarrow> None | Some s \<Rightarrow> sr_thread_id s),
      me_message = (case fm_source_ref fm of None \<Rightarrow> None | Some s \<Rightarrow> sr_message_id s),
      me_permalink = (case fm_source_ref fm of None \<Rightarrow> None | Some s \<Rightarrow> sr_permalink s),
      me_user = fm_source_user fm, me_captured = fm_captured_at fm, me_confidence = confidence_str (fm_confidence fm),
      me_reuse = reuse_policy_str (fm_reuse_policy fm), me_retention = retention_str (fm_retention fm),
      me_indexed = now\<rparr>"

definition put_memory :: "memory_row \<Rightarrow> memory_row list \<Rightarrow> memory_row list" where
  "put_memory = upsert_row me_id (\<lambda>_ r. r)"

definition get_memory :: "memory_row list \<Rightarrow> string \<Rightarrow> memory_row option" where
  "get_memory t i = query_row (\<lambda>r. me_id r = i) t"

interpretation memory_store: overwriting_store get_memory put_memory me_id "\<lambda>_ r. r" "primary_key me_id"
proof
  show "primary_key me_id t \<Longrightarrow> primary_key me_id (put_memory r t)" for t r
    by (simp add: put_memory_def)
  show "get_memory (put_memory r t) k = (if k = me_id r then Some r else get_memory t k)" for r t k
    by (auto simp: get_memory_def put_memory_def query_row_upsert_row split: option.splits)
qed simp_all

definition upsert_entry :: "string \<Rightarrow> int \<Rightarrow> string \<Rightarrow> front_matter \<Rightarrow> memory_row list \<Rightarrow> memory_row list" where
  "upsert_entry now g rel fm t = put_memory (memory_row_of now g rel fm) t"

definition parse_column :: "(string \<Rightarrow> 'a option) \<Rightarrow> string \<Rightarrow> string \<Rightarrow> memory_db_error + 'a" where
  "parse_column parse column raw = ok_or (MemUnknownEnum column raw) (parse raw)"

definition read_channel :: "memory_row \<Rightarrow> memory_db_error + source_channel option" where
  "read_channel r =
     (case me_channel r of
        None \<Rightarrow> Inr None
      | Some c \<Rightarrow> map_sum id Some (parse_column parse_source_channel ''source_channel'' c))"

definition read_source_ref :: "source_channel option \<Rightarrow> memory_row \<Rightarrow> source_ref option" where
  "read_source_ref c r =
     (if c \<noteq> None \<or> me_chat r \<noteq> None \<or> me_thread r \<noteq> None \<or> me_message r \<noteq> None \<or> me_permalink r \<noteq> None
      then Some \<lparr>sr_channel = c, sr_chat_id = me_chat r, sr_thread_id = me_thread r, sr_message_id = me_message r,
             sr_permalink = me_permalink r\<rparr>
      else None)"

definition row_to_entry :: "memory_row \<Rightarrow> memory_db_error + catalog_entry" where
  "row_to_entry r =
     rbind (read_channel r) (\<lambda>c.
     rbind (parse_column parse_scope ''scope'' (me_scope r)) (\<lambda>sc.
     rbind (parse_column parse_source_type ''source_type'' (me_source_type r)) (\<lambda>st.
     rbind (parse_column parse_confidence ''confidence'' (me_confidence r)) (\<lambda>co.
     rbind (parse_column parse_reuse_policy ''reuse_policy'' (me_reuse r)) (\<lambda>re.
     rbind (parse_column parse_retention ''retention'' (me_retention r)) (\<lambda>rt. Inr
       \<lparr>ce_memory_id = me_id r, ce_group = me_group r, ce_rel_path = me_rel_path r, ce_scope = sc, ce_source_type = st,
        ce_source_ref = read_source_ref c r, ce_source_user = me_user r, ce_captured_at = me_captured r,
        ce_confidence = co, ce_reuse = re, ce_retention = rt, ce_indexed_at = me_indexed r\<rparr>))))))"

definition newest_indexed_first :: "memory_row list \<Rightarrow> memory_row list" where
  "newest_indexed_first t = order_desc me_indexed (sort_key me_id t)"

definition entries_for_agent :: "int \<Rightarrow> memory_row list \<Rightarrow> memory_db_error + catalog_entry list" where
  "entries_for_agent g t = collect_results (map row_to_entry (newest_indexed_first (filter (\<lambda>r. me_group r = g) t)))"

definition candidates :: "int \<Rightarrow> scope list \<Rightarrow> memory_row list \<Rightarrow> memory_db_error + catalog_entry list" where
  "candidates g scopes t =
     (if scopes = [] then Inr []
      else collect_results (map row_to_entry
        (newest_indexed_first (filter (\<lambda>r. me_group r = g \<and> me_scope r \<in> set (map scope_str scopes)) t))))"

section \<open>Eligibility and injection\<close>

record retrieval_context =
  rc_channel :: "source_channel option"
  rc_chat_id :: "string option"
  rc_thread_id :: "string option"
  rc_user_id :: "string option"
  rc_is_owner_admin :: bool

definition default_context :: retrieval_context where
  "default_context =
     \<lparr>rc_channel = None, rc_chat_id = None, rc_thread_id = None, rc_user_id = None, rc_is_owner_admin = False\<rparr>"

datatype provenance_label = Direct | ObservedLabel | BackfilledLabel | InferredLabel

fun label_for_source :: "source_type \<Rightarrow> provenance_label" where
  "label_for_source Observed = ObservedLabel"
| "label_for_source Backfilled = BackfilledLabel"
| "label_for_source Inferred = InferredLabel"
| "label_for_source _ = Direct"

fun provenance_label_str :: "provenance_label \<Rightarrow> string" where
  "provenance_label_str Direct = ''direct''"
| "provenance_label_str ObservedLabel = ''observed''"
| "provenance_label_str BackfilledLabel = ''backfilled''"
| "provenance_label_str InferredLabel = ''inferred''"

record envelope =
  ev_memory_id :: string
  ev_path :: string
  ev_source_type :: source_type
  ev_label :: provenance_label
  ev_confidence :: confidence
  ev_scope :: scope
  ev_captured_at :: "string option"
  ev_source_ref :: "source_ref option"
  ev_cite_only :: bool
  ev_snippet :: "string option"

definition envelope_of :: "catalog_entry \<Rightarrow> envelope" where
  "envelope_of e =
     \<lparr>ev_memory_id = ce_memory_id e, ev_path = ce_rel_path e, ev_source_type = ce_source_type e,
      ev_label = label_for_source (ce_source_type e), ev_confidence = ce_confidence e, ev_scope = ce_scope e,
      ev_captured_at = ce_captured_at e, ev_source_ref = ce_source_ref e, ev_cite_only = (ce_reuse e = CiteOnly),
      ev_snippet = None\<rparr>"

definition same_channel :: "catalog_entry \<Rightarrow> retrieval_context \<Rightarrow> bool" where
  "same_channel e ctx \<longleftrightarrow>
     (case ce_source_ref e of
        None \<Rightarrow> False
      | Some s \<Rightarrow> sr_channel s \<noteq> None \<and> sr_channel s = rc_channel ctx
          \<and> sr_chat_id s \<noteq> None \<and> sr_chat_id s = rc_chat_id ctx)"

definition same_thread :: "catalog_entry \<Rightarrow> retrieval_context \<Rightarrow> bool" where
  "same_thread e ctx \<longleftrightarrow> same_channel e ctx
     \<and> (case ce_source_ref e of None \<Rightarrow> False | Some s \<Rightarrow> sr_thread_id s \<noteq> None \<and> sr_thread_id s = rc_thread_id ctx)"

definition same_user :: "catalog_entry \<Rightarrow> retrieval_context \<Rightarrow> bool" where
  "same_user e ctx \<longleftrightarrow> ce_source_user e \<noteq> None \<and> ce_source_user e = rc_user_id ctx"

definition scope_matches :: "catalog_entry \<Rightarrow> retrieval_context \<Rightarrow> bool" where
  "scope_matches e ctx =
     (case ce_scope e of
        AllChats \<Rightarrow> True
      | ChannelScope \<Rightarrow> same_channel e ctx
      | ThreadScope \<Rightarrow> same_thread e ctx
      | UserScope \<Rightarrow> same_user e ctx
      | OwnerAdmin \<Rightarrow> rc_is_owner_admin ctx
      | NoRag \<Rightarrow> False)"

definition is_eligible :: "catalog_entry \<Rightarrow> retrieval_context \<Rightarrow> bool" where
  "is_eligible e ctx =
     (if ce_scope e = NoRag \<or> ce_reuse e = NoRagReuse then False
      else if ce_scope e = OwnerAdmin then rc_is_owner_admin ctx
      else
        (case ce_reuse e of
           BroaderOk \<Rightarrow> True
         | SameScope \<Rightarrow> scope_matches e ctx
         | CiteOnly \<Rightarrow> scope_matches e ctx
         | NoRagReuse \<Rightarrow> False))"

definition select_for_injection :: "catalog_entry list \<Rightarrow> retrieval_context \<Rightarrow> nat \<Rightarrow> envelope list" where
  "select_for_injection cs ctx limit = map envelope_of (take limit (filter (\<lambda>e. is_eligible e ctx) cs))"

definition retrieve :: "int \<Rightarrow> retrieval_context \<Rightarrow> nat \<Rightarrow> memory_row list \<Rightarrow> memory_db_error + envelope list" where
  "retrieve g ctx limit t = rbind (entries_for_agent g t) (\<lambda>cs. Inr (select_for_injection cs ctx limit))"

section \<open>Search outcomes and rendering\<close>

record index_doc =
  id_memory_id :: string
  id_rel_path :: string
  id_body :: string

record hit =
  hit_memory_id :: string
  hit_score :: int
  hit_snippet :: string

datatype degraded_reason =
  EmptyIndex | CorruptFts | MissingBinary | StartupTimeout | QueryTimeout | OtherReason string

fun degraded_reason_str :: "degraded_reason \<Rightarrow> string" where
  "degraded_reason_str EmptyIndex = ''empty_index''"
| "degraded_reason_str CorruptFts = ''corrupt_fts''"
| "degraded_reason_str MissingBinary = ''missing_binary''"
| "degraded_reason_str StartupTimeout = ''startup_timeout''"
| "degraded_reason_str QueryTimeout = ''query_timeout''"
| "degraded_reason_str (OtherReason r) = r"

definition degraded_reason_from_wire :: "string \<Rightarrow> degraded_reason" where
  "degraded_reason_from_wire s =
     (if s = ''empty_index'' then EmptyIndex else if s = ''corrupt_fts'' then CorruptFts
      else if s = ''missing_binary'' then MissingBinary else if s = ''startup_timeout'' then StartupTimeout
      else if s = ''query_timeout'' then QueryTimeout else OtherReason s)"

datatype memory_health = HealthyIndex nat | DegradedIndex degraded_reason

datatype search_outcome = Hits "hit list" | DegradedSearch degraded_reason

fun inject_hits :: "(string \<Rightarrow> catalog_entry option) \<Rightarrow> nat \<Rightarrow> hit list \<Rightarrow> envelope list \<Rightarrow> envelope list" where
  "inject_hits eligible limit [] out = out"
| "inject_hits eligible limit (h # hs) out =
     (if limit \<le> length out then out
      else
        (case eligible (hit_memory_id h) of
           None \<Rightarrow> inject_hits eligible limit hs out
         | Some e \<Rightarrow> inject_hits eligible limit hs (out @ [(envelope_of e)\<lparr>ev_snippet := Some (hit_snippet h)\<rparr>])))"

definition inject_from_search ::
  "catalog_entry list \<Rightarrow> search_outcome \<Rightarrow> retrieval_context \<Rightarrow> nat \<Rightarrow> envelope list \<times> bool" where
  "inject_from_search cs outcome ctx limit =
     (case outcome of
        DegradedSearch _ \<Rightarrow> ([], True)
      | Hits hs \<Rightarrow>
          (inject_hits (map_of (rev (map (\<lambda>e. (ce_memory_id e, e)) (filter (\<lambda>e. is_eligible e ctx) cs)))) limit hs [],
           False))"

definition render_source_ref :: "source_ref \<Rightarrow> string option" where
  "render_source_ref s =
     (case sr_channel s of
        None \<Rightarrow> None
      | Some c \<Rightarrow> Some (source_channel_str c
          @ (case sr_chat_id s of None \<Rightarrow> [] | Some x \<Rightarrow> '':'' @ x)
          @ (case sr_thread_id s of None \<Rightarrow> [] | Some x \<Rightarrow> ''/'' @ x)
          @ (case sr_message_id s of None \<Rightarrow> [] | Some x \<Rightarrow> ''#'' @ x)))"

definition envelope_attrs :: "envelope \<Rightarrow> string list" where
  "envelope_attrs v =
     [source_type_str (ev_source_type v), ''confidence='' @ confidence_str (ev_confidence v),
      ''scope='' @ scope_str (ev_scope v)]
     @ (case ev_captured_at v of None \<Rightarrow> [] | Some t \<Rightarrow> [''captured_at='' @ t])
     @ (case Option.bind (ev_source_ref v) render_source_ref of None \<Rightarrow> [] | Some s \<Rightarrow> [''source='' @ s])
     @ (if ev_cite_only v then [''cite_only''] else [])"

definition render_line :: "envelope \<Rightarrow> string" where
  "render_line v =
     ''- '' @ (if ev_label v = Direct then [] else ''('' @ provenance_label_str (ev_label v) @ '') '')
     @ ''['' @ ev_memory_id v @ ''] '' @ ev_path v @ '' ('' @ join_str '', '' (envelope_attrs v) @ '')''
     @ (case ev_snippet v of None \<Rightarrow> [] | Some s \<Rightarrow> concat (map (\<lambda>l. newline # ''  '' @ l) (str_lines s)))"

definition degraded_marker :: string where
  "degraded_marker = ''<memory_status>degraded: memory retrieval unavailable for this turn; ''
     @ ''answer without stored context and do not assert remembered facts.</memory_status>''"

definition render_memory_block :: "envelope list \<Rightarrow> bool \<Rightarrow> string option" where
  "render_memory_block vs degraded =
     (let sections = (if degraded then [degraded_marker] else [])
        @ (if vs = [] then []
           else [''<retrieved_memories>'' @ concat (map (\<lambda>v. newline # render_line v) vs)
                  @ newline # ''</retrieved_memories>''])
      in if sections = [] then None else Some (join_str [newline] sections))"

section \<open>Health\<close>

record health_row =
  hr_group :: int
  hr_status :: string
  hr_last_index_at :: "string option"
  hr_detail :: "string option"

definition put_health :: "string \<Rightarrow> int \<Rightarrow> memory_health \<Rightarrow> health_row list \<Rightarrow> health_row list" where
  "put_health now g h t =
     (case h of
        HealthyIndex _ \<Rightarrow>
          upsert_row hr_group (\<lambda>_ r. r)
            \<lparr>hr_group = g, hr_status = ''healthy'', hr_last_index_at = Some now, hr_detail = None\<rparr> t
      | DegradedIndex reason \<Rightarrow>
          upsert_row hr_group (\<lambda>old r. old\<lparr>hr_status := ''degraded'', hr_detail := hr_detail r\<rparr>)
            \<lparr>hr_group = g, hr_status = ''degraded'', hr_last_index_at = None,
             hr_detail = Some (degraded_reason_str reason)\<rparr> t)"

definition read_health :: "int \<Rightarrow> health_row list \<Rightarrow> health_row option" where
  "read_health g t = query_row (\<lambda>r. hr_group r = g) t"

definition health_row_ok :: "health_row \<Rightarrow> bool" where
  "health_row_ok r \<longleftrightarrow> hr_status r = ''healthy''"

section \<open>Reindexing\<close>

type_synonym memory_files = "(path \<times> string) list"

record memory_state =
  ms_files :: memory_files
  ms_catalog :: "memory_row list"
  ms_health :: "health_row list"

datatype reindex_error = ReindexDb memory_db_error | ReindexIsolation isolation_error

text \<open>\<open>collect_markdown\<close>: the \<open>.md\<close> files of the tree, but for the index and what lies in a qmd folder.\<close>

definition is_note :: "path \<Rightarrow> path \<Rightarrow> bool" where
  "is_note root p \<longleftrightarrow> starts_with p root \<and> root \<noteq> p
     \<and> (let rel = drop (length root) p
        in ''qmd'' \<notin> set (butlast rel) \<and> ''.qmd'' \<notin> set (butlast rel)
          \<and> extension rel = Some ''md'' \<and> last rel \<noteq> index_file)"

definition collect_markdown :: "path \<Rightarrow> memory_files \<Rightarrow> path list" where
  "collect_markdown root fs = sort (filter (is_note root) (map fst fs))"

definition rel_path :: "path \<Rightarrow> path \<Rightarrow> string" where
  "rel_path root p = join_str ''/'' (if starts_with p root then drop (length root) p else p)"

definition index_doc_of :: "memory_document \<Rightarrow> string \<Rightarrow> index_doc" where
  "index_doc_of d rel = \<lparr>id_memory_id = fm_memory_id (doc_front_matter d), id_rel_path = rel, id_body = doc_body d\<rparr>"

fun index_files ::
  "(nat list \<Rightarrow> nat list) \<Rightarrow> yaml \<Rightarrow> memory_root \<Rightarrow> string \<Rightarrow> int \<Rightarrow> memory_files \<Rightarrow> path list
   \<Rightarrow> index_doc list \<Rightarrow> memory_row list \<Rightarrow> memory_row list \<times> (reindex_error + index_doc list)" where
  "index_files sha y root now g fs [] docs t = (t, Inr docs)"
| "index_files sha y root now g fs (p # ps) docs t =
     (case confine_memory root p of
        Inl e \<Rightarrow> (t, Inl (ReindexIsolation e))
      | Inr _ \<Rightarrow>
          (let rel = rel_path (mr_root root) p;
               d = normalize_document sha y (mr_owner root) (case map_of fs p of None \<Rightarrow> [] | Some c \<Rightarrow> c)
           in index_files sha y root now g fs ps (docs @ [index_doc_of d rel])
                (upsert_entry now g rel (doc_front_matter d) t)))"

definition reindex_root ::
  "(nat list \<Rightarrow> nat list) \<Rightarrow> yaml \<Rightarrow> (index_doc list \<Rightarrow> memory_health) \<Rightarrow> memory_root \<Rightarrow> string \<Rightarrow> int
   \<Rightarrow> memory_state \<Rightarrow> memory_state \<times> (reindex_error + nat \<times> memory_health)" where
  "reindex_root sha y backend root now g s =
     (case index_files sha y root now g (ms_files s) (collect_markdown (mr_root root) (ms_files s)) [] (ms_catalog s) of
        (t, Inl e) \<Rightarrow> (s\<lparr>ms_catalog := t\<rparr>, Inl e)
      | (t, Inr docs) \<Rightarrow>
          (let h = backend docs
           in (s\<lparr>ms_catalog := t, ms_health := put_health now g h (ms_health s)\<rparr>, Inr (length docs, h))))"

section \<open>Saving and recalling a note\<close>

record memory_payload =
  mp_content :: string
  mp_title :: "string option"

record memory_env =
  menv_sha :: "nat list \<Rightarrow> nat list"
  menv_yaml :: yaml
  menv_payload :: "string \<Rightarrow> memory_payload option"

datatype write_memory_error = BadMemoryPayload | WriteIsolation isolation_error

definition trim_end_newlines :: "string \<Rightarrow> string" where
  "trim_end_newlines s = rev (trim_char newline (rev s))"

definition build_body :: "memory_payload \<Rightarrow> string" where
  "build_body p =
     (case map_option trim (mp_title p) of
        None \<Rightarrow> []
      | Some t \<Rightarrow> if t = [] then [] else ''# '' @ t @ [newline, newline])
     @ trim_end_newlines (mp_content p) @ [newline]"

definition saved_front_matter :: "string \<Rightarrow> string \<Rightarrow> source_ref option \<Rightarrow> string option \<Rightarrow> front_matter" where
  "saved_front_matter i owner source_ref user =
     \<lparr>fm_memory_id = i, fm_owner = owner, fm_scope = AllChats, fm_source_type = UserSaid, fm_source_ref = source_ref,
      fm_source_user = user, fm_captured_at = None, fm_confidence = High, fm_reuse_policy = SameScope,
      fm_retention = NormalRetention\<rparr>"

definition put_file :: "path \<Rightarrow> string \<Rightarrow> memory_files \<Rightarrow> memory_files" where
  "put_file p c fs = upsert_row fst (\<lambda>_ r. r) (p, c) fs"

definition write_memory ::
  "memory_env \<Rightarrow> string \<Rightarrow> path \<Rightarrow> string \<Rightarrow> int \<Rightarrow> string \<Rightarrow> source_ref option \<Rightarrow> string option
   \<Rightarrow> memory_state \<Rightarrow> memory_state \<times> (write_memory_error + string)" where
  "write_memory env now groups owner g payload source_ref user s =
     (case menv_payload env payload of
        None \<Rightarrow> (s, Inl BadMemoryPayload)
      | Some p \<Rightarrow>
          (let body = build_body p;
               i = generate_memory_id (menv_sha env) owner body;
               fm = saved_front_matter i owner source_ref user;
               rel = ''notes/'' @ i @ ''.md'';
               root = orchestrator_root groups owner
           in case rbind (authorize_owner root owner) (\<lambda>_. resolve_memory root rel) of
                Inl e \<Rightarrow> (s, Inl (WriteIsolation e))
              | Inr target \<Rightarrow>
                  (s\<lparr>ms_files := put_file target (to_markdown (menv_yaml env) \<lparr>doc_front_matter = fm, doc_body = body\<rparr>) (ms_files s),
                     ms_catalog := upsert_entry now g rel fm (ms_catalog s)\<rparr>,
                   Inr i)))"

text \<open>\<open>chars()\<close>: a character is a byte that is no continuation byte and the continuation bytes after it.\<close>

definition is_continuation :: "char \<Rightarrow> bool" where
  "is_continuation c \<longleftrightarrow> 128 \<le> (of_char c :: nat) \<and> (of_char c :: nat) < 192"

lemma is_continuation_code [code]: "is_continuation (Char b0 b1 b2 b3 b4 b5 b6 b7) \<longleftrightarrow> b7 \<and> \<not> b6"
  by (cases b0; cases b1; cases b2; cases b3; cases b4; cases b5; cases b6; cases b7) (simp_all add: is_continuation_def)

function utf8_chars :: "string \<Rightarrow> string list" where
  "utf8_chars [] = []"
| "utf8_chars (c # cs) = (c # takeWhile is_continuation cs) # utf8_chars (dropWhile is_continuation cs)"
  by pat_completeness auto

termination
  by (relation "measure length") (auto simp: le_imp_less_Suc length_dropWhile_le)

definition ellipsis :: string where
  "ellipsis = map char_of [226, 128, 166::nat]"

definition snippet_cap :: nat where
  "snippet_cap = 1000"

definition cap_chars :: "string \<Rightarrow> nat \<Rightarrow> string" where
  "cap_chars text n = concat (take n (utf8_chars text)) @ (if n < length (utf8_chars text) then ellipsis else [])"

definition read_body :: "yaml \<Rightarrow> memory_root \<Rightarrow> memory_files \<Rightarrow> string \<Rightarrow> string option" where
  "read_body y root fs rel =
     (case resolve_memory root rel of
        Inl _ \<Rightarrow> None
      | Inr target \<Rightarrow>
          (case map_of fs target of
             None \<Rightarrow> None
           | Some raw \<Rightarrow>
               (case parse_document y raw of
                  Inl _ \<Rightarrow> None
                | Inr d \<Rightarrow> Some (cap_chars (trim (doc_body d)) snippet_cap))))"

definition hydrate_snippets :: "yaml \<Rightarrow> path \<Rightarrow> string \<Rightarrow> memory_files \<Rightarrow> envelope list \<Rightarrow> envelope list" where
  "hydrate_snippets y groups owner fs vs =
     map (\<lambda>v. case read_body y (orchestrator_root groups owner) fs (ev_path v) of
                Some b \<Rightarrow> v\<lparr>ev_snippet := Some b\<rparr>
              | None \<Rightarrow> v) vs"

text \<open>The block of a turn without qmd, and with it (\<open>memory_block\<close> of \<open>run.rs\<close>).\<close>

definition catalog_memory_block ::
  "yaml \<Rightarrow> path \<Rightarrow> string \<Rightarrow> int \<Rightarrow> nat \<Rightarrow> memory_state \<Rightarrow> string option" where
  "catalog_memory_block y groups owner g limit s =
     (case retrieve g default_context limit (ms_catalog s) of
        Inl _ \<Rightarrow> None
      | Inr vs \<Rightarrow> render_memory_block (hydrate_snippets y groups owner (ms_files s) vs) False)"

definition qmd_memory_block ::
  "(nat \<Rightarrow> search_outcome) option \<Rightarrow> int \<Rightarrow> nat \<Rightarrow> memory_state \<Rightarrow> string option option" where
  "qmd_memory_block qmd g limit s =
     (case qmd of
        None \<Rightarrow> None
      | Some search \<Rightarrow>
          (case entries_for_agent g (ms_catalog s) of
             Inl _ \<Rightarrow> None
           | Inr cs \<Rightarrow>
               (case search limit of
                  DegradedSearch _ \<Rightarrow> None
                | Hits hs \<Rightarrow> Some (render_memory_block (fst (inject_from_search cs (Hits hs) default_context limit)) False))))"

definition memory_block ::
  "yaml \<Rightarrow> (nat \<Rightarrow> search_outcome) option \<Rightarrow> path \<Rightarrow> string \<Rightarrow> int \<Rightarrow> nat \<Rightarrow> memory_state \<Rightarrow> string option" where
  "memory_block y qmd groups owner g limit s =
     (case qmd_memory_block qmd g limit s of
        Some b \<Rightarrow> b
      | None \<Rightarrow> catalog_memory_block y groups owner g limit s)"

section \<open>What retrieval may show\<close>

text \<open>
  The policy of the module's documentation, entry by entry: nothing marked \<open>no_rag\<close>, \<open>owner_admin\<close> only
  for the owner, and nothing outside its own channel, thread or user unless it was written as \<open>broader_ok\<close>.
\<close>

definition visible_to :: "catalog_entry \<Rightarrow> retrieval_context \<Rightarrow> bool" where
  "visible_to e ctx \<longleftrightarrow> ce_scope e \<noteq> NoRag \<and> ce_reuse e \<noteq> NoRagReuse
     \<and> (ce_scope e = OwnerAdmin \<longrightarrow> rc_is_owner_admin ctx)
     \<and> (ce_reuse e \<noteq> BroaderOk \<longrightarrow>
          (ce_scope e = ThreadScope \<longrightarrow> (\<exists>s i. ce_source_ref e = Some s \<and> sr_thread_id s = Some i \<and> rc_thread_id ctx = Some i))
        \<and> (ce_scope e \<in> {ChannelScope, ThreadScope} \<longrightarrow>
             (\<exists>s c i. ce_source_ref e = Some s \<and> sr_channel s = Some c \<and> rc_channel ctx = Some c
                \<and> sr_chat_id s = Some i \<and> rc_chat_id ctx = Some i))
        \<and> (ce_scope e = UserScope \<longrightarrow> (\<exists>u. ce_source_user e = Some u \<and> rc_user_id ctx = Some u)))"

lemma eligible_iff_visible: "is_eligible e ctx \<longleftrightarrow> visible_to e ctx"
proof -
  have "same_channel e ctx \<longleftrightarrow> (\<exists>s c i. ce_source_ref e = Some s \<and> sr_channel s = Some c \<and> rc_channel ctx = Some c
      \<and> sr_chat_id s = Some i \<and> rc_chat_id ctx = Some i)"
    by (cases "ce_source_ref e"; cases "rc_chat_id ctx"; cases "rc_channel ctx") (auto simp: same_channel_def)
  moreover have "same_thread e ctx \<longleftrightarrow> same_channel e ctx \<and>
      (\<exists>s i. ce_source_ref e = Some s \<and> sr_thread_id s = Some i \<and> rc_thread_id ctx = Some i)"
    by (cases "ce_source_ref e"; cases "rc_thread_id ctx") (auto simp: same_thread_def)
  moreover have "same_user e ctx \<longleftrightarrow> (\<exists>u. ce_source_user e = Some u \<and> rc_user_id ctx = Some u)"
    by (cases "rc_user_id ctx") (auto simp: same_user_def)
  ultimately show ?thesis
    by (cases "ce_scope e"; cases "ce_reuse e") (simp_all add: is_eligible_def visible_to_def scope_matches_def, blast+)
qed

lemma inject_hits_from:
  "v \<in> set (inject_hits m limit hs out) \<Longrightarrow>
   v \<in> set out \<or> (\<exists>i e s. m i = Some e \<and> v = (envelope_of e)\<lparr>ev_snippet := Some s\<rparr>)"
  by (induction m limit hs out rule: inject_hits.induct) (fastforce split: if_splits option.splits)+

lemma length_inject_hits: "length out \<le> limit \<Longrightarrow> length (inject_hits m limit hs out) \<le> limit"
  by (induction m limit hs out rule: inject_hits.induct) (auto split: option.splits)

lemma entries_for_agent_from:
  assumes "entries_for_agent g t = Inr cs" and "e \<in> set cs"
  shows "\<exists>r\<in>set t. me_group r = g \<and> row_to_entry r = Inr e"
proof -
  have "map Inr cs = map row_to_entry (newest_indexed_first (filter (\<lambda>r. me_group r = g) t))"
    using assms(1) by (simp add: entries_for_agent_def collect_results_Inr_iff)
  then have "(Inr e :: memory_db_error + catalog_entry) \<in> row_to_entry ` set (filter (\<lambda>r. me_group r = g) t)"
    using assms(2) by (metis (no_types, lifting) image_eqI list.set_map newest_indexed_first_def set_order_desc set_sort)
  then show ?thesis by auto
qed

lemma envelope_snippet: "(envelope_of e)\<lparr>ev_snippet := None\<rparr> = envelope_of e"
  by (simp add: envelope_of_def)

text \<open>
  C20: a turn is shown no memory it may not see. Every envelope injected, by the catalog alone or through
  a search, is that of a row of the turn's own agent group which the entry's scope and reuse policy show
  to the turn; at most \<open>limit\<close> are injected; and the catalog injects the first \<open>limit\<close> of all those that may
  be shown, so that restricted entries crowd out none.
\<close>

theorem injection_respects_policy:
  assumes "entries_for_agent g t = Inr cs"
  shows "(\<forall>v. v \<in> set (select_for_injection cs ctx limit) \<or> v \<in> set (fst (inject_from_search cs outcome ctx limit)) \<longrightarrow>
        (\<exists>r\<in>set t. \<exists>e. me_group r = g \<and> row_to_entry r = Inr e \<and> v\<lparr>ev_snippet := None\<rparr> = envelope_of e \<and> visible_to e ctx))
    \<and> length (fst (inject_from_search cs outcome ctx limit)) \<le> limit
    \<and> retrieve g ctx limit t = Inr (map envelope_of (take limit (filter (\<lambda>e. visible_to e ctx) cs)))"
proof -
  let ?m = "map_of (rev (map (\<lambda>e. (ce_memory_id e, e)) (filter (\<lambda>e. is_eligible e ctx) cs)))"
  have shown: "\<exists>r\<in>set t. \<exists>e. me_group r = g \<and> row_to_entry r = Inr e \<and> v\<lparr>ev_snippet := None\<rparr> = envelope_of e \<and> visible_to e ctx"
    if "e \<in> set cs" "is_eligible e ctx" "v\<lparr>ev_snippet := None\<rparr> = envelope_of e" for v e
    using entries_for_agent_from [OF assms that(1)] that(2,3) eligible_iff_visible by blast
  have search: "\<exists>e\<in>set cs. is_eligible e ctx \<and> v\<lparr>ev_snippet := None\<rparr> = envelope_of e"
    if v: "v \<in> set (fst (inject_from_search cs outcome ctx limit))" for v
  proof -
    from v obtain hs where "v \<in> set (inject_hits ?m limit hs [])"
      by (cases outcome) (auto simp: inject_from_search_def)
    then obtain i e s where e: "?m i = Some e" "v = (envelope_of e)\<lparr>ev_snippet := Some s\<rparr>"
      using inject_hits_from by fastforce
    then have "e \<in> set cs" "is_eligible e ctx" by (auto dest!: map_of_SomeD)
    with e show ?thesis using envelope_snippet by auto
  qed
  have select: "\<exists>e\<in>set cs. is_eligible e ctx \<and> v\<lparr>ev_snippet := None\<rparr> = envelope_of e"
    if "v \<in> set (select_for_injection cs ctx limit)" for v
    using that envelope_snippet by (auto simp: select_for_injection_def dest!: in_set_takeD)
  have "length (fst (inject_from_search cs outcome ctx limit)) \<le> limit"
    by (cases outcome) (simp_all add: inject_from_search_def length_inject_hits)
  moreover have "retrieve g ctx limit t = Inr (map envelope_of (take limit (filter (\<lambda>e. visible_to e ctx) cs)))"
    by (simp add: retrieve_def assms select_for_injection_def eligible_iff_visible)
  ultimately show ?thesis using shown search select by blast
qed

definition sample_note :: "scope \<Rightarrow> reuse_policy \<Rightarrow> string \<Rightarrow> memory_row" where
  "sample_note sc re i = memory_row_of ''t'' 1 ''a.md''
     (sample_front_matter\<lparr>fm_memory_id := i, fm_scope := sc, fm_reuse_policy := re\<rparr>)"

theorem injection_respects_policy_witness:
  "\<exists>cs. entries_for_agent 1 [sample_note OwnerAdmin BroaderOk ''a'', sample_note AllChats SameScope ''b''] = Inr cs
     \<and> length (fst (inject_from_search cs (Hits [\<lparr>hit_memory_id = ''a'', hit_score = 9, hit_snippet = ''s''\<rparr>]) default_context 1)) \<le> 1
     \<and> map_sum id (map ev_memory_id)
         (retrieve 1 default_context 1 [sample_note OwnerAdmin BroaderOk ''a'', sample_note AllChats SameScope ''b''])
       = Inr [''b'']"
proof -
  let ?t = "[sample_note OwnerAdmin BroaderOk ''a'', sample_note AllChats SameScope ''b'']"
  have "is_ok (entries_for_agent 1 ?t)" by code_simp
  then obtain cs where cs: "entries_for_agent 1 ?t = Inr cs" by (auto simp: is_ok_iff)
  have "map_sum id (map ev_memory_id) (retrieve 1 default_context 1 ?t) = Inr [''b'']" by code_simp
  with injection_respects_policy [OF cs] cs show ?thesis by blast
qed

section \<open>A saved note is recalled\<close>

lemma row_of_reads: "\<exists>e. row_to_entry (memory_row_of now g rel fm) = Inr e \<and> ce_memory_id e = fm_memory_id fm
    \<and> ce_rel_path e = rel \<and> ce_scope e = fm_scope fm \<and> ce_reuse e = fm_reuse_policy fm"
  by (auto simp: row_to_entry_def memory_row_of_def parse_column_def read_channel_def res_simps
      scope_text.decode_column source_type_text.decode_column source_channel_text.decode_column
      confidence_text.decode_column reuse_policy_text.decode_column retention_text.decode_column
      split: option.splits)

lemma hex_of_plain: "CHR ''/'' \<notin> set (hex_of bs)" if "\<forall>b\<in>set bs. b < 256"
proof -
  have "hex_digit n \<noteq> CHR ''/''" if "n < 16" for n
  proof -
    have "n \<in> {0..<16}" using that by simp
    then have "n \<in> set [0..<16]" by simp
    moreover have "list_all (\<lambda>n. hex_digit n \<noteq> CHR ''/'') [0..<16]" by code_simp
    ultimately show ?thesis by (auto simp: list_all_iff)
  qed
  then have "hex_digit (b div 16) \<noteq> CHR ''/''" "hex_digit (b mod 16) \<noteq> CHR ''/''" if "b < 256" for b
    using that by (simp_all add: less_mult_imp_div_less)
  then have "CHR ''/'' \<notin> set (hex2 b)" if "b < 256" for b
    using that by (metis empty_iff hex2_def list.set(1) set_ConsD)
  with that show ?thesis by (auto simp: hex_of_def)
qed

lemma put_file_lookup: "map_of (put_file p c fs) p = Some c"
proof -
  have all: "snd x = c" if x: "x \<in> set (put_file p c fs)" "fst x = p" for x
  proof -
    consider "x = (p, c)" | "x \<in> set fs" "fst x \<noteq> p" | "x \<in> set fs" "\<not> has_key fst p fs"
      using x(1) by (auto simp: put_file_def upsert_row_def split: if_splits)
    then show ?thesis using x(2) by cases (auto simp: has_key_def)
  qed
  have "set (map fst (put_file p c fs)) = (if has_key fst p fs then set (map fst fs) else set (map fst fs) \<union> {p})"
    by (simp add: put_file_def map_key_upsert_row)
  then have "p \<in> fst ` set (put_file p c fs)" by (auto simp: has_key_def split: if_splits)
  then obtain v where v: "map_of (put_file p c fs) p = Some v"
    by (cases "map_of (put_file p c fs) p") (auto simp: map_of_eq_None_iff)
  then show ?thesis using all map_of_SomeD [OF v] by auto
qed

definition byte_digest :: "(nat list \<Rightarrow> nat list) \<Rightarrow> bool" where
  "byte_digest sha \<longleftrightarrow> (\<forall>bs. \<forall>b\<in>set (sha bs). b < 256)"

lemma note_path:
  assumes "byte_digest sha" and i_def: "i = generate_memory_id sha owner body"
  shows "resolve_memory root (''notes/'' @ i @ ''.md'') = Inr (mr_root root @ [''notes'', i @ ''.md''])"
proof -
  have "\<forall>b\<in>set (take 12 (sha bs)). b < 256" for bs
    using assms(1) in_set_takeD by (fastforce simp: byte_digest_def)
  then have "CHR ''/'' \<notin> set (i @ ''.md'')"
    using hex_of_plain by (simp add: i_def generate_memory_id_def)
  then have "split_on (CHR ''/'') (''notes'' @ CHR ''/'' # (i @ ''.md'')) = [''notes'', i @ ''.md'']"
    using split_on_append [of "CHR ''/''" "''notes''"] split_on_no_sep [of "CHR ''/''" "i @ ''.md''"] by simp
  moreover have "i @ ''.md'' \<noteq> ''.''" "i @ ''.md'' \<noteq> ''..''" "i @ ''.md'' \<noteq> []"
    by (simp_all add: i_def generate_memory_id_def)
  ultimately have "path_components (''notes/'' @ i @ ''.md'') = [''notes'', i @ ''.md'']"
    by (simp add: path_components_def)
  then show ?thesis
    using \<open>i @ ''.md'' \<noteq> ''..''\<close> by (simp add: resolve_memory_Inr lexically_contained_def is_absolute_def)
qed

lemma entries_readable:
  "(\<exists>cs. entries_for_agent g t = Inr cs) \<longleftrightarrow> (\<forall>r\<in>set t. me_group r = g \<longrightarrow> is_ok (row_to_entry r))"
proof -
  have set: "set (newest_indexed_first (filter (\<lambda>r. me_group r = g) t)) = {r \<in> set t. me_group r = g}"
    by (simp add: newest_indexed_first_def)
  have iff: "(\<exists>cs. collect_results (map row_to_entry rs) = Inr cs) \<longleftrightarrow> (\<forall>r\<in>set rs. is_ok (row_to_entry r))" for rs
  proof (induction rs)
    case (Cons r rs)
    then show ?case by (cases "row_to_entry r") (auto simp: res_simps)
  qed simp
  show ?thesis unfolding entries_for_agent_def iff set by blast
qed

lemma newest_before:
  assumes "x \<in> set t" and "distinct t"
  obtains newer older where "newest_indexed_first t = newer @ x # older" "distinct newer" "x \<notin> set newer"
    "set newer \<subseteq> set t" "\<forall>r\<in>set newer. me_indexed x \<le> me_indexed r"
proof -
  let ?n = "newest_indexed_first t"
  have set: "set ?n = set t" by (simp add: newest_indexed_first_def)
  then obtain newer older where n: "?n = newer @ x # older" using assms(1) by (metis split_list)
  have "sorted (map me_indexed (rev ?n))" by (simp add: newest_indexed_first_def order_desc_def)
  then have "\<forall>r\<in>set newer. me_indexed x \<le> me_indexed r" by (simp add: n sorted_append)
  moreover have "distinct ?n" using assms(2) by (simp add: newest_indexed_first_def order_desc_def)
  then have "distinct newer" "x \<notin> set newer" by (simp_all add: n)
  ultimately show thesis using set n by (intro that [of newer older]) auto
qed

text \<open>The rows of a group that are at least as new as a time.\<close>

definition as_new_as :: "string \<Rightarrow> int \<Rightarrow> memory_row list \<Rightarrow> memory_row list" where
  "as_new_as now g t = filter (\<lambda>r. me_group r = g \<and> now \<le> me_indexed r) t"

lemma recent_row_found:
  assumes cs: "entries_for_agent g t' = Inr cs" and x: "x \<in> set t'" "me_group x = g" "row_to_entry x = Inr e" "visible_to e ctx"
    and t': "primary_key me_id t'" "set t' \<subseteq> insert x (set t)" and room: "length (as_new_as (me_indexed x) g t) < limit"
  shows "e \<in> set (take limit (filter (\<lambda>e. visible_to e ctx) cs))"
proof -
  let ?rows = "filter (\<lambda>r. me_group r = g) t'"
  have "distinct ?rows" using t'(1) by (simp add: primary_key_def distinct_map)
  moreover have "x \<in> set ?rows" using x by simp
  ultimately obtain newer older where n: "newest_indexed_first ?rows = newer @ x # older" "distinct newer"
      "x \<notin> set newer" "set newer \<subseteq> set ?rows" "\<forall>r\<in>set newer. me_indexed x \<le> me_indexed r"
    using newest_before by metis
  have "set newer \<subseteq> set (as_new_as (me_indexed x) g t)"
    using n(3-5) t'(2) by (auto simp: as_new_as_def)
  then have "card (set newer) \<le> length (as_new_as (me_indexed x) g t)"
    by (meson List.finite_set card_length card_mono le_trans)
  with n(2) room have len: "length newer < limit" by (simp add: distinct_card)
  have "map Inr cs = map row_to_entry newer @ Inr e # map row_to_entry older"
    using cs n(1) x(3) by (simp add: entries_for_agent_def collect_results_Inr_iff)
  then obtain es es' where es: "cs = es @ e # es'" "map Inr es = map row_to_entry newer"
    by (auto simp: map_eq_append_conv map_eq_Cons_conv)
  from arg_cong [where f = length, OF es(2)] len have "length es < limit" by simp
  then have "length (filter (\<lambda>e. visible_to e ctx) es) < limit" by (rule le_less_trans [OF length_filter_le])
  then show ?thesis using x(4) by (simp add: es(1) Suc_diff_Suc take_Cons')
qed

text \<open>
  C23: what an agent saves, its later turns are shown. After a successful \<open>save_memory\<close> the retrieval from the
  catalog finds the note, in whatever chat, as long as fewer than the limit of the group's rows are at least
  as new as the save: older rows, however many, do not push it out. Reading its file gives the text back: the
  title as a heading and the content, trimmed and cut to a thousand characters. The other entries of the
  catalog stay as they are. The rows of the group have to be readable, as one that is not fails the whole
  retrieval, and the YAML of the saved front matter has to read back.
\<close>

theorem saved_note_recalled:
  assumes "write_memory env now groups owner g payload sr user s = (s', Inr i)"
    and "entries_for_agent g (ms_catalog s) = Inr cs" and "primary_key me_id (ms_catalog s)"
    and "length (as_new_as now g (ms_catalog s)) < limit" and "byte_digest (menv_sha env)"
    and "yaml_reads_back (menv_yaml env) (saved_front_matter i owner sr user)"
  shows "\<exists>p vs. menv_payload env payload = Some p \<and> retrieve g ctx limit (ms_catalog s') = Inr vs
    \<and> (\<exists>v\<in>set (hydrate_snippets (menv_yaml env) groups owner (ms_files s') vs).
         ev_memory_id v = i \<and> ev_snippet v = Some (cap_chars (trim (build_body p)) 1000))
    \<and> (\<forall>k. k \<noteq> i \<longrightarrow> get_memory (ms_catalog s') k = get_memory (ms_catalog s) k)"
proof -
  obtain p where p: "menv_payload env payload = Some p"
    using assms(1) by (auto simp: write_memory_def split: option.splits)
  define body where "body = build_body p"
  define fm where "fm = saved_front_matter i owner sr user"
  define rel where "rel = ''notes/'' @ i @ ''.md''"
  define root where "root = orchestrator_root groups owner"
  have i: "i = generate_memory_id (menv_sha env) owner body"
    using assms(1) by (auto simp: write_memory_def p Let_def body_def split: sum.splits)
  have target: "resolve_memory root rel = Inr (mr_root root @ [''notes'', i @ ''.md''])"
    unfolding rel_def by (rule note_path [OF assms(5) i])
  define target where "target = mr_root root @ [''notes'', i @ ''.md'']"
  have s': "ms_files s' = put_file target (to_markdown (menv_yaml env) \<lparr>doc_front_matter = fm, doc_body = body\<rparr>) (ms_files s)"
    "ms_catalog s' = put_memory (memory_row_of now g rel fm) (ms_catalog s)"
    using assms(1) note_path [OF assms(5) i, of root]
    by (auto simp: write_memory_def p Let_def body_def [symmetric] i [symmetric] fm_def rel_def root_def target_def
        authorize_owner_def orchestrator_root_def upsert_entry_def)
  obtain e where e: "row_to_entry (memory_row_of now g rel fm) = Inr e" "ce_memory_id e = i" "ce_rel_path e = rel"
    "ce_scope e = AllChats" "ce_reuse e = SameScope"
    using row_of_reads [of now g rel fm] by (auto simp: fm_def saved_front_matter_def)
  have row: "me_id (memory_row_of now g rel fm) = i" "me_group (memory_row_of now g rel fm) = g"
    by (simp_all add: memory_row_of_def fm_def saved_front_matter_def)
  have old: "is_ok (row_to_entry r)" if "r \<in> set (ms_catalog s)" "me_group r = g" for r
    using assms(2) entries_readable that by blast
  have rows: "r = memory_row_of now g rel fm \<or> r \<in> set (ms_catalog s)" if "r \<in> set (ms_catalog s')" for r
    using that by (auto simp: s'(2) put_memory_def upsert_row_def split: if_splits)
  have "\<forall>r\<in>set (ms_catalog s'). me_group r = g \<longrightarrow> is_ok (row_to_entry r)"
    using rows old e(1) by (metis is_ok_iff)
  then obtain cs' where cs': "entries_for_agent g (ms_catalog s') = Inr cs'"
    using entries_readable by blast
  have "get_memory (ms_catalog s') i = Some (memory_row_of now g rel fm)"
    using memory_store.get_put_new [OF assms(3), of "memory_row_of now g rel fm"] row by (simp add: s'(2))
  then have "memory_row_of now g rel fm \<in> set (ms_catalog s')"
    by (auto simp: get_memory_def dest: query_row_SomeD)
  moreover have "visible_to e ctx" using e by (simp add: visible_to_def)
  moreover have "primary_key me_id (ms_catalog s')" using memory_store.ok_put [OF assms(3)] by (simp add: s'(2))
  moreover have "me_indexed (memory_row_of now g rel fm) = now" by (simp add: memory_row_of_def)
  ultimately have found: "e \<in> set (take limit (filter (\<lambda>e. visible_to e ctx) cs'))"
    using recent_row_found [OF cs' _ row(2) e(1)] rows assms(4) by (metis insertCI subsetI insert_iff)
  define vs where "vs = map envelope_of (take limit (filter (\<lambda>e. visible_to e ctx) cs'))"
  have ret: "retrieve g ctx limit (ms_catalog s') = Inr vs"
    by (simp add: vs_def retrieve_def cs' select_for_injection_def eligible_iff_visible)
  have "parse_document (menv_yaml env) (to_markdown (menv_yaml env) \<lparr>doc_front_matter = fm, doc_body = body\<rparr>)
      = Inr \<lparr>doc_front_matter = fm, doc_body = body\<rparr>"
    using parse_to_markdown assms(6) by (simp add: fm_def)
  then have body: "read_body (menv_yaml env) root (ms_files s') rel = Some (cap_chars (trim body) 1000)"
    using target by (simp add: read_body_def s'(1) target_def put_file_lookup snippet_cap_def)
  let ?v = "(envelope_of e)\<lparr>ev_snippet := Some (cap_chars (trim body) 1000)\<rparr>"
  have "?v \<in> set (hydrate_snippets (menv_yaml env) groups owner (ms_files s') vs)"
    unfolding hydrate_snippets_def set_map
    by (rule image_eqI [of _ _ "envelope_of e"])
      (use found body e(3) in \<open>auto simp: vs_def root_def envelope_of_def\<close>)
  moreover have "ev_memory_id ?v = i" using e(2) by (simp add: envelope_of_def)
  moreover have "get_memory (ms_catalog s') k = get_memory (ms_catalog s) k" if "k \<noteq> i" for k
    using memory_store.get_put_other [OF assms(3)] that row by (simp add: s'(2))
  ultimately show ?thesis using p ret by (auto simp: body_def intro!: bexI [of _ ?v])
qed

definition sample_memory_env :: memory_env where
  "sample_memory_env =
     \<lparr>menv_sha = (\<lambda>_. [1, 2, 3]),
      menv_yaml = \<lparr>yaml_to = (\<lambda>_. ''a: b''), yaml_from = (\<lambda>_. Some (saved_front_matter ''mem_010203'' ''1'' None None))\<rparr>,
      menv_payload = (\<lambda>_. Some \<lparr>mp_content = ''note'', mp_title = None\<rparr>)\<rparr>"

definition empty_memory :: memory_state where
  "empty_memory = \<lparr>ms_files = [], ms_catalog = [], ms_health = []\<rparr>"

theorem saved_note_recalled_witness:
  "\<exists>s' i vs. write_memory sample_memory_env ''t'' [''g''] ''1'' 1 ''{}'' None None empty_memory = (s', Inr i)
     \<and> retrieve 1 default_context 8 (ms_catalog s') = Inr vs
     \<and> (\<exists>v\<in>set (hydrate_snippets (menv_yaml sample_memory_env) [''g''] ''1'' (ms_files s') vs). ev_memory_id v = i)"
proof -
  let ?w = "write_memory sample_memory_env ''t'' [''g''] ''1'' 1 ''{}'' None None empty_memory"
  have "snd ?w = Inr ''mem_010203''" by code_simp
  then have w: "?w = (fst ?w, Inr ''mem_010203'')" by (simp add: prod_eq_iff)
  have "fence_free (ended_with_newline ''a: b'')" by code_simp
  then have yaml: "yaml_reads_back (menv_yaml sample_memory_env) (saved_front_matter ''mem_010203'' ''1'' None None)"
    by (simp add: yaml_reads_back_def sample_memory_env_def)
  have sha: "byte_digest (menv_sha sample_memory_env)" by (simp add: byte_digest_def sample_memory_env_def)
  have cs: "entries_for_agent 1 (ms_catalog empty_memory) = Inr []" by code_simp
  have "primary_key me_id (ms_catalog empty_memory)" "length (as_new_as ''t'' 1 (ms_catalog empty_memory)) < 8"
    by (simp_all add: empty_memory_def primary_key_def as_new_as_def)
  from saved_note_recalled [OF w cs this sha yaml] w show ?thesis by blast
qed

section \<open>Reindexing is exact on what it finds\<close>

definition note_row :: "(nat list \<Rightarrow> nat list) \<Rightarrow> yaml \<Rightarrow> memory_root \<Rightarrow> string \<Rightarrow> int \<Rightarrow> memory_files \<Rightarrow> path \<Rightarrow> memory_row" where
  "note_row sha y root now g fs p =
     memory_row_of now g (rel_path (mr_root root) p)
       (doc_front_matter (normalize_document sha y (mr_owner root) (case map_of fs p of None \<Rightarrow> [] | Some c \<Rightarrow> c)))"

lemma index_files_Inr:
  "index_files sha y root now g fs ps docs t = (t', Inr docs') \<Longrightarrow>
     t' = fold put_memory (map (note_row sha y root now g fs) ps) t \<and> length docs' = length docs + length ps"
  by (induction ps arbitrary: docs t)
    (auto simp: note_row_def upsert_entry_def Let_def split: sum.splits)

lemma find_map_row:
  "find (\<lambda>r. key r = k) (rev (map f ps)) = map_option f (find (\<lambda>p. key (f p) = k) (rev ps))"
proof -
  have "find (\<lambda>r. key r = k) (map f qs) = map_option f (find (\<lambda>p. key (f p) = k) qs)" for qs
    by (induction qs) simp_all
  from this [of "rev ps"] show ?thesis by (simp add: rev_map)
qed

text \<open>
  C24: a reindex puts into the catalog exactly what the folder holds: it reads every note under the root and
  no other file, the last file of an identity gives its row, the folder stays as it is, and the health row
  tells what the index answered. A row whose note is gone stays as it was.
\<close>

theorem reindex_catalog_exact:
  assumes "reindex_root sha y backend root now g s = (s', Inr (n, h))" and "primary_key me_id (ms_catalog s)"
  shows "n = length (filter (is_note (mr_root root)) (map fst (ms_files s))) \<and> ms_files s' = ms_files s
    \<and> get_memory (ms_catalog s') k
      = (case find (\<lambda>p. me_id (note_row sha y root now g (ms_files s) p) = k)
               (rev (collect_markdown (mr_root root) (ms_files s))) of
           Some p \<Rightarrow> Some (note_row sha y root now g (ms_files s) p)
         | None \<Rightarrow> get_memory (ms_catalog s) k)
    \<and> map_option health_row_ok (read_health g (ms_health s')) = Some (\<exists>d. h = HealthyIndex d)"
proof -
  let ?ps = "collect_markdown (mr_root root) (ms_files s)"
  obtain t docs where run: "index_files sha y root now g (ms_files s) ?ps [] (ms_catalog s) = (t, Inr docs)"
    and h: "h = backend docs" "n = length docs"
    and s': "s' = s\<lparr>ms_catalog := t, ms_health := put_health now g h (ms_health s)\<rparr>"
    using assms(1) by (auto simp: reindex_root_def Let_def split: prod.splits sum.splits)
  from index_files_Inr [OF run]
  have t: "t = fold put_memory (map (note_row sha y root now g (ms_files s)) ?ps) (ms_catalog s)"
    and n: "length docs = length ?ps" by simp_all
  have get: "get_memory t k
      = (case find (\<lambda>p. me_id (note_row sha y root now g (ms_files s) p) = k) (rev ?ps) of
           Some p \<Rightarrow> Some (note_row sha y root now g (ms_files s) p) | None \<Rightarrow> get_memory (ms_catalog s) k)"
    unfolding t memory_store.get_fold_put [OF assms(2)] find_map_row by (simp split: option.splits)
  have "map_option health_row_ok (read_health g (put_health now g h hs)) = Some (\<exists>d. h = HealthyIndex d)" for hs
    by (cases h) (simp_all add: read_health_def put_health_def query_row_upsert_row health_row_ok_def split: option.splits)
  moreover have "n = length (filter (is_note (mr_root root)) (map fst (ms_files s)))"
    by (simp add: h n collect_markdown_def)
  ultimately show ?thesis using get by (simp add: s')
qed

definition sample_memory :: memory_state where
  "sample_memory = empty_memory\<lparr>ms_files := [([''g'', ''orchestrator'', ''memory'', ''a.md''], ''x''),
     ([''g'', ''orchestrator'', ''memory'', index_file], ''y'')]\<rparr>"

theorem reindex_catalog_exact_witness:
  "\<exists>s' h. reindex_root (\<lambda>_. [1, 2]) sample_yaml (\<lambda>d. HealthyIndex (length d)) (orchestrator_root [''g''] ''1'')
       ''t'' 1 sample_memory = (s', Inr (1, h))
     \<and> map_option me_rel_path (get_memory (ms_catalog s') ''mem_0102'') = Some ''a.md''"
proof -
  let ?root = "orchestrator_root [''g''] ''1''"
  let ?run = "reindex_root (\<lambda>_. [1, 2]) sample_yaml (\<lambda>d. HealthyIndex (length d)) ?root ''t'' 1 sample_memory"
  have "snd ?run = Inr (1, HealthyIndex 1)" by code_simp
  then have run: "?run = (fst ?run, Inr (1, HealthyIndex 1))" by (simp add: prod_eq_iff)
  have "primary_key me_id (ms_catalog sample_memory)"
    by (simp add: sample_memory_def empty_memory_def primary_key_def)
  note exact = reindex_catalog_exact [OF run this, of "''mem_0102''"]
  have "map_option me_rel_path (map_option (note_row (\<lambda>_. [1, 2]) sample_yaml ?root ''t'' 1 (ms_files sample_memory))
      (find (\<lambda>p. me_id (note_row (\<lambda>_. [1, 2]) sample_yaml ?root ''t'' 1 (ms_files sample_memory) p) = ''mem_0102'')
        (rev (collect_markdown (mr_root ?root) (ms_files sample_memory))))) = Some ''a.md''" by code_simp
  with exact run show ?thesis by (force split: option.splits)
qed

end
