(* ===== verification/Memory_Observe.thy ===== *)
theory Memory_Observe
  imports Memory_Catalog
begin

text \<open>
  The trust gate of observed and backfilled memory, \<open>observe.rs\<close> of \<open>crates/assistant-memory\<close>: provenance,
  the normal form that is scanned, the four refusals, the coercion of instructions into quoted evidence,
  the key against duplicates and the watermark. The lowercase form of a character and SHA-256 are
  parameters.
\<close>

section \<open>The scanned form\<close>

record provenance =
  pv_job :: string
  pv_version :: string
  pv_channel :: source_channel
  pv_chat :: "string option"
  pv_thread :: "string option"
  pv_message :: string
  pv_permalink :: "string option"
  pv_user :: "string option"
  pv_captured_at :: string

datatype observe_rejection =
  DisallowedSourceType source_type | MissingProvenance string | CredentialOrSecret
| ActionOrToolInstruction | ChannelSend | ApprovalRequest

record accepted_write =
  aw_front_matter :: front_matter
  aw_body :: string
  aw_dedupe_key :: string
  aw_coerced :: bool

text \<open>U+200B, U+200C, U+200D, U+FEFF and U+00AD.\<close>

definition zero_width :: "string list" where
  "zero_width = map (map char_of) [[226, 128, 139::nat], [226, 128, 140], [226, 128, 141], [239, 187, 191], [194, 173]]"

lemma zero_width_code [code]: "zero_width = [[CHR 0xE2, CHR 0x80, CHR 0x8B], [CHR 0xE2, CHR 0x80, CHR 0x8C],
    [CHR 0xE2, CHR 0x80, CHR 0x8D], [CHR 0xEF, CHR 0xBB, CHR 0xBF], [CHR 0xC2, CHR 0xAD]]"
  by (simp add: zero_width_def char_of_def bit_0)

fun scan_chars :: "(string \<Rightarrow> string) \<Rightarrow> string list \<Rightarrow> string \<Rightarrow> bool \<Rightarrow> string" where
  "scan_chars lower [] out pending = out"
| "scan_chars lower (c # cs) out pending =
     (if c \<in> set zero_width then scan_chars lower cs out pending
      else if c \<in> set white_space then scan_chars lower cs out (out \<noteq> [])
      else scan_chars lower cs (out @ (if pending then '' '' else []) @ lower c) False)"

definition normalize_for_scan :: "(string \<Rightarrow> string) \<Rightarrow> string \<Rightarrow> string" where
  "normalize_for_scan lower body = scan_chars lower (utf8_chars body) [] False"

definition contains_any :: "string \<Rightarrow> string list \<Rightarrow> bool" where
  "contains_any haystack needles \<longleftrightarrow> list_ex (contains_str haystack) needles"

definition credential_markers :: "string list" where
  "credential_markers =
     [''password'', ''api key'', ''api_key'', ''apikey'', ''secret key'', ''secret:'', ''client_secret'', ''access token'',
      ''bearer '', ''private key'', ''ssh-rsa'', ''aws_secret'', ''-----begin'']"

definition action_markers :: "string list" where
  "action_markers =
     [''rm -rf'', ''drop table'', ''delete from'', ''curl http'', ''wget http'', ''sudo '', ''run command'',
      ''run the command'', ''execute command'', ''execute the following'', ''system('', ''exec('']"

definition channel_send_markers :: "string list" where
  "channel_send_markers =
     [''send a message'', ''send an email'', ''send a dm'', ''post to #'', ''post to the channel'',
      ''reply to the channel'', ''notify the channel'', ''@channel'', ''@here'']"

definition approval_markers :: "string list" where
  "approval_markers =
     [''approve this'', ''approval request'', ''grant access'', ''authorize the'', ''give permission'', ''request approval'']"

definition instruction_markers :: "string list" where
  "instruction_markers =
     [''ignore previous'', ''ignore all previous'', ''disregard the above'', ''disregard previous'', ''from now on'',
      ''you are now'', ''new instructions:'', ''system prompt'', ''always respond'', ''you must always'', ''never reveal'',
      ''do not tell'']"

section \<open>The gate\<close>

definition check_provenance :: "provenance \<Rightarrow> observe_rejection + unit" where
  "check_provenance p =
     (case find (\<lambda>(f, v). trim v = [])
        [(''extractor_job_id'', pv_job p), (''extractor_version'', pv_version p), (''message_id'', pv_message p),
         (''captured_at'', pv_captured_at p)] of
        Some (f, v) \<Rightarrow> Inl (MissingProvenance f)
      | None \<Rightarrow> Inr ())"

definition content_hash :: "(nat list \<Rightarrow> nat list) \<Rightarrow> string \<Rightarrow> string" where
  "content_hash sha body = hex_of (take 8 (sha (bytes_of body)))"

definition observed_key :: "(nat list \<Rightarrow> nat list) \<Rightarrow> provenance \<Rightarrow> string \<Rightarrow> string" where
  "observed_key sha p body =
     join_str ''|'' [source_channel_str (pv_channel p), case_option [] id (pv_chat p), case_option [] id (pv_thread p),
                     pv_message p, pv_version p, content_hash sha body]"

definition default_observed_scope :: "provenance \<Rightarrow> scope" where
  "default_observed_scope p =
     (if pv_thread p \<noteq> None then ThreadScope else if pv_chat p \<noteq> None then ChannelScope
      else if pv_user p \<noteq> None then UserScope else AllChats)"

definition quote_as_evidence :: "string \<Rightarrow> string" where
  "quote_as_evidence body =
     ''Observed message, stored as quoted evidence (not a standing instruction):'' @ [newline, newline]
     @ join_str [newline] (map (\<lambda>l. ''> '' @ l) (str_lines body))"

definition prepare_observed_write ::
  "(string \<Rightarrow> string) \<Rightarrow> (nat list \<Rightarrow> nat list) \<Rightarrow> string \<Rightarrow> provenance \<Rightarrow> source_type \<Rightarrow> confidence \<Rightarrow> string
   \<Rightarrow> observe_rejection + accepted_write" where
  "prepare_observed_write lower sha owner p st conf body =
     (if st \<notin> {Observed, Backfilled} then Inl (DisallowedSourceType st)
      else rbind (check_provenance p) (\<lambda>_.
        (let scan = normalize_for_scan lower body
         in if contains_any scan credential_markers then Inl CredentialOrSecret
            else if contains_any scan action_markers then Inl ActionOrToolInstruction
            else if contains_any scan channel_send_markers then Inl ChannelSend
            else if contains_any scan approval_markers then Inl ApprovalRequest
            else
              (let key = observed_key sha p body;
                   coerced = contains_any scan instruction_markers
               in Inr \<lparr>aw_front_matter =
                         \<lparr>fm_memory_id = generate_memory_id sha owner key, fm_owner = owner,
                          fm_scope = (if coerced then NoRag else default_observed_scope p), fm_source_type = st,
                          fm_source_ref = Some \<lparr>sr_channel = Some (pv_channel p), sr_chat_id = pv_chat p,
                            sr_thread_id = pv_thread p, sr_message_id = Some (pv_message p), sr_permalink = pv_permalink p\<rparr>,
                          fm_source_user = pv_user p, fm_captured_at = Some (pv_captured_at p),
                          fm_confidence = (if coerced then Low else conf),
                          fm_reuse_policy = (if coerced then CiteOnly else SameScope), fm_retention = NormalRetention\<rparr>,
                       aw_body = (if coerced then quote_as_evidence body else body),
                       aw_dedupe_key = key, aw_coerced = coerced\<rparr>))))"

section \<open>The watermark\<close>

datatype ingest_outcome = Committed | DuplicateWrite | FailedWrite

definition is_new :: "string set \<Rightarrow> string \<Rightarrow> bool" where
  "is_new committed k \<longleftrightarrow> k \<notin> committed"

text \<open>\<open>store\<close> is the closure \<open>store_and_index\<close>: it changes the store and tells whether it succeeded.\<close>

definition ingest :: "accepted_write \<Rightarrow> ('s \<Rightarrow> 's \<times> bool) \<Rightarrow> string set \<times> 's \<Rightarrow> (string set \<times> 's) \<times> ingest_outcome" where
  "ingest w store = (\<lambda>(committed, s).
     if \<not> is_new committed (aw_dedupe_key w) then ((committed, s), DuplicateWrite)
     else (case store s of
             (s', True) \<Rightarrow> ((insert (aw_dedupe_key w) committed, s'), Committed)
           | (s', False) \<Rightarrow> ((committed, s'), FailedWrite)))"

fun ingest_all :: "(accepted_write \<times> ('s \<Rightarrow> 's \<times> bool)) list \<Rightarrow> string set \<times> 's \<Rightarrow> (string set \<times> 's) \<times> ingest_outcome list" where
  "ingest_all [] st = (st, [])"
| "ingest_all ((w, store) # ws) st =
     (let (st', out) = ingest w store st; (st'', outs) = ingest_all ws st' in (st'', out # outs))"

section \<open>What the scan sees\<close>

text \<open>The words of a text: its visible characters, parted at white space.\<close>

fun words_from :: "string list \<Rightarrow> string list \<Rightarrow> string list list" where
  "words_from [] w = (if w = [] then [] else [w])"
| "words_from (c # cs) w =
     (if c \<in> set zero_width then words_from cs w
      else if c \<in> set white_space then (if w = [] then words_from cs [] else w # words_from cs [])
      else words_from cs (w @ [c]))"

definition visible_words :: "string \<Rightarrow> string list list" where
  "visible_words body = words_from (utf8_chars body) []"

definition keeps_characters :: "(string \<Rightarrow> string) \<Rightarrow> bool" where
  "keeps_characters lower \<longleftrightarrow> (\<forall>c. lower c \<noteq> [])"

lemma join_str_append: "ws \<noteq> [] \<Longrightarrow> vs \<noteq> [] \<Longrightarrow> join_str s (ws @ vs) = join_str s ws @ s @ join_str s vs"
proof (induction s ws rule: join_str.induct)
  case (2 sep s)
  then show ?case by (cases vs) simp_all
qed simp_all

lemma scan_chars_words:
  assumes "keeps_characters lower"
  shows "(w = [] \<longrightarrow> pending = (ws \<noteq> [])) \<Longrightarrow> (w \<noteq> [] \<longrightarrow> \<not> pending) \<Longrightarrow> [] \<notin> set ws \<Longrightarrow>
    scan_chars lower cs (join_str '' '' (map (\<lambda>w. concat (map lower w)) (ws @ (if w = [] then [] else [w])))) pending
    = join_str '' '' (map (\<lambda>w. concat (map lower w)) (ws @ words_from cs w))"
proof (induction cs arbitrary: w ws pending)
  case Nil
  then show ?case by simp
next
  case (Cons c cs)
  let ?low = "\<lambda>w. concat (map lower w)"
  let ?out = "\<lambda>ws. join_str '' '' (map ?low ws)"
  have low: "?low w = [] \<longleftrightarrow> w = []" for w
    using assms by (cases w) (simp_all add: keeps_characters_def)
  have out: "?out ws = [] \<longleftrightarrow> ws = []" if "[] \<notin> set ws" for ws
  proof (cases ws)
    case (Cons v vs)
    with that have "?low v \<noteq> []" using low [of v] by (metis list.set_intros(1))
    with Cons show ?thesis by (cases vs) simp_all
  qed simp
  consider "c \<in> set zero_width" | "c \<notin> set zero_width" "c \<in> set white_space" | "c \<notin> set zero_width" "c \<notin> set white_space"
    by blast
  then show ?case
  proof cases
    case 1
    with Cons show ?thesis by simp
  next
    case 2
    have "(?out (ws @ (if w = [] then [] else [w])) \<noteq> []) = (ws @ (if w = [] then [] else [w]) \<noteq> [])"
      using out [of "ws @ (if w = [] then [] else [w])"] Cons.prems(3) by (cases "w = []") simp_all
    with 2 Cons.IH [of "[]" "ws @ (if w = [] then [] else [w]) \<noteq> []" "ws @ (if w = [] then [] else [w])"] Cons.prems
    show ?thesis by (auto split: if_splits)
  next
    case 3
    have "?out (ws @ (if w = [] then [] else [w])) @ (if pending then '' '' else []) @ lower c = ?out (ws @ [w @ [c]])"
    proof (cases "w = []")
      case True
      with Cons.prems show ?thesis by (cases "ws = []") (simp_all add: join_str_append)
    next
      case False
      with Cons.prems show ?thesis by (cases "ws = []") (simp_all add: join_str_append)
    qed
    with 3 Cons.IH [of "w @ [c]" False ws] Cons.prems show ?thesis by simp
  qed
qed

lemma scan_is_words:
  "keeps_characters lower \<Longrightarrow>
     normalize_for_scan lower body = join_str '' '' (map (\<lambda>w. concat (map lower w)) (visible_words body))"
  using scan_chars_words [of lower "[]" False "[]" "utf8_chars body"]
  by (simp add: normalize_for_scan_def visible_words_def)

text \<open>
  C22: the gate reads words, not bytes: invisible characters and the kind and number of blanks between
  the words change neither a refusal nor the coercion. The scanned form is the lowercase words with one
  blank between them, so no phrase of the lists can be hidden by spacing.
\<close>

theorem observe_gate_reads_words:
  assumes "keeps_characters lower" and "visible_words body = visible_words body'"
  shows "normalize_for_scan lower body = join_str '' '' (map (\<lambda>w. concat (map lower w)) (visible_words body))
    \<and> map_sum id aw_coerced (prepare_observed_write lower sha owner p st conf body)
      = map_sum id aw_coerced (prepare_observed_write lower sha owner p st conf body')"
proof -
  have "normalize_for_scan lower body = normalize_for_scan lower body'"
    using assms by (simp add: scan_is_words)
  then have "map_sum id aw_coerced (prepare_observed_write lower sha owner p st conf body)
      = map_sum id aw_coerced (prepare_observed_write lower sha owner p st conf body')"
    by (cases "check_provenance p") (simp_all add: prepare_observed_write_def Let_def)
  with scan_is_words [OF assms(1)] show ?thesis by blast
qed

definition sample_provenance :: provenance where
  "sample_provenance = \<lparr>pv_job = ''j'', pv_version = ''1'', pv_channel = SlackSource, pv_chat = Some ''C1'',
     pv_thread = None, pv_message = ''m'', pv_permalink = None, pv_user = None, pv_captured_at = ''t''\<rparr>"

theorem observe_gate_reads_words_witness:
  "map_sum id aw_coerced (prepare_observed_write (\<lambda>c. if c = [] then '' '' else c) (\<lambda>_. []) ''1'' sample_provenance Observed Low
      (''from'' @ map char_of [226, 128, 139::nat] @ [newline, CHR '' ''] @ ''now on''))
   = map_sum id aw_coerced (prepare_observed_write (\<lambda>c. if c = [] then '' '' else c) (\<lambda>_. []) ''1'' sample_provenance Observed Low
      ''from now on'')"
proof -
  have "visible_words (''from'' @ map char_of [226, 128, 139::nat] @ [newline, CHR '' ''] @ ''now on'')
      = visible_words ''from now on''" by code_simp
  moreover have "keeps_characters (\<lambda>c. if c = [] then '' '' else c)" by (simp add: keeps_characters_def)
  ultimately show ?thesis by (rule observe_gate_reads_words [THEN conjunct2, rotated])
qed

section \<open>What an accepted note can become\<close>

definition forbidden_markers :: "string list" where
  "forbidden_markers = credential_markers @ action_markers @ channel_send_markers @ approval_markers"

lemma prepare_observed_Inr:
  "prepare_observed_write lower sha owner p st conf body = Inr w \<Longrightarrow>
     st \<in> {Observed, Backfilled} \<and> check_provenance p = Inr ()
     \<and> (\<forall>m\<in>set forbidden_markers. \<not> contains_str (normalize_for_scan lower body) m)
     \<and> aw_coerced w = contains_any (normalize_for_scan lower body) instruction_markers
     \<and> aw_body w = (if aw_coerced w then quote_as_evidence body else body)
     \<and> aw_dedupe_key w = observed_key sha p body
     \<and> aw_front_matter w =
         \<lparr>fm_memory_id = generate_memory_id sha owner (aw_dedupe_key w), fm_owner = owner,
          fm_scope = (if aw_coerced w then NoRag else default_observed_scope p), fm_source_type = st,
          fm_source_ref = Some \<lparr>sr_channel = Some (pv_channel p), sr_chat_id = pv_chat p,
            sr_thread_id = pv_thread p, sr_message_id = Some (pv_message p), sr_permalink = pv_permalink p\<rparr>,
          fm_source_user = pv_user p, fm_captured_at = Some (pv_captured_at p),
          fm_confidence = (if aw_coerced w then Low else conf),
          fm_reuse_policy = (if aw_coerced w then CiteOnly else SameScope), fm_retention = NormalRetention\<rparr>"
  by (cases "check_provenance p")
    (auto simp: prepare_observed_write_def Let_def forbidden_markers_def contains_any_def list_ex_iff split: if_splits)

text \<open>
  C21: an observed note can inform, never command. What the gate accepts is observed or backfilled, carries
  its provenance and holds no phrase of the four forbidden lists. A note shaped as an instruction is stored
  quoted and once in the catalog is injected into no turn, whoever asks; any other note is shown only where
  it was observed: a turn that sees it and carries no chat sees only notes that had no chat and no thread.
\<close>

theorem observed_note_never_commands:
  assumes "prepare_observed_write lower sha owner p st conf body = Inr w"
    and "row_to_entry (memory_row_of now g rel (aw_front_matter w)) = Inr e"
  shows "st \<in> {Observed, Backfilled}
    \<and> (\<forall>m\<in>set forbidden_markers. \<not> contains_str (normalize_for_scan lower body) m)
    \<and> (is_eligible e ctx \<longrightarrow> \<not> contains_any (normalize_for_scan lower body) instruction_markers
         \<and> (pv_thread p \<noteq> None \<longrightarrow> rc_thread_id ctx = pv_thread p)
         \<and> (pv_thread p \<noteq> None \<or> pv_chat p \<noteq> None \<longrightarrow> rc_channel ctx = Some (pv_channel p) \<and> rc_chat_id ctx = pv_chat p))
    \<and> (contains_any (normalize_for_scan lower body) instruction_markers \<longrightarrow> aw_body w = quote_as_evidence body)"
proof -
  note w = prepare_observed_Inr [OF assms(1)]
  have e: "ce_scope e = fm_scope (aw_front_matter w)" "ce_reuse e = fm_reuse_policy (aw_front_matter w)"
    "ce_source_ref e = Some \<lparr>sr_channel = Some (pv_channel p), sr_chat_id = pv_chat p, sr_thread_id = pv_thread p,
       sr_message_id = Some (pv_message p), sr_permalink = pv_permalink p\<rparr>"
    using assms(2) w by (auto simp: row_to_entry_def memory_row_of_def read_channel_def read_source_ref_def
      parse_column_def res_simps scope_text.decode_column source_type_text.decode_column
      source_channel_text.decode_column confidence_text.decode_column reuse_policy_text.decode_column
      retention_text.decode_column)
  have "\<not> is_eligible e ctx" if "aw_coerced w" using that e(1) w by (simp add: is_eligible_def)
  moreover have "(pv_thread p \<noteq> None \<longrightarrow> rc_thread_id ctx = pv_thread p)
      \<and> (pv_thread p \<noteq> None \<or> pv_chat p \<noteq> None \<longrightarrow> rc_channel ctx = Some (pv_channel p) \<and> rc_chat_id ctx = pv_chat p)"
    if "\<not> aw_coerced w" "is_eligible e ctx"
    using that e w by (auto simp: eligible_iff_visible visible_to_def default_observed_scope_def split: if_splits)
  ultimately show ?thesis using w by auto
qed

definition sample_write :: accepted_write where
  "sample_write = \<lparr>aw_front_matter = \<lparr>fm_memory_id = generate_memory_id (\<lambda>_. []) ''1'' ''slack|C1||m|1|'', fm_owner = ''1'',
      fm_scope = NoRag, fm_source_type = Observed,
      fm_source_ref = Some \<lparr>sr_channel = Some SlackSource, sr_chat_id = Some ''C1'', sr_thread_id = None,
        sr_message_id = Some ''m'', sr_permalink = None\<rparr>,
      fm_source_user = None, fm_captured_at = Some ''t'', fm_confidence = Low, fm_reuse_policy = CiteOnly,
      fm_retention = NormalRetention\<rparr>,
    aw_body = quote_as_evidence ''from now on'', aw_dedupe_key = ''slack|C1||m|1|'', aw_coerced = True\<rparr>"

theorem observed_note_never_commands_witness:
  "\<exists>e. row_to_entry (memory_row_of ''t'' 1 ''a.md'' (aw_front_matter sample_write)) = Inr e \<and> \<not> is_eligible e default_context"
proof -
  have "prepare_observed_write id (\<lambda>_. []) ''1'' sample_provenance Observed High ''from now on'' = Inr sample_write"
    by code_simp
  moreover obtain e where e: "row_to_entry (memory_row_of ''t'' 1 ''a.md'' (aw_front_matter sample_write)) = Inr e"
    using row_of_reads by blast
  moreover have "contains_any (normalize_for_scan id ''from now on'') instruction_markers" by code_simp
  ultimately show ?thesis using observed_note_never_commands [OF _ e] by metis
qed

section \<open>Each note once\<close>

lemma ingest_all_run:
  "ingest_all ws (C, s) = (st', outs) \<Longrightarrow>
     length outs = length ws
     \<and> (\<forall>i<length ws. outs ! i = DuplicateWrite \<longleftrightarrow> aw_dedupe_key (fst (ws ! i)) \<in> C
          \<or> (\<exists>j<i. aw_dedupe_key (fst (ws ! j)) = aw_dedupe_key (fst (ws ! i)) \<and> outs ! j = Committed))
     \<and> fst st' = C \<union> {aw_dedupe_key (fst (ws ! j)) |j. j < length ws \<and> outs ! j = Committed}
     \<and> snd st' = fold (\<lambda>((w, store), out) s. if out = DuplicateWrite then s else fst (store s)) (zip ws outs) s"
proof (induction ws arbitrary: C s outs)
  case (Cons x ws)
  obtain w store where x: "x = (w, store)" by (cases x)
  let ?k = "aw_dedupe_key w"
  obtain C' s' out where one: "ingest w store (C, s) = ((C', s'), out)" by (metis surj_pair)
  then obtain outs' where rest: "ingest_all ws (C', s') = (st', outs')" "outs = out # outs'"
    using Cons.prems x by (auto simp: Let_def split: prod.splits)
  from one have step: "out = DuplicateWrite \<longleftrightarrow> ?k \<in> C" "C' = (if out = Committed then insert ?k C else C)"
    "s' = (if out = DuplicateWrite then s else fst (store s))"
    by (auto simp: ingest_def is_new_def split: if_splits prod.splits bool.splits)
  note IH = Cons.IH [OF rest(1)]
  have "(\<forall>i<length (x # ws). outs ! i = DuplicateWrite \<longleftrightarrow> aw_dedupe_key (fst ((x # ws) ! i)) \<in> C
      \<or> (\<exists>j<i. aw_dedupe_key (fst ((x # ws) ! j)) = aw_dedupe_key (fst ((x # ws) ! i)) \<and> outs ! j = Committed))"
    using IH step x by (auto simp: rest(2) All_less_Suc2 Ex_less_Suc2)
  moreover have "{aw_dedupe_key (fst ((x # ws) ! j)) |j. j < length (x # ws) \<and> outs ! j = Committed}
      = (if out = Committed then {?k} else {}) \<union> {aw_dedupe_key (fst (ws ! j)) |j. j < length ws \<and> outs' ! j = Committed}"
  proof (intro set_eqI iffI; elim UnE CollectE exE conjE)
    fix y j assume "y = aw_dedupe_key (fst ((x # ws) ! j))" "j < length (x # ws)" "outs ! j = Committed"
    then show "y \<in> (if out = Committed then {?k} else {})
        \<union> {aw_dedupe_key (fst (ws ! j)) |j. j < length ws \<and> outs' ! j = Committed}"
      using x rest(2) by (cases j) auto
  next
    fix y assume "y \<in> (if out = Committed then {?k} else {})"
    then show "y \<in> {aw_dedupe_key (fst ((x # ws) ! j)) |j. j < length (x # ws) \<and> outs ! j = Committed}"
      using x rest(2) by (auto split: if_splits intro!: exI [of _ 0])
  next
    fix y j assume "y = aw_dedupe_key (fst (ws ! j))" "j < length ws" "outs' ! j = Committed"
    then show "y \<in> {aw_dedupe_key (fst ((x # ws) ! j)) |j. j < length (x # ws) \<and> outs ! j = Committed}"
      using rest(2) by (auto intro!: exI [of _ "Suc j"])
  qed
  ultimately show ?case using IH step x rest(2) by auto
qed auto

text \<open>
  a note is stored once. Over any sequence of writes a write is a duplicate exactly when its key was
  committed before; the store runs for every other write, in order, and for no duplicate; and the watermark
  moves only by writes that were stored, so that a write that failed is tried again when it comes again.
\<close>

theorem note_stored_once:
  assumes "ingest_all ws (C, s) = ((C', s'), outs)" and "i < length ws"
  shows "(outs ! i = DuplicateWrite \<longleftrightarrow> aw_dedupe_key (fst (ws ! i)) \<in> C
          \<or> (\<exists>j<i. aw_dedupe_key (fst (ws ! j)) = aw_dedupe_key (fst (ws ! i)) \<and> outs ! j = Committed))
    \<and> C' = C \<union> {aw_dedupe_key (fst (ws ! j)) |j. j < length ws \<and> outs ! j = Committed}
    \<and> s' = fold (\<lambda>((w, store), out) s. if out = DuplicateWrite then s else fst (store s)) (zip ws outs) s"
  using ingest_all_run [OF assms(1)] assms(2) by simp

theorem note_stored_once_witness:
  "snd (ingest_all [(sample_write, \<lambda>n. (n, False)), (sample_write, \<lambda>n. (Suc n, True)), (sample_write, \<lambda>n. (Suc n, True))]
      ({}, 0)) ! 2 = DuplicateWrite"
proof -
  let ?ws = "[(sample_write, \<lambda>n. (n, False)), (sample_write, \<lambda>n. (Suc n, True)), (sample_write, \<lambda>n. (Suc n, True))]"
  obtain C' s' outs where run: "ingest_all ?ws ({}, 0) = ((C', s'), outs)" by (metis surj_pair)
  then have "outs ! 1 = Committed"
    by (simp add: ingest_def is_new_def) (auto simp: Let_def)
  with note_stored_once [OF run, of 2] run show ?thesis by (force intro: exI [of _ "1::nat"])
qed

end
