(* ===== verification/Serve_Schedule.thy ===== *)
theory Serve_Schedule
  imports Schedule_Repair Serve_Gate
begin

text \<open>
  The schedule actions of a turn, \<open>create_schedule\<close>, \<open>cancel_schedule\<close>, \<open>pause_schedule\<close> and
  \<open>resume_schedule\<close> of \<open>crates/assistant-host/src/slack.rs\<close>: the timing of a payload, the write to the
  session that is the source of truth, then the central index. The JSON of a payload is read by a
  parameter; the error texts are the values they render.
\<close>

section \<open>Timing\<close>

datatype calendar_recurrence =
  CalDaily string string | CalWeekly "string list" string string | CalMonthly nat string string

record schedule_payload =
  pl_text :: string
  pl_after :: "int option"
  pl_every :: "int option"
  pl_calendar :: "calendar_recurrence option"

datatype timing_error =
  NotHhMm string | BadHour string | BadMinute string | TimeOutOfRange string | UnknownWeekday string
| BadRecurrence recurrence_defect | NoFirstOccurrence

definition parse_hhmm :: "string \<Rightarrow> timing_error + nat" where
  "parse_hhmm t =
     (case split_once (CHR '':'') t of
        None \<Rightarrow> Inl (NotHhMm t)
      | Some (h, m) \<Rightarrow>
          rbind (ok_or (BadHour t) (parse_unsigned (2 ^ 32) h)) (\<lambda>h.
          rbind (ok_or (BadMinute t) (parse_unsigned (2 ^ 32) m)) (\<lambda>m.
            if 23 < h \<or> 59 < m then Inl (TimeOutOfRange t) else Inr (h * 60 + m))))"

definition parse_weekday :: "string \<Rightarrow> timing_error + weekday" where
  "parse_weekday day =
     (let d = to_ascii_lowercase day
      in if d = ''mon'' \<or> d = ''monday'' then Inr Mon
         else if d = ''tue'' \<or> d = ''tuesday'' then Inr Tue
         else if d = ''wed'' \<or> d = ''wednesday'' then Inr Wed
         else if d = ''thu'' \<or> d = ''thursday'' then Inr Thu
         else if d = ''fri'' \<or> d = ''friday'' then Inr Fri
         else if d = ''sat'' \<or> d = ''saturday'' then Inr Sat
         else if d = ''sun'' \<or> d = ''sunday'' then Inr Sun
         else Inl (UnknownWeekday d))"

definition parse_weekdays :: "string list \<Rightarrow> timing_error + weekday list" where
  "parse_weekdays days = collect_results (map parse_weekday days)"

fun calendar_to_recurrence :: "calendar_recurrence \<Rightarrow> timing_error + recurrence" where
  "calendar_to_recurrence (CalDaily t tz) = rbind (parse_hhmm t) (\<lambda>m. Inr (Daily m tz))"
| "calendar_to_recurrence (CalWeekly days t tz) =
     rbind (parse_weekdays days) (\<lambda>ds. rbind (parse_hhmm t) (\<lambda>m. Inr (Weekly ds m tz)))"
| "calendar_to_recurrence (CalMonthly day t tz) = rbind (parse_hhmm t) (\<lambda>m. Inr (Monthly day m tz))"

definition resolve_timing ::
  "('tz, 'd, 't, 'n) chrono \<Rightarrow> schedule_payload \<Rightarrow> int \<Rightarrow> (timing_error + int \<times> recurrence option) outcome" where
  "resolve_timing c p now =
     (case pl_calendar p of
        Some cal \<Rightarrow>
          (case rbind (calendar_to_recurrence cal) (\<lambda>r. rbind (map_err BadRecurrence (validate c r)) (\<lambda>_. Inr r)) of
             Inl e \<Rightarrow> Returns (Inl e)
           | Inr r \<Rightarrow>
               (case first_on_or_after c r now of
                  Panic \<Rightarrow> Panic
                | Returns None \<Rightarrow> Returns (Inl NoFirstOccurrence)
                | Returns (Some t) \<Rightarrow> Returns (Inr (t, Some r))))
      | None \<Rightarrow>
          Returns (Inr (i64_add now (case pl_after p of None \<Rightarrow> 0 | Some n \<Rightarrow> n), map_option Every (pl_every p))))"

section \<open>The actions\<close>

datatype action_error =
  BadActionPayload string | BadTiming timing_error | RefusedSchedule schedule_error | BadSession session_error
| SourceFailed source_error | CentralFailed projection_error

record ('tz, 'd, 't, 'n) sched_env =
  sv_session :: session_env
  sv_codec :: sched_codec
  sv_chrono :: "('tz, 'd, 't, 'n) chrono"
  sv_schedule :: "string \<Rightarrow> schedule_payload option"
  sv_item_ref :: "string \<Rightarrow> string option"
  sv_sessions_dir :: path
  sv_group :: string

definition session_layout :: "('tz, 'd, 't, 'n) sched_env \<Rightarrow> string \<Rightarrow> action_error + path" where
  "session_layout v sid = map_err BadSession (derive_layout (sv_sessions_dir v) (sv_group v) sid)"

text \<open>The session \<open>s\<close> is the one of \<open>sid\<close>; \<open>stamp\<close> is the time SQLite writes.\<close>

definition create_schedule ::
  "('tz, 'd, 't, 'n) sched_env \<Rightarrow> int \<Rightarrow> string \<Rightarrow> string \<Rightarrow> string \<Rightarrow> string option \<Rightarrow> session \<times> sched_db
   \<Rightarrow> ((session \<times> sched_db) \<times> (action_error + unit)) outcome" where
  "create_schedule v now stamp sid payload agent = (\<lambda>(s, db).
     case sv_schedule v payload of
       None \<Rightarrow> Returns ((s, db), Inl (BadActionPayload ''schedule_message''))
     | Some p \<Rightarrow>
         (case resolve_timing (sv_chrono v) p now of
            Panic \<Rightarrow> Panic
          | Returns (Inl e) \<Rightarrow> Returns ((s, db), Inl (BadTiming e))
          | Returns (Inr (after, rec)) \<Rightarrow>
              (case create_meta (env_sha (sv_session v)) (sv_chrono v) host_agent_group
                      \<lparr>created_by = ''agent'', summary = pl_text p, created_at = now\<rparr> after rec default_context_policy of
                 Inl e \<Rightarrow> Returns ((s, db), Inl (RefusedSchedule e))
               | Inr m0 \<Rightarrow>
                   (let m = m0\<lparr>run_as := agent\<rparr>
                    in case session_layout v sid of
                         Inl e \<Rightarrow> Returns ((s, db), Inl e)
                       | Inr _ \<Rightarrow>
                           (case write_meta (sv_session v) (sv_codec v) stamp m s of
                              (s', Inl e) \<Rightarrow> Returns ((s', db), Inl (SourceFailed e))
                            | (s', Inr _) \<Rightarrow>
                                (case upsert_item (sv_codec v) m (Some sid) db of
                                   (db', r) \<Rightarrow> Returns ((s', db'), map_err CentralFailed r)))))))"

definition transition_source ::
  "('tz, 'd, 't, 'n) sched_env \<Rightarrow> string \<Rightarrow> string \<Rightarrow> string \<Rightarrow> lifecycle_transition \<Rightarrow> session
   \<Rightarrow> session \<times> (action_error + unit)" where
  "transition_source v stamp sid i t s =
     (case session_layout v sid of
        Inl e \<Rightarrow> (s, Inl e)
      | Inr _ \<Rightarrow>
          (case latest_meta (sv_session v) (sv_codec v) i s of
             (s1, Inl e) \<Rightarrow> (s1, Inl (SourceFailed e))
           | (s1, Inr None) \<Rightarrow> (s1, Inr ())
           | (s1, Inr (Some m)) \<Rightarrow>
               (case transition_meta t m of
                  Inl _ \<Rightarrow> (s1, Inr ())
                | Inr m' \<Rightarrow>
                    (case write_meta (sv_session v) (sv_codec v) stamp m' s1 of
                       (s2, r) \<Rightarrow> (s2, map_err SourceFailed r)))))"

definition parse_item_ref :: "('tz, 'd, 't, 'n) sched_env \<Rightarrow> string \<Rightarrow> string \<Rightarrow> action_error + string" where
  "parse_item_ref v kind payload = ok_or (BadActionPayload kind) (sv_item_ref v payload)"

definition cancel_schedule ::
  "('tz, 'd, 't, 'n) sched_env \<Rightarrow> string \<Rightarrow> string \<Rightarrow> string \<Rightarrow> session \<times> sched_db
   \<Rightarrow> (session \<times> sched_db) \<times> (action_error + unit)" where
  "cancel_schedule v stamp sid payload = (\<lambda>(s, db).
     case parse_item_ref v ''cancel_schedule'' payload of
       Inl e \<Rightarrow> ((s, db), Inl e)
     | Inr i \<Rightarrow>
         (case transition_source v stamp sid i Cancel s of
            (s', Inl e) \<Rightarrow> ((s', db), Inl e)
          | (s', Inr _) \<Rightarrow> ((s', cancel_item i db), Inr ())))"

definition pause_schedule ::
  "('tz, 'd, 't, 'n) sched_env \<Rightarrow> string \<Rightarrow> string \<Rightarrow> string \<Rightarrow> session \<times> sched_db
   \<Rightarrow> (session \<times> sched_db) \<times> (action_error + unit)" where
  "pause_schedule v stamp sid payload = (\<lambda>(s, db).
     case parse_item_ref v ''pause_schedule'' payload of
       Inl e \<Rightarrow> ((s, db), Inl e)
     | Inr i \<Rightarrow>
         (case transition_source v stamp sid i Pause s of
            (s', Inl e) \<Rightarrow> ((s', db), Inl e)
          | (s', Inr _) \<Rightarrow> ((s', pause_item i db), Inr ())))"

definition resume_schedule ::
  "('tz, 'd, 't, 'n) sched_env \<Rightarrow> string \<Rightarrow> string \<Rightarrow> string \<Rightarrow> session \<times> sched_db
   \<Rightarrow> (session \<times> sched_db) \<times> (action_error + unit)" where
  "resume_schedule v stamp sid payload = (\<lambda>(s, db).
     case parse_item_ref v ''resume_schedule'' payload of
       Inl e \<Rightarrow> ((s, db), Inl e)
     | Inr i \<Rightarrow>
         (case transition_source v stamp sid i Resume s of
            (s', Inl e) \<Rightarrow> ((s', db), Inl e)
          | (s', Inr _) \<Rightarrow> ((s', resume_item i db), Inr ())))"

section \<open>Source and projection in step\<close>

lemma latest_meta_found:
  assumes "additive_env env" and "latest_meta env j i s = (s', Inr (Some m))"
  shows "inbound_ready env s'" and "seq_of_key (meta_idempotency_key i) (in_rows s') \<noteq> None"
proof -
  let ?f = "\<lambda>t. (t, metadata_of_key (meta_idempotency_key i) t)"
  let ?op = "\<lambda>s. case with_inbound env ?f s of (s', r) \<Rightarrow> (s', map_sum SourceSession id r)"
  from assms(2) obtain js where "with_retry 4 ?op s = (s', Inr (Some js))"
    by (auto simp: latest_meta_def split: prod.splits sum.splits option.splits)
  from with_retry_Inr [OF this] obtain s0 where "?op s0 = (s', Inr (Some js))" ..
  then have w: "with_inbound env ?f s0 = (s', Inr (Some js))"
    by (cases "with_inbound env ?f s0"; cases "snd (with_inbound env ?f s0)") simp_all
  then show "inbound_ready env s'" by (rule with_inbound_Inr_ready)
  from w have "metadata_of_key (meta_idempotency_key i) (in_rows s') = Inr (Some js)"
    by (cases rule: with_inbound_cases [OF assms(1)]) auto
  then show "seq_of_key (meta_idempotency_key i) (in_rows s') \<noteq> None"
    by (auto simp: metadata_of_key_def seq_of_key_def split: option.splits)
qed

lemma write_meta_over:
  assumes "inbound_ready env s" and "seq_of_key (meta_idempotency_key (scheduled_item_id m)) (in_rows s) \<noteq> None"
    and "meta_serialises j m"
  obtains s' where "write_meta env j now m s = (s', Inr ())"
proof -
  obtain js where js: "meta_to_json j m = Some js"
    using assms(3) by (auto simp: meta_serialises_def split: option.splits)
  let ?key = "meta_idempotency_key (scheduled_item_id m)"
  let ?msg = "\<lparr>msg_sender = schedule_meta_sender, msg_content = summary (intent m), msg_metadata = Some js, msg_thread = None\<rparr>"
  obtain t q where "upsert_rows now ?key ?msg (in_rows s) = (t, Inr q)"
    using assms(2) by (auto simp: upsert_rows_def)
  then have "\<exists>s'. with_inbound env (upsert_rows now ?key ?msg) s = (s', Inr q)"
    by (cases rule: open_inbound_ready [OF assms(1)]) (auto simp: with_inbound_def)
  then obtain s' where "upsert_inbound_meta env now ?key ?msg s = (s', Inr q)"
    by (auto simp: upsert_inbound_meta_def)
  then have "write_meta env j now m s = (s', Inr ())"
    unfolding write_meta_def js by (simp, subst with_retry_first) auto
  then show thesis by (rule that)
qed

text \<open>The source of item \<open>m\<close> in session \<open>sid\<close> and its row in the central index agree.\<close>

definition in_step :: "('tz, 'd, 't, 'n) sched_env \<Rightarrow> string \<Rightarrow> scheduled_meta \<Rightarrow> session \<times> sched_db \<Rightarrow> bool" where
  "in_step v sid m st \<longleftrightarrow>
     latest_meta (sv_session v) (sv_codec v) (scheduled_item_id m) (fst st) = (fst st, Inr (Some m))
     \<and> (\<exists>row. project_meta (sv_codec v) m (Some sid) = Inr row
          \<and> get_item (items (snd st)) (scheduled_item_id m) = Some row)"

definition moved :: "lifecycle_transition \<Rightarrow> scheduled_meta \<Rightarrow> scheduled_meta" where
  "moved t m = (case apply_transition (status m) t of Inr q \<Rightarrow> m\<lparr>status := q\<rparr> | Inl _ \<Rightarrow> m)"

fun central_move :: "lifecycle_transition \<Rightarrow> string \<Rightarrow> sched_db \<Rightarrow> sched_db" where
  "central_move Cancel = cancel_item"
| "central_move Pause = pause_item"
| "central_move Resume = resume_item"
| "central_move Complete = complete_item"

lemma moved_sel [simp]: "scheduled_item_id (moved t m) = scheduled_item_id m"
  by (simp add: moved_def split: sum.splits)

lemma project_meta_status:
  "project_meta j m sid = Inr row \<Longrightarrow>
     project_meta j (m\<lparr>status := q\<rparr>) sid = Inr (row\<lparr>ir_status := schedule_status_str q\<rparr>)"
  by (auto simp: project_meta_def split: sum.splits)

lemma project_meta_row: "project_meta j m sid = Inr row \<Longrightarrow> ir_status row = schedule_status_str (status m)
    \<and> ir_id row = scheduled_item_id m"
  by (auto simp: project_meta_def split: sum.splits)

lemma central_move_projects:
  assumes "t \<noteq> Complete \<or> status m = Active" and "project_meta j m sid = Inr row"
    and "get_item (items db) (scheduled_item_id m) = Some row"
  shows "\<exists>row'. project_meta j (moved t m) sid = Inr row'
      \<and> get_item (items (central_move t (scheduled_item_id m) db)) (scheduled_item_id m) = Some row'
      \<and> (\<forall>k. k \<noteq> scheduled_item_id m \<longrightarrow>
           get_item (items (central_move t (scheduled_item_id m) db)) k = get_item (items db) k)"
proof -
  have get: "get_item (items (set_item_status from_states to (scheduled_item_id m) db)) k
      = (if k = scheduled_item_id m
         then Some (if ir_status row \<in> set from_states then row\<lparr>ir_status := to\<rparr> else row)
         else get_item (items db) k)" for from_states to k
    using get_item_update_where [where Q = "\<lambda>r. ir_status r \<in> set from_states" and i = "scheduled_item_id m"
        and t = "items db" and k = k and f = "\<lambda>r. r\<lparr>ir_status := to\<rparr>"] assms(3)
    by (simp add: set_item_status_def)
  from assms(1) project_meta_row [OF assms(2)] project_meta_status [OF assms(2)] assms(2) show ?thesis
    by (cases t; cases "status m")
      (simp_all add: cancel_item_def pause_item_def resume_item_def complete_item_def get moved_def)
qed

text \<open>What the three lifecycle actions have in common.\<close>

lemma lifecycle_in_step:
  assumes "additive_env (sv_session v)" and "in_step v sid m (s, db)" and "is_ok (session_layout v sid)"
    and "meta_serialises (sv_codec v) (moved t m)" and "t \<noteq> Complete"
  shows "\<exists>s'. transition_source v stamp sid (scheduled_item_id m) t s = (s', Inr ())
    \<and> in_step v sid (moved t m) (s', central_move t (scheduled_item_id m) db)"
proof -
  let ?i = "scheduled_item_id m"
  from assms(2) obtain row where src: "latest_meta (sv_session v) (sv_codec v) ?i s = (s, Inr (Some m))"
    and row: "project_meta (sv_codec v) m (Some sid) = Inr row" "get_item (items db) ?i = Some row"
    by (auto simp: in_step_def)
  from central_move_projects [OF _ row] assms(5) obtain row' where
    row': "project_meta (sv_codec v) (moved t m) (Some sid) = Inr row'"
      "get_item (items (central_move t ?i db)) ?i = Some row'" by blast
  obtain x where lay: "session_layout v sid = Inr x" using assms(3) by (auto simp: is_ok_iff)
  show ?thesis
  proof (cases "apply_transition (status m) t")
    case (Inl e)
    then have "moved t m = m" by (simp add: moved_def)
    with Inl src row' lay show ?thesis
      by (simp add: transition_source_def transition_meta_def in_step_def)
  next
    case (Inr q)
    then have m': "moved t m = m\<lparr>status := q\<rparr>" by (simp add: moved_def)
    obtain s' where w: "write_meta (sv_session v) (sv_codec v) stamp (moved t m) s = (s', Inr ())"
      using write_meta_over [of "sv_session v" s "moved t m" "sv_codec v" stamp] latest_meta_found [OF assms(1) src] assms(4)
      by auto
    from latest_meta_after_write [OF assms(1,4) w]
    have "latest_meta (sv_session v) (sv_codec v) ?i s' = (s', Inr (Some (moved t m)))" by simp
    with Inr src row' lay w m' show ?thesis
      by (simp add: transition_source_def transition_meta_def in_step_def)
  qed
qed

text \<open>
  C12: an agent's cancel, pause or resume moves the source of truth and the central index together: from an
  item on which they agree each action succeeds, both show the status the state machine gives, a move it
  does not allow changes nothing, and the rows of other items stay.
\<close>

theorem lifecycle_actions_keep_step:
  assumes "additive_env (sv_session v)" and "in_step v sid m (s, db)" and "is_ok (session_layout v sid)"
    and "sv_item_ref v payload = Some (scheduled_item_id m)" and "\<forall>t. meta_serialises (sv_codec v) (moved t m)"
    and "(act, t) \<in> {(cancel_schedule, Cancel), (pause_schedule, Pause), (resume_schedule, Resume)}"
  shows "\<exists>st'. act v stamp sid payload (s, db) = (st', Inr ()) \<and> in_step v sid (moved t m) st'
    \<and> (\<forall>k. k \<noteq> scheduled_item_id m \<longrightarrow> get_item (items (snd st')) k = get_item (items db) k)"
proof -
  have "t \<noteq> Complete" using assms(6) by auto
  from lifecycle_in_step [OF assms(1-3) spec [OF assms(5), of t] this, of stamp] obtain s' where
    s': "transition_source v stamp sid (scheduled_item_id m) t s = (s', Inr ())"
      "in_step v sid (moved t m) (s', central_move t (scheduled_item_id m) db)" by blast
  obtain row where "project_meta (sv_codec v) m (Some sid) = Inr row" "get_item (items db) (scheduled_item_id m) = Some row"
    using assms(2) by (auto simp: in_step_def)
  from central_move_projects [OF _ this, of t] \<open>t \<noteq> Complete\<close>
  have others: "\<forall>k. k \<noteq> scheduled_item_id m \<longrightarrow>
      get_item (items (central_move t (scheduled_item_id m) db)) k = get_item (items db) k" by blast
  have "act v stamp sid payload (s, db) = ((s', central_move t (scheduled_item_id m) db), Inr ())"
    using assms(4,6) s'(1)
    by (auto simp: cancel_schedule_def pause_schedule_def resume_schedule_def parse_item_ref_def)
  with s'(2) others show ?thesis by auto
qed

definition status_codec :: sched_codec where
  "status_codec = sample_codec\<lparr>meta_to_json := (\<lambda>m. Some (schedule_status_str (status m))),
     meta_from_json := (\<lambda>s. map_option (\<lambda>q. sample_meta\<lparr>status := q\<rparr>) (parse_schedule_status s))\<rparr>"

definition sample_sched_env :: "(unit, int, nat, int) sched_env" where
  "sample_sched_env = \<lparr>sv_session = plain_env, sv_codec = status_codec, sv_chrono = utc_chrono,
     sv_schedule = (\<lambda>_. Some \<lparr>pl_text = ''tea'', pl_after = Some 60, pl_every = None, pl_calendar = None\<rparr>),
     sv_item_ref = (\<lambda>_. Some ''sched_''), sv_sessions_dir = [''s''], sv_group = ''g''\<rparr>"

lemma sample_sched_env_sel [simp]:
  "sv_session sample_sched_env = plain_env" "sv_codec sample_sched_env = status_codec"
  "sv_item_ref sample_sched_env p = Some ''sched_''" "sv_chrono sample_sched_env = utc_chrono"
  by (simp_all add: sample_sched_env_def)

lemma status_codec_serialises: "meta_serialises status_codec (sample_meta\<lparr>status := q\<rparr>)"
  by (cases q) (simp_all add: meta_serialises_def status_codec_def parse_schedule_status_def)

lemma status_codec_moved: "meta_serialises status_codec (moved t sample_meta)"
proof -
  have "moved t sample_meta = sample_meta\<lparr>status := status (moved t sample_meta)\<rparr>"
    by (simp add: moved_def split: sum.splits)
  with status_codec_serialises [of "status (moved t sample_meta)"] show ?thesis by simp
qed

lemma sample_written:
  obtains s' row where "write_meta plain_env status_codec ''t'' sample_meta empty_session = (s', Inr ())"
    and "project_meta status_codec sample_meta (Some ''C1'') = Inr row"
    and "in_step sample_sched_env ''C1'' sample_meta (s', \<lparr>items = [row], occs = [], runs = []\<rparr>)"
proof -
  obtain s' where up: "upsert_inbound_meta plain_env ''t'' (meta_idempotency_key (scheduled_item_id sample_meta))
      \<lparr>msg_sender = schedule_meta_sender, msg_content = summary (intent sample_meta),
       msg_metadata = Some ''active'', msg_thread = None\<rparr> empty_session = (s', Inr 0)"
    by (simp add: upsert_inbound_meta_def upsert_rows_def session_eval)
  have w: "write_meta plain_env status_codec ''t'' sample_meta empty_session = (s', Inr ())"
    unfolding write_meta_def
    by (simp add: status_codec_def sample_meta_sel, subst with_retry_first) (auto simp: up [simplified sample_meta_sel])
  have ser: "meta_serialises status_codec sample_meta"
    using status_codec_serialises [of Active] sample_meta_sel(2) by (metis scheduled_meta.surjective scheduled_meta.update_convs(7))
  have item: "item_serialises status_codec sample_meta"
    by (simp add: item_serialises_def rec_serialises_def vols_serialise_def sample_meta_sel status_codec_def sample_codec_def)
  obtain row where row: "project_meta status_codec sample_meta (Some ''C1'') = Inr row" "ir_id row = ''sched_''"
    using project_meta_reads_back [OF item, of "Some ''C1''"] in_i64_100 by (auto simp: sample_meta_sel)
  have "in_step sample_sched_env ''C1'' sample_meta (s', \<lparr>items = [row], occs = [], runs = []\<rparr>)"
    using latest_meta_after_write [OF plain_env_additive ser w] row
    by (simp add: in_step_def get_item_def sample_meta_sel)
  with w row(1) show thesis by (rule that)
qed

theorem lifecycle_actions_keep_step_witness:
  "\<exists>st st'. cancel_schedule sample_sched_env ''t'' ''C1'' ''{}'' st = (st', Inr ())
     \<and> in_step sample_sched_env ''C1'' (sample_meta\<lparr>status := Cancelled\<rparr>) st'"
proof -
  obtain s' row where agree: "in_step sample_sched_env ''C1'' sample_meta (s', \<lparr>items = [row], occs = [], runs = []\<rparr>)"
    using sample_written by blast
  have lay: "is_ok (session_layout sample_sched_env ''C1'')" by code_simp
  have m: "moved Cancel sample_meta = sample_meta\<lparr>status := Cancelled\<rparr>" by (simp add: moved_def sample_meta_sel)
  have ref: "sv_item_ref sample_sched_env ''{}'' = Some (scheduled_item_id sample_meta)" by (simp add: sample_meta_sel)
  have ser: "\<forall>t. meta_serialises (sv_codec sample_sched_env) (moved t sample_meta)"
    using status_codec_moved by simp
  from lifecycle_actions_keep_step [of sample_sched_env, OF _ agree lay ref ser, of cancel_schedule Cancel "''t''"]
    plain_env_additive m show ?thesis by auto
qed

section \<open>What an agent schedules is due\<close>

lemma map_err_Inr_iff: "map_err f r = Inr x \<longleftrightarrow> r = Inr x"
  by (cases r) simp_all

lemma get_item_due:
  assumes "get_item (items db) i = Some row" and "ir_status row = ''active''"
    and "ir_process_after row = Some (dec_of_int t)" and "in_i64 t" and "t \<le> now"
  shows "(i, t) \<in> set (due_items now db)"
proof -
  have row: "row \<in> set (items db)" "ir_id row = i"
    using assms(1) by (auto simp: get_item_def dest: query_row_SomeD)
  have "due_time row = Some t" using assms(3,4) by (simp add: due_time_def)
  with row assms(2,5) show ?thesis
    by (auto simp: due_items_def intro!: image_eqI [of _ _ row])
qed

lemma create_meta_sel:
  "create_meta sha c g i after rec pol = Inr m \<Longrightarrow>
     scheduled_item_id m = generate_scheduled_item_id sha g i \<and> intent m = i \<and> process_after m = after
     \<and> item_recurrence m = rec \<and> status m = Active \<and> recurrence_valid c m"
  by (auto simp: create_meta_def check_recurrence_def recurrence_valid_def res_simps split: option.splits)
    (cases "validate c (the rec)"; simp)

lemma fresh_item_claimed:
  assumes "primary_key ir_id (items db)" and "primary_key occ_key (occs db)"
    and "(i, t) \<in> set (due_items now db)" and "item_occs i db = []"
  shows "\<exists>l\<in>set (snd (claim_due sha now owner ttl db)). lease_occurrence l = new_occurrence sha i 1 t
    \<and> lease_owner l = owner \<and> lease_expires_at l = i64_add now ttl"
proof -
  let ?o = "new_occurrence sha i 1 t" and ?leases = "snd (claim_due sha now owner ttl db)"
  have next_one: "next_claimable_occurrence sha i t db = Some ?o"
    by (simp add: next_claimable_occurrence_def pending_row_def already_fired_def max_sequence_def assms(4))
  have free: "free_cand ?o now db" by (simp add: free_cand_def assms(4))
  note spec = claim_each_spec [OF assms(2) distinct_due_items [OF assms(1)], of sha now owner ttl]
  have "?o \<in> set (List.map_filter (\<lambda>(i, pa). next_claimable_occurrence sha i pa db) (due_items now db))"
    using assms(3) next_one by (force simp: List.map_filter_def)
  with free spec have "?o \<in> lease_occurrence ` set ?leases"
    by (simp add: claim_due_def flip: set_map)
  then obtain l where "l \<in> set ?leases" "lease_occurrence l = ?o" by auto
  with spec show ?thesis by (auto simp: claim_due_def intro!: bexI [of _ l])
qed

text \<open>
  C13: a schedule an agent asks for is on both sides and is claimed. When the action succeeds the session
  holds an active item with the text, the first time and the recurrence of the payload and the agent it runs
  as; the central index holds its projection; the rows of other items and all occurrences stay. Every sweep
  from that time on finds the item due, and unless occurrences of an item of the same id are already in the
  table, the first such sweep claims its first occurrence for that time, for its caller. A recurrence that
  is refused was never stored.
\<close>

theorem created_schedule_is_due:
  assumes "additive_env (sv_session v)" and "primary_key ir_id (items db)"
    and "create_schedule v now stamp sid payload agent (s, db) = Returns ((s', db'), Inr ())"
  shows "\<exists>p after rec m. sv_schedule v payload = Some p \<and> resolve_timing (sv_chrono v) p now = Returns (Inr (after, rec))
    \<and> summary (intent m) = pl_text p \<and> status m = Active \<and> process_after m = after \<and> item_recurrence m = rec
    \<and> run_as m = agent \<and> recurrence_valid (sv_chrono v) m
    \<and> (meta_serialises (sv_codec v) m \<longrightarrow> in_step v sid m (s', db'))
    \<and> (in_i64 after \<longrightarrow> (\<forall>now'\<ge>after. (scheduled_item_id m, after) \<in> set (due_items now' db')
         \<and> (item_occs (scheduled_item_id m) db = [] \<and> primary_key occ_key (occs db) \<longrightarrow>
              (\<forall>sha owner ttl. \<exists>l\<in>set (snd (claim_due sha now' owner ttl db')).
                 lease_occurrence l = new_occurrence sha (scheduled_item_id m) 1 after
                 \<and> lease_owner l = owner \<and> lease_expires_at l = i64_add now' ttl))))
    \<and> (\<forall>k. k \<noteq> scheduled_item_id m \<longrightarrow> get_item (items db') k = get_item (items db) k) \<and> occs db' = occs db"
proof -
  from assms(3) obtain p where p: "sv_schedule v payload = Some p"
    by (auto simp: create_schedule_def split: option.splits)
  from assms(3) p obtain after rec where t: "resolve_timing (sv_chrono v) p now = Returns (Inr (after, rec))"
    by (auto simp: create_schedule_def split: outcome.splits sum.splits)
  from assms(3) p t obtain m0 where m0: "create_meta (env_sha (sv_session v)) (sv_chrono v) host_agent_group
      \<lparr>created_by = ''agent'', summary = pl_text p, created_at = now\<rparr> after rec default_context_policy = Inr m0"
    by (auto simp: create_schedule_def split: sum.splits)
  define m where "m = m0\<lparr>run_as := agent\<rparr>"
  obtain lay where lay: "session_layout v sid = Inr lay"
    using assms(3) p t m0 by (cases "session_layout v sid") (auto simp: create_schedule_def Let_def)
  obtain s1 r where w: "write_meta (sv_session v) (sv_codec v) stamp m s = (s1, r)" by (cases "write_meta (sv_session v) (sv_codec v) stamp m s")
  with assms(3) p t m0 lay have r: "r = Inr ()"
    by (cases r) (auto simp: create_schedule_def Let_def m_def)
  with w assms(3) p t m0 lay have up: "s1 = s'" "upsert_item (sv_codec v) m (Some sid) db = (db', Inr ())"
    by (auto simp: create_schedule_def Let_def m_def map_err_Inr_iff split: prod.splits)
  then obtain row where row: "project_meta (sv_codec v) m (Some sid) = Inr row" "db' = db\<lparr>items := put_item row (items db)\<rparr>"
    by (auto simp: upsert_item_def split: sum.splits)
  note sel = create_meta_sel [OF m0]
  have m: "summary (intent m) = pl_text p" "status m = Active" "process_after m = after" "item_recurrence m = rec"
    "run_as m = agent" "recurrence_valid (sv_chrono v) m"
    using sel by (auto simp: m_def recurrence_valid_def split: option.splits)
  have rsel: "ir_id row = scheduled_item_id m" "ir_status row = ''active''" "ir_process_after row = Some (dec_of_int after)"
    using row(1) m by (auto simp: project_meta_def split: sum.splits)
  have get: "get_item (items db') k = (if k = scheduled_item_id m then Some row else get_item (items db) k)" for k
    using rsel(1) by (simp add: row(2) item_store.get_put [OF assms(2)])
  have "in_step v sid m (s', db')" if "meta_serialises (sv_codec v) m"
    using latest_meta_after_write [OF assms(1) that] w r up(1) row(1) get by (simp add: in_step_def)
  moreover have due: "(scheduled_item_id m, after) \<in> set (due_items now' db')" if "in_i64 after" "after \<le> now'" for now'
    using get_item_due [OF _ rsel(2,3) that] get by simp
  have "\<exists>l\<in>set (snd (claim_due sha now' owner ttl db')).
      lease_occurrence l = new_occurrence sha (scheduled_item_id m) 1 after
      \<and> lease_owner l = owner \<and> lease_expires_at l = i64_add now' ttl"
    if "in_i64 after" "after \<le> now'" "item_occs (scheduled_item_id m) db = []" "primary_key occ_key (occs db)"
    for now' sha owner ttl
  proof (rule fresh_item_claimed [OF _ _ due [OF that(1,2)]])
    show "primary_key ir_id (items db')" using assms(2) item_store.ok_put by (simp add: row(2))
  qed (use that in \<open>simp_all add: row(2) item_occs_def\<close>)
  moreover have "occs db' = occs db" by (simp add: row(2))
  ultimately show ?thesis using p t m get due by (intro exI [of _ p] exI [of _ after] exI [of _ rec] exI [of _ m]) simp
qed

theorem created_schedule_is_due_witness:
  "\<exists>s' db'. create_schedule sample_sched_env 100 ''t'' ''C1'' ''{}'' None (empty_session, \<lparr>items = [], occs = [], runs = []\<rparr>)
       = Returns ((s', db'), Inr ())
     \<and> (\<exists>i. \<exists>l\<in>set (snd (claim_due (\<lambda>_. []) 200 ''w'' 30 db')). lease_occurrence l = new_occurrence (\<lambda>_. []) i 1 160)"
proof -
  let ?v = "sample_sched_env" and ?db = "\<lparr>items = [], occs = [], runs = []\<rparr> :: sched_db"
  have t: "resolve_timing utc_chrono \<lparr>pl_text = ''tea'', pl_after = Some 60, pl_every = None, pl_calendar = None\<rparr> 100
      = Returns (Inr (160, None))"
    by (simp add: resolve_timing_def i64_add_def i64_wrap_def)
  have lay: "session_layout ?v ''C1'' = Inr [''s'', ''g'', ''C1'']" by code_simp
  have up: "\<exists>s'. upsert_inbound_meta plain_env ''t'' k \<lparr>msg_sender = a, msg_content = c, msg_metadata = d, msg_thread = None\<rparr>
      empty_session = (s', Inr 0)" for k a c d
    by (simp add: upsert_inbound_meta_def upsert_rows_def session_eval)
  have w: "\<exists>s'. write_meta plain_env status_codec ''t'' m empty_session = (s', Inr ())" for m
  proof -
    obtain s' where "upsert_inbound_meta plain_env ''t'' (meta_idempotency_key (scheduled_item_id m))
        \<lparr>msg_sender = schedule_meta_sender, msg_content = summary (intent m),
         msg_metadata = Some (schedule_status_str (status m)), msg_thread = None\<rparr> empty_session = (s', Inr 0)"
      using up by blast
    then have "write_meta plain_env status_codec ''t'' m empty_session = (s', Inr ())"
      unfolding write_meta_def by (simp add: status_codec_def, subst with_retry_first) auto
    then show ?thesis by blast
  qed
  have pk: "primary_key ir_id (items ?db)" by (simp add: primary_key_def)
  have "\<exists>s' db'. create_schedule ?v 100 ''t'' ''C1'' ''{}'' None (empty_session, ?db) = Returns ((s', db'), Inr ())"
  proof -
    let ?i = "\<lparr>created_by = ''agent'', summary = ''tea'', created_at = 100\<rparr>"
    obtain m0 where m0: "create_meta (env_sha plain_env) utc_chrono host_agent_group ?i 160 None default_context_policy = Inr m0"
        "item_recurrence m0 = None" "gate_volumes m0 = []"
      by (simp add: create_meta_def check_recurrence_def)
    obtain s' where s': "write_meta plain_env status_codec ''t'' (m0\<lparr>run_as := None\<rparr>) empty_session = (s', Inr ())"
      using w by blast
    obtain db' where "upsert_item status_codec (m0\<lparr>run_as := None\<rparr>) (Some ''C1'') ?db = (db', Inr ())"
      using m0(2,3) by (simp add: upsert_item_def project_meta_def recurrence_column_def volumes_column_def)
    with t lay s' m0(1) show ?thesis by (simp add: create_schedule_def sample_sched_env_def Let_def)
  qed
  then obtain s' db' where run: "create_schedule ?v 100 ''t'' ''C1'' ''{}'' None (empty_session, ?db) = Returns ((s', db'), Inr ())"
    by blast
  have i64: "in_i64 160" by (simp add: in_i64_def i64_min_def i64_max_def)
  have "additive_env (sv_session ?v)" using plain_env_additive by simp
  from created_schedule_is_due [OF this pk run] obtain p after rec and m :: scheduled_meta where
      p: "sv_schedule ?v ''{}'' = Some p" "resolve_timing (sv_chrono ?v) p 100 = Returns (Inr (after, rec))"
    and claimed: "in_i64 after \<longrightarrow> (\<forall>now'\<ge>after. (scheduled_item_id m, after) \<in> set (due_items now' db')
         \<and> (item_occs (scheduled_item_id m) ?db = [] \<and> primary_key occ_key (occs ?db) \<longrightarrow>
              (\<forall>sha owner ttl. \<exists>l\<in>set (snd (claim_due sha now' owner ttl db')).
                 lease_occurrence l = new_occurrence sha (scheduled_item_id m) 1 after
                 \<and> lease_owner l = owner \<and> lease_expires_at l = i64_add now' ttl)))"
    by (elim exE conjE) (rule that, assumption+)
  have after: "after = 160" using p(1,2) t by (simp add: sample_sched_env_def)
  have "item_occs i ?db = [] \<and> primary_key occ_key (occs ?db)" for i
    by (simp add: item_occs_def primary_key_def)
  with claimed [unfolded after, rule_format, OF i64, of 200] have "\<exists>l\<in>set (snd (claim_due (\<lambda>_. []) 200 ''w'' 30 db')).
      lease_occurrence l = new_occurrence (\<lambda>_. []) (scheduled_item_id m) 1 160"
    by fastforce
  with run show ?thesis by blast
qed

section \<open>An action from another session\<close>

text \<open>
  The block of schedules an agent is shown lists the items of its whole group, and an action acts in the
  session its turn ran in. When that is not the session the item was made in, only the central row moves.
\<close>

text \<open>
  C40: a schedule cancelled from another conversation comes back. The action succeeds and the central row is
  cancelled, but the source of truth in the item's own session is untouched, so the repair at the next start
  of the host makes the row active again exactly as it was, and it fires.
\<close>

theorem foreign_cancel_undone:
  assumes "in_step v sid m (s, db)" and "status m = Active" and "primary_key ir_id (items db)"
    and "sv_item_ref v payload = Some (scheduled_item_id m)" and "is_ok (session_layout v sid2)"
    and "latest_meta (sv_session v) (sv_codec v) (scheduled_item_id m) s2 = (s2', Inr None)"
  shows "\<exists>db'. cancel_schedule v stamp sid2 payload (s2, db) = ((s2', db'), Inr ())
    \<and> map_option ir_status (get_item (items db') (scheduled_item_id m)) = Some ''cancelled''
    \<and> get_item (items (fst (reconcile_item sha (sv_codec v) m sid db'))) (scheduled_item_id m)
      = get_item (items db) (scheduled_item_id m)
    \<and> in_step v sid m (s, fst (reconcile_item sha (sv_codec v) m sid db'))"
proof -
  let ?i = "scheduled_item_id m"
  obtain lay where lay: "session_layout v sid2 = Inr lay" using assms(5) by (auto simp: is_ok_iff)
  from assms(1) obtain row where row: "project_meta (sv_codec v) m (Some sid) = Inr row" "get_item (items db) ?i = Some row"
    by (auto simp: in_step_def)
  let ?db = "cancel_item ?i db"
  have run: "cancel_schedule v stamp sid2 payload (s2, db) = ((s2', ?db), Inr ())"
    using assms(4,6) lay by (simp add: cancel_schedule_def parse_item_ref_def transition_source_def)
  have "ir_status row = ''active''" "ir_id row = ?i" using project_meta_row [OF row(1)] assms(2) by simp_all
  moreover from this have "get_item (items ?db) ?i = Some (row\<lparr>ir_status := ''cancelled''\<rparr>)"
    using get_item_update_where [where Q = "\<lambda>r. ir_status r = ''active'' \<or> ir_status r = ''paused''" and i = ?i
        and t = "items db" and k = ?i and f = "\<lambda>r. r\<lparr>ir_status := ''cancelled''\<rparr>"] row(2)
    by (simp add: cancel_item_def set_item_status_def)
  moreover have "primary_key ir_id (items ?db)"
    using assms(3) by (simp add: cancel_item_def set_item_status_def)
  ultimately show ?thesis
    using run row assms(1) reconcile_item_conv [OF row(1), of sha ?db]
    by (intro exI [of _ ?db]) (simp add: in_step_def item_store.get_put)
qed

theorem foreign_cancel_undone_witness:
  "\<exists>s db db'. in_step sample_sched_env ''C1'' sample_meta (s, db)
     \<and> snd (cancel_schedule sample_sched_env ''t'' ''C2'' ''{}'' (empty_session, db)) = Inr ()
     \<and> in_step sample_sched_env ''C1'' sample_meta (s, db')"
proof -
  obtain s row where agree: "in_step sample_sched_env ''C1'' sample_meta (s, \<lparr>items = [row], occs = [], runs = []\<rparr>)"
    using sample_written by blast
  have lay: "is_ok (session_layout sample_sched_env ''C2'')" by code_simp
  have ref: "sv_item_ref sample_sched_env ''{}'' = Some (scheduled_item_id sample_meta)" by (simp add: sample_meta_sel)
  have pk: "primary_key ir_id (items \<lparr>items = [row], occs = [], runs = []\<rparr>)" by (simp add: primary_key_def)
  have "snd (latest_meta plain_env status_codec ''sched_'' empty_session) = Inr None" by code_simp
  then obtain s2 where "latest_meta (sv_session sample_sched_env) (sv_codec sample_sched_env)
      (scheduled_item_id sample_meta) empty_session = (s2, Inr None)"
    by (cases "latest_meta plain_env status_codec ''sched_'' empty_session") (simp add: sample_meta_sel)
  from foreign_cancel_undone [OF agree sample_meta_sel(2) pk ref lay this, of "''t''" "\<lambda>_. []"] agree
  obtain db' where "snd (cancel_schedule sample_sched_env ''t'' ''C2'' ''{}''
        (empty_session, \<lparr>items = [row], occs = [], runs = []\<rparr>)) = Inr ()"
      "in_step sample_sched_env ''C1'' sample_meta (s, db')" by auto
  with agree show ?thesis by blast
qed

section \<open>Two schedules with one text\<close>

text \<open>
  a schedule replaces an earlier one that has the same text and was made in the same second: both have
  the same identity, so the later write takes the place of the earlier in the session and in the index, and
  the first time that was asked for is lost although both actions succeeded.
\<close>

theorem same_text_replaces:
  assumes "create_meta sha c g \<lparr>created_by = ''agent'', summary = x, created_at = now\<rparr> t1 r1 pol = Inr m1"
    and "create_meta sha c g \<lparr>created_by = ''agent'', summary = x, created_at = now\<rparr> t2 r2 pol = Inr m2"
    and "upsert_item j m1 sid1 db = (db1, Inr ())" and "upsert_item j m2 sid2 db1 = (db2, Inr ())"
    and "primary_key ir_id (items db)"
  shows "scheduled_item_id m2 = scheduled_item_id m1
    \<and> length (filter (\<lambda>r. ir_id r = scheduled_item_id m1) (items db2)) = 1
    \<and> map_option ir_process_after (get_item (items db2) (scheduled_item_id m1)) = Some (Some (dec_of_int t2))"
proof -
  note sel = create_meta_sel [OF assms(1)] create_meta_sel [OF assms(2)]
  obtain row1 row2 where row: "project_meta j m1 sid1 = Inr row1" "db1 = db\<lparr>items := put_item row1 (items db)\<rparr>"
    "project_meta j m2 sid2 = Inr row2" "db2 = db1\<lparr>items := put_item row2 (items db1)\<rparr>"
    using assms(3,4) by (auto simp: upsert_item_def split: sum.splits)
  have ids: "ir_id row2 = scheduled_item_id m1" "ir_process_after row2 = Some (dec_of_int t2)"
    using row(3) sel by (auto simp: project_meta_def split: sum.splits)
  have pk: "primary_key ir_id (items db1)" "primary_key ir_id (items db2)"
    using assms(5) item_store.ok_put row by simp_all
  have get: "get_item (items db2) (scheduled_item_id m1) = Some row2"
    using item_store.get_put [OF pk(1), of row2] ids row(4) by simp
  then have "row2 \<in> set (items db2)" by (auto simp: get_item_def dest: query_row_SomeD)
  moreover have "filter (\<lambda>r. ir_id r = k) t = (case get_item t k of None \<Rightarrow> [] | Some r \<Rightarrow> [r])"
    if "primary_key ir_id t" for k t
    using that
  proof (induction t)
    case (Cons r t)
    then have "ir_id r \<notin> set (map ir_id t)" "primary_key ir_id t" by (auto simp: primary_key_def)
    moreover have "filter (\<lambda>ra. ir_id ra = ir_id r) t = []" if "ir_id r \<notin> set (map ir_id t)"
      using that by (induction t) auto
    ultimately show ?case using Cons.IH by (cases "ir_id r = k") (auto simp: get_item_def)
  qed (simp add: get_item_def)
  ultimately show ?thesis using sel get ids pk(2) by simp
qed

theorem same_text_replaces_witness:
  "\<exists>m1 m2 db1 db2. upsert_item sample_codec m1 None \<lparr>items = [], occs = [], runs = []\<rparr> = (db1, Inr ())
     \<and> upsert_item sample_codec m2 None db1 = (db2, Inr ()) \<and> process_after m1 = 300 \<and> process_after m2 = 600
     \<and> map_option ir_process_after (get_item (items db2) (scheduled_item_id m1)) = Some (Some ''600'')"
proof -
  let ?i = "\<lparr>created_by = ''agent'', summary = ''tea'', created_at = 100\<rparr>"
  let ?db = "\<lparr>items = [], occs = [], runs = []\<rparr> :: sched_db"
  have m: "\<exists>m. create_meta (\<lambda>_. []) utc_chrono 1 ?i t None CurrentMemory = Inr m \<and> gate_volumes m = []" for t
    by (simp add: create_meta_def check_recurrence_def)
  obtain m1 m2 where m1: "create_meta (\<lambda>_. []) utc_chrono 1 ?i 300 None CurrentMemory = Inr m1" "gate_volumes m1 = []"
    and m2: "create_meta (\<lambda>_. []) utc_chrono 1 ?i 600 None CurrentMemory = Inr m2" "gate_volumes m2 = []"
    using m [of 300] m [of 600] by blast
  have up: "\<exists>db'. upsert_item sample_codec m' None db = (db', Inr ())"
    if "gate_volumes m' = []" "item_recurrence m' = None" for m' db
    using that by (simp add: upsert_item_def project_meta_def recurrence_column_def volumes_column_def)
  obtain db1 where db1: "upsert_item sample_codec m1 None ?db = (db1, Inr ())"
    using up m1 create_meta_sel [OF m1(1)] by blast
  obtain db2 where db2: "upsert_item sample_codec m2 None db1 = (db2, Inr ())"
    using up m2 create_meta_sel [OF m2(1)] by blast
  have pk: "primary_key ir_id (items ?db)" by (simp add: primary_key_def)
  have "dec_of_int 600 = ''600''" by code_simp
  with same_text_replaces [OF m1(1) m2(1) db1 db2 pk] db1 db2 create_meta_sel [OF m1(1)] create_meta_sel [OF m2(1)]
  show ?thesis by (intro exI [of _ m1] exI [of _ m2] exI [of _ db1] exI [of _ db2]) simp
qed

section \<open>The time a payload asks for\<close>

lemma parse_hhmm_bound: "parse_hhmm t = Inr m \<Longrightarrow> m < 1440"
  by (auto simp: parse_hhmm_def res_simps split: option.splits if_splits)

lemma parse_hhmm_digits: "h < 24 \<Longrightarrow> m < 60 \<Longrightarrow> parse_hhmm (dec_of_nat h @ CHR '':'' # dec_of_nat m) = Inr (h * 60 + m)"
proof -
  assume "h < 24" "m < 60"
  have "CHR '':'' \<notin> set (dec_of_nat h)" using dec_of_nat_digits [of h] by (auto simp: is_digit_def)
  with \<open>h < 24\<close> \<open>m < 60\<close> show ?thesis by (simp add: parse_hhmm_def)
qed

lemma calendar_minute: "calendar_to_recurrence cal = Inr r \<Longrightarrow> minute_of_day r < 1440 \<and> (\<forall>s. r \<noteq> Every s)"
  by (cases cal) (auto simp: res_simps dest: parse_hhmm_bound)

text \<open>
  The time of a schedule is the one asked for. A wall-clock schedule is stored only as a recurrence that
  is valid, its first time is never before now and its minute is a minute of a day, and every time of day
  written as hours and minutes is read as that minute; any other schedule is due the given seconds after now.
\<close>

theorem schedule_time_sound:
  assumes "resolve_timing c p now = Returns (Inr (t, rec))" and "h < 24" and "mi < 60"
  shows "(case pl_calendar p of
      Some cal \<Rightarrow> (\<exists>r. rec = Some r \<and> calendar_to_recurrence cal = Inr r \<and> validate c r = Inr () \<and> now \<le> t
                   \<and> minute_of_day r < 1440)
    | None \<Rightarrow> rec = map_option Every (pl_every p) \<and> t = i64_add now (case pl_after p of None \<Rightarrow> 0 | Some n \<Rightarrow> n))
    \<and> parse_hhmm (dec_of_nat h @ CHR '':'' # dec_of_nat mi) = Inr (h * 60 + mi)"
proof (cases "pl_calendar p")
  case (Some cal)
  with assms(1) obtain r where r: "calendar_to_recurrence cal = Inr r" "validate c r = Inr ()" "rec = Some r"
      "first_on_or_after c r now = Returns (Some t)"
    by (cases "calendar_to_recurrence cal"; cases "validate c (projr (calendar_to_recurrence cal))")
      (auto simp: resolve_timing_def split: outcome.splits option.splits)
  with calendar_minute [OF r(1)] have "calendar_match c r now True = Returns (Some t)"
    by (cases r) (auto simp: first_on_or_after_def)
  then have "now \<le> t" using calendar_match_admissible by (fastforce simp: admissible_def)
  with r calendar_minute [OF r(1)] Some parse_hhmm_digits [OF assms(2,3)] show ?thesis by simp
next
  case None
  with assms parse_hhmm_digits show ?thesis by (simp add: resolve_timing_def)
qed

theorem schedule_time_sound_witness:
  "resolve_timing utc_chrono \<lparr>pl_text = ''x'', pl_after = None, pl_every = None,
       pl_calendar = Some (CalDaily ''9:30'' ''UTC'')\<rparr> 1000 = Returns (Inr (34200, Some (Daily 570 ''UTC'')))
   \<and> parse_hhmm ''9:30'' = Inr 570"
proof -
  let ?p = "\<lparr>pl_text = ''x'', pl_after = None, pl_every = None, pl_calendar = Some (CalDaily ''9:30'' ''UTC'')\<rparr>"
  have dec: "dec_of_nat 9 = ''9''" "dec_of_nat 30 = ''30''" by code_simp+
  have m: "parse_hhmm ''9:30'' = Inr 570" using parse_hhmm_digits [of 9 30] dec by simp
  have t: "resolve_timing utc_chrono ?p 1000 = Returns (Inr (34200, Some (Daily 570 ''UTC'')))"
    by (simp add: resolve_timing_def m validate_minute_of_day_def validate_tz_def utc_chrono_fields first_on_or_after_def
        calendar_eval)
  have "(9::nat) < 24" "(30::nat) < 60" by simp_all
  from schedule_time_sound [OF t this, THEN conjunct2] show ?thesis using t dec by simp
qed

end
