(* ===== verification/Container_Runtime.thy ===== *)
theory Container_Runtime
  imports Strings
begin

text \<open>
  \<open>crates/assistant-runtime-docker\<close>: the mounts of a session container and their validation
  (\<open>mount.rs\<close>), the credential environment (\<open>auth.rs\<close>), image references (\<open>image.rs\<close>), the spawn
  specification with its \<open>docker run\<close> arguments, liveness classes and the in-memory runtime
  (\<open>lifecycle.rs\<close>). A path is the list of its components; \<open>Duration\<close>s are seconds. Running Docker
  itself (\<open>docker.rs\<close>) is outside the model.
\<close>

section \<open>Mounts\<close>

datatype mount_mode = ReadOnly | ReadWrite

record mount =
  mnt_host :: path
  mnt_container :: path
  mnt_mode :: mount_mode

definition read_only_mount :: "path \<Rightarrow> path \<Rightarrow> mount" where
  "read_only_mount h c = \<lparr>mnt_host = h, mnt_container = c, mnt_mode = ReadOnly\<rparr>"

definition read_write_mount :: "path \<Rightarrow> path \<Rightarrow> mount" where
  "read_write_mount h c = \<lparr>mnt_host = h, mnt_container = c, mnt_mode = ReadWrite\<rparr>"

record session_paths =
  sp_inbound_db :: path
  sp_outbound_db :: path
  sp_heartbeat :: path
  sp_inbox_dir :: path
  sp_outbox_dir :: path

record memory_mount_spec =
  mm_host_root :: path
  mm_container_path :: path
  mm_read_only :: bool

definition container_inbound_db :: path where "container_inbound_db = [''session'', ''inbound.db'']"
definition container_outbound_db :: path where "container_outbound_db = [''session'', ''outbound.db'']"
definition container_heartbeat :: path where "container_heartbeat = [''session'', ''.heartbeat'']"
definition container_inbox :: path where "container_inbox = [''session'', ''inbox'']"
definition container_outbox :: path where "container_outbox = [''session'', ''outbox'']"
definition container_workspace :: path where "container_workspace = [''workspace'']"

definition build_session_mounts :: "session_paths \<Rightarrow> memory_mount_spec option \<Rightarrow> mount list" where
  "build_session_mounts sp memory =
     [read_only_mount (sp_inbound_db sp) container_inbound_db,
      read_write_mount (sp_outbound_db sp) container_outbound_db,
      read_write_mount (sp_heartbeat sp) container_heartbeat,
      read_only_mount (sp_inbox_dir sp) container_inbox,
      read_write_mount (sp_outbox_dir sp) container_outbox]
     @ (case memory of
          None \<Rightarrow> []
        | Some m \<Rightarrow>
            [\<lparr>mnt_host = mm_host_root m, mnt_container = mm_container_path m,
              mnt_mode = (if mm_read_only m then ReadOnly else ReadWrite)\<rparr>])"

datatype mount_error =
    OutsideAllowlist path
  | PathTraversal path
  | BlockedPath path
  | InboundNotReadOnly
  | DuplicateTarget path

definition blocked_names :: "string list" where
  "blocked_names = [''.env'', ''credentials'', ''credentials.json'', ''id_rsa'', ''id_ed25519'', ''.npmrc'', ''.netrc'']"

definition blocked_extensions :: "string list" where
  "blocked_extensions = [''pem'', ''key'']"

definition is_blocked :: "path \<Rightarrow> bool" where
  "is_blocked p \<longleftrightarrow>
     list_ex (\<lambda>c. c = ''.ssh'' \<or> c = ''.aws'') p
     \<or> (case file_name p of None \<Rightarrow> False | Some n \<Rightarrow> to_ascii_lowercase n \<in> set blocked_names)
     \<or> (case extension p of None \<Rightarrow> False | Some e \<Rightarrow> to_ascii_lowercase e \<in> set blocked_extensions)"

definition mount_violation :: "path list \<Rightarrow> path list \<Rightarrow> mount \<Rightarrow> mount_error option" where
  "mount_violation roots seen m =
     (if ''..'' \<in> set (mnt_host m) then Some (PathTraversal (mnt_host m))
      else if is_blocked (mnt_host m) then Some (BlockedPath (mnt_host m))
      else if \<not> list_ex (starts_with (mnt_host m)) roots then Some (OutsideAllowlist (mnt_host m))
      else if mnt_container m = container_inbound_db \<and> mnt_mode m \<noteq> ReadOnly then Some InboundNotReadOnly
      else if mnt_container m \<in> set seen then Some (DuplicateTarget (mnt_container m))
      else None)"

fun validate_from :: "path list \<Rightarrow> path list \<Rightarrow> mount list \<Rightarrow> mount_error + unit" where
  "validate_from roots seen [] = Inr ()"
| "validate_from roots seen (m # ms) =
     (case mount_violation roots seen m of
        Some e \<Rightarrow> Inl e
      | None \<Rightarrow> validate_from roots (seen @ [mnt_container m]) ms)"

definition validate_mounts :: "mount list \<Rightarrow> path list \<Rightarrow> mount_error + unit" where
  "validate_mounts ms roots = validate_from roots [] ms"

section \<open>Credentials\<close>

datatype runner_auth_mode = Stub | ClaudeOAuth | Specialist

record onecli_readiness =
  proxy_configured :: bool
  anthropic_secret_present :: bool
  placeholder_injection_ok :: bool

datatype auth_error = OneCliProxyMissing | AnthropicSecretMissing | PlaceholderInjectionFailed

definition onecli_is_ready :: "onecli_readiness \<Rightarrow> bool" where
  "onecli_is_ready r \<longleftrightarrow> proxy_configured r \<and> anthropic_secret_present r \<and> placeholder_injection_ok r"

definition first_failure :: "onecli_readiness \<Rightarrow> auth_error option" where
  "first_failure r =
     (if \<not> proxy_configured r then Some OneCliProxyMissing
      else if \<not> anthropic_secret_present r then Some AnthropicSecretMissing
      else if \<not> placeholder_injection_ok r then Some PlaceholderInjectionFailed
      else None)"

definition claude_credentialed_env :: "string \<Rightarrow> onecli_readiness \<Rightarrow> auth_error + (string \<times> string) list" where
  "claude_credentialed_env mode r =
     (case first_failure r of
        Some e \<Rightarrow> Inl e
      | None \<Rightarrow> Inr [(''ASSISTANT_RUNNER_MODE'', mode), (''ANTHROPIC_API_KEY'', ''placeholder''),
                     (''CLAUDE_CODE_OAUTH_TOKEN'', [])])"

definition prepare_runner_env :: "runner_auth_mode \<Rightarrow> onecli_readiness \<Rightarrow> auth_error + (string \<times> string) list" where
  "prepare_runner_env mode r =
     (case mode of
        Stub \<Rightarrow> Inr [(''ASSISTANT_RUNNER_MODE'', ''stub'')]
      | ClaudeOAuth \<Rightarrow> claude_credentialed_env ''claude_oauth'' r
      | Specialist \<Rightarrow> claude_credentialed_env ''specialist'' r)"

section \<open>Images\<close>

record image_ref =
  img_repository :: string
  img_tag :: string
  img_digest :: "string option"

definition image_new :: "string \<Rightarrow> string \<Rightarrow> image_ref" where
  "image_new repository tag = \<lparr>img_repository = repository, img_tag = tag, img_digest = None\<rparr>"

definition image_pinned :: "string \<Rightarrow> string \<Rightarrow> string \<Rightarrow> image_ref" where
  "image_pinned repository tag digest = \<lparr>img_repository = repository, img_tag = tag, img_digest = Some digest\<rparr>"

definition image_reference :: "image_ref \<Rightarrow> string" where
  "image_reference i =
     (case img_digest i of
        Some d \<Rightarrow> img_repository i @ ''@'' @ d
      | None \<Rightarrow> img_repository i @ '':'' @ img_tag i)"

definition is_pinned :: "image_ref \<Rightarrow> bool" where
  "is_pinned i \<longleftrightarrow> img_digest i \<noteq> None"

definition base_image_ref :: "string \<Rightarrow> image_ref" where
  "base_image_ref version =
     image_pinned ''ghcr.io/thisdotrob/assistant-base'' version
       ''sha256:ffdbfdc6d128f620dc9dc07a25cc1c72bdb78dc67beafe483306d77b99938413''"

section \<open>Spawning\<close>

datatype spawn_error =
    UnsupportedSessionSchema nat nat nat
  | SpawnMount mount_error
  | SpawnAuth auth_error

definition gate_session_schema :: "nat \<Rightarrow> nat \<Rightarrow> nat \<Rightarrow> spawn_error + unit" where
  "gate_session_schema found lo hi =
     (if lo \<le> found \<and> found \<le> hi then Inr () else Inl (UnsupportedSessionSchema found lo hi))"

record spawn_spec =
  spec_name :: string
  spec_image :: image_ref
  spec_mounts :: "mount list"
  spec_env :: "(string \<times> string) list"
  spec_volumes :: "string list"

definition prepare_spawn ::
  "string \<Rightarrow> image_ref \<Rightarrow> mount list \<Rightarrow> path list \<Rightarrow> nat \<Rightarrow> nat \<times> nat \<Rightarrow> runner_auth_mode \<Rightarrow> onecli_readiness
   \<Rightarrow> spawn_error + spawn_spec" where
  "prepare_spawn name img mounts roots found schemas mode onecli =
     rbind (gate_session_schema found (fst schemas) (snd schemas)) (\<lambda>_.
     rbind (map_err SpawnMount (validate_mounts mounts roots)) (\<lambda>_.
     rbind (map_err SpawnAuth (prepare_runner_env mode onecli)) (\<lambda>env.
       Inr \<lparr>spec_name = name, spec_image = img, spec_mounts = mounts, spec_env = env, spec_volumes = []\<rparr>)))"

definition display_path :: "path \<Rightarrow> string" where
  "display_path p = ''/'' @ join_str ''/'' p"

definition mount_arg :: "mount \<Rightarrow> string list" where
  "mount_arg m =
     [''--mount'', ''type=bind,source='' @ display_path (mnt_host m) @ '',target='' @ display_path (mnt_container m)
        @ (if mnt_mode m = ReadOnly then '',readonly'' else [])]"

definition docker_run_args :: "spawn_spec \<Rightarrow> string list" where
  "docker_run_args s =
     [''run'', ''--detach'', ''--rm'', ''--name'', spec_name s]
     @ concat (map mount_arg (spec_mounts s))
     @ concat (map (\<lambda>v. [''--volume'', v]) (spec_volumes s))
     @ concat (map (\<lambda>(k, v). [''--env'', k @ ''='' @ v]) (spec_env s))
     @ [image_reference (spec_image s)]"

section \<open>Liveness\<close>

datatype runtime_state = RtRunning | RtIdle | RtStale | RtStopped

record lifecycle_policy =
  idle_after :: int
  stale_after :: int

definition classify_container :: "int option \<Rightarrow> lifecycle_policy \<Rightarrow> runtime_state" where
  "classify_container since policy =
     (case since of
        None \<Rightarrow> RtStopped
      | Some s \<Rightarrow> if s \<le> idle_after policy then RtRunning else if s \<le> stale_after policy then RtIdle else RtStale)"

datatype reap_action = Keep | StopIdle | ForceReap

definition reap_action_of :: "runtime_state \<Rightarrow> reap_action" where
  "reap_action_of s =
     (case s of RtRunning \<Rightarrow> Keep | RtStopped \<Rightarrow> Keep | RtIdle \<Rightarrow> StopIdle | RtStale \<Rightarrow> ForceReap)"

record fake_runtime =
  fr_spawned :: "spawn_spec list"
  fr_stopped :: "string list"
  fr_running :: "string \<Rightarrow> spawn_spec option"
  fr_next_id :: nat

definition fake_spawn :: "spawn_spec \<Rightarrow> fake_runtime \<Rightarrow> fake_runtime \<times> string" where
  "fake_spawn s rt =
     (let n = fr_next_id rt + 1; i = spec_name s @ ''-'' @ dec_of_nat n
      in (rt\<lparr>fr_next_id := n, fr_spawned := fr_spawned rt @ [s], fr_running := (fr_running rt)(i \<mapsto> s)\<rparr>, i))"

definition fake_stop :: "string \<Rightarrow> fake_runtime \<Rightarrow> fake_runtime" where
  "fake_stop i rt = rt\<lparr>fr_running := (fr_running rt)(i := None), fr_stopped := fr_stopped rt @ [i]\<rparr>"

section \<open>What a valid spawn guarantees\<close>

definition mount_ok :: "path list \<Rightarrow> mount \<Rightarrow> bool" where
  "mount_ok roots m \<longleftrightarrow> ''..'' \<notin> set (mnt_host m) \<and> \<not> is_blocked (mnt_host m)
     \<and> (\<exists>root\<in>set roots. \<exists>rest. mnt_host m = root @ rest)
     \<and> (mnt_container m = container_inbound_db \<longrightarrow> mnt_mode m = ReadOnly)"

definition mounts_ok :: "path list \<Rightarrow> mount list \<Rightarrow> bool" where
  "mounts_ok roots ms \<longleftrightarrow> (\<forall>m\<in>set ms. mount_ok roots m) \<and> distinct (map mnt_container ms)"

lemma mount_violation_None:
  "mount_violation roots seen m = None \<longleftrightarrow> mount_ok roots m \<and> mnt_container m \<notin> set seen"
  by (auto simp: mount_violation_def mount_ok_def list_ex_iff starts_with_iff)

lemma validate_from_Inr:
  "validate_from roots seen ms = Inr () \<longleftrightarrow> mounts_ok roots ms \<and> set seen \<inter> mnt_container ` set ms = {}"
proof (induction ms arbitrary: seen)
  case (Cons m ms)
  show ?case
  proof (cases "mount_violation roots seen m")
    case None
    then have "mount_ok roots m" "mnt_container m \<notin> set seen" by (simp_all add: mount_violation_None)
    with None Cons.IH [of "seen @ [mnt_container m]"] show ?thesis by (auto simp: mounts_ok_def)
  next
    case (Some e)
    then have "\<not> (mount_ok roots m \<and> mnt_container m \<notin> set seen)"
      using mount_violation_None [of roots seen m] by simp
    with Some show ?thesis by (auto simp: mounts_ok_def)
  qed
qed (simp add: mounts_ok_def)

lemma validate_mounts_Inr: "validate_mounts ms roots = Inr () \<longleftrightarrow> mounts_ok roots ms"
  by (simp add: validate_mounts_def validate_from_Inr)

lemma runner_env_Inr:
  "prepare_runner_env mode r = Inr env \<Longrightarrow>
   (mode = Stub \<or> onecli_is_ready r) \<and> (\<forall>v. (''ANTHROPIC_API_KEY'', v) \<in> set env \<longrightarrow> v = ''placeholder'')
   \<and> (\<forall>v. (''CLAUDE_CODE_OAUTH_TOKEN'', v) \<in> set env \<longrightarrow> v = [])"
  by (auto simp: prepare_runner_env_def claude_credentialed_env_def first_failure_def onecli_is_ready_def
      split: runner_auth_mode.splits option.splits if_splits)

text \<open>
  C11: a container is only ever prepared with mounts that lie under an allowed root without a parent
  traversal, are no credential file, leave the inbound database read-only and have different targets;
  exactly those mount sets are accepted. And no credential reaches it: in every mode the API key is the
  placeholder and the token empty, and a credentialed mode is refused unless OneCLI is ready.
\<close>

theorem spawn_is_confined:
  "(case prepare_spawn name img mounts roots found schemas mode onecli of
      Inr s \<Rightarrow> spec_mounts s = mounts \<and> mounts_ok roots mounts \<and> fst schemas \<le> found \<and> found \<le> snd schemas
        \<and> (mode = Stub \<or> onecli_is_ready onecli)
        \<and> (\<forall>v. (''ANTHROPIC_API_KEY'', v) \<in> set (spec_env s) \<longrightarrow> v = ''placeholder'')
        \<and> (\<forall>v. (''CLAUDE_CODE_OAUTH_TOKEN'', v) \<in> set (spec_env s) \<longrightarrow> v = [])
    | Inl (SpawnMount _) \<Rightarrow> \<not> mounts_ok roots mounts
    | Inl (SpawnAuth _) \<Rightarrow> mode \<noteq> Stub \<and> \<not> onecli_is_ready onecli
    | Inl (UnsupportedSessionSchema _ _ _) \<Rightarrow> found < fst schemas \<or> snd schemas < found)"
proof (cases "fst schemas \<le> found \<and> found \<le> snd schemas")
  case schema: True
  then have gate: "gate_session_schema found (fst schemas) (snd schemas) = Inr ()" by (simp add: gate_session_schema_def)
  show ?thesis
  proof (cases "validate_mounts mounts roots")
    case (Inl e)
    then have "\<not> mounts_ok roots mounts" using validate_mounts_Inr [of mounts roots] by simp
    with Inl gate show ?thesis by (simp add: prepare_spawn_def)
  next
    case (Inr u)
    then have ok: "mounts_ok roots mounts" using validate_mounts_Inr [of mounts roots] by simp
    show ?thesis
    proof (cases "prepare_runner_env mode onecli")
      case (Inl e)
      then have "mode \<noteq> Stub \<and> \<not> onecli_is_ready onecli"
        by (auto simp: prepare_runner_env_def claude_credentialed_env_def first_failure_def onecli_is_ready_def
            split: runner_auth_mode.splits if_splits)
      with Inl Inr gate show ?thesis by (simp add: prepare_spawn_def)
    next
      case env: (Inr env)
      from runner_env_Inr [OF env] env Inr gate schema ok show ?thesis by (simp add: prepare_spawn_def)
    qed
  qed
qed (auto simp: prepare_spawn_def gate_session_schema_def)

theorem spawn_is_confined_witness:
  "\<exists>s. prepare_spawn ''a-s'' (image_new ''base'' ''v1'') [read_only_mount [''data'', ''s'', ''inbound.db''] container_inbound_db]
       [[''data'']] 3 (1, 3) ClaudeOAuth
       \<lparr>proxy_configured = True, anthropic_secret_present = True, placeholder_injection_ok = True\<rparr> = Inr s
     \<and> mounts_ok [[''data'']] [read_only_mount [''data'', ''s'', ''inbound.db''] container_inbound_db]
     \<and> (\<forall>v. (''ANTHROPIC_API_KEY'', v) \<in> set (spec_env s) \<longrightarrow> v = ''placeholder'')"
proof -
  let ?r = "prepare_spawn ''a-s'' (image_new ''base'' ''v1'') [read_only_mount [''data'', ''s'', ''inbound.db''] container_inbound_db]
       [[''data'']] 3 (1, 3) ClaudeOAuth
       \<lparr>proxy_configured = True, anthropic_secret_present = True, placeholder_injection_ok = True\<rparr>"
  have "is_ok ?r" by code_simp
  then obtain s where s: "?r = Inr s" by (cases ?r) auto
  from spawn_is_confined [where name = "''a-s''" and img = "image_new ''base'' ''v1''"
      and mounts = "[read_only_mount [''data'', ''s'', ''inbound.db''] container_inbound_db]" and roots = "[[''data'']]"
      and found = 3 and schemas = "(1, 3)" and mode = ClaudeOAuth
      and onecli = "\<lparr>proxy_configured = True, anthropic_secret_present = True, placeholder_injection_ok = True\<rparr>"] s
  show ?thesis by simp
qed

end
