(* ===== verification/Json.thy ===== *)
theory Json
  imports Strings
begin

text \<open>
  The accessors of \<open>serde_json::Value\<close> that the code uses. The values, their accessors and the parser are
  code of a package and stay parameters: a record of functions on a type of values.
\<close>

record 'v json_api =
  js_parse :: "string \<Rightarrow> 'v option"
  js_get :: "string \<Rightarrow> 'v \<Rightarrow> 'v option"
  js_str :: "'v \<Rightarrow> string option"
  js_array :: "'v \<Rightarrow> 'v list option"
  js_u64 :: "'v \<Rightarrow> nat option"
  js_bool :: "'v \<Rightarrow> bool option"

definition str_at :: "'v json_api \<Rightarrow> string \<Rightarrow> 'v \<Rightarrow> string option" where
  "str_at j k v = Option.bind (js_get j k v) (js_str j)"

lemma str_at_None [simp]: "js_get j k v = None \<Longrightarrow> str_at j k v = None"
  by (simp add: str_at_def)

end
