(* ===== verification/Memory_Search.thy ===== *)
theory Memory_Search
  imports Memory_Catalog Json
begin

text \<open>
  The search index of qmd as the host drives it: \<open>qmd.rs\<close> of \<open>crates/assistant-memory\<close> (corpus names, the
  answers of the sidecar, the backend for tests) and \<open>qmd.rs\<close> of \<open>crates/assistant-host\<close> (the corpus
  folder and the runs of the sidecar). The sidecar process, the JSON parser and the rank of a score are
  parameters.
\<close>

section \<open>Names of the corpus\<close>

definition corpus_stem :: "string \<Rightarrow> string" where
  "corpus_stem i = hex_of (bytes_of i)"

text \<open>\<open>char::to_digit(16)\<close>\<close>

definition to_digit16 :: "char \<Rightarrow> nat option" where
  "to_digit16 c =
     (let n = of_char c :: nat
      in if 48 \<le> n \<and> n \<le> 57 then Some (n - 48)
         else if 97 \<le> n \<and> n \<le> 102 then Some (n - 87)
         else if 65 \<le> n \<and> n \<le> 70 then Some (n - 55) else None)"

fun stem_bytes :: "string \<Rightarrow> nat list option" where
  "stem_bytes [] = Some []"
| "stem_bytes [c] = None"
| "stem_bytes (c # d # cs) =
     (case (to_digit16 c, to_digit16 d) of
        (Some hi, Some lo) \<Rightarrow> map_option (\<lambda>bs. (hi * 16 + lo) # bs) (stem_bytes cs)
      | _ \<Rightarrow> None)"

text \<open>\<open>String::from_utf8\<close> by the table of well-formed byte sequences.\<close>

fun valid_utf8 :: "nat list \<Rightarrow> bool" where
  "valid_utf8 [] = True"
| "valid_utf8 (a # bs) =
     (let tail = (\<lambda>b. 128 \<le> b \<and> b \<le> 191)
      in if a \<le> 127 then valid_utf8 bs
         else case bs of
           [] \<Rightarrow> False
         | b # cs \<Rightarrow>
             if 194 \<le> a \<and> a \<le> 223 then tail b \<and> valid_utf8 cs
             else case cs of
               [] \<Rightarrow> False
             | c # ds \<Rightarrow>
                 if 224 \<le> a \<and> a \<le> 239
                 then tail b \<and> tail c \<and> (a = 224 \<longrightarrow> 160 \<le> b) \<and> (a = 237 \<longrightarrow> b \<le> 159) \<and> valid_utf8 ds
                 else case ds of
                   [] \<Rightarrow> False
                 | d # es \<Rightarrow>
                     240 \<le> a \<and> a \<le> 244 \<and> tail b \<and> tail c \<and> tail d \<and> (a = 240 \<longrightarrow> 144 \<le> b)
                     \<and> (a = 244 \<longrightarrow> b \<le> 143) \<and> valid_utf8 es)"

definition memory_id_from_stem :: "string \<Rightarrow> string option" where
  "memory_id_from_stem stem =
     (if stem = [] \<or> odd (length stem) then None
      else Option.bind (stem_bytes stem) (\<lambda>bs. if valid_utf8 bs then Some (map char_of bs) else None))"

text \<open>\<open>Path::file_stem\<close> of the last component.\<close>

definition file_stem :: "path \<Rightarrow> string option" where
  "file_stem p = map_option (\<lambda>n. case after_last_dot (tl n) of
       None \<Rightarrow> n | Some e \<Rightarrow> take (length n - length e - 1) n) (file_name p)"

definition memory_id_from_path :: "string \<Rightarrow> string option" where
  "memory_id_from_path display_path =
     Option.bind (file_stem (path_components display_path)) (\<lambda>s. memory_id_from_stem (trim s))"

section \<open>The answers of the sidecar\<close>

record 'v qmd_codec =
  qc_json :: "'v json_api"
  qc_rank :: "'v option \<Rightarrow> int"

definition hit_of_json :: "'v qmd_codec \<Rightarrow> 'v \<Rightarrow> hit option" where
  "hit_of_json q raw =
     map_option (\<lambda>i. \<lparr>hit_memory_id = i, hit_score = qc_rank q (js_get (qc_json q) ''score'' raw),
                      hit_snippet = case_option [] id (str_at (qc_json q) ''bestChunk'' raw)\<rparr>)
       (Option.bind (str_at (qc_json q) ''displayPath'' raw) memory_id_from_path)"

definition parse_qmd_response :: "'v qmd_codec \<Rightarrow> string \<Rightarrow> search_outcome" where
  "parse_qmd_response q stdout =
     (let trimmed = trim stdout
      in if trimmed = [] then DegradedSearch (OtherReason ''empty qmd response'')
         else case js_parse (qc_json q) trimmed of
           None \<Rightarrow> DegradedSearch (OtherReason ''malformed qmd response'')
         | Some v \<Rightarrow>
             (case str_at (qc_json q) ''error'' v of
                Some reason \<Rightarrow> DegradedSearch (degraded_reason_from_wire (trim reason))
              | None \<Rightarrow>
                  (case Option.bind (js_get (qc_json q) ''hits'' v) (js_array (qc_json q)) of
                     None \<Rightarrow> DegradedSearch (OtherReason ''qmd response missing hits'')
                   | Some raw \<Rightarrow> Hits (List.map_filter (hit_of_json q) raw))))"

definition parse_status_response :: "'v qmd_codec \<Rightarrow> string \<Rightarrow> memory_health" where
  "parse_status_response q stdout =
     (let trimmed = trim stdout
      in if trimmed = [] then DegradedIndex (OtherReason ''empty qmd status'')
         else case js_parse (qc_json q) trimmed of
           None \<Rightarrow> DegradedIndex (OtherReason ''malformed qmd status'')
         | Some v \<Rightarrow>
             (case str_at (qc_json q) ''error'' v of
                Some reason \<Rightarrow> DegradedIndex (degraded_reason_from_wire (trim reason))
              | None \<Rightarrow>
                  (case Option.bind (js_get (qc_json q) ''indexed'' v) (js_u64 (qc_json q)) of
                     None \<Rightarrow> DegradedIndex (OtherReason ''qmd status missing indexed'')
                   | Some n \<Rightarrow> if n = 0 then DegradedIndex EmptyIndex else HealthyIndex n)))"

section \<open>The host's backend\<close>

record qmd_sidecar =
  qs_node_bin :: string
  qs_sidecar_path :: path
  qs_db_path :: path
  qs_corpus_dir :: path
  qs_top_n :: nat
  qs_search_timeout :: nat
  qs_index_timeout :: nat

definition new_sidecar :: "path \<Rightarrow> path \<Rightarrow> path \<Rightarrow> qmd_sidecar" where
  "new_sidecar sidecar db corpus =
     \<lparr>qs_node_bin = ''node'', qs_sidecar_path = sidecar, qs_db_path = db, qs_corpus_dir = corpus, qs_top_n = 8,
      qs_search_timeout = 15000, qs_index_timeout = 300000\<rparr>"

datatype sidecar_error = SidecarSpawn string | SidecarTimeout | SidecarNonZero string | SidecarIo string

fun degraded_by :: "sidecar_error \<Rightarrow> degraded_reason \<Rightarrow> degraded_reason" where
  "degraded_by (SidecarSpawn _) on_timeout = MissingBinary"
| "degraded_by SidecarTimeout on_timeout = on_timeout"
| "degraded_by (SidecarNonZero code) on_timeout = OtherReason (''qmd sidecar exited with '' @ code)"
| "degraded_by (SidecarIo e) on_timeout = OtherReason (''qmd sidecar io error: '' @ e)"

text \<open>A request of the sidecar, the JSON object of each run.\<close>

datatype sidecar_request = EmbedRequest path path | RetrieveRequest string nat path | StatusRequest path

definition corpus_file :: "qmd_sidecar \<Rightarrow> string \<Rightarrow> path" where
  "corpus_file c i = qs_corpus_dir c @ [corpus_stem i @ ''.md'']"

definition write_corpus :: "qmd_sidecar \<Rightarrow> index_doc list \<Rightarrow> memory_files \<Rightarrow> memory_files" where
  "write_corpus c docs fs =
     fold (\<lambda>d. put_file (corpus_file c (id_memory_id d)) (id_body d)) (filter (\<lambda>d. id_memory_id d \<noteq> []) docs)
       (filter (\<lambda>f. \<not> (butlast (fst f) = qs_corpus_dir c \<and> fst f \<noteq> [] \<and> extension (fst f) = Some ''md'')) fs)"

definition qmd_reindex ::
  "'v qmd_codec \<Rightarrow> (memory_files \<Rightarrow> sidecar_request \<Rightarrow> nat \<Rightarrow> sidecar_error + string) \<Rightarrow> qmd_sidecar \<Rightarrow> index_doc list
   \<Rightarrow> memory_files \<Rightarrow> memory_files \<times> memory_health" where
  "qmd_reindex q run c docs fs =
     (let fs' = write_corpus c docs fs
      in (fs', case run fs' (EmbedRequest (qs_db_path c) (qs_corpus_dir c)) (qs_index_timeout c) of
                 Inr stdout \<Rightarrow> parse_status_response q stdout
               | Inl e \<Rightarrow> DegradedIndex (degraded_by e StartupTimeout)))"

definition qmd_search ::
  "'v qmd_codec \<Rightarrow> (memory_files \<Rightarrow> sidecar_request \<Rightarrow> nat \<Rightarrow> sidecar_error + string) \<Rightarrow> qmd_sidecar \<Rightarrow> memory_files
   \<Rightarrow> string \<Rightarrow> search_outcome" where
  "qmd_search q run c fs query =
     (case run fs (RetrieveRequest query (qs_top_n c) (qs_db_path c)) (qs_search_timeout c) of
        Inr stdout \<Rightarrow> parse_qmd_response q stdout
      | Inl e \<Rightarrow> DegradedSearch (degraded_by e QueryTimeout))"

definition qmd_health ::
  "'v qmd_codec \<Rightarrow> (memory_files \<Rightarrow> sidecar_request \<Rightarrow> nat \<Rightarrow> sidecar_error + string) \<Rightarrow> qmd_sidecar \<Rightarrow> memory_files
   \<Rightarrow> memory_health" where
  "qmd_health q run c fs =
     (case run fs (StatusRequest (qs_db_path c)) (qs_search_timeout c) of
        Inr stdout \<Rightarrow> parse_status_response q stdout
      | Inl e \<Rightarrow> DegradedIndex (degraded_by e StartupTimeout))"

section \<open>The backend for tests\<close>

record fake_qmd =
  fq_corpus :: "index_doc list"
  fq_fault :: "degraded_reason option"

definition fake_health :: "fake_qmd \<Rightarrow> memory_health" where
  "fake_health f =
     (case fq_fault f of
        Some r \<Rightarrow> DegradedIndex r
      | None \<Rightarrow> if fq_corpus f = [] then DegradedIndex EmptyIndex else HealthyIndex (length (fq_corpus f)))"

definition fake_reindex :: "index_doc list \<Rightarrow> fake_qmd \<Rightarrow> fake_qmd \<times> memory_health" where
  "fake_reindex docs f =
     (let f' = (if fq_fault f = None then f\<lparr>fq_corpus := docs\<rparr> else f) in (f', fake_health f'))"

section \<open>Corpus names read back\<close>

lemma to_digit16_hex: "n < 16 \<Longrightarrow> to_digit16 (hex_digit n) = Some n"
proof -
  assume "n < 16"
  then have "n \<in> set [0..<16]" by simp
  moreover have "list_all (\<lambda>n. to_digit16 (hex_digit n) = Some n) [0..<16]"
    by (simp add: upt_conv_Cons to_digit16_def hex_digit_def)
  ultimately show ?thesis by (auto simp: list_all_iff)
qed

lemma stem_bytes_hex: "\<forall>b\<in>set bs. b < 256 \<Longrightarrow> stem_bytes (hex_of bs) = Some bs"
proof (induction bs)
  case (Cons b bs)
  then have "b div 16 < 16" "b mod 16 < 16" by auto
  with Cons show ?case by (simp add: hex_of_def hex2_def to_digit16_hex)
qed (simp add: hex_of_def)

lemma hex_digit_graphic: "ascii_graphic (hex_digit n) \<and> hex_digit n \<noteq> CHR ''/'' \<and> hex_digit n \<noteq> CHR ''.''" if "n < 16"
proof -
  have "n \<in> set [0..<16]" using that by simp
  moreover have "list_all (\<lambda>n. ascii_graphic (hex_digit n) \<and> hex_digit n \<noteq> CHR ''/'' \<and> hex_digit n \<noteq> CHR ''.'') [0..<16]"
    by (simp add: upt_conv_Cons ascii_graphic_def hex_digit_def char_of_def bit_0)
  ultimately show ?thesis by (auto simp: list_all_iff)
qed

lemma hex_of_graphic:
  assumes "\<forall>b\<in>set bs. b < 256" and "c \<in> set (hex_of bs)"
  shows "ascii_graphic c \<and> c \<noteq> CHR ''/'' \<and> c \<noteq> CHR ''.''"
proof -
  from assms(2) obtain b where b: "b \<in> set bs" "c = hex_digit (b div 16) \<or> c = hex_digit (b mod 16)"
    by (auto simp: hex_of_def hex2_def)
  have "b < 256" using assms(1) b(1) by blast
  then have "b div 16 < 16" "b mod 16 < 16" by (simp_all add: less_mult_imp_div_less)
  from hex_digit_graphic [OF this(1)] hex_digit_graphic [OF this(2)] b(2) show ?thesis by metis
qed

lemma bytes_of_bound: "\<forall>b\<in>set (bytes_of s). b < 256"
  by (auto simp: bytes_of_def)

lemma char_of_bytes [simp]: "map char_of (bytes_of s) = s"
  by (simp add: bytes_of_def comp_def)

lemma corpus_stem_inject: "corpus_stem i = corpus_stem j \<longleftrightarrow> i = j"
  using stem_bytes_hex [OF bytes_of_bound] by (metis bytes_of_inject corpus_stem_def option.inject)

lemma corpus_stem_Nil [simp]: "corpus_stem i = [] \<longleftrightarrow> i = []"
  by (metis bytes_of_def corpus_stem_def corpus_stem_inject hex_of_def concat.simps(1) list.simps(8))

lemma memory_id_from_corpus_stem: "i \<noteq> [] \<Longrightarrow> valid_utf8 (bytes_of i) \<Longrightarrow> memory_id_from_stem (corpus_stem i) = Some i"
  using stem_bytes_hex [OF bytes_of_bound, of i]
  by (simp add: memory_id_from_stem_def) (simp add: corpus_stem_def)

lemma after_last_dot_md: "after_last_dot (s @ ''.md'') = Some ''md''"
  by (induction s) simp_all

lemma split_on_mid: "split_on c (a @ c # b) = split_on c a @ split_on c b"
  by (induction a) (auto split: list.splits)

lemma map_of_put_file: "map_of (put_file p c fs) q = (if q = p then Some c else map_of fs q)"
proof (cases "q = p")
  case False
  then have "map_of (map (\<lambda>x. if fst x = p then (p, c) else x) fs) q = map_of fs q" by (induction fs) auto
  with False show ?thesis
    by (auto simp: put_file_def upsert_row_def map_add_def split: option.splits)
qed (simp add: put_file_lookup)

lemma map_of_put_files:
  "map_of (fold (\<lambda>d. put_file (f d) (g d)) ds fs) q
     = (case find (\<lambda>d. f d = q) (rev ds) of Some d \<Rightarrow> Some (g d) | None \<Rightarrow> map_of fs q)"
proof (induction ds rule: rev_induct)
  case (snoc d ds)
  then show ?case by (auto simp: map_of_put_file)
qed simp

lemma corpus_file_inject: "corpus_file c i = corpus_file c j \<longleftrightarrow> i = j"
  by (simp add: corpus_file_def corpus_stem_inject)

lemma find_in_filter: "(\<And>d. Q d \<Longrightarrow> R d) \<Longrightarrow> find Q (filter R ds) = find Q ds"
  by (induction ds) auto

lemma corpus_lookup:
  assumes "i \<noteq> []"
  shows "map_of (write_corpus c docs fs) (corpus_file c i) = map_option id_body (find (\<lambda>d. id_memory_id d = i) (rev docs))"
proof -
  let ?fs = "filter (\<lambda>f. \<not> (butlast (fst f) = qs_corpus_dir c \<and> fst f \<noteq> [] \<and> extension (fst f) = Some ''md'')) fs"
  have "extension (corpus_file c i) = Some ''md''"
    using assms corpus_stem_Nil [of i]
    by (cases "corpus_stem i") (simp_all add: extension_def file_name_def corpus_file_def after_last_dot_md)
  then have "corpus_file c i \<notin> fst ` set ?fs" by (force simp: corpus_file_def)
  then have "map_of ?fs (corpus_file c i) = None" by (simp add: map_of_eq_None_iff)
  moreover have "find (\<lambda>d. id_memory_id d = i) (rev (filter (\<lambda>d. id_memory_id d \<noteq> []) docs))
      = find (\<lambda>d. id_memory_id d = i) (rev docs)"
    using assms by (simp add: rev_filter) (rule find_in_filter, simp)
  ultimately show ?thesis
    by (simp add: write_corpus_def map_of_put_files corpus_file_inject split: option.splits)
qed

lemma corpus_path_reads:
  assumes "i \<noteq> []" and "valid_utf8 (bytes_of i)"
  shows "memory_id_from_path (dir @ ''/'' @ corpus_stem i @ ''.md'') = Some i"
proof -
  let ?s = "corpus_stem i"
  have plain: "\<forall>c\<in>set ?s. ascii_graphic c \<and> c \<noteq> CHR ''/'' \<and> c \<noteq> CHR ''.''"
    using hex_of_graphic [OF bytes_of_bound] by (auto simp: corpus_stem_def)
  obtain x xs where s: "?s = x # xs" using assms(1) corpus_stem_Nil [of i] by (cases ?s) auto
  have "split_on (CHR ''/'') (?s @ ''.md'') = [?s @ ''.md'']"
    using plain by (intro split_on_no_sep) auto
  then have "path_components (dir @ ''/'' @ ?s @ ''.md'') = path_components dir @ [?s @ ''.md'']"
    using split_on_mid [of "CHR ''/''" dir "?s @ ''.md''"] plain s by (auto simp: path_components_def)
  then have "file_stem (path_components (dir @ ''/'' @ ?s @ ''.md'')) = Some ?s"
    using plain s by (auto simp: file_stem_def file_name_def after_last_dot_md)
  moreover have "trim ?s = ?s" using plain s by (intro trim_graphic) auto
  ultimately show ?thesis
    using memory_id_from_corpus_stem [OF assms] by (simp add: memory_id_from_path_def)
qed

text \<open>
  C26: the search index holds the notes and its hits name them. After a reindex the corpus folder has for
  every identity the text of its last note, nothing of a note that is gone, and files elsewhere are as they
  were; distinct identities have distinct files; and the path of a file, below whatever folder, reads back
  as the identity it was written for.
\<close>

theorem corpus_is_the_index:
  assumes "i \<noteq> []" and "valid_utf8 (bytes_of i)"
  shows "map_of (fst (qmd_reindex q run c docs fs)) (corpus_file c i)
      = map_option id_body (find (\<lambda>d. id_memory_id d = i) (rev docs))
    \<and> memory_id_from_path (dir @ ''/'' @ corpus_stem i @ ''.md'') = Some i
    \<and> (corpus_file c i = corpus_file c j \<longleftrightarrow> i = j)
    \<and> (butlast p \<noteq> qs_corpus_dir c \<longrightarrow> map_of (fst (qmd_reindex q run c docs fs)) p = map_of fs p)"
proof -
  have "map_of (write_corpus c docs fs) p = map_of fs p" if "butlast p \<noteq> qs_corpus_dir c"
  proof -
    let ?keep = "\<lambda>f. \<not> (butlast (fst f) = qs_corpus_dir c \<and> fst f \<noteq> [] \<and> extension (fst f) = Some ''md'')"
    have "map_of (filter ?keep fs) p = map_of fs p" using that by (induction fs) auto
    moreover have none: "find (\<lambda>d. corpus_file c (id_memory_id d) = p) ds = None" for ds
      using that by (auto simp: find_None_iff corpus_file_def)
    ultimately show ?thesis unfolding write_corpus_def map_of_put_files none by simp
  qed
  with corpus_lookup [OF assms(1)] corpus_path_reads [OF assms] corpus_file_inject show ?thesis
    by (simp add: qmd_reindex_def Let_def)
qed

theorem corpus_is_the_index_witness:
  "memory_id_from_path (''col/'' @ corpus_stem ''mem_01'' @ ''.md'') = Some ''mem_01''"
proof -
  have "valid_utf8 (bytes_of ''mem_01'')" by (simp add: bytes_of_def)
  from corpus_is_the_index [where dir = "''col''", OF _ this, THEN conjunct2, THEN conjunct1] show ?thesis by simp
qed

text \<open>
  The documentation of \<open>memory_id_from_stem\<close> promises \<open>None\<close> for a stem that is not lowercase hex; a stem
  of uppercase hex is read as well.
\<close>

lemma uppercase_stem_reads: "memory_id_from_stem ''6D6A'' = Some ''mj''"
  by code_simp

section \<open>Search never fails a turn\<close>

lemma degraded_search_injects_nothing:
  "inject_from_search cs (DegradedSearch r) ctx limit = ([], True)"
  by (simp add: inject_from_search_def)

end
