(* ===== verification/Turn_Loop.thy ===== *)
theory Turn_Loop
  imports Session_Steps Container_Runtime Memory_Search
begin

text \<open>
  One session's run-loop: \<open>crates/assistant-host/src/run.rs\<close> with the errors of \<open>error.rs\<close> and the protocol
  check of \<open>crates/assistant-agent-protocol/src/protocol.rs\<close>. A turn enqueues the inbound message, makes
  sure a container is up, polls \<open>outbound.db\<close> and returns the replies to this message. What the container
  does between two polls is a function on the session folder, given with each poll beside the clock and
  the time elapsed; the container runtime and the OneCLI gateway are parameters, and so is the context
  block that a turn injects.
\<close>

section \<open>Configuration and errors\<close>

datatype host_error =
    HostSession session_error
  | HostSpawn spawn_error
  | HostOneCli string
  | HostRuntime string
  | HostProtocol string "string list"
  | ContainerDied
  | HostTimeout int

text \<open>Where a turn takes its memory from.\<close>

record memory_retrieval =
  mret_central_db :: path
  mret_group :: int
  mret_limit :: nat
  mret_groups_dir :: path
  mret_owner :: string
  mret_qmd :: "qmd_sidecar option"

record host_config =
  hc_image :: image_ref
  hc_allowed_roots :: "path list"
  hc_policy :: lifecycle_policy
  hc_poll_interval :: int
  hc_turn_timeout :: int
  hc_auth_mode :: runner_auth_mode
  hc_onecli :: onecli_readiness
  hc_onecli_agent :: string
  hc_onecli_ca_dir :: path
  hc_declared_protocol :: string
  hc_shim_supported :: "string list"
  hc_memory :: "memory_retrieval option"
  hc_extra_env :: "(string \<times> string) list"
  hc_workspace_dir :: "path option"
  hc_extra_volumes :: "string list"

text \<open>Durations are in milliseconds.\<close>

definition new_host_config :: "image_ref \<Rightarrow> path list \<Rightarrow> runner_auth_mode \<Rightarrow> onecli_readiness \<Rightarrow> host_config" where
  "new_host_config img roots mode onecli =
     \<lparr>hc_image = img, hc_allowed_roots = roots, hc_policy = \<lparr>idle_after = 60000, stale_after = 300000\<rparr>,
      hc_poll_interval = 250, hc_turn_timeout = 120000, hc_auth_mode = mode, hc_onecli = onecli,
      hc_onecli_agent = [], hc_onecli_ca_dir = [], hc_declared_protocol = ''0.1.0'', hc_shim_supported = [''0.1.0''],
      hc_memory = None, hc_extra_env = [], hc_workspace_dir = None, hc_extra_volumes = []\<rparr>"

definition with_workspace :: "path \<Rightarrow> host_config \<Rightarrow> host_config" where
  "with_workspace dir c =
     c\<lparr>hc_allowed_roots := hc_allowed_roots c @ [dir], hc_workspace_dir := Some dir\<rparr>"

definition with_memory :: "path \<Rightarrow> int \<Rightarrow> nat \<Rightarrow> path \<Rightarrow> string \<Rightarrow> host_config \<Rightarrow> host_config" where
  "with_memory central g limit groups_dir owner c =
     c\<lparr>hc_memory := Some \<lparr>mret_central_db = central, mret_group = g, mret_limit = limit, mret_groups_dir = groups_dir,
         mret_owner = owner, mret_qmd = None\<rparr>\<rparr>"

definition with_qmd_sidecar :: "qmd_sidecar \<Rightarrow> host_config \<Rightarrow> host_config" where
  "with_qmd_sidecar sc c = c\<lparr>hc_memory := map_option (\<lambda>m. m\<lparr>mret_qmd := Some sc\<rparr>) (hc_memory c)\<rparr>"

definition with_onecli_agent :: "string \<Rightarrow> path \<Rightarrow> host_config \<Rightarrow> host_config" where
  "with_onecli_agent agent ca_dir c = c\<lparr>hc_onecli_agent := agent, hc_onecli_ca_dir := ca_dir\<rparr>"

text \<open>What the loop takes from outside: the gateway query and the container runtime.\<close>

record runtime_env =
  rt_gateway :: "path \<Rightarrow> string \<Rightarrow> spawn_spec \<Rightarrow> string + spawn_spec"
  rt_spawn :: "spawn_spec \<Rightarrow> string + string"

record host =
  h_dir :: path
  h_container :: "string option"
  h_last_delivered :: int
  h_started :: bool

definition new_host :: "path \<Rightarrow> host" where
  "new_host dir = \<lparr>h_dir = dir, h_container = None, h_last_delivered = 0, h_started = False\<rparr>"

definition check_runner_protocol :: "string \<Rightarrow> string list \<Rightarrow> host_error + unit" where
  "check_runner_protocol declared supported =
     (if declared \<in> set supported then Inr () else Inl (HostProtocol declared supported))"

section \<open>Starting\<close>

text \<open>A write is tried up to five times through SQLite errors.\<close>

fun retry_loop :: "nat \<Rightarrow> (session \<Rightarrow> session \<times> (session_error + 'a)) \<Rightarrow> session \<Rightarrow> session \<times> (session_error + 'a)" where
  "retry_loop 0 op s = op s"
| "retry_loop (Suc n) op s =
     (case op s of
        (s', Inl SessionSqlite) \<Rightarrow> retry_loop n op s'
      | r \<Rightarrow> r)"

definition retry_transient :: "(session \<Rightarrow> session \<times> (session_error + 'a)) \<Rightarrow> session \<Rightarrow> session \<times> (session_error + 'a)" where
  "retry_transient = retry_loop 4"

definition ensure_started :: "session_env \<Rightarrow> string \<Rightarrow> host \<Rightarrow> session \<Rightarrow> (host \<times> session) \<times> (host_error + unit)" where
  "ensure_started env now h s =
     (if h_started h then ((h, s), Inr ())
      else
        (case retry_transient (if session_exists s then migrate_session env else init_session env now) s of
           (s1, Inl e) \<Rightarrow> ((h, s1), Inl (HostSession e))
         | (s1, Inr _) \<Rightarrow>
             (case retry_transient (max_delivered_seq env) s1 of
                (s2, Inl e) \<Rightarrow> ((h, s2), Inl (HostSession e))
              | (s2, Inr w) \<Rightarrow> ((h\<lparr>h_last_delivered := w, h_started := True\<rparr>, s2), Inr ()))))"

definition session_name :: "host \<Rightarrow> string" where
  "session_name h = (case file_name (h_dir h) of None \<Rightarrow> ''session'' | Some n \<Rightarrow> n)"

definition container_name :: "host_config \<Rightarrow> host \<Rightarrow> string" where
  "container_name c h = hc_onecli_agent c @ ''-'' @ session_name h"

definition spawn_mounts :: "host_config \<Rightarrow> host \<Rightarrow> mount list" where
  "spawn_mounts c h =
     build_session_mounts
       \<lparr>sp_inbound_db = db_path (h_dir h) Inbound, sp_outbound_db = db_path (h_dir h) Outbound,
        sp_heartbeat = heartbeat_path (h_dir h), sp_inbox_dir = inbox_dir (h_dir h), sp_outbox_dir = outbox_dir (h_dir h)\<rparr>
       None
     @ (case hc_workspace_dir c of None \<Rightarrow> [] | Some d \<Rightarrow> [read_write_mount d container_workspace])"

definition spawn_container :: "runtime_env \<Rightarrow> host_config \<Rightarrow> host \<Rightarrow> host_error + string" where
  "spawn_container rt c h =
     rbind (map_err HostSpawn (prepare_spawn (container_name c h) (hc_image c) (spawn_mounts c h) (hc_allowed_roots c)
              current_outbound_version (1, current_outbound_version) (hc_auth_mode c) (hc_onecli c))) (\<lambda>spec0.
     rbind (if hc_auth_mode c = ClaudeOAuth \<or> hc_auth_mode c = Specialist
            then map_err HostOneCli (rt_gateway rt (hc_onecli_ca_dir c) (hc_onecli_agent c) spec0) else Inr spec0) (\<lambda>spec1.
       let spec2 = spec1\<lparr>spec_volumes := spec_volumes spec1 @ hc_extra_volumes c,
                         spec_env := spec_env spec1 @ hc_extra_env c
                           @ (if hc_workspace_dir c \<noteq> None then [(''WORKSPACE'', ''/workspace'')] else [])\<rparr>
       in map_err HostRuntime (rt_spawn rt spec2)))"

definition ensure_spawned ::
  "runtime_env \<Rightarrow> host_config \<Rightarrow> int \<Rightarrow> host \<Rightarrow> session \<Rightarrow> (host \<times> session) \<times> (host_error + unit)" where
  "ensure_spawned rt c clock h s =
     (if h_container h \<noteq> None then ((h, s), Inr ())
      else
        (case check_runner_protocol (hc_declared_protocol c) (hc_shim_supported c) of
           Inl e \<Rightarrow> ((h, s), Inl e)
         | Inr _ \<Rightarrow>
             (let s1 = touch_heartbeat clock s
              in case spawn_container rt c h of
                   Inl e \<Rightarrow> ((h, s1), Inl e)
                 | Inr i \<Rightarrow> ((h\<lparr>h_container := Some i\<rparr>, s1), Inr ()))))"

section \<open>The poll loop\<close>

record tick =
  tk_clock :: int
  tk_elapsed :: int
  tk_act :: "session \<Rightarrow> session"

definition since_heartbeat :: "int \<Rightarrow> session \<Rightarrow> int option" where
  "since_heartbeat clock s = map_option (\<lambda>modified. if modified \<le> clock then clock - modified else 0) (heartbeat s)"

definition reap_for_respawn :: "host \<Rightarrow> session \<Rightarrow> host \<times> session" where
  "reap_for_respawn h s = (h\<lparr>h_container := None\<rparr>, s\<lparr>heartbeat := None\<rparr>)"

definition read_replies :: "session \<Rightarrow> host_error + out_msg list" where
  "read_replies s =
     (case read_outbound current_outbound_compat s of
        Inr ms \<Rightarrow> Inr ms
      | Inl SessionSqlite \<Rightarrow> Inr []
      | Inl e \<Rightarrow> Inl (HostSession e))"

fun mark_all ::
  "session_env \<Rightarrow> string \<Rightarrow> out_msg list \<Rightarrow> host \<Rightarrow> session \<Rightarrow> (host \<times> session) \<times> (host_error + unit)" where
  "mark_all env now [] h s = ((h, s), Inr ())"
| "mark_all env now (m # ms) h s =
     (case retry_transient (mark_delivered env now (om_seq m)) s of
        (s', Inl e) \<Rightarrow> ((h, s'), Inl (HostSession e))
      | (s', Inr _) \<Rightarrow> mark_all env now ms (h\<lparr>h_last_delivered := max (h_last_delivered h) (om_seq m)\<rparr>) s')"

fun await_reply ::
  "session_env \<Rightarrow> host_config \<Rightarrow> string \<Rightarrow> int \<Rightarrow> tick list \<Rightarrow> host \<Rightarrow> session
   \<Rightarrow> ((host \<times> session) \<times> (host_error + out_msg list)) option" where
  "await_reply env c now in_seq [] h s = None"
| "await_reply env c now in_seq (t # ts) h s =
     (let s1 = tk_act t s
      in if classify_container (since_heartbeat (tk_clock t) s1) (hc_policy c) = RtStale
         then Some (reap_for_respawn h s1, Inl ContainerDied)
         else
           (case read_replies s1 of
              Inl e \<Rightarrow> Some ((h, s1), Inl e)
            | Inr messages \<Rightarrow>
                (let unseen = filter (\<lambda>m. om_seq m > h_last_delivered h) messages
                 in case mark_all env now unseen h s1 of
                      (hs, Inl e) \<Rightarrow> Some (hs, Inl e)
                    | ((h2, s2), Inr _) \<Rightarrow>
                        (let mine = filter (\<lambda>m. om_in_seq m = Some in_seq) unseen
                         in if mine \<noteq> [] then Some ((h2, s2), Inr mine)
                            else if hc_turn_timeout c \<le> tk_elapsed t
                            then Some ((h2, s2), Inl (HostTimeout (hc_turn_timeout c div 1000)))
                            else await_reply env c now in_seq ts h2 s2))))"

definition enrich :: "string option \<Rightarrow> inbound_message \<Rightarrow> inbound_message" where
  "enrich block m =
     (if msg_metadata m \<noteq> None then m
      else (case block of None \<Rightarrow> m | Some b \<Rightarrow> m\<lparr>msg_metadata := Some b\<rparr>))"

definition run_turn_keyed ::
  "session_env \<Rightarrow> runtime_env \<Rightarrow> host_config \<Rightarrow> string \<Rightarrow> int \<Rightarrow> string option \<Rightarrow> inbound_message \<Rightarrow> string option
   \<Rightarrow> tick list \<Rightarrow> host \<Rightarrow> session \<Rightarrow> ((host \<times> session) \<times> (host_error + out_msg list)) option" where
  "run_turn_keyed env rt c now clock block m key ticks h s =
     (case ensure_started env now h s of
        (hs, Inl e) \<Rightarrow> Some (hs, Inl e)
      | ((h1, s1), Inr _) \<Rightarrow>
          (case retry_transient (enqueue_inbound_keyed env now (enrich block m) key) s1 of
             (s2, Inl e) \<Rightarrow> Some ((h1, s2), Inl (HostSession e))
           | (s2, Inr in_seq) \<Rightarrow>
               (case ensure_spawned rt c clock h1 s2 of
                  (hs, Inl e) \<Rightarrow> Some (hs, Inl e)
                | ((h3, s3), Inr _) \<Rightarrow> await_reply env c now in_seq ticks h3 s3)))"

definition run_turn ::
  "session_env \<Rightarrow> runtime_env \<Rightarrow> host_config \<Rightarrow> string \<Rightarrow> int \<Rightarrow> string option \<Rightarrow> inbound_message
   \<Rightarrow> tick list \<Rightarrow> host \<Rightarrow> session \<Rightarrow> ((host \<times> session) \<times> (host_error + out_msg list)) option" where
  "run_turn env rt c now clock block m = run_turn_keyed env rt c now clock block m None"

definition shutdown_host :: "(string \<Rightarrow> string + unit) \<Rightarrow> host \<Rightarrow> host \<times> (host_error + unit)" where
  "shutdown_host stop h =
     (h\<lparr>h_container := None\<rparr>,
      (case h_container h of None \<Rightarrow> Inr () | Some i \<Rightarrow> map_err HostRuntime (stop i)))"

section \<open>Laws\<close>

definition evolves :: "session \<Rightarrow> session \<Rightarrow> bool" where
  "evolves s s' \<longleftrightarrow> session_wf s' \<and> in_extends (in_rows s) (in_rows s')"

definition delivered_seqs :: "session \<Rightarrow> int set" where
  "delivered_seqs s = fst ` set (delivered (in_rows s))"

lemma evolves_refl: "session_wf s \<Longrightarrow> evolves s s"
  by (simp add: evolves_def)

lemma evolves_trans: "evolves s s1 \<Longrightarrow> evolves s1 s2 \<Longrightarrow> evolves s s2"
  unfolding evolves_def using in_extends_trans by blast

lemma evolves_delivered: "evolves s s' \<Longrightarrow> delivered_seqs s \<subseteq> delivered_seqs s'"
  by (simp add: evolves_def in_extends_def delivered_seqs_def)

lemma evolves_heartbeat [simp]: "evolves s (s'\<lparr>heartbeat := b\<rparr>) = evolves s s'"
  by (simp add: evolves_def session_wf_def in_rows_def out_rows_def)

lemma steps_evolve: "additive_env env \<Longrightarrow> session_wf s \<Longrightarrow> session_steps env s s' \<Longrightarrow> evolves s s'"
  unfolding evolves_def by (rule session_steps_keep)

definition host_op :: "session_env \<Rightarrow> (session \<Rightarrow> session \<times> (session_error + 'a)) \<Rightarrow> bool" where
  "host_op env op \<longleftrightarrow> (\<forall>s. session_step env s (fst (op s)))"

lemma host_ops:
  "host_op env (init_session env now)" "host_op env (migrate_session env)" "host_op env (max_delivered_seq env)"
  "host_op env (mark_delivered env now n)" "host_op env (enqueue_inbound_keyed env now m key)"
  unfolding host_op_def
  by (metis prod.collapse step_init step_migrate step_max_delivered step_delivered step_enqueue)+

lemma retry_loop_steps:
  assumes "host_op env op"
  shows "retry_loop n op s = (s', r) \<Longrightarrow> session_steps env s s' \<and>
    (\<forall>x. r = Inr x \<longrightarrow> (\<exists>s0. session_steps env s s0 \<and> op s0 = (s', Inr x)))"
proof (induction n arbitrary: s)
  case 0
  then have "op s = (s', r)" by simp
  moreover have "session_step env s s'" using assms calculation unfolding host_op_def by (metis fst_conv)
  ultimately show ?case by blast
next
  case (Suc n)
  obtain s1 r1 where op: "op s = (s1, r1)" by fastforce
  then have step: "session_step env s s1" using assms unfolding host_op_def by (metis fst_conv)
  show ?case
  proof (cases "r1 = Inl SessionSqlite")
    case True
    with op Suc.prems have "retry_loop n op s1 = (s', r)" by simp
    note ih = Suc.IH [OF this]
    then have "session_steps env s s'" using step by (meson converse_rtranclp_into_rtranclp)
    moreover have "\<exists>s0. session_steps env s s0 \<and> op s0 = (s', Inr x)" if "r = Inr x" for x
    proof -
      from ih that obtain s0 where "session_steps env s1 s0" "op s0 = (s', Inr x)" by blast
      with step show ?thesis by (meson converse_rtranclp_into_rtranclp)
    qed
    ultimately show ?thesis by blast
  next
    case False
    with op Suc.prems have "(s', r) = (s1, r1)" by (auto split: sum.splits session_error.splits)
    with op step show ?thesis by auto
  qed
qed

lemma retry_evolves:
  assumes "host_op env op" "additive_env env" "session_wf s" "retry_transient op s = (s', r)"
  shows "evolves s s'"
  using retry_loop_steps [OF assms(1), of 4 s s' r] steps_evolve [OF assms(2,3)] assms(4)
  by (simp add: retry_transient_def)

lemma retry_result:
  assumes "host_op env op" "additive_env env" "session_wf s" "retry_transient op s = (s', Inr x)"
  obtains s0 where "evolves s s0" "op s0 = (s', Inr x)"
proof -
  from retry_loop_steps [OF assms(1), of 4 s s' "Inr x"] assms(4)
  obtain s0 where "session_steps env s s0" "op s0 = (s', Inr x)"
    by (auto simp: retry_transient_def)
  with steps_evolve [OF assms(2,3)] that show ?thesis by blast
qed

lemma mark_delivered_marks:
  assumes "additive_env env" and "mark_delivered env now n s = (s', Inr u)"
  shows "n \<in> delivered_seqs s'"
  using assms(2) unfolding mark_delivered_def delivered_seqs_def
  by (cases rule: with_inbound_cases [OF assms(1)]) (auto simp: upsert_row_keys dest!: sym [of _ "in_rows s'"])

lemma max_delivered_bound:
  assumes "additive_env env" and "max_delivered_seq env s = (s', Inr w)" and "n \<in> delivered_seqs s'"
  shows "n \<le> w"
proof -
  have w: "w = (case max_of (map fst (delivered (in_rows s'))) of None \<Rightarrow> 0 | Some m \<Rightarrow> m)"
    using assms(2) unfolding max_delivered_seq_def
    by (cases rule: with_inbound_cases [OF assms(1)]) auto
  from assms(3) have n: "n \<in> set (map fst (delivered (in_rows s')))" by (auto simp: delivered_seqs_def)
  then obtain m where m: "max_of (map fst (delivered (in_rows s'))) = Some m"
    by (cases "max_of (map fst (delivered (in_rows s')))") auto
  with max_of_Some [OF m] n show ?thesis by (auto simp: w)
qed

lemma read_replies_sorted:
  assumes "read_replies s = Inr ms" and "session_wf s"
  shows "sorted_wrt (<) (map om_seq ms)" and "set ms \<subseteq> set (messages_out (out_rows s))"
proof -
  from assms(1) have "ms = [] \<or> ms = sort_key om_seq (messages_out (out_rows s))"
    by (auto simp: read_replies_def dest: read_outbound_rows split: sum.splits session_error.splits)
  moreover have "distinct (map om_seq (sort_key om_seq (messages_out (out_rows s))))"
    using assms(2) by (simp add: session_wf_def out_wf_def primary_key_def distinct_map)
  ultimately show "sorted_wrt (<) (map om_seq ms)" "set ms \<subseteq> set (messages_out (out_rows s))"
    by (auto simp: strict_sorted_iff)
qed

lemma mark_all_spec:
  assumes "additive_env env"
  shows "session_wf s \<Longrightarrow> mark_all env now ms h s = ((h', s'), r) \<Longrightarrow>
    evolves s s' \<and> h_last_delivered h \<le> h_last_delivered h' \<and> h_started h' = h_started h
    \<and> (is_ok r \<longrightarrow> (\<forall>m\<in>set ms. om_seq m \<in> delivered_seqs s' \<and> om_seq m \<le> h_last_delivered h'))"
proof (induction ms arbitrary: h s)
  case Nil
  then show ?case by (simp add: evolves_refl)
next
  case (Cons m ms)
  obtain s1 q where q: "retry_transient (mark_delivered env now (om_seq m)) s = (s1, q)" by fastforce
  have ev: "evolves s s1" by (rule retry_evolves [OF host_ops(4) assms Cons.prems(1) q])
  then have wf1: "session_wf s1" by (simp add: evolves_def)
  show ?case
  proof (cases q)
    case (Inl e)
    with Cons.prems(2) q ev show ?thesis by auto
  next
    case (Inr u)
    obtain s0 where "mark_delivered env now (om_seq m) s0 = (s1, Inr u)"
      by (rule retry_result [OF host_ops(4) assms Cons.prems(1) q [unfolded Inr]])
    then have mem: "om_seq m \<in> delivered_seqs s1" by (rule mark_delivered_marks [OF assms])
    define h1 where "h1 = h\<lparr>h_last_delivered := max (h_last_delivered h) (om_seq m)\<rparr>"
    have "mark_all env now ms h1 s1 = ((h', s'), r)" using Cons.prems(2) q Inr by (simp add: h1_def)
    from Cons.IH [OF wf1 this] ev mem evolves_delivered [of s1 s'] show ?thesis
      by (auto simp: h1_def intro: evolves_trans)
  qed
qed

section \<open>Replies over the life of a session\<close>

text \<open>What the container does at the polls is any number of steps on the session's folder.\<close>

definition ticks_act :: "session_env \<Rightarrow> tick list \<Rightarrow> bool" where
  "ticks_act env ts \<longleftrightarrow> (\<forall>t\<in>set ts. \<forall>s. session_steps env s (tk_act t s))"

definition replies_to :: "int \<Rightarrow> host \<Rightarrow> host \<Rightarrow> session \<Rightarrow> out_msg list \<Rightarrow> bool" where
  "replies_to in_seq h h' s' ms \<longleftrightarrow> ms \<noteq> [] \<and> sorted_wrt (<) (map om_seq ms)
     \<and> (\<forall>m\<in>set ms. om_in_seq m = Some in_seq \<and> h_last_delivered h < om_seq m
          \<and> om_seq m \<in> delivered_seqs s' \<and> om_seq m \<le> h_last_delivered h')"

lemma replies_to_earlier: "replies_to i h2 h' s' ms \<Longrightarrow> h_last_delivered h \<le> h_last_delivered h2 \<Longrightarrow> replies_to i h h' s' ms"
  by (fastforce simp: replies_to_def)

lemma sorted_wrt_map_filter: "sorted_wrt R (map f xs) \<Longrightarrow> sorted_wrt R (map f (filter P xs))"
  by (induction xs) auto

lemma await_reply_spec:
  assumes "additive_env env"
  shows "ticks_act env ts \<Longrightarrow> session_wf s \<Longrightarrow> await_reply env c now in_seq ts h s = Some ((h', s'), r) \<Longrightarrow>
    evolves s s' \<and> h_last_delivered h \<le> h_last_delivered h' \<and> h_started h' = h_started h
    \<and> (\<forall>ms. r = Inr ms \<longrightarrow> replies_to in_seq h h' s' ms)"
proof (induction ts arbitrary: h s)
  case (Cons t ts)
  define s1 where "s1 = tk_act t s"
  have ev1: "evolves s s1"
    using steps_evolve [OF assms Cons.prems(2)] Cons.prems(1) by (simp add: ticks_act_def s1_def)
  then have wf1: "session_wf s1" by (simp add: evolves_def)
  show ?case
  proof (cases "classify_container (since_heartbeat (tk_clock t) s1) (hc_policy c) = RtStale")
    case True
    with Cons.prems(3) ev1 show ?thesis by (auto simp: s1_def Let_def reap_for_respawn_def)
  next
    case alive: False
    show ?thesis
    proof (cases "read_replies s1")
      case (Inl e)
      with alive Cons.prems(3) ev1 show ?thesis by (auto simp: s1_def Let_def)
    next
      case (Inr messages)
      define unseen where "unseen = filter (\<lambda>m. om_seq m > h_last_delivered h) messages"
      obtain h2 s2 q where q: "mark_all env now unseen h s1 = ((h2, s2), q)" by (metis prod.exhaust)
      note marked = mark_all_spec [OF assms wf1 q]
      then have ev2: "evolves s s2" using ev1 evolves_trans by blast
      have sorted: "sorted_wrt (<) (map om_seq unseen)"
        unfolding unseen_def by (rule sorted_wrt_map_filter [OF read_replies_sorted(1) [OF Inr wf1]])
      show ?thesis
      proof (cases q)
        case (Inl e)
        with alive Inr q Cons.prems(3) ev2 marked show ?thesis by (auto simp: s1_def Let_def unseen_def)
      next
        case ok: (Inr u)
        define mine where "mine = filter (\<lambda>m. om_in_seq m = Some in_seq) unseen"
        have res: "(if mine \<noteq> [] then Some ((h2, s2), Inr mine)
            else if hc_turn_timeout c \<le> tk_elapsed t then Some ((h2, s2), Inl (HostTimeout (hc_turn_timeout c div 1000)))
            else await_reply env c now in_seq ts h2 s2) = Some ((h', s'), r)"
          using alive Inr q ok Cons.prems(3) by (simp add: s1_def Let_def unseen_def mine_def split del: if_split cong: if_cong)
        show ?thesis
        proof (cases "mine = []")
          case False
          then have "(h', s') = (h2, s2)" "r = Inr mine" using res by auto
          moreover have "replies_to in_seq h h2 s2 mine"
            using False marked ok sorted sorted_wrt_map_filter [OF sorted]
            by (auto simp: replies_to_def mine_def unseen_def)
          ultimately show ?thesis using ev2 marked by auto
        next
          case True
          show ?thesis
          proof (cases "hc_turn_timeout c \<le> tk_elapsed t")
            case True
            with \<open>mine = []\<close> res ev2 marked show ?thesis by auto
          next
            case False
            with True res have rest: "await_reply env c now in_seq ts h2 s2 = Some ((h', s'), r)" by simp
            have "ticks_act env ts" "session_wf s2" using Cons.prems(1) ev2 by (auto simp: ticks_act_def evolves_def)
            note ih = Cons.IH [OF this rest]
            then have "evolves s s'" using ev2 evolves_trans by blast
            moreover have "replies_to in_seq h h' s' ms" if "r = Inr ms" for ms
              using ih that marked replies_to_earlier by blast
            ultimately show ?thesis using ih marked by simp
          qed
        qed
      qed
    qed
  qed
qed simp

lemma ensure_started_spec:
  assumes "additive_env env" and "session_wf s" and "ensure_started env now h s = ((h', s'), r)"
  shows "evolves s s' \<and> (h_started h \<longrightarrow> h' = h) \<and>
    (is_ok r \<longrightarrow> h_started h' \<and> (\<not> h_started h \<longrightarrow> (\<forall>n\<in>delivered_seqs s. n \<le> h_last_delivered h')))
    \<and> (\<not> is_ok r \<longrightarrow> h' = h)"
proof (cases "h_started h")
  case True
  with assms show ?thesis by (auto simp: ensure_started_def intro: evolves_refl)
next
  case False
  define op where "op = (if session_exists s then migrate_session env else init_session env now)"
  have "host_op env op" by (simp add: op_def host_ops)
  obtain s1 q where q: "retry_transient op s = (s1, q)" by fastforce
  have ev1: "evolves s s1" by (rule retry_evolves [OF \<open>host_op env op\<close> assms(1,2) q])
  then have wf1: "session_wf s1" by (simp add: evolves_def)
  show ?thesis
  proof (cases q)
    case (Inl e)
    with False q assms(3) ev1 show ?thesis by (auto simp: ensure_started_def op_def)
  next
    case (Inr u)
    obtain s2 w where w: "retry_transient (max_delivered_seq env) s1 = (s2, w)" by fastforce
    have ev2: "evolves s1 s2" by (rule retry_evolves [OF host_ops(3) assms(1) wf1 w])
    show ?thesis
    proof (cases w)
      case inl: (Inl e)
      with False q Inr w assms(3) ev1 ev2 show ?thesis
        by (auto simp: ensure_started_def op_def intro: evolves_trans)
    next
      case inr: (Inr n)
      obtain s0 where "max_delivered_seq env s0 = (s2, Inr n)"
        by (rule retry_result [OF host_ops(3) assms(1) wf1 w [unfolded inr]])
      then have "\<forall>k\<in>delivered_seqs s2. k \<le> n" using max_delivered_bound [OF assms(1)] by blast
      moreover have "evolves s s2" using ev1 ev2 by (rule evolves_trans)
      ultimately show ?thesis
        using False q Inr w inr assms(3) evolves_delivered [of s s2] by (auto simp: ensure_started_def op_def)
    qed
  qed
qed

lemma ensure_spawned_spec:
  "session_wf s \<Longrightarrow> ensure_spawned rt c clock h s = ((h', s'), r) \<Longrightarrow>
   evolves s s' \<and> h_last_delivered h' = h_last_delivered h \<and> h_started h' = h_started h"
  by (auto simp: ensure_spawned_def Let_def touch_heartbeat_def evolves_refl split: sum.splits if_splits)

lemma enqueued_key:
  assumes "additive_env env" and "enqueue_inbound_keyed env now m (Some k) s = (s', Inr n)"
  shows "seq_of_key k (in_rows s') = Some n"
  using assms(2) unfolding enqueue_inbound_keyed_def
  by (cases rule: with_inbound_cases [OF assms(1)]) (auto dest: enqueue_rows_found)

text \<open>
  The row a turn enqueued its message as: under a key it is the first row of the key, else a row that was
  not there before the turn and holds the message.
\<close>

definition own_row :: "inbound_message \<Rightarrow> string option \<Rightarrow> session \<Rightarrow> session \<Rightarrow> int \<Rightarrow> bool" where
  "own_row m key s s' in_seq \<longleftrightarrow>
     (case key of
        Some k \<Rightarrow> seq_of_key k (in_rows s') = Some in_seq
      | None \<Rightarrow> in_seq \<notin> im_seq ` set (messages_in (in_rows s))
          \<and> (\<exists>r\<in>set (messages_in (in_rows s')). im_seq r = in_seq \<and> im_key r = None
                \<and> im_sender r = msg_sender m \<and> im_content r = msg_content m))"

lemma own_row_extends:
  assumes "own_row m key s0 s1 n" and "in_extends (in_rows s) (in_rows s0)" and "in_extends (in_rows s1) (in_rows s')"
  shows "own_row m key s s' n"
proof (cases key)
  case None
  with assms(1) have n: "n \<notin> im_seq ` set (messages_in (in_rows s0))"
    and row: "\<exists>r\<in>set (messages_in (in_rows s1)). im_seq r = n \<and> im_key r = None
      \<and> im_sender r = msg_sender m \<and> im_content r = msg_content m"
    by (auto simp: own_row_def)
  have "im_seq ` set (messages_in (in_rows s)) \<subseteq> im_seq ` set (messages_in (in_rows s0))"
    using assms(2) by (simp add: in_extends_def)
  with n have "n \<notin> im_seq ` set (messages_in (in_rows s))" by blast
  moreover have "\<forall>r\<in>set (messages_in (in_rows s1)). im_key r = None \<longrightarrow> r \<in> set (messages_in (in_rows s'))"
    using assms(3) by (simp add: in_extends_def)
  ultimately show ?thesis using row None by (auto simp: own_row_def)
qed (use assms in \<open>auto simp: own_row_def in_extends_def\<close>)

lemma enqueued_own_row:
  assumes "additive_env env" and "enqueue_inbound_keyed env now (enrich block m) key s = (s', Inr n)"
  shows "own_row m key s s' n"
proof (cases key)
  case None
  have m: "msg_sender (enrich block m) = msg_sender m" "msg_content (enrich block m) = msg_content m"
    by (auto simp: enrich_def split: option.splits)
  from assms(2) None show ?thesis
    unfolding enqueue_inbound_keyed_def
    by (cases rule: with_inbound_cases [OF assms(1)])
      (use enqueue_rows_new [of now "enrich block m" "in_rows s" "in_rows s'" n] in \<open>auto simp: own_row_def m\<close>)
next
  case (Some k)
  with assms enqueued_key show ?thesis by (simp add: own_row_def)
qed

lemma run_turn_spec:
  assumes "additive_env env" and "session_wf s" and "ticks_act env ticks"
    and run: "run_turn_keyed env rt c now clock block m key ticks h s = Some ((h', s'), r)"
  shows "evolves s s' \<and> (h_started h \<longrightarrow> h_last_delivered h \<le> h_last_delivered h')
    \<and> (h_started h' \<longrightarrow> \<not> h_started h \<longrightarrow> (\<forall>n\<in>delivered_seqs s. n \<le> h_last_delivered h'))
    \<and> (h_started h \<longrightarrow> h_started h')
    \<and> (\<forall>ms. r = Inr ms \<longrightarrow> h_started h' \<and> (\<exists>in_seq h1. replies_to in_seq h1 h' s' ms
         \<and> (if h_started h then h_last_delivered h1 = h_last_delivered h
            else \<forall>n\<in>delivered_seqs s. n \<le> h_last_delivered h1)
         \<and> own_row m key s s' in_seq))"
proof -
  obtain h1 s1 q1 where st: "ensure_started env now h s = ((h1, s1), q1)" by (metis prod.exhaust)
  note started = ensure_started_spec [OF assms(1,2) st]
  have wf1: "session_wf s1" using started by (simp add: evolves_def)
  show ?thesis
  proof (cases q1)
    case (Inl e)
    with st run started show ?thesis by (auto simp: run_turn_keyed_def)
  next
    case ok1: (Inr u)
    obtain s2 q2 where enq: "retry_transient (enqueue_inbound_keyed env now (enrich block m) key) s1 = (s2, q2)" by fastforce
    have ev12: "evolves s1 s2" by (rule retry_evolves [OF host_ops(5) assms(1) wf1 enq])
    have ev2: "evolves s s2" using started ev12 evolves_trans by blast
    have wf2: "session_wf s2" using ev2 by (simp add: evolves_def)
    show ?thesis
    proof (cases q2)
      case (Inl e)
      with st ok1 enq run started ev2 show ?thesis by (auto simp: run_turn_keyed_def)
    next
      case ok2: (Inr n)
      obtain s0 where ev0: "evolves s1 s0" and enq0: "enqueue_inbound_keyed env now (enrich block m) key s0 = (s2, Inr n)"
        by (rule retry_result [OF host_ops(5) assms(1) wf1 enq [unfolded ok2]])
      from assms(1) enq0 have own: "own_row m key s0 s2 n" by (rule enqueued_own_row)
      obtain h3 s3 q3 where sp: "ensure_spawned rt c clock h1 s2 = ((h3, s3), q3)" by (metis prod.exhaust)
      note spawned = ensure_spawned_spec [OF wf2 sp]
      then have ev3: "evolves s s3" using ev2 evolves_trans by blast
      have wf3: "session_wf s3" using ev3 by (simp add: evolves_def)
      show ?thesis
      proof (cases q3)
        case (Inl e)
        with st ok1 enq ok2 sp run started spawned ev3 show ?thesis by (auto simp: run_turn_keyed_def)
      next
        case ok3: (Inr u')
        have aw: "await_reply env c now n ticks h3 s3 = Some ((h', s'), r)"
          using st ok1 enq ok2 sp ok3 run by (simp add: run_turn_keyed_def)
        note waited = await_reply_spec [OF assms(1,3) wf3 aw]
        then have ev: "evolves s s'" using ev3 evolves_trans by blast
        have "evolves s2 s'" using spawned waited evolves_trans by blast
        moreover have "evolves s s0" using started ev0 evolves_trans by blast
        ultimately have own': "own_row m key s s' n"
          using own own_row_extends by (simp add: evolves_def)
        have last3: "h_last_delivered h3 = h_last_delivered h1" using spawned by simp
        have from3: "if h_started h then h_last_delivered h3 = h_last_delivered h
            else \<forall>k\<in>delivered_seqs s. k \<le> h_last_delivered h3"
          using started ok1 last3 by auto
        have st': "h_started h'" using started ok1 spawned waited by simp
        have le': "h_last_delivered h3 \<le> h_last_delivered h'" using waited by simp
        have "\<exists>in_seq h1. replies_to in_seq h1 h' s' ms
         \<and> (if h_started h then h_last_delivered h1 = h_last_delivered h
            else \<forall>n\<in>delivered_seqs s. n \<le> h_last_delivered h1)
         \<and> own_row m key s s' in_seq" if "r = Inr ms" for ms
          by (rule exI [of _ n], rule exI [of _ h3]) (use waited that from3 own' in blast)
        with ev st' show ?thesis
          using from3 le' by (cases "h_started h") (auto intro: order_trans)
      qed
    qed
  qed
qed

inductive host_life ::
  "session_env \<Rightarrow> runtime_env \<Rightarrow> host_config \<Rightarrow> host \<times> session \<times> out_msg list \<Rightarrow> host \<times> session \<times> out_msg list \<Rightarrow> bool"
  for env rt c where
  life_turn: "ticks_act env ticks \<Longrightarrow>
    run_turn_keyed env rt c now clock block m key ticks h s = Some ((h', s'), r) \<Longrightarrow>
    host_life env rt c (h, s, log) (h', s', log @ (case r of Inl _ \<Rightarrow> [] | Inr ms \<Rightarrow> ms))"
| life_restart: "host_life env rt c (h, s, log) (new_host (h_dir h), s, log)"
| life_other: "session_steps env s s' \<Longrightarrow> host_life env rt c (h, s, log) (h, s', log)"

definition life_ok :: "host \<times> session \<times> out_msg list \<Rightarrow> bool" where
  "life_ok st = (case st of (h, s, log) \<Rightarrow> session_wf s \<and> sorted_wrt (<) (map om_seq log)
     \<and> (\<forall>m\<in>set log. om_seq m \<in> delivered_seqs s \<and> (h_started h \<longrightarrow> om_seq m \<le> h_last_delivered h)))"

lemma life_ok_turn:
  assumes "additive_env env" and "life_ok (h, s, log)" and "ticks_act env ticks"
    and run: "run_turn_keyed env rt c now clock block m key ticks h s = Some ((h', s'), r)"
  shows "life_ok (h', s', log @ (case r of Inl _ \<Rightarrow> [] | Inr ms \<Rightarrow> ms))"
proof -
  have wf: "session_wf s" and sorted: "sorted_wrt (<) (map om_seq log)"
    and mem: "\<And>m. m \<in> set log \<Longrightarrow> om_seq m \<in> delivered_seqs s"
    and le: "\<And>m. m \<in> set log \<Longrightarrow> h_started h \<Longrightarrow> om_seq m \<le> h_last_delivered h"
    using assms(2) by (auto simp: life_ok_def)
  note spec = run_turn_spec [OF assms(1) wf assms(3) run]
  then have ev: "evolves s s'" by blast
  have mem': "om_seq m \<in> delivered_seqs s'" if "m \<in> set log" for m
    using mem [OF that] evolves_delivered [OF ev] by blast
  have le': "om_seq m \<le> h_last_delivered h'" if "m \<in> set log" "h_started h'" for m
    using that mem le spec by (cases "h_started h") (auto intro: order_trans)
  show ?thesis
  proof (cases r)
    case (Inl e)
    with ev sorted mem' le' show ?thesis by (simp add: life_ok_def evolves_def)
  next
    case (Inr ms)
    with spec obtain in_seq h1 where ms: "replies_to in_seq h1 h' s' ms" and st: "h_started h'"
      and h1: "if h_started h then h_last_delivered h1 = h_last_delivered h
            else \<forall>n\<in>delivered_seqs s. n \<le> h_last_delivered h1"
      by blast
    have "om_seq m \<le> h_last_delivered h1" if "m \<in> set log" for m
      using that mem le h1 by (cases "h_started h") auto
    then have "sorted_wrt (<) (map om_seq (log @ ms))"
      using sorted ms by (fastforce simp: sorted_wrt_append replies_to_def)
    with Inr ev mem' le' st ms show ?thesis by (auto simp: life_ok_def evolves_def replies_to_def)
  qed
qed

lemma life_ok_step:
  assumes "additive_env env" and "host_life env rt c st st'" and "life_ok st"
  shows "life_ok st'"
  using assms(2,3)
proof cases
  case (life_turn ticks now clock block m key h s h' s' r log)
  with life_ok_turn [OF assms(1)] assms(3) show ?thesis by blast
next
  case (life_restart h s log)
  with assms(3) show ?thesis by (simp add: life_ok_def new_host_def)
next
  case (life_other s s' h log)
  have "session_wf s" using assms(3) life_other by (simp add: life_ok_def)
  from steps_evolve [OF assms(1) this life_other(3)] assms(3) life_other show ?thesis
    using evolves_delivered [of s s'] by (auto simp: life_ok_def evolves_def)
qed

lemma life_ok_run:
  assumes "additive_env env" and "(host_life env rt c)\<^sup>*\<^sup>* (new_host dir, empty_session, []) st"
  shows "life_ok st"
  using assms(2)
proof (induction rule: rtranclp_induct)
  case base
  then show ?case using empty_session_wf by (simp add: life_ok_def)
next
  case (step st st')
  with life_ok_step [OF assms(1)] show ?case by blast
qed

text \<open>
  C9: delivery is at most once. Over any history of a session - turns, restarts of the host process,
  whatever the container and other writers do to the folder, between turns or at the polls - the replies
  that the turns returned have strictly increasing sequence numbers, so none was returned twice; and a
  turn that returns replies returns only replies to the row of its own message: the first row of its key,
  or, without a key, a row that was not there before the turn and that holds the message.
\<close>

theorem reply_returned_once:
  assumes "additive_env env" and "(host_life env rt c)\<^sup>*\<^sup>* (new_host dir, empty_session, []) (h, s, log)"
  shows "sorted_wrt (<) (map om_seq log)
    \<and> (\<forall>now clock block m key ticks h' s' ms.
         ticks_act env ticks \<and> run_turn_keyed env rt c now clock block m key ticks h s = Some ((h', s'), Inr ms) \<longrightarrow>
         ms \<noteq> [] \<and> sorted_wrt (<) (map om_seq (log @ ms))
         \<and> (\<exists>in_seq. own_row m key s s' in_seq \<and> (\<forall>x\<in>set ms. om_in_seq x = Some in_seq)))"
proof -
  have ok: "life_ok (h, s, log)" by (rule life_ok_run [OF assms])
  then have wf: "session_wf s" by (simp add: life_ok_def)
  have turn: "ms \<noteq> [] \<and> sorted_wrt (<) (map om_seq (log @ ms))
      \<and> (\<exists>in_seq. own_row m key s s' in_seq \<and> (\<forall>x\<in>set ms. om_in_seq x = Some in_seq))"
    if "ticks_act env ticks" "run_turn_keyed env rt c now clock block m key ticks h s = Some ((h', s'), Inr ms)"
    for now clock block m key ticks h' s' ms
  proof -
    have "sorted_wrt (<) (map om_seq (log @ ms))"
      using life_ok_turn [OF assms(1) ok that] by (simp add: life_ok_def)
    moreover from run_turn_spec [OF assms(1) wf that] obtain in_seq h1 where "replies_to in_seq h1 h' s' ms"
      "own_row m key s s' in_seq"
      by blast
    ultimately show ?thesis by (auto simp: replies_to_def)
  qed
  have "sorted_wrt (<) (map om_seq log)" using ok by (simp add: life_ok_def)
  then show ?thesis by (intro conjI allI impI) (assumption | erule conjE, drule (1) turn, blast)+
qed

section \<open>Turns end\<close>

lemma await_reply_ends:
  "\<exists>t\<in>set ts. hc_turn_timeout c \<le> tk_elapsed t \<Longrightarrow> await_reply env c now in_seq ts h s \<noteq> None"
proof (induction ts arbitrary: h s)
  case (Cons t ts)
  show ?case
  proof (cases "hc_turn_timeout c \<le> tk_elapsed t")
    case True
    then show ?thesis by (auto simp: Let_def split: sum.splits prod.splits)
  next
    case False
    with Cons have "await_reply env c now in_seq ts h2 s2 \<noteq> None" for h2 s2 by simp
    then show ?thesis by (auto simp: Let_def split: sum.splits prod.splits)
  qed
qed simp

text \<open>
  C10: a turn ends. Whatever the container does, and whether or not it ever answers, a turn whose polls go on
  until the turn timeout has elapsed returns: replies, the death of the container, or an error.
\<close>

theorem turn_ends:
  assumes "\<exists>t\<in>set ticks. hc_turn_timeout c \<le> tk_elapsed t"
  shows "\<exists>h' s' r. run_turn_keyed env rt c now clock block m key ticks h s = Some ((h', s'), r)"
proof -
  have "await_reply env c now n ticks h1 s1 \<noteq> None" for n h1 s1 by (rule await_reply_ends [OF assms])
  then have "run_turn_keyed env rt c now clock block m key ticks h s \<noteq> None"
    by (auto simp: run_turn_keyed_def split: sum.splits prod.splits)
  then show ?thesis by auto
qed

definition sample_config :: host_config where
  "sample_config = with_onecli_agent ''assistant'' [''ca''] (new_host_config (image_new ''repo'' ''v1'') [[''data'']] Stub
     \<lparr>proxy_configured = False, anthropic_secret_present = False, placeholder_injection_ok = False\<rparr>)"

definition sample_runtime :: runtime_env where
  "sample_runtime = \<lparr>rt_gateway = (\<lambda>_ _. Inr), rt_spawn = (\<lambda>_. Inr ''c1'')\<rparr>"

definition sample_inbound :: inbound_message where
  "sample_inbound = \<lparr>msg_sender = ''u'', msg_content = ''hi'', msg_metadata = None, msg_thread = None\<rparr>"

theorem turn_ends_witness:
  "\<exists>h' s' r. run_turn_keyed plain_env sample_runtime sample_config ''t'' 5 None sample_inbound None
     [\<lparr>tk_clock = 5, tk_elapsed = 0, tk_act = (\<lambda>s. s)\<rparr>, \<lparr>tk_clock = 120300, tk_elapsed = 120200, tk_act = (\<lambda>s. s)\<rparr>]
     (new_host [''data'', ''s1'']) empty_session = Some ((h', s'), r)"
  by (rule turn_ends) (simp add: sample_config_def new_host_config_def with_onecli_agent_def)

text \<open>A first turn in a new folder whose container answers at the first poll.\<close>

definition answer_tick :: tick where
  "answer_tick = \<lparr>tk_clock = 5, tk_elapsed = 0,
     tk_act = (\<lambda>s. fst (emit_message current_outbound_compat ''t'' (Some 0) ''reply'' ''hello'' s))\<rparr>"

lemma answer_tick_acts: "ticks_act env [answer_tick]"
  by (auto simp: ticks_act_def answer_tick_def intro!: r_into_rtranclp step_emit prod.collapse [symmetric])

lemma answered_turn:
  "map_option snd (run_turn_keyed plain_env sample_runtime sample_config ''t'' 5 None sample_inbound None [answer_tick]
     (new_host [''data'', ''s1'']) empty_session) = Some (Inr [\<lparr>om_seq = 1, om_kind = ''reply'',
       om_content = ''hello'', om_metadata = None, om_in_seq = Some 0, om_created = ''t''\<rparr>])"
  by code_simp

theorem reply_returned_once_witness:
  "\<exists>h' s' ms. run_turn_keyed plain_env sample_runtime sample_config ''t'' 5 None sample_inbound None [answer_tick]
       (new_host [''data'', ''s1'']) empty_session = Some ((h', s'), Inr ms)
     \<and> ms \<noteq> [] \<and> sorted_wrt (<) (map om_seq ms)
     \<and> (\<exists>in_seq. own_row sample_inbound None empty_session s' in_seq \<and> (\<forall>x\<in>set ms. om_in_seq x = Some in_seq))"
proof -
  let ?run = "run_turn_keyed plain_env sample_runtime sample_config ''t'' 5 None sample_inbound None [answer_tick]
       (new_host [''data'', ''s1'']) empty_session"
  from answered_turn obtain h' s' ms where run: "?run = Some ((h', s'), Inr ms)" by auto
  have "(host_life plain_env sample_runtime sample_config)\<^sup>*\<^sup>*
      (new_host [''data'', ''s1''], empty_session, []) (new_host [''data'', ''s1''], empty_session, [])"
    by (rule rtranclp.rtrancl_refl)
  from conjunct2 [OF reply_returned_once [OF plain_env_additive this]] answer_tick_acts run
  have "ms \<noteq> [] \<and> sorted_wrt (<) (map om_seq ([] @ ms))
      \<and> (\<exists>in_seq. own_row sample_inbound None empty_session s' in_seq \<and> (\<forall>x\<in>set ms. om_in_seq x = Some in_seq))"
    by blast
  with run show ?thesis by auto
qed

end
