(* ===== verification/Host_Schedule.thy ===== *)
theory Host_Schedule
  imports Serve_Schedule Onecli
begin

text \<open>
  \<open>scheduler.rs\<close> of \<open>crates/assistant-host\<close> - the gate before a scheduled turn, one sweep of the due work,
  the standing tasks and the block of schedules an agent is shown - and the context block of a turn
  (\<open>context_block\<close> of \<open>run.rs\<close>). The shell, docker, qmd and what a container does between the polls of a turn
  are parameters; the \<open>n\<close>-th turn takes its clock and its polls from a supply.
\<close>

section \<open>Gates\<close>

datatype gate_outcome = Fire "string option" | Skip

text \<open>A run of a program: it may not start, or give its success and its output.\<close>

record gate_env =
  ge_sh :: "string \<Rightarrow> string + bool \<times> string"
  ge_docker :: "string list \<Rightarrow> string + bool \<times> string"
  ge_home :: string
  ge_onecli :: onecli_env

definition gate_verdict :: "bool \<times> string \<Rightarrow> gate_outcome" where
  "gate_verdict r =
     (if \<not> fst r then Skip else let out = trim (snd r) in if out = [] then Skip else Fire (Some out))"

definition run_gate :: "gate_env \<Rightarrow> string \<Rightarrow> string + gate_outcome" where
  "run_gate g cmd = map_sum (\<lambda>e. ''could not spawn gate command: '' @ e) gate_verdict (ge_sh g cmd)"

definition expand_home :: "string \<Rightarrow> string \<Rightarrow> string" where
  "expand_home home vol =
     (case strip_prefix ''~/'' vol of
        Some rest \<Rightarrow> home @ ''/'' @ rest
      | None \<Rightarrow> if vol = ''~'' then home else vol)"

definition gate_docker_args :: "container_config \<Rightarrow> path \<Rightarrow> string \<Rightarrow> string list \<Rightarrow> string \<Rightarrow> string \<Rightarrow> string list" where
  "gate_docker_args c ca_dir home vols img cmd =
     [''run'', ''--rm'']
     @ concat (map (\<lambda>(k, v). [''--env'', k @ ''='' @ v]) (sort_key fst (cc_env c)))
     @ (case (cc_ca c, cc_ca_path c) of
          (Some pem, Some p) \<Rightarrow> [''--volume'', display_path (ca_dir @ [''ca.pem'']) @ '':'' @ p @ '':ro'']
        | _ \<Rightarrow> [])
     @ concat (map (\<lambda>v. [''--volume'', expand_home home v]) vols)
     @ [''--entrypoint'', ''sh'', img, ''-c'', cmd]"

definition run_gate_in_container ::
  "gate_env \<Rightarrow> string \<Rightarrow> string \<Rightarrow> string \<Rightarrow> path \<Rightarrow> string list \<Rightarrow> string + gate_outcome" where
  "run_gate_in_container g cmd agent img ca_dir vols =
     (case gateway_url (ge_onecli g) of
        None \<Rightarrow> run_gate g cmd
      | Some url \<Rightarrow>
          (case fetch_container_config (ge_onecli g) url agent of
             Inl e \<Rightarrow> Inl (''gate: container-config fetch failed for '' @ agent)
           | Inr c \<Rightarrow>
               map_sum (\<lambda>e. ''docker run gate: '' @ e) gate_verdict
                 (ge_docker g (gate_docker_args c ca_dir (ge_home g) vols img cmd))))"

text \<open>The gate of an item, \<open>Fire None\<close> without one.\<close>

definition item_gate :: "gate_env \<Rightarrow> host_config \<Rightarrow> projected_item \<Rightarrow> string + gate_outcome" where
  "item_gate g cfg item =
     (case pi_gate_command item of
        None \<Rightarrow> Inr (Fire None)
      | Some cmd \<Rightarrow>
          (case pi_gate_onecli_agent item of
             Some agent \<Rightarrow>
               run_gate_in_container g cmd agent
                 (case pi_gate_image item of Some i \<Rightarrow> i | None \<Rightarrow> image_reference (hc_image cfg))
                 (hc_onecli_ca_dir cfg) (pi_gate_volumes item)
           | None \<Rightarrow> run_gate g cmd))"

section \<open>The block of schedules\<close>

definition human_duration :: "int \<Rightarrow> string" where
  "human_duration secs =
     (let s = nat (max secs 0)
      in if s < 60 then dec_of_nat s @ ''s''
         else if s < 3600 then dec_of_nat (s div 60) @ ''m''
         else if s < 86400 then dec_of_nat (s div 3600) @ ''h''
         else dec_of_nat (s div 86400) @ ''d'')"

fun weekday_label :: "weekday \<Rightarrow> string" where
  "weekday_label Mon = ''Mon''"
| "weekday_label Tue = ''Tue''"
| "weekday_label Wed = ''Wed''"
| "weekday_label Thu = ''Thu''"
| "weekday_label Fri = ''Fri''"
| "weekday_label Sat = ''Sat''"
| "weekday_label Sun = ''Sun''"

definition two_places :: "nat \<Rightarrow> string" where
  "two_places n = (if n < 10 then CHR ''0'' # dec_of_nat n else dec_of_nat n)"

definition hhmm :: "nat \<Rightarrow> string" where
  "hhmm m = two_places (m div 60) @ '':'' @ two_places (m mod 60)"

fun describe_recurrence :: "recurrence \<Rightarrow> string" where
  "describe_recurrence (Every s) = ''repeats every '' @ human_duration s"
| "describe_recurrence (Daily m tz) = ''daily at '' @ hhmm m @ '' '' @ tz"
| "describe_recurrence (Weekly ds m tz) =
     ''weekly on '' @ join_str '', '' (map weekday_label ds) @ '' at '' @ hhmm m @ '' '' @ tz"
| "describe_recurrence (Monthly d m tz) = ''monthly on day '' @ dec_of_nat d @ '' at '' @ hhmm m @ '' '' @ tz"

definition due_phrase :: "int \<Rightarrow> int option \<Rightarrow> string" where
  "due_phrase now pa =
     (case pa of
        None \<Rightarrow> ''unscheduled''
      | Some t \<Rightarrow> if t \<le> now then ''due now'' else ''in '' @ human_duration (i64_wrap (t - now)))"

definition render_schedule_line :: "int \<Rightarrow> projected_item \<Rightarrow> string" where
  "render_schedule_line now item =
     ''- id='' @ pi_id item @ '' | '' @ [CHR 0x22] @ map (\<lambda>c. if c = newline then CHR '' '' else c) (pi_intent item)
     @ [CHR 0x22] @ '' | next: '' @ due_phrase now (pi_process_after item) @ '' | ''
     @ (case pi_recurrence item of None \<Rightarrow> ''one-off'' | Some r \<Rightarrow> describe_recurrence r)
     @ (if pi_status item = Paused then '' | paused'' else [])"

definition schedules_header :: string where
  "schedules_header = ''<schedules>'' @ newline # ''Your scheduled items (active, and any you have paused). ''
     @ ''To cancel one, call cancel_schedule with its id; to pause an active one, ''
     @ ''call pause_schedule; to resume a paused one, call resume_schedule.'' @ [newline]"

definition live_items :: "sched_codec \<Rightarrow> int \<Rightarrow> sched_db \<Rightarrow> projected_item list option" where
  "live_items j g db =
     (case list_items j g None db of
        Inl _ \<Rightarrow> None
      | Inr is \<Rightarrow> Some (filter (\<lambda>i. pi_status i = Active \<or> pi_status i = Paused) is))"

definition render_schedules_block :: "sched_codec \<Rightarrow> int \<Rightarrow> int \<Rightarrow> nat \<Rightarrow> sched_db \<Rightarrow> string option" where
  "render_schedules_block j g now limit db =
     Option.bind (live_items j g db) (\<lambda>is.
       if is = [] then None
       else Some (schedules_header @ concat (map (\<lambda>i. render_schedule_line now i @ [newline]) (take limit is))
                  @ ''</schedules>''))"

section \<open>The context of a turn\<close>

record central_state =
  ct_sched :: sched_db
  ct_memory :: memory_state
  ct_router :: router_db

record turn_supply =
  tn_stamp :: string
  tn_now :: int
  tn_clock :: int
  tn_ticks :: "tick list"

record host_env =
  he_session :: session_env
  he_codec :: sched_codec
  he_runtime :: runtime_env
  he_yaml :: yaml
  he_search :: "qmd_sidecar \<Rightarrow> string \<Rightarrow> search_outcome"
  he_turns :: "nat \<Rightarrow> turn_supply"
  he_gate :: gate_env

definition context_block :: "host_env \<Rightarrow> host_config \<Rightarrow> central_state \<Rightarrow> int \<Rightarrow> inbound_message \<Rightarrow> string option" where
  "context_block e cfg ct now m =
     (case hc_memory cfg of
        None \<Rightarrow> None
      | Some r \<Rightarrow>
          if msg_metadata m \<noteq> None then None
          else
            (let blocks = List.map_filter id
               [memory_block (he_yaml e) (map_option (\<lambda>sc _. he_search e sc (msg_content m)) (mret_qmd r))
                  (mret_groups_dir r) (mret_owner r) (mret_group r) (mret_limit r) (ct_memory ct),
                render_schedules_block (he_codec e) (mret_group r) now (mret_limit r) (ct_sched ct)]
             in if blocks = [] then None else Some (join_str [newline, newline] blocks)))"

text \<open>The \<open>n\<close>-th turn of the process.\<close>

definition drive_turn ::
  "host_env \<Rightarrow> host_config \<Rightarrow> central_state \<Rightarrow> nat \<Rightarrow> inbound_message \<Rightarrow> string option \<Rightarrow> host \<Rightarrow> session
   \<Rightarrow> ((host \<times> session) \<times> (host_error + out_msg list)) option" where
  "drive_turn e cfg ct n m key h s =
     (let t = he_turns e n
      in run_turn_keyed (he_session e) (he_runtime e) cfg (tn_stamp t) (tn_clock t) (context_block e cfg ct (tn_now t) m)
           m key (tn_ticks t) h s)"

section \<open>One sweep\<close>

record sweep_report =
  sw_expired_sticky :: nat
  sw_fired :: nat

datatype sweep_error = SweepDb projection_error | SweepHost host_error

definition with_sched :: "(sched_db \<Rightarrow> sched_db) \<Rightarrow> central_state \<Rightarrow> central_state" where
  "with_sched f ct = ct\<lparr>ct_sched := f (ct_sched ct)\<rparr>"

text \<open>
  The folders of the sessions are a function from their paths; a session that was never opened is empty.
  \<open>None\<close> is a sweep that is still waiting for a reply when the polls of the supply end.
\<close>

fun sweep_leases ::
  "host_env \<Rightarrow> host_config \<Rightarrow> path \<Rightarrow> string \<Rightarrow> int \<Rightarrow> (string \<Rightarrow> projected_item option) \<Rightarrow> lease list \<Rightarrow> nat \<Rightarrow> nat
   \<Rightarrow> central_state \<times> (path \<Rightarrow> session) \<Rightarrow> ((central_state \<times> (path \<Rightarrow> session)) \<times> (sweep_error + nat)) option" where
  "sweep_leases e cfg dir grp now its [] n fired st = Some (st, Inr fired)"
| "sweep_leases e cfg dir grp now its (l # ls) n fired (ct, store) =
     (case its (occ_item_id (lease_occurrence l)) of
        None \<Rightarrow> sweep_leases e cfg dir grp now its ls n fired (ct, store)
      | Some item \<Rightarrow>
          (case pi_session item of
             None \<Rightarrow> sweep_leases e cfg dir grp now its ls n fired (ct, store)
           | Some sid \<Rightarrow>
               (case item_gate (he_gate e) cfg item of
                  Inl err \<Rightarrow> sweep_leases e cfg dir grp now its ls n fired (ct, store)
                | Inr Skip \<Rightarrow>
                    sweep_leases e cfg dir grp now its ls n fired
                      (with_sched (complete_occurrence (lease_occurrence l) now) ct, store)
                | Inr (Fire md) \<Rightarrow>
                    (case derive_layout dir grp sid of
                       Inl err \<Rightarrow> Some ((ct, store), Inl (SweepHost (HostSession err)))
                     | Inr p \<Rightarrow>
                         (case drive_turn e cfg ct n
                                 \<lparr>msg_sender = ''scheduler'', msg_content = pi_intent item, msg_metadata = md, msg_thread = None\<rparr>
                                 (Some (occ_idempotency_key (lease_occurrence l))) (new_host p) (store p) of
                            None \<Rightarrow> None
                          | Some ((h, s), Inl err) \<Rightarrow>
                              sweep_leases e cfg dir grp now its ls (Suc n) fired (ct, store(p := s))
                          | Some ((h, s), Inr replies) \<Rightarrow>
                              sweep_leases e cfg dir grp now its ls (Suc n) (Suc fired)
                                (with_sched (complete_occurrence (lease_occurrence l) now) ct, store(p := s)))))))"

definition sweep_once ::
  "host_env \<Rightarrow> path \<Rightarrow> string \<Rightarrow> int \<Rightarrow> string \<Rightarrow> int \<Rightarrow> host_config \<Rightarrow> string \<Rightarrow> int \<Rightarrow> nat
   \<Rightarrow> central_state \<times> (path \<Rightarrow> session) \<Rightarrow> ((central_state \<times> (path \<Rightarrow> session)) \<times> (sweep_error + sweep_report)) option" where
  "sweep_once e dir grp g owner ttl cfg stamp now n = (\<lambda>(ct, store).
     case expire_sticky stamp now (ct_router ct) of
       (rdb, expired) \<Rightarrow>
         (case claim_due (env_sha (he_session e)) now owner ttl (ct_sched ct) of
            (db, leases) \<Rightarrow>
              (let ct1 = ct\<lparr>ct_router := rdb, ct_sched := db\<rparr>
               in if leases = [] then Some ((ct1, store), Inr \<lparr>sw_expired_sticky = expired, sw_fired = 0\<rparr>)
                  else case list_items (he_codec e) g None db of
                    Inl err \<Rightarrow> Some ((ct1, store), Inl (SweepDb err))
                  | Inr is \<Rightarrow>
                      map_option (\<lambda>(st, r). (st, map_sum id (\<lambda>k. \<lparr>sw_expired_sticky = expired, sw_fired = k\<rparr>) r))
                        (sweep_leases e cfg dir grp now (map_of (rev (map (\<lambda>i. (pi_id i, i)) is))) leases n 0 (ct1, store)))))"

section \<open>Standing tasks\<close>

definition standing_session_id :: string where
  "standing_session_id = ''standing''"

datatype standing_error = StandingDb projection_error | StandingSchedule schedule_error

definition standing_intent :: "standing_task \<Rightarrow> schedule_intent" where
  "standing_intent t = \<lparr>created_by = st_id t, summary = st_summary t, created_at = 0\<rparr>"

text \<open>\<open>u64 as i64\<close>\<close>

definition standing_meta ::
  "(nat list \<Rightarrow> nat list) \<Rightarrow> ('tz, 'd, 't, 'n) chrono \<Rightarrow> int \<Rightarrow> int \<Rightarrow> standing_task \<times> string option
   \<Rightarrow> schedule_error + scheduled_meta" where
  "standing_meta sha c g now = (\<lambda>(t, agent).
     rbind (create_meta sha c g (standing_intent t) now (Some (Every (i64_wrap (int (st_interval_secs t))))) CurrentMemory)
       (\<lambda>m. Inr (m\<lparr>gate_command := st_gate_command t, gate_onecli_agent := agent, gate_volumes := st_gate_volumes t,
                  gate_image := st_gate_image t, run_as := st_run_as t\<rparr>)))"

fun ensure_standing_tasks ::
  "(nat list \<Rightarrow> nat list) \<Rightarrow> ('tz, 'd, 't, 'n) chrono \<Rightarrow> sched_codec \<Rightarrow> int \<Rightarrow> int \<Rightarrow> (standing_task \<times> string option) list
   \<Rightarrow> sched_db \<Rightarrow> sched_db \<times> (standing_error + unit)" where
  "ensure_standing_tasks sha c j g now [] db = (db, Inr ())"
| "ensure_standing_tasks sha c j g now (t # ts) db =
     (case item_status (generate_scheduled_item_id sha g (standing_intent (fst t))) db of
        Inl e \<Rightarrow> (db, Inl (StandingDb e))
      | Inr (Some st) \<Rightarrow> ensure_standing_tasks sha c j g now ts db
      | Inr None \<Rightarrow>
          (case standing_meta sha c g now t of
             Inl e \<Rightarrow> (db, Inl (StandingSchedule e))
           | Inr m \<Rightarrow>
               (case upsert_item j m (Some standing_session_id) db of
                  (db', Inl e) \<Rightarrow> (db', Inl (StandingDb e))
                | (db', Inr _) \<Rightarrow> ensure_standing_tasks sha c j g now ts db')))"

lemma standing_meta_sel:
  "standing_meta sha c g now t = Inr m \<Longrightarrow>
     scheduled_item_id m = generate_scheduled_item_id sha g (standing_intent (fst t)) \<and> status m = Active
     \<and> process_after m = now \<and> summary (intent m) = st_summary (fst t) \<and> gate_command m = st_gate_command (fst t)"
  by (cases t) (auto simp: standing_meta_def rbind_Inr_iff standing_intent_def dest!: create_meta_sel)

lemma standing_row:
  assumes "standing_meta sha c g now t = Inr m" and "project_meta j m sid = Inr row"
  shows "ir_id row = generate_scheduled_item_id sha g (standing_intent (fst t))" and "ir_status row = ''active''"
    and "ir_process_after row = Some (dec_of_int now)" and "ir_session row = sid" and "ir_intent row = st_summary (fst t)"
    and "ir_gate_command row = st_gate_command (fst t)"
  using assms(2) standing_meta_sel [OF assms(1)] by (auto simp: project_meta_def split: sum.splits)

lemma item_status_absent: "item_status i db = Inr None \<longleftrightarrow> get_item (items db) i = None"
  by (auto simp: item_status_def map_sum.simps split: option.splits) (metis Inr_not_Inl option.distinct(1) sum.exhaust map_sum.simps sum.inject(2))

lemma ensure_standing_frame:
  assumes "primary_key ir_id (items db)" and "ensure_standing_tasks sha c j g now ts db = (db', r)"
  shows "primary_key ir_id (items db')
    \<and> (\<forall>k row. get_item (items db) k = Some row \<longrightarrow> get_item (items db') k = Some row)
    \<and> (\<forall>k row. get_item (items db) k = None \<and> get_item (items db') k = Some row \<longrightarrow>
         (\<exists>t\<in>set ts. \<exists>m. standing_meta sha c g now t = Inr m \<and> project_meta j m (Some standing_session_id) = Inr row
            \<and> k = ir_id row))"
  using assms
proof (induction ts arbitrary: db)
  case Nil
  then show ?case by auto
next
  case (Cons t ts)
  let ?i = "generate_scheduled_item_id sha g (standing_intent (fst t))"
  consider (stop) "db' = db" | (skip) "ensure_standing_tasks sha c j g now ts db = (db', r)"
    | (new) m row where "standing_meta sha c g now t = Inr m" "project_meta j m (Some standing_session_id) = Inr row"
        "get_item (items db) ?i = None"
        "ensure_standing_tasks sha c j g now ts (db\<lparr>items := put_item row (items db)\<rparr>) = (db', r)"
    using Cons.prems(2)
    by (auto simp: item_status_absent upsert_item_def split: sum.splits option.splits prod.splits if_splits)
  then show ?case
  proof cases
    case stop
    then show ?thesis using Cons.prems(1) by auto
  next
    case skip
    from Cons.IH [OF Cons.prems(1) skip] show ?thesis by fastforce
  next
    case (new m row)
    let ?db = "db\<lparr>items := put_item row (items db)\<rparr>"
    have get: "get_item (items ?db) k = (if k = ?i then Some row else get_item (items db) k)" for k
      using item_store.get_put [OF Cons.prems(1)] standing_row(1) [OF new(1,2)] by simp
    have pk: "primary_key ir_id (items ?db)" using item_store.ok_put [OF Cons.prems(1)] by simp
    note id = standing_row(1) [OF new(1,2)]
    note IH = Cons.IH [OF pk new(4)]
    have "get_item (items db') k = Some old" if "get_item (items db) k = Some old" for k old
    proof -
      have "get_item (items ?db) k = Some old" using that new(3) by (subst get) auto
      then show ?thesis using IH by blast
    qed
    moreover have "\<exists>t'\<in>set (t # ts). \<exists>m. standing_meta sha c g now t' = Inr m
        \<and> project_meta j m (Some standing_session_id) = Inr q \<and> k = ir_id q"
      if "get_item (items db) k = None" "get_item (items db') k = Some q" for k q
    proof (cases "k = ?i")
      case True
      then have "get_item (items ?db) k = Some row" by (simp only: get if_True refl)
      with IH that(2) have "q = row" by (metis option.inject)
      then show ?thesis using new(1,2) id True by auto
    next
      case False
      then have "get_item (items ?db) k = None" using that(1) by (simp only: get if_False)
      with that(2) have "get_item (items ?db) k = None \<and> get_item (items db') k = Some q" by simp
      then obtain t' m' where "t' \<in> set ts" "standing_meta sha c g now t' = Inr m'"
          "project_meta j m' (Some standing_session_id) = Inr q" "k = ir_id q"
        using IH by blast
      then show ?thesis by (intro bexI [of _ t'] exI [of _ m']) simp_all
    qed
    ultimately show ?thesis using IH [THEN conjunct1] by (intro conjI allI impI) simp_all
  qed
qed

lemma ensure_standing_settled:
  assumes "\<forall>t\<in>set ts. \<exists>st. item_status (generate_scheduled_item_id sha g (standing_intent (fst t))) db = Inr (Some st)"
  shows "ensure_standing_tasks sha c j g now ts db = (db, Inr ())"
  using assms by (induction ts) auto

lemma item_status_kept:
  "item_status i db = Inr (Some st) \<Longrightarrow> (\<And>row. get_item (items db) i = Some row \<Longrightarrow> get_item (items db') i = Some row) \<Longrightarrow>
     item_status i db' = Inr (Some st)"
  by (auto simp: item_status_def split: option.splits)

lemma ensure_standing_present:
  assumes "primary_key ir_id (items db)" and "ensure_standing_tasks sha c j g now ts db = (db', Inr ())"
  shows "\<forall>t\<in>set ts. \<exists>st. item_status (generate_scheduled_item_id sha g (standing_intent (fst t))) db' = Inr (Some st)"
  using assms
proof (induction ts arbitrary: db)
  case Nil
  then show ?case by simp
next
  case (Cons t ts)
  let ?i = "generate_scheduled_item_id sha g (standing_intent (fst t))"
  obtain db1 st where step: "ensure_standing_tasks sha c j g now ts db1 = (db', Inr ())" "primary_key ir_id (items db1)"
    "item_status ?i db1 = Inr (Some st)"
  proof (cases "item_status ?i db")
    case (Inr o')
    show thesis
    proof (cases o')
      case None
      with Inr Cons.prems(2) obtain m row where m: "standing_meta sha c g now t = Inr m"
          "project_meta j m (Some standing_session_id) = Inr row"
          "ensure_standing_tasks sha c j g now ts (db\<lparr>items := put_item row (items db)\<rparr>) = (db', Inr ())"
        by (auto simp: upsert_item_def split: sum.splits prod.splits)
      have "item_status ?i (db\<lparr>items := put_item row (items db)\<rparr>) = Inr (Some Active)"
        using item_store.get_put [OF Cons.prems(1)] standing_row(1,2) [OF m(1,2)]
        by (simp add: item_status_def read_status_def parse_schedule_status_def ok_or_def)
      then show thesis using that [OF m(3)] item_store.ok_put [OF Cons.prems(1)] by simp
    qed (use Inr Cons.prems that in auto)
  qed (use Cons.prems in auto)
  have "item_status ?i db' = Inr (Some st)"
    using step(3) by (rule item_status_kept) (use ensure_standing_frame [OF step(2,1)] in blast)
  with Cons.IH [OF step(2,1)] show ?case by auto
qed

text \<open>
  C14: standing tasks settle at once and for all. After a start that succeeded every configured task has an
  item; a row that was there before - cancelled, paused or mid-cycle - is the same afterwards; a new row is
  the active item of one of the tasks in the standing session, due at once with the gate of its task; and
  every later start with the same tasks, whatever its clock, changes nothing.
\<close>

theorem standing_tasks_settle:
  assumes "primary_key ir_id (items db)" and "ensure_standing_tasks sha c j g now ts db = (db', Inr ())"
  shows "(\<forall>t\<in>set ts. \<exists>row. get_item (items db') (generate_scheduled_item_id sha g (standing_intent (fst t))) = Some row)
    \<and> (\<forall>k row. get_item (items db) k = Some row \<longrightarrow> get_item (items db') k = Some row)
    \<and> (\<forall>k row. get_item (items db) k = None \<and> get_item (items db') k = Some row \<longrightarrow>
         (\<exists>t\<in>set ts. k = generate_scheduled_item_id sha g (standing_intent (fst t)) \<and> ir_status row = ''active''
            \<and> ir_session row = Some standing_session_id \<and> ir_process_after row = Some (dec_of_int now)
            \<and> ir_intent row = st_summary (fst t) \<and> ir_gate_command row = st_gate_command (fst t)))
    \<and> (\<forall>now'. ensure_standing_tasks sha c j g now' ts db' = (db', Inr ()))"
proof (intro conjI)
  note present = ensure_standing_present [OF assms] and frame = ensure_standing_frame [OF assms]
  show "\<forall>t\<in>set ts. \<exists>row. get_item (items db') (generate_scheduled_item_id sha g (standing_intent (fst t))) = Some row"
    using present by (fastforce simp: item_status_def split: option.splits)
  show "\<forall>k row. get_item (items db) k = Some row \<longrightarrow> get_item (items db') k = Some row"
    using frame by blast
  show "\<forall>now'. ensure_standing_tasks sha c j g now' ts db' = (db', Inr ())"
    using present by (simp add: ensure_standing_settled)
  show "\<forall>k row. get_item (items db) k = None \<and> get_item (items db') k = Some row \<longrightarrow>
         (\<exists>t\<in>set ts. k = generate_scheduled_item_id sha g (standing_intent (fst t)) \<and> ir_status row = ''active''
            \<and> ir_session row = Some standing_session_id \<and> ir_process_after row = Some (dec_of_int now)
            \<and> ir_intent row = st_summary (fst t) \<and> ir_gate_command row = st_gate_command (fst t))"
  proof (intro allI impI)
    fix k row assume "get_item (items db) k = None \<and> get_item (items db') k = Some row"
    then obtain t m where "t \<in> set ts" "standing_meta sha c g now t = Inr m"
        "project_meta j m (Some standing_session_id) = Inr row" "k = ir_id row"
      using frame by blast
    with standing_row show "\<exists>t\<in>set ts. k = generate_scheduled_item_id sha g (standing_intent (fst t)) \<and> ir_status row = ''active''
            \<and> ir_session row = Some standing_session_id \<and> ir_process_after row = Some (dec_of_int now)
            \<and> ir_intent row = st_summary (fst t) \<and> ir_gate_command row = st_gate_command (fst t)"
      by metis
  qed
qed

definition sample_task :: standing_task where
  "sample_task = \<lparr>st_id = ''pr'', st_summary = ''triage'', st_interval_secs = 60, st_gate_command = Some ''gate'',
     st_gate_volumes = [], st_gate_image = None, st_run_as = None\<rparr>"

lemma sample_task_sel [simp]:
  "st_id sample_task = ''pr''" "st_summary sample_task = ''triage''" "st_interval_secs sample_task = 60"
  "st_gate_command sample_task = Some ''gate''" "st_gate_volumes sample_task = []" "st_gate_image sample_task = None"
  "st_run_as sample_task = None"
  by (simp_all add: sample_task_def)

theorem standing_tasks_settle_witness:
  "\<exists>db'. ensure_standing_tasks (\<lambda>_. []) utc_chrono sample_codec 7 100 [(sample_task, None)] \<lparr>items = [], occs = [], runs = []\<rparr> = (db', Inr ())
     \<and> ensure_standing_tasks (\<lambda>_. []) utc_chrono sample_codec 7 200 [(sample_task, None)] db' = (db', Inr ())
     \<and> items db' \<noteq> []"
proof -
  let ?db = "\<lparr>items = [], occs = [], runs = []\<rparr> :: sched_db"
  obtain m where m: "standing_meta (\<lambda>_. []) utc_chrono 7 100 (sample_task, None) = Inr m" "item_recurrence m = Some (Every 60)"
      "gate_volumes m = []"
    by (simp add: standing_meta_def create_meta_def check_recurrence_def i64_wrap_def)
  obtain row where row: "project_meta sample_codec m (Some standing_session_id) = Inr row"
    using m(2,3) by (simp add: project_meta_def recurrence_column_def volumes_column_def sample_codec_def)
  have run: "ensure_standing_tasks (\<lambda>_. []) utc_chrono sample_codec 7 100 [(sample_task, None)] ?db
      = (?db\<lparr>items := put_item row []\<rparr>, Inr ())"
    using m(1) row by (simp add: item_status_def get_item_def upsert_item_def)
  have "primary_key ir_id (items ?db)" by (simp add: primary_key_def)
  from standing_tasks_settle [OF this run]
  have "ensure_standing_tasks (\<lambda>_. []) utc_chrono sample_codec 7 200 [(sample_task, None)] (?db\<lparr>items := put_item row []\<rparr>)
      = (?db\<lparr>items := put_item row []\<rparr>, Inr ())" by blast
  moreover have "put_item row [] \<noteq> []" by (simp add: put_item_def upsert_row_def has_key_def)
  ultimately show ?thesis using run by (intro exI [of _ "?db\<lparr>items := put_item row []\<rparr>"]) simp
qed

end
