(* ===== verification/Serve_Relay.thy ===== *)
theory Serve_Relay
  imports Host_Schedule
begin

text \<open>
  How the serve loop of \<open>crates/assistant-host\<close> acts on the replies of a turn: the container configuration of
  a specialist (\<open>delegation.rs\<close>), the accounting of usage (\<open>usage.rs\<close>), and from \<open>slack.rs\<close> the hosts of
  the channels, the delivery of a reply, the routing of messages between agents, and the handling of a Slack
  event. The Slack API is the list of posts; each post carries the session whose turn made it, which the code
  only names in its log lines.
\<close>

section \<open>The configuration of a specialist\<close>

record spec_json =
  sj_strings :: "string list \<Rightarrow> string + string"
  sj_destinations :: "(string \<times> string) list \<Rightarrow> string + string"

definition orchestrator_destination :: string where
  "orchestrator_destination = ''orchestrator''"

definition destination_entries :: "specialist_spec \<Rightarrow> (string \<times> string) list" where
  "destination_entries spec =
     map (\<lambda>name. (name, if name = orchestrator_destination
            then ''the human-facing orchestrator; send here to report a result or reach the human''
            else ''the '' @ name @ '' agent'')) (ss_destinations spec)"

definition parent_dir :: "path \<Rightarrow> path option" where
  "parent_dir p = (if p = [] then None else Some (butlast p))"

definition with_turn_limit :: "nat option \<Rightarrow> host_config \<Rightarrow> host_config" where
  "with_turn_limit secs c =
     (case secs of
        None \<Rightarrow> c
      | Some n \<Rightarrow>
          (let t = 1000 * int n
           in c\<lparr>hc_turn_timeout := t, hc_policy := \<lparr>idle_after = min (idle_after (hc_policy c)) t, stale_after = t\<rparr>\<rparr>))"

definition agent_host_config :: "spec_json \<Rightarrow> host_config \<Rightarrow> specialist_spec \<Rightarrow> path \<Rightarrow> string + host_config" where
  "agent_host_config j base spec sdir =
     rbind (map_err (\<lambda>e. ''serializing the specialist tools failed: '' @ e) (sj_strings j (ss_tools spec))) (\<lambda>tools.
     rbind (map_err (\<lambda>e. ''serializing the specialist allowed-tools failed: '' @ e) (sj_strings j (ss_allowed_tools spec))) (\<lambda>allowed.
     rbind (map_err (\<lambda>e. ''serializing the specialist MCP tools failed: '' @ e) (sj_strings j (ss_mcp_tools spec))) (\<lambda>mcp.
     rbind (map_err (\<lambda>e. ''serializing the specialist destinations failed: '' @ e) (sj_destinations j (destination_entries spec))) (\<lambda>dests.
       (let img = (case ss_image_digest spec of
                     Some d \<Rightarrow> image_pinned (ss_image_repository spec) (ss_image_tag spec) d
                   | None \<Rightarrow> image_new (ss_image_repository spec) (ss_image_tag spec));
            c1 = base\<lparr>hc_image := img, hc_auth_mode := (if hc_auth_mode base = Stub then Stub else Specialist),
                   hc_onecli_agent := ss_onecli_agent spec, hc_memory := None\<rparr>;
            c2 = with_turn_limit (ss_turn_timeout_secs spec) c1;
            c3 = (case parent_dir sdir of
                    None \<Rightarrow> c2
                  | Some root \<Rightarrow> with_workspace (root @ [''workspaces'', ss_group_slug spec]) c2)
        in Inr (c3\<lparr>hc_extra_env := ss_extra_env spec
                  @ [(''ASSISTANT_SPECIALIST_SYSTEM_PROMPT'', ss_system_prompt spec),
                     (''ASSISTANT_SPECIALIST_TOOLS'', tools), (''ASSISTANT_SPECIALIST_ALLOWED_TOOLS'', allowed),
                     (''ASSISTANT_SPECIALIST_MCP_TOOLS'', mcp), (''ASSISTANT_SPECIALIST_DESTINATIONS'', dests),
                     (''ASSISTANT_SPECIALIST_MAX_TURNS'', dec_of_nat (ss_max_turns spec))],
                hc_extra_volumes := ss_volumes spec\<rparr>))))))"

section \<open>Usage\<close>

text \<open>A cost is the bit pattern of its double.\<close>

record model_usage =
  mu_model :: string
  mu_provider :: "string option"
  mu_input_tokens :: int
  mu_output_tokens :: int
  mu_cache_read :: int
  mu_cache_creation :: int
  mu_cost_usd :: "64 word"

record turn_usage =
  tu_subtype :: "string option"
  tu_num_turns :: "int option"
  tu_models :: "model_usage list"

record usage_row =
  ur_turn_id :: string
  ur_recorded_at :: int
  ur_agent :: string
  ur_onecli_agent :: string
  ur_session_id :: string
  ur_usage :: model_usage
  ur_num_turns :: "int option"
  ur_subtype :: "string option"

definition usage_rows :: "int \<Rightarrow> nat \<Rightarrow> string \<Rightarrow> string \<Rightarrow> string \<Rightarrow> turn_usage \<Rightarrow> usage_row list" where
  "usage_rows now seq agent onecli sid u =
     map (\<lambda>m. \<lparr>ur_turn_id = dec_of_int now @ ''-'' @ dec_of_nat seq, ur_recorded_at = now, ur_agent = agent,
               ur_onecli_agent = onecli, ur_session_id = sid, ur_usage = m, ur_num_turns = tu_num_turns u,
               ur_subtype = tu_subtype u\<rparr>) (tu_models u)"

section \<open>The state of the loop\<close>

text \<open>
  The clock is read through a supply, as are the turns: the \<open>n\<close>-th reading gives the epoch second and the
  text SQLite stamps. \<open>turn_seq\<close> is the process-wide counter of \<open>usage.rs\<close>. The hosts are the map from a
  session id to its host, and the folders a function from their paths.
\<close>

text \<open>
  A \<open>run_as\<close> turn in the background, and what its worker reports. Both carry the item and the occurrence.
\<close>

record run_as_job =
  job_spec :: specialist_spec
  job_message :: inbound_message
  job_item :: projected_item
  job_occurrence :: occurrence

datatype run_as_error = RunAsSession session_error | RunAsConfig string | RunAsTurn host_error

record completed_run_as =
  done_item :: projected_item
  done_occurrence :: occurrence
  done_replies :: "run_as_error + out_msg list"

record serve_state =
  vt_central :: central_state
  vt_usage :: "usage_row list"
  vt_turn_seq :: nat
  vt_hosts :: "string \<rightharpoonup> host"
  vt_store :: "path \<Rightarrow> session"
  vt_posts :: "(string \<times> delivery_target \<times> outbound_content) list"
  vt_seen :: recently_seen
  vt_inflight :: "string set"
  vt_jobs :: "run_as_job list"
  vt_done :: "completed_run_as list"
  vt_turns :: nat
  vt_reads :: nat

record ('tz, 'd, 't, 'n) serve_env =
  ve_host :: host_env
  ve_chrono :: "('tz, 'd, 't, 'n) chrono"
  ve_schedule :: "string \<Rightarrow> schedule_payload option"
  ve_item_ref :: "string \<Rightarrow> string option"
  ve_memory :: "string \<Rightarrow> memory_payload option"
  ve_send :: "string \<Rightarrow> (string \<times> string) option"
  ve_usage :: "string \<Rightarrow> turn_usage option"
  ve_json :: spec_json
  ve_clock :: "nat \<Rightarrow> int \<times> string"
  ve_lower :: "string \<Rightarrow> string"
  ve_perms :: perm_db
  ve_gate :: gate_options
  ve_sessions_dir :: path
  ve_group :: string
  ve_config :: host_config
  ve_specialists :: "specialist_spec list"

definition sched_of :: "('tz, 'd, 't, 'n) serve_env \<Rightarrow> ('tz, 'd, 't, 'n) sched_env" where
  "sched_of e = \<lparr>sv_session = he_session (ve_host e), sv_codec = he_codec (ve_host e), sv_chrono = ve_chrono e,
     sv_schedule = ve_schedule e, sv_item_ref = ve_item_ref e, sv_sessions_dir = ve_sessions_dir e, sv_group = ve_group e\<rparr>"

definition memory_of :: "('tz, 'd, 't, 'n) serve_env \<Rightarrow> memory_env" where
  "memory_of e = \<lparr>menv_sha = env_sha (he_session (ve_host e)), menv_yaml = he_yaml (ve_host e), menv_payload = ve_memory e\<rparr>"

text \<open>A handler may end, panic, or still be waiting for a container when the polls of a turn run out.\<close>

datatype served = Done serve_state | Panicked | Waiting

fun serve_then :: "served \<Rightarrow> (serve_state \<Rightarrow> served) \<Rightarrow> served" where
  "serve_then (Done st) k = k st"
| "serve_then Panicked k = Panicked"
| "serve_then Waiting k = Waiting"

fun serve_each :: "('a \<Rightarrow> serve_state \<Rightarrow> served) \<Rightarrow> 'a list \<Rightarrow> serve_state \<Rightarrow> served" where
  "serve_each f [] st = Done st"
| "serve_each f (x # xs) st = serve_then (f x st) (serve_each f xs)"

definition read_clock :: "('tz, 'd, 't, 'n) serve_env \<Rightarrow> serve_state \<Rightarrow> int \<times> string" where
  "read_clock e st = ve_clock e (vt_reads st)"

definition tick_clock :: "serve_state \<Rightarrow> serve_state" where
  "tick_clock st = st\<lparr>vt_reads := Suc (vt_reads st)\<rparr>"

definition post :: "string \<Rightarrow> delivery_target \<Rightarrow> outbound_content \<Rightarrow> serve_state \<Rightarrow> serve_state" where
  "post sid target content st = st\<lparr>vt_posts := vt_posts st @ [(sid, target, content)]\<rparr>"

section \<open>Turns\<close>

definition host_for ::
  "('tz, 'd, 't, 'n) serve_env \<Rightarrow> string \<Rightarrow> serve_state \<Rightarrow> (host \<times> serve_state) option" where
  "host_for e sid st =
     (case vt_hosts st sid of
        Some h \<Rightarrow> Some (h, st)
      | None \<Rightarrow>
          (case derive_layout (ve_sessions_dir e) (ve_group e) sid of
             Inl _ \<Rightarrow> None
           | Inr p \<Rightarrow> Some (new_host p, st\<lparr>vt_hosts := (vt_hosts st)(sid \<mapsto> new_host p)\<rparr>)))"

text \<open>A turn of a host, and what is done with its replies.\<close>

definition serve_turn ::
  "('tz, 'd, 't, 'n) serve_env \<Rightarrow> host_config \<Rightarrow> inbound_message \<Rightarrow> string option \<Rightarrow> host \<Rightarrow> serve_state
   \<Rightarrow> (host \<times> serve_state \<times> (host_error + out_msg list)) option" where
  "serve_turn e cfg m key h st =
     map_option (\<lambda>((h', s'), r). (h', st\<lparr>vt_store := (vt_store st)(h_dir h := s'), vt_turns := Suc (vt_turns st)\<rparr>, r))
       (drive_turn (ve_host e) cfg (vt_central st) (vt_turns st) m key h (vt_store st (h_dir h)))"

text \<open>A turn of the orchestrator in the session \<open>sid\<close>, over the host the loop keeps for it.\<close>

definition orchestrator_turn ::
  "('tz, 'd, 't, 'n) serve_env \<Rightarrow> string \<Rightarrow> inbound_message \<Rightarrow> string option \<Rightarrow> (out_msg list \<Rightarrow> serve_state \<Rightarrow> served)
   \<Rightarrow> serve_state \<Rightarrow> served" where
  "orchestrator_turn e sid m key k st =
     (case host_for e sid st of
        None \<Rightarrow> Done st
      | Some (h, st1) \<Rightarrow>
          (case serve_turn e (ve_config e) m key h st1 of
             None \<Rightarrow> Waiting
           | Some (h', st2, Inl _) \<Rightarrow> Done (st2\<lparr>vt_hosts := (vt_hosts st2)(sid \<mapsto> h')\<rparr>)
           | Some (h', st2, Inr replies) \<Rightarrow> k replies (st2\<lparr>vt_hosts := (vt_hosts st2)(sid \<mapsto> h')\<rparr>)))"

definition record_usage :: "('tz, 'd, 't, 'n) serve_env \<Rightarrow> string \<Rightarrow> string \<Rightarrow> string \<Rightarrow> string \<Rightarrow> serve_state \<Rightarrow> serve_state" where
  "record_usage e agent onecli sid payload st =
     (case ve_usage e payload of
        None \<Rightarrow> st
      | Some u \<Rightarrow>
          if tu_models u = [] then st
          else (tick_clock st)\<lparr>vt_usage := vt_usage st @ usage_rows (fst (read_clock e st)) (vt_turn_seq st) agent onecli sid u,
                  vt_turn_seq := Suc (vt_turn_seq st)\<rparr>)"

definition record_turn_usage ::
  "('tz, 'd, 't, 'n) serve_env \<Rightarrow> string \<Rightarrow> string \<Rightarrow> string \<Rightarrow> out_msg list \<Rightarrow> serve_state \<Rightarrow> serve_state" where
  "record_turn_usage e agent onecli sid replies =
     fold (\<lambda>r. record_usage e agent onecli sid (om_content r)) (filter (\<lambda>r. om_kind r = ''usage'') replies)"

section \<open>One reply\<close>

text \<open>An action on the folder of a session and the schedules.\<close>

definition session_of :: "('tz, 'd, 't, 'n) serve_env \<Rightarrow> string \<Rightarrow> serve_state \<Rightarrow> session" where
  "session_of e sid st =
     (case session_layout (sched_of e) sid of Inl _ \<Rightarrow> empty_session | Inr p \<Rightarrow> vt_store st p)"

definition put_session ::
  "('tz, 'd, 't, 'n) serve_env \<Rightarrow> string \<Rightarrow> session \<times> sched_db \<Rightarrow> serve_state \<Rightarrow> serve_state" where
  "put_session e sid r st =
     (let st1 = st\<lparr>vt_central := (vt_central st)\<lparr>ct_sched := snd r\<rparr>\<rparr>
      in case session_layout (sched_of e) sid of
           Inl _ \<Rightarrow> st1
         | Inr p \<Rightarrow> st1\<lparr>vt_store := (vt_store st)(p := fst r)\<rparr>)"

definition serve_schedule ::
  "('tz, 'd, 't, 'n) serve_env \<Rightarrow> string \<Rightarrow> string \<Rightarrow> string option \<Rightarrow> serve_state \<Rightarrow> served" where
  "serve_schedule e sid payload agent st =
     (case create_schedule (sched_of e) (fst (read_clock e st)) (snd (read_clock e st)) sid payload agent
             (session_of e sid st, ct_sched (vt_central st)) of
        Panic \<Rightarrow> Panicked
      | Returns (r, _) \<Rightarrow> Done (put_session e sid r (tick_clock st)))"

definition serve_lifecycle ::
  "('tz, 'd, 't, 'n) serve_env
   \<Rightarrow> (('tz, 'd, 't, 'n) sched_env \<Rightarrow> string \<Rightarrow> string \<Rightarrow> string \<Rightarrow> session \<times> sched_db
        \<Rightarrow> (session \<times> sched_db) \<times> (action_error + unit))
   \<Rightarrow> string \<Rightarrow> string \<Rightarrow> serve_state \<Rightarrow> serve_state" where
  "serve_lifecycle e act sid payload st =
     put_session e sid
       (fst (act (sched_of e) (snd (read_clock e st)) sid payload (session_of e sid st, ct_sched (vt_central st))))
       (tick_clock st)"

definition serve_memory ::
  "('tz, 'd, 't, 'n) serve_env \<Rightarrow> delivery_target \<Rightarrow> string \<Rightarrow> string option \<Rightarrow> serve_state \<Rightarrow> serve_state" where
  "serve_memory e target payload user st =
     (case hc_memory (ve_config e) of
        None \<Rightarrow> st
      | Some r \<Rightarrow>
          (tick_clock st)\<lparr>vt_central := (vt_central st)\<lparr>ct_memory :=
             fst (write_memory (memory_of e) (snd (read_clock e st)) (mret_groups_dir r) (mret_owner r) (mret_group r) payload
                    (Some \<lparr>sr_channel = Some SlackSource, sr_chat_id = Some (dt_chat_id target), sr_thread_id = dt_thread_root_id target,
                           sr_message_id = None, sr_permalink = None\<rparr>)
                    user (ct_memory (vt_central st)))\<rparr>\<rparr>)"

definition deliver_reply ::
  "('tz, 'd, 't, 'n) serve_env \<Rightarrow> delivery_target \<Rightarrow> string \<Rightarrow> string option \<Rightarrow> string option \<Rightarrow> out_msg \<Rightarrow> serve_state \<Rightarrow> served" where
  "deliver_reply e target sid user agent r st =
     (if om_kind r = ''schedule_message'' then serve_schedule e sid (om_content r) agent st
      else if om_kind r = ''cancel_schedule'' then Done (serve_lifecycle e cancel_schedule sid (om_content r) st)
      else if om_kind r = ''pause_schedule'' then Done (serve_lifecycle e pause_schedule sid (om_content r) st)
      else if om_kind r = ''resume_schedule'' then Done (serve_lifecycle e resume_schedule sid (om_content r) st)
      else if om_kind r = ''save_memory'' then Done (serve_memory e target (om_content r) user st)
      else if om_kind r = ''send_message'' then Done st
      else if om_kind r = ''usage'' then Done st
      else Done (post sid target (Text (om_content r)) st))"

section \<open>Messages between agents\<close>

definition relay_session :: "string \<Rightarrow> string \<Rightarrow> string" where
  "relay_session agent root = ''a2a-'' @ agent @ ''-'' @ root"

definition orchestrator_relay_session :: "string \<Rightarrow> string" where
  "orchestrator_relay_session root = ''a2a-orchestrator-'' @ root"

fun strip_agent :: "string list \<Rightarrow> string \<Rightarrow> string option" where
  "strip_agent [] rest = None"
| "strip_agent (a # as) rest =
     (case Option.bind (strip_prefix a rest) (strip_prefix ''-'') of
        Some inner \<Rightarrow> Some inner
      | None \<Rightarrow> strip_agent as rest)"

lemma strip_prefix_length: "strip_prefix p s = Some r \<Longrightarrow> length r + length p = length s"
  by (auto simp: strip_prefix_Some)

lemma strip_agent_length: "strip_agent as rest = Some inner \<Longrightarrow> length inner < length rest"
proof (induction as)
  case (Cons a as)
  show ?case
  proof (cases "Option.bind (strip_prefix a rest) (strip_prefix ''-'')")
    case (Some r)
    then obtain q where "strip_prefix a rest = Some q" "strip_prefix ''-'' q = Some r" by (auto simp: bind_eq_Some_conv)
    then show ?thesis using Cons.prems Some strip_prefix_length [of a rest q] strip_prefix_length [of "''-''" q r] by simp
  qed (use Cons in simp)
qed simp

function conversation_root :: "string list \<Rightarrow> string \<Rightarrow> string" where
  "conversation_root agents root =
     (case strip_prefix ''a2a-'' root of
        None \<Rightarrow> root
      | Some rest \<Rightarrow>
          (case strip_agent agents rest of
             Some inner \<Rightarrow> conversation_root agents inner
           | None \<Rightarrow> root))"
  by pat_completeness auto
termination
  by (relation "measure (\<lambda>(agents, root). length root)") (auto dest!: strip_prefix_length strip_agent_length)

declare conversation_root.simps [simp del]

definition routable_agents :: "('tz, 'd, 't, 'n) serve_env \<Rightarrow> string list" where
  "routable_agents e = map ss_route_name (ve_specialists e) @ [orchestrator_destination]"

definition find_specialist :: "('tz, 'd, 't, 'n) serve_env \<Rightarrow> string \<Rightarrow> specialist_spec option" where
  "find_specialist e route = find (\<lambda>s. ss_route_name s = route) (ve_specialists e)"

text \<open>
  The last argument is how many hops are left, \<open>5 - depth\<close>: at none the message is dropped. A specialist runs
  on a host of its own, which is shut down after the turn.
\<close>

definition max_hops :: nat where "max_hops = 5"

definition agent_message :: "string \<Rightarrow> string \<Rightarrow> inbound_message" where
  "agent_message source txt = \<lparr>msg_sender = ''agent:'' @ source, msg_content = txt, msg_metadata = None, msg_thread = None\<rparr>"

fun route_send_message ::
  "('tz, 'd, 't, 'n) serve_env \<Rightarrow> string \<Rightarrow> string \<Rightarrow> bool \<Rightarrow> nat \<Rightarrow> serve_state \<Rightarrow> served" where
  "route_send_message e source payload wired 0 st = Done st"
| "route_send_message e source payload wired (Suc hops) st =
     (case ve_send e payload of
        None \<Rightarrow> Done st
      | Some (to, txt) \<Rightarrow>
          let root = conversation_root (routable_agents e) source
          in if to = orchestrator_destination then
               let relay = orchestrator_relay_session root
               in orchestrator_turn e relay (agent_message source txt) None
                    (\<lambda>replies st1.
                       serve_each
                         (\<lambda>r st2. if om_kind r = ''send_message'' then route_send_message e relay (om_content r) True hops st2
                                  else if om_kind r = ''schedule_message'' then serve_schedule e relay (om_content r) None st2
                                  else Done st2)
                         replies
                         (record_turn_usage e orchestrator_destination (hc_onecli_agent (ve_config e)) relay replies st1))
                    st
             else
               (case find_specialist e to of
                  Some spec \<Rightarrow>
                    let a2a = relay_session (ss_route_name spec) root
                    in (case session_layout (sched_of e) a2a of
                          Inl _ \<Rightarrow> Done st
                        | Inr p \<Rightarrow>
                            (case agent_host_config (ve_json e) (ve_config e) spec (ve_sessions_dir e) of
                               Inl _ \<Rightarrow> Done st
                             | Inr cfg \<Rightarrow>
                                 (case serve_turn e cfg (agent_message source txt) None (new_host p) st of
                                    None \<Rightarrow> Waiting
                                  | Some (h, st1, Inl _) \<Rightarrow> Done st1
                                  | Some (h, st1, Inr replies) \<Rightarrow>
                                      serve_each
                                        (\<lambda>r st2. if om_kind r = ''schedule_message''
                                                 then serve_schedule e a2a (om_content r) (Some (ss_route_name spec)) st2
                                                 else if om_kind r = ''send_message''
                                                 then route_send_message e a2a (om_content r) False hops st2
                                                 else Done st2)
                                        replies
                                        (record_turn_usage e (ss_route_name spec) (ss_onecli_agent spec) a2a replies st1))))
                | None \<Rightarrow>
                    if wired then Done (post source \<lparr>dt_chat_id = to, dt_thread_root_id = None\<rparr> (Text txt) st)
                    else Done st))"

declare route_send_message.simps [simp del]

section \<open>A Slack event\<close>

definition handle_event :: "('tz, 'd, 't, 'n) serve_env \<Rightarrow> routing_event \<Rightarrow> serve_state \<Rightarrow> served" where
  "handle_event e ev st =
     (case admit_event (ve_lower e) (ve_gate e) (snd (read_clock e st)) (fst (read_clock e st)) (ve_perms e) ev
             (vt_seen st, ct_router (vt_central st)) of
        ((seen, rdb), drive) \<Rightarrow>
          (let st1 = (tick_clock st)\<lparr>vt_seen := seen, vt_central := (vt_central st)\<lparr>ct_router := rdb\<rparr>\<rparr>
           in case drive of
                None \<Rightarrow> Done st1
              | Some (m, target) \<Rightarrow>
                  orchestrator_turn e (ev_chat_id ev) m None
                    (\<lambda>replies st2.
                       serve_each (deliver_reply e target (ev_chat_id ev) (Some (ev_sender_id ev)) None) replies
                         (record_turn_usage e orchestrator_destination (hc_onecli_agent (ve_config e)) (ev_chat_id ev) replies st2))
                    st1))"

section \<open>What a step of the loop touches\<close>

lemma mark_all_dir: "mark_all env now ms h s = ((h', s'), r) \<Longrightarrow> h_dir h' = h_dir h"
  by (induction ms arbitrary: h s) (auto split: prod.splits sum.splits)

lemma await_reply_dir: "await_reply env c now n ts h s = Some ((h', s'), r) \<Longrightarrow> h_dir h' = h_dir h"
proof (induction ts arbitrary: h s)
  case (Cons t ts)
  then show ?case
    by (auto simp: Let_def reap_for_respawn_def dest: mark_all_dir split: sum.splits prod.splits if_splits)
qed simp

lemma drive_turn_dir: "drive_turn e cfg ct n m key h s = Some ((h', s'), r) \<Longrightarrow> h_dir h' = h_dir h"
proof -
  have started: "ensure_started env now h s = ((h1, s1), q) \<Longrightarrow> h_dir h1 = h_dir h" for env now s h1 s1 q
    by (auto simp: ensure_started_def split: if_splits sum.splits prod.splits)
  have spawned: "ensure_spawned rt c clock h1 s = ((h2, s1), q) \<Longrightarrow> h_dir h2 = h_dir h1" for rt c clock h1 s h2 s1 q
    by (auto simp: ensure_spawned_def Let_def split: if_splits sum.splits)
  assume "drive_turn e cfg ct n m key h s = Some ((h', s'), r)"
  then show ?thesis
    by (auto simp: drive_turn_def run_turn_keyed_def Let_def split: sum.splits prod.splits dest!: started spawned await_reply_dir)
qed

text \<open>The hosts of the loop each work in the folder of their own session.\<close>

definition hosts_ok :: "('tz, 'd, 't, 'n) serve_env \<Rightarrow> serve_state \<Rightarrow> bool" where
  "hosts_ok e st \<longleftrightarrow> (\<forall>sid h. vt_hosts st sid = Some h \<longrightarrow> derive_layout (ve_sessions_dir e) (ve_group e) sid = Inr (h_dir h))"

text \<open>Every new post is one of \<open>P\<close>, and only the folders of the sessions \<open>S\<close> change.\<close>

definition touches ::
  "('tz, 'd, 't, 'n) serve_env \<Rightarrow> (string \<times> delivery_target \<times> outbound_content \<Rightarrow> bool) \<Rightarrow> (string \<Rightarrow> bool)
   \<Rightarrow> serve_state \<Rightarrow> serve_state \<Rightarrow> bool" where
  "touches e P S st st' \<longleftrightarrow> hosts_ok e st \<longrightarrow>
     hosts_ok e st' \<and> (\<exists>new. vt_posts st' = vt_posts st @ new \<and> (\<forall>x\<in>set new. P x))
     \<and> (\<forall>p. (\<forall>sid. S sid \<longrightarrow> derive_layout (ve_sessions_dir e) (ve_group e) sid \<noteq> Inr p) \<longrightarrow> vt_store st' p = vt_store st p)"

locale serve_relation =
  fixes R :: "serve_state \<Rightarrow> serve_state \<Rightarrow> bool"
  assumes same: "R st st" and steps: "R st st1 \<Longrightarrow> R st1 st2 \<Longrightarrow> R st st2"
begin

lemma serve_then_rel:
  "serve_then r k = Done st' \<Longrightarrow> (\<And>st1. r = Done st1 \<Longrightarrow> R st st1) \<Longrightarrow> (\<And>st1. k st1 = Done st' \<Longrightarrow> R st1 st') \<Longrightarrow> R st st'"
  by (cases r) (auto intro: steps)

lemma serve_each_rel:
  "(\<And>x st st'. x \<in> set xs \<Longrightarrow> f x st = Done st' \<Longrightarrow> R st st') \<Longrightarrow> serve_each f xs st = Done st' \<Longrightarrow> R st st'"
proof (induction xs arbitrary: st)
  case Nil
  then show ?case by (simp add: same)
next
  case (Cons x xs)
  show ?case
    by (rule serve_then_rel [of "f x st" "serve_each f xs"]) (use Cons in auto)
qed

lemma fold_rel: "(\<And>x st. R st (g x st)) \<Longrightarrow> R st (fold g xs st)"
  by (induction xs arbitrary: st) (auto intro: same steps)

end

interpretation touch: serve_relation "touches e P S" for e P S
proof
  show "touches e P S st st" for st by (simp add: touches_def)
  show "touches e P S st st2" if "touches e P S st st1" "touches e P S st1 st2" for st st1 st2
  proof (unfold touches_def, intro impI)
    assume ok: "hosts_ok e st"
    with that(1) obtain a where a: "hosts_ok e st1" "vt_posts st1 = vt_posts st @ a" "\<forall>x\<in>set a. P x"
      "\<forall>p. (\<forall>sid. S sid \<longrightarrow> derive_layout (ve_sessions_dir e) (ve_group e) sid \<noteq> Inr p) \<longrightarrow> vt_store st1 p = vt_store st p"
      by (auto simp: touches_def)
    with that(2) obtain b where b: "hosts_ok e st2" "vt_posts st2 = vt_posts st1 @ b" "\<forall>x\<in>set b. P x"
      "\<forall>p. (\<forall>sid. S sid \<longrightarrow> derive_layout (ve_sessions_dir e) (ve_group e) sid \<noteq> Inr p) \<longrightarrow> vt_store st2 p = vt_store st1 p"
      by (auto simp: touches_def)
    show "hosts_ok e st2 \<and> (\<exists>new. vt_posts st2 = vt_posts st @ new \<and> (\<forall>x\<in>set new. P x))
      \<and> (\<forall>p. (\<forall>sid. S sid \<longrightarrow> derive_layout (ve_sessions_dir e) (ve_group e) sid \<noteq> Inr p) \<longrightarrow> vt_store st2 p = vt_store st p)"
      using a b by (intro conjI exI [of _ "a @ b"]) auto
  qed
qed

lemma touches_mono:
  "touches e P S st st' \<Longrightarrow> (\<And>x. P x \<Longrightarrow> Q x) \<Longrightarrow> (\<And>sid. S sid \<Longrightarrow> T sid) \<Longrightarrow> touches e Q T st st'"
  by (fastforce simp: touches_def)

lemma touches_store:
  assumes "touches e P S st st'" and "hosts_ok e st" and "vt_store st' p \<noteq> vt_store st p"
  shows "\<exists>sid. S sid \<and> derive_layout (ve_sessions_dir e) (ve_group e) sid = Inr p"
proof (rule ccontr)
  assume "\<not> ?thesis"
  with assms(1,2) have "vt_store st' p = vt_store st p" unfolding touches_def by blast
  with assms(3) show False by simp
qed

lemma touches_posts:
  "touches e P S st st' \<Longrightarrow> hosts_ok e st \<Longrightarrow> hosts_ok e st' \<and> (\<exists>new. vt_posts st' = vt_posts st @ new \<and> (\<forall>x\<in>set new. P x))"
  unfolding touches_def by blast

lemma touches_quiet:
  "vt_hosts st' = vt_hosts st \<Longrightarrow> vt_posts st' = vt_posts st \<Longrightarrow> vt_store st' = vt_store st \<Longrightarrow> touches e P S st st'"
  by (simp add: touches_def hosts_ok_def)

lemma touches_usage [simp]: "touches e P S st (record_turn_usage e agent onecli sid replies st)"
  unfolding record_turn_usage_def
  by (rule touch.fold_rel, rule touches_quiet) (auto simp: record_usage_def tick_clock_def split: option.splits)

lemma touches_post: "P (sid, target, content) \<Longrightarrow> touches e P S st (post sid target content st)"
  by (simp add: touches_def hosts_ok_def post_def)

lemma touches_put_session: "S sid \<Longrightarrow> touches e P S st (put_session e sid r st)"
  by (auto simp: touches_def hosts_ok_def put_session_def session_layout_def sched_of_def Let_def map_err_Inr_iff split: sum.splits)

lemma touches_tick [simp]: "touches e P S st (tick_clock st)"
  by (rule touches_quiet) (simp_all add: tick_clock_def)

lemma touches_schedule: "serve_schedule e sid payload agent st = Done st' \<Longrightarrow> S sid \<Longrightarrow> touches e P S st st'"
  by (auto simp: serve_schedule_def split: outcome.splits prod.splits
      intro: touch.steps [OF touches_tick touches_put_session])

lemma touches_lifecycle: "S sid \<Longrightarrow> touches e P S st (serve_lifecycle e act sid payload st)"
  unfolding serve_lifecycle_def by (rule touch.steps [OF touches_tick touches_put_session])

lemma touches_memory: "touches e P S st (serve_memory e target payload user st)"
  by (rule touches_quiet) (simp_all add: serve_memory_def tick_clock_def split: option.splits)

lemma touches_turn:
  assumes "serve_turn e cfg m key h st = Some (h', st', r)" and "S sid"
    and "derive_layout (ve_sessions_dir e) (ve_group e) sid = Inr (h_dir h)"
  shows "touches e P S st st'" and "h_dir h' = h_dir h" and "vt_hosts st' = vt_hosts st"
proof -
  obtain s' where run: "drive_turn (ve_host e) cfg (vt_central st) (vt_turns st) m key h (vt_store st (h_dir h)) = Some ((h', s'), r)"
    and st': "st' = st\<lparr>vt_store := (vt_store st)(h_dir h := s'), vt_turns := Suc (vt_turns st)\<rparr>"
    using assms(1) by (auto simp: serve_turn_def)
  show "touches e P S st st'" using assms(2,3) by (auto simp: st' touches_def hosts_ok_def)
  show "h_dir h' = h_dir h" using drive_turn_dir [OF run] .
  show "vt_hosts st' = vt_hosts st" by (simp add: st')
qed

lemma host_for_dir:
  "host_for e sid st = Some (h, st1) \<Longrightarrow> hosts_ok e st \<Longrightarrow>
     derive_layout (ve_sessions_dir e) (ve_group e) sid = Inr (h_dir h) \<and> hosts_ok e st1
     \<and> vt_posts st1 = vt_posts st \<and> vt_store st1 = vt_store st"
  by (auto simp: host_for_def hosts_ok_def new_host_def split: option.splits sum.splits if_splits)

lemma touches_orchestrator_turn:
  assumes "orchestrator_turn e sid m key k st = Done st'" and "S sid"
    and k: "\<And>replies st1. k replies st1 = Done st' \<Longrightarrow> touches e P S st1 st'"
  shows "touches e P S st st'"
proof (cases "hosts_ok e st")
  case ok: True
  show ?thesis
  proof (cases "host_for e sid st")
    case None
    with assms(1) show ?thesis by (simp add: orchestrator_turn_def touch.same)
  next
    case (Some p)
    obtain h st1 where p: "host_for e sid st = Some (h, st1)" using Some by (cases p) auto
    note dir = host_for_dir [OF p ok]
    obtain h' st2 r where run: "serve_turn e (ve_config e) m key h st1 = Some (h', st2, r)"
      using assms(1) p by (auto simp: orchestrator_turn_def split: option.splits)
    have t: "touches e P S st1 st2" "h_dir h' = h_dir h" "vt_hosts st2 = vt_hosts st1"
      using touches_turn [of e "ve_config e" m key h st1 h' st2 r S sid] run assms(2) dir by blast+
    let ?st = "st2\<lparr>vt_hosts := (vt_hosts st2)(sid \<mapsto> h')\<rparr>"
    have "touches e P S st ?st"
      using dir t by (auto simp: touches_def hosts_ok_def)
    moreover have "touches e P S ?st st'"
      using assms(1) p run k by (cases r) (auto simp: orchestrator_turn_def touch.same)
    ultimately show ?thesis by (rule touch.steps)
  qed
qed (simp add: touches_def)

text \<open>The sessions an exchange that starts in \<open>source\<close> runs in.\<close>

definition own_post :: "string \<Rightarrow> bool \<Rightarrow> string \<times> delivery_target \<times> outbound_content \<Rightarrow> bool" where
  "own_post source wired x \<longleftrightarrow> (wired \<and> fst x = source) \<or> (\<exists>root. fst x = orchestrator_relay_session root)"

definition channel_post :: "('tz, 'd, 't, 'n) serve_env \<Rightarrow> string \<times> delivery_target \<times> outbound_content \<Rightarrow> bool" where
  "channel_post e x \<longleftrightarrow> dt_chat_id (fst (snd x)) \<notin> set (routable_agents e) \<and> dt_thread_root_id (fst (snd x)) = None"

lemma find_specialist_None: "find_specialist e to = None \<longleftrightarrow> (\<forall>s\<in>set (ve_specialists e). ss_route_name s \<noteq> to)"
  by (auto simp: find_specialist_def find_None_iff)

lemma find_specialist_Some: "find_specialist e to = Some s \<Longrightarrow> ss_route_name s = to \<and> to \<in> set (routable_agents e)"
  by (auto simp: find_specialist_def find_Some_iff routable_agents_def)

lemma route_touches:
  assumes "route_send_message e source payload wired hops st = Done st'"
    and S: "\<And>src agent. T src \<Longrightarrow> agent \<in> set (routable_agents e) \<Longrightarrow>
              S (relay_session agent (conversation_root (routable_agents e) src))
              \<and> T (relay_session agent (conversation_root (routable_agents e) src))"
    and "T source"
  shows "touches e (\<lambda>x. own_post source wired x \<and> channel_post e x) S st st'"
  using assms(1,3)
proof (induction hops arbitrary: source payload wired st st')
  case 0
  then show ?case by (simp add: route_send_message.simps touch.same)
next
  case (Suc hops)
  let ?root = "conversation_root (routable_agents e) source"
  let ?P = "\<lambda>x. own_post source wired x \<and> channel_post e x"
  show ?case
  proof (cases "ve_send e payload")
    case None
    with Suc.prems show ?thesis by (simp add: route_send_message.simps touch.same)
  next
    case (Some msg)
    obtain dest body where msg: "ve_send e payload = Some (dest, body)" using Some by (cases msg) auto
    consider (orch) "dest = orchestrator_destination" | (agent) spec where "dest \<noteq> orchestrator_destination" "find_specialist e dest = Some spec"
      | (channel) "dest \<noteq> orchestrator_destination" "find_specialist e dest = None" by fastforce
    then show ?thesis
    proof cases
      case orch
      let ?relay = "orchestrator_relay_session ?root"
      have relay: "relay_session orchestrator_destination ?root = ?relay"
        by (simp add: relay_session_def orchestrator_relay_session_def orchestrator_destination_def)
      have "orchestrator_destination \<in> set (routable_agents e)" by (simp add: routable_agents_def)
      then have ST: "S ?relay" "T ?relay" using S [OF Suc.prems(2)] relay by metis+
      have turn: "orchestrator_turn e ?relay (agent_message source body) None
          (\<lambda>replies st1. serve_each (\<lambda>r st2. if om_kind r = ''send_message'' then route_send_message e ?relay (om_content r) True hops st2
                else if om_kind r = ''schedule_message'' then serve_schedule e ?relay (om_content r) None st2 else Done st2) replies
             (record_turn_usage e orchestrator_destination (hc_onecli_agent (ve_config e)) ?relay replies st1)) st = Done st'"
        using Suc.prems(1) msg orch by (simp add: route_send_message.simps Let_def)
      show ?thesis
      proof (rule touches_orchestrator_turn [where S = S, OF turn ST(1)], rule touch.steps [OF touches_usage], erule touch.serve_each_rel [rotated])
        fix r st1 st2
        assume "(if om_kind r = ''send_message'' then route_send_message e ?relay (om_content r) True hops st1
            else if om_kind r = ''schedule_message'' then serve_schedule e ?relay (om_content r) None st1 else Done st1) = Done st2"
        then show "touches e ?P S st1 st2"
          using Suc.IH [of ?relay "om_content r" True st1 st2] ST
          by (auto split: if_splits intro: touch.same touches_schedule elim!: touches_mono simp: own_post_def)
      qed
    next
      case (agent spec)
      let ?a2a = "relay_session (ss_route_name spec) ?root"
      have ST: "S ?a2a" "T ?a2a"
        using S [OF Suc.prems(2), of "ss_route_name spec"] find_specialist_Some [OF agent(2)] by simp_all
      show ?thesis
      proof (cases "session_layout (sched_of e) ?a2a")
        case (Inl err)
        with Suc.prems(1) msg agent show ?thesis by (simp add: route_send_message.simps Let_def touch.same)
      next
        case lay: (Inr p)
        then have p: "derive_layout (ve_sessions_dir e) (ve_group e) ?a2a = Inr (h_dir (new_host p))"
          by (simp add: session_layout_def sched_of_def new_host_def map_err_Inr_iff)
        show ?thesis
        proof (cases "agent_host_config (ve_json e) (ve_config e) spec (ve_sessions_dir e)")
          case (Inl err)
          with Suc.prems(1) msg agent lay show ?thesis by (simp add: route_send_message.simps Let_def touch.same)
        next
          case cfg: (Inr cfg)
          obtain h st1 r where run: "serve_turn e cfg (agent_message source body) None (new_host p) st = Some (h, st1, r)"
            using Suc.prems(1) msg agent lay cfg by (auto simp: route_send_message.simps Let_def split: option.splits)
          have t: "touches e ?P S st st1" using run ST(1) p by (rule touches_turn(1))
          show ?thesis
          proof (cases r)
            case (Inl err)
            with Suc.prems(1) msg agent lay cfg run t show ?thesis by (simp add: route_send_message.simps Let_def)
          next
            case (Inr replies)
            have each: "serve_each (\<lambda>r st2. if om_kind r = ''schedule_message'' then serve_schedule e ?a2a (om_content r) (Some (ss_route_name spec)) st2
                  else if om_kind r = ''send_message'' then route_send_message e ?a2a (om_content r) False hops st2 else Done st2)
                replies (record_turn_usage e (ss_route_name spec) (ss_onecli_agent spec) ?a2a replies st1) = Done st'"
              using Suc.prems(1) msg agent lay cfg run Inr by (simp add: route_send_message.simps Let_def)
            show ?thesis
            proof (rule touch.steps [OF t], rule touch.steps [OF touches_usage], rule touch.serve_each_rel [OF _ each])
              fix r st1 st2
              assume "(if om_kind r = ''schedule_message'' then serve_schedule e ?a2a (om_content r) (Some (ss_route_name spec)) st1
                  else if om_kind r = ''send_message'' then route_send_message e ?a2a (om_content r) False hops st1 else Done st1) = Done st2"
              then show "touches e ?P S st1 st2"
                using Suc.IH [of ?a2a "om_content r" False st1 st2] ST
                by (auto split: if_splits intro: touch.same touches_schedule elim!: touches_mono simp: own_post_def)
            qed
          qed
        qed
      qed
    next
      case channel
      have "channel_post e (source, \<lparr>dt_chat_id = dest, dt_thread_root_id = None\<rparr>, Text body)"
        using channel by (auto simp: channel_post_def routable_agents_def find_specialist_None)
      with Suc.prems(1) msg channel show ?thesis
        by (cases wired) (auto simp: route_send_message.simps Let_def own_post_def intro: touches_post touch.same)
    qed
  qed
qed

text \<open>
  C15: only the orchestrator reaches a channel. Whatever message an agent sends, and whatever the agents and
  the orchestrator it wakes answer through any number of hops, every post is made either by the sender, when
  it is wired to Slack, or by a turn of the orchestrator in one of its relay sessions; it goes to the channel
  itself, not into a thread, and never to an address that is the name of an agent.
\<close>

theorem only_orchestrator_posts:
  assumes "route_send_message e source payload wired hops st = Done st'" and "hosts_ok e st"
  shows "\<exists>new. vt_posts st' = vt_posts st @ new
    \<and> (\<forall>(sid, target, content)\<in>set new. (wired \<and> sid = source \<or> (\<exists>root. sid = orchestrator_relay_session root))
         \<and> dt_chat_id target \<notin> set (routable_agents e) \<and> dt_thread_root_id target = None)"
proof -
  have "touches e (\<lambda>x. own_post source wired x \<and> channel_post e x) (\<lambda>_. True) st st'"
    by (rule route_touches [OF assms(1), of "\<lambda>_. True"]) simp_all
  from touches_posts [OF this assms(2)]
  obtain new where "vt_posts st' = vt_posts st @ new" "\<forall>x\<in>set new. own_post source wired x \<and> channel_post e x"
    by blast
  then show ?thesis by (intro exI [of _ new]) (auto simp: own_post_def channel_post_def)
qed

section \<open>Relay sessions do not nest\<close>

text \<open>No agent's name is another's followed by a hyphen.\<close>

definition hyphen_free :: "string list \<Rightarrow> bool" where
  "hyphen_free agents \<longleftrightarrow> (\<forall>a\<in>set agents. \<forall>b\<in>set agents. strip_prefix (a @ ''-'') b = None)"

lemma strip_agent_Some: "strip_agent as rest = Some inner \<Longrightarrow> \<exists>a\<in>set as. rest = a @ ''-'' @ inner"
  by (induction as) (auto simp: bind_eq_Some_conv strip_prefix_Some split: option.splits)

lemma strip_agent_found: "a \<in> set as \<Longrightarrow> strip_agent as (a @ ''-'' @ inner) \<noteq> None"
proof (induction as)
  case (Cons b bs)
  show ?case
  proof (cases "a = b")
    case True
    have "Option.bind (strip_prefix b (b @ ''-'' @ inner)) (strip_prefix ''-'') = Some inner"
      by (simp add: bind_eq_Some_conv strip_prefix_Some)
    then show ?thesis using True by simp
  qed (use Cons in \<open>auto split: option.splits\<close>)
qed simp

lemma hyphen_free_unique:
  assumes "hyphen_free agents" and "a \<in> set agents" and "b \<in> set agents" and eq: "a @ ''-'' @ r = b @ ''-'' @ q"
  shows "a = b"
proof (rule ccontr)
  assume "a \<noteq> b"
  have split: "\<exists>t. b = a @ ''-'' @ t" if "a @ ''-'' @ r = b @ ''-'' @ q" "length a < length b" for a b r q :: string
  proof -
    from that(1) obtain t where "a = b @ t \<or> a @ t = b"
      using append_eq_append_conv2 [of a "''-'' @ r" b "''-'' @ q"] by blast
    with that(2) have t: "b = a @ t" by auto
    then have "t \<noteq> []" using that(2) by auto
    have "''-'' @ r = t @ ''-'' @ q" using that(1) by (simp only: t append_assoc same_append_eq)
    with \<open>t \<noteq> []\<close> have "\<exists>u. t = ''-'' @ u" by (cases t) auto
    with t show ?thesis by auto
  qed
  have "length a \<noteq> length b" using eq \<open>a \<noteq> b\<close> by (metis append_eq_append_conv)
  then have "length a < length b \<or> length b < length a" by linarith
  with split [OF eq] split [OF eq [symmetric]] have "(\<exists>t. b = a @ ''-'' @ t) \<or> (\<exists>t. a = b @ ''-'' @ t)" by satx
  moreover have "c \<noteq> d @ ''-'' @ t" if "c \<in> set agents" "d \<in> set agents" for c d t
  proof
    assume "c = d @ ''-'' @ t"
    then have "strip_prefix (d @ ''-'') c = Some t" by (simp add: strip_prefix_Some)
    moreover have "strip_prefix (d @ ''-'') c = None" using assms(1) that unfolding hyphen_free_def by blast
    ultimately show False by simp
  qed
  ultimately show False using assms(2,3) by blast
qed

lemma conversation_root_idem: "conversation_root agents (conversation_root agents s) = conversation_root agents s"
proof (induction agents s rule: conversation_root.induct)
  case (1 agents root)
  show ?case
  proof (cases "\<exists>rest inner. strip_prefix ''a2a-'' root = Some rest \<and> strip_agent agents rest = Some inner")
    case True
    then obtain rest inner where step: "strip_prefix ''a2a-'' root = Some rest" "strip_agent agents rest = Some inner" by blast
    then have "conversation_root agents root = conversation_root agents inner" by (subst conversation_root.simps) simp
    then show ?thesis using 1 [OF step] by simp
  next
    case False
    then have "conversation_root agents root = root" by (subst conversation_root.simps) (auto split: option.splits)
    then show ?thesis by simp
  qed
qed

lemma conversation_root_relay:
  assumes "hyphen_free agents" and "a \<in> set agents"
  shows "conversation_root agents (relay_session a root) = conversation_root agents root"
proof -
  have "strip_prefix ''a2a-'' (relay_session a root) = Some (a @ ''-'' @ root)"
    by (simp only: relay_session_def strip_prefix_Some)
  moreover obtain inner where inner: "strip_agent agents (a @ ''-'' @ root) = Some inner"
    using strip_agent_found [OF assms(2)] by blast
  moreover obtain b where b: "b \<in> set agents" "a @ ''-'' @ root = b @ ''-'' @ inner"
    using strip_agent_Some [OF inner] by blast
  moreover from hyphen_free_unique [OF assms b(1) b(2)] b(2) have "inner = root" by simp
  ultimately show ?thesis by (subst conversation_root.simps) simp
qed

text \<open>
  C19: an exchange between agents stays in one session per agent and conversation. When no agent's name is
  another's followed by a hyphen, the only folders that change are those of the sessions
  \<open>a2a-<agent>-<root>\<close> for the root of the sender's session, however many hops the messages make; every one
  of them has the same root.
\<close>

theorem relay_sessions_do_not_nest:
  assumes "route_send_message e source payload wired hops st = Done st'" and "hosts_ok e st"
    and "hyphen_free (routable_agents e)" and "vt_store st' p \<noteq> vt_store st p"
  shows "\<exists>agent\<in>set (routable_agents e).
     (let sid = relay_session agent (conversation_root (routable_agents e) source)
      in derive_layout (ve_sessions_dir e) (ve_group e) sid = Inr p
        \<and> conversation_root (routable_agents e) sid = conversation_root (routable_agents e) source)"
proof -
  let ?ag = "routable_agents e"
  let ?root = "conversation_root ?ag source"
  let ?S = "\<lambda>sid. \<exists>agent\<in>set ?ag. sid = relay_session agent ?root"
  let ?T = "\<lambda>sid. conversation_root ?ag sid = ?root"
  have relay: "conversation_root ?ag (relay_session a ?root) = ?root" if "a \<in> set ?ag" for a
    using conversation_root_relay [OF assms(3) that] by (simp add: conversation_root_idem)
  have "touches e (\<lambda>x. own_post source wired x \<and> channel_post e x) ?S st st'"
    by (rule route_touches [OF assms(1), of ?T]) (use relay in auto)
  from touches_store [OF this assms(2,4)] obtain sid where "?S sid" "derive_layout (ve_sessions_dir e) (ve_group e) sid = Inr p"
    by blast
  then show ?thesis using relay by (auto simp: Let_def)
qed

text \<open>With such names a relay session loses part of its agent's name.\<close>

lemma hyphenated_route_is_split:
  "conversation_root [''se'', ''se-review'', ''orchestrator''] (relay_session ''se-review'' ''C1'') = ''review-C1''"
  by code_simp

section \<open>An event is answered in its thread\<close>

lemma touches_deliver:
  assumes "deliver_reply e target sid user agent r st = Done st'" and "S sid" and "P (sid, target, Text (om_content r))"
  shows "touches e P S st st'"
  using assms
  by (auto simp: deliver_reply_def split: if_splits
      intro: touches_schedule touches_lifecycle touches_memory touches_post touch.same)

lemma admit_event_target:
  "admit_event lower opts now clock perms ev s = (s', Some (m, target)) \<Longrightarrow>
     target = \<lparr>dt_chat_id = ev_chat_id ev, dt_thread_root_id = Some (thread_root ev)\<rparr>
     \<and> \<not> drives_nothing ev \<and> ev_dedupe_key ev \<notin> seen_keys (fst s)"
  by (auto simp: admit_event_def seen_insert_def Let_def split: if_splits prod.splits bool.splits)

text \<open>
  C17: a Slack event is answered in its own thread and acts in its own session. Every post goes to the channel
  and the thread of the event, no folder but the one of the channel's session changes, and an event that is
  not a new message of somebody else, or was handled before, posts nothing and changes no folder.
\<close>

theorem event_answered_in_its_thread:
  assumes "handle_event e ev st = Done st'" and "hosts_ok e st"
  shows "hosts_ok e st'
    \<and> (\<exists>new. vt_posts st' = vt_posts st @ new
         \<and> (\<forall>(sid, target, content)\<in>set new. sid = ev_chat_id ev
              \<and> target = \<lparr>dt_chat_id = ev_chat_id ev, dt_thread_root_id = Some (thread_root ev)\<rparr>)
         \<and> (drives_nothing ev \<or> ev_dedupe_key ev \<in> seen_keys (vt_seen st) \<longrightarrow> new = []))
    \<and> (\<forall>p. vt_store st' p \<noteq> vt_store st p \<longrightarrow> derive_layout (ve_sessions_dir e) (ve_group e) (ev_chat_id ev) = Inr p
         \<and> \<not> drives_nothing ev \<and> ev_dedupe_key ev \<notin> seen_keys (vt_seen st))"
proof -
  let ?t = "\<lparr>dt_chat_id = ev_chat_id ev, dt_thread_root_id = Some (thread_root ev)\<rparr>"
  let ?live = "\<not> drives_nothing ev \<and> ev_dedupe_key ev \<notin> seen_keys (vt_seen st)"
  let ?P = "\<lambda>(sid, target, content). ?live \<and> sid = ev_chat_id ev \<and> target = ?t"
  let ?S = "\<lambda>sid. ?live \<and> sid = ev_chat_id ev"
  obtain seen rdb drive where ad: "admit_event (ve_lower e) (ve_gate e) (snd (read_clock e st)) (fst (read_clock e st)) (ve_perms e) ev
      (vt_seen st, ct_router (vt_central st)) = ((seen, rdb), drive)" by (metis prod.exhaust)
  define st1 where "st1 = (tick_clock st)\<lparr>vt_seen := seen, vt_central := (vt_central st)\<lparr>ct_router := rdb\<rparr>\<rparr>"
  have quiet: "touches e ?P ?S st st1" by (rule touches_quiet) (simp_all add: st1_def tick_clock_def)
  have "touches e ?P ?S st1 st'"
  proof (cases drive)
    case None
    with assms(1) ad show ?thesis by (simp add: handle_event_def Let_def st1_def touch.same)
  next
    case (Some mt)
    obtain m target where mt: "drive = Some (m, target)" using Some by (cases mt) auto
    note target = admit_event_target [OF ad [unfolded mt]]
    have turn: "orchestrator_turn e (ev_chat_id ev) m None
        (\<lambda>replies st2. serve_each (deliver_reply e target (ev_chat_id ev) (Some (ev_sender_id ev)) None) replies
           (record_turn_usage e orchestrator_destination (hc_onecli_agent (ve_config e)) (ev_chat_id ev) replies st2)) st1 = Done st'"
      using assms(1) ad mt by (simp add: handle_event_def Let_def st1_def)
    show ?thesis
    proof (rule touches_orchestrator_turn [where S = ?S, OF turn])
      show live: "?S (ev_chat_id ev)" using target by simp
      fix replies st2
      assume each: "serve_each (deliver_reply e target (ev_chat_id ev) (Some (ev_sender_id ev)) None) replies
           (record_turn_usage e orchestrator_destination (hc_onecli_agent (ve_config e)) (ev_chat_id ev) replies st2) = Done st'"
      have "touches e ?P ?S st3 st4" if "deliver_reply e target (ev_chat_id ev) (Some (ev_sender_id ev)) None r st3 = Done st4"
        for r st3 st4
        using that live by (rule touches_deliver) (use target in simp)
      then have "touches e ?P ?S (record_turn_usage e orchestrator_destination (hc_onecli_agent (ve_config e)) (ev_chat_id ev) replies st2) st'"
        by (rule touch.serve_each_rel [OF _ each])
      then show "touches e ?P ?S st2 st'" by (rule touch.steps [OF touches_usage])
    qed
  qed
  note t = touch.steps [OF quiet this]
  obtain new where new: "hosts_ok e st'" "vt_posts st' = vt_posts st @ new" "\<forall>x\<in>set new. ?P x"
    using touches_posts [OF t assms(2)] by blast
  have "new = []" if "\<not> ?live" using new(3) that by (cases new) auto
  then have "drives_nothing ev \<or> ev_dedupe_key ev \<in> seen_keys (vt_seen st) \<longrightarrow> new = []" by blast
  moreover have "\<forall>(sid, target, content)\<in>set new. sid = ev_chat_id ev \<and> target = ?t" using new(3) by auto
  moreover have "\<forall>p. vt_store st' p \<noteq> vt_store st p \<longrightarrow> derive_layout (ve_sessions_dir e) (ve_group e) (ev_chat_id ev) = Inr p \<and> ?live"
    using touches_store [OF t assms(2)] by blast
  ultimately show ?thesis using new(1,2) by (intro conjI exI [of _ new]) simp_all
qed

section \<open>A sample installation\<close>

text \<open>The container answers every message at the first poll; a payload of a message is its text, for channel \<open>C9\<close>.\<close>

definition sample_host_env :: host_env where
  "sample_host_env = \<lparr>he_session = plain_env, he_codec = status_codec, he_runtime = sample_runtime, he_yaml = sample_yaml,
     he_search = (\<lambda>_ _. Hits []), he_turns = (\<lambda>_. \<lparr>tn_stamp = ''t'', tn_now = 5, tn_clock = 5, tn_ticks = [answer_tick]\<rparr>),
     he_gate = \<lparr>ge_sh = (\<lambda>_. Inr (False, [])), ge_docker = (\<lambda>_. Inr (False, [])), ge_home = ''h'',
                ge_onecli = \<lparr>oc_url_var = None, oc_curl = (\<lambda>_. Inl []), oc_decode = Inl\<rparr>\<rparr>\<rparr>"

definition sample_serve_env :: "(unit, int, nat, int) serve_env" where
  "sample_serve_env = \<lparr>ve_host = sample_host_env, ve_chrono = utc_chrono, ve_schedule = (\<lambda>_. None), ve_item_ref = (\<lambda>_. None),
     ve_memory = (\<lambda>_. None), ve_send = (\<lambda>s. Some (''C9'', s)), ve_usage = (\<lambda>_. None),
     ve_json = \<lparr>sj_strings = (\<lambda>_. Inr ''[]''), sj_destinations = (\<lambda>_. Inr ''[]'')\<rparr>,
     ve_clock = (\<lambda>_. (5, ''t'')), ve_lower = (\<lambda>s. s), ve_perms = sample_perm_db, ve_gate = open_options,
     ve_sessions_dir = [''data''], ve_group = ''g'', ve_config = sample_config, ve_specialists = []\<rparr>"

definition sample_serve_state :: serve_state where
  "sample_serve_state = \<lparr>vt_central = \<lparr>ct_sched = \<lparr>items = [], occs = [], runs = []\<rparr>, ct_memory = empty_memory, ct_router = empty_router_db\<rparr>,
     vt_usage = [], vt_turn_seq = 0, vt_hosts = Map.empty, vt_store = (\<lambda>_. empty_session), vt_posts = [],
     vt_seen = seen_new 4, vt_inflight = {}, vt_jobs = [], vt_done = [], vt_turns = 0, vt_reads = 0\<rparr>"

lemma sample_hosts_ok: "hosts_ok sample_serve_env sample_serve_state"
  by (simp add: hosts_ok_def sample_serve_state_def)

theorem only_orchestrator_posts_witness:
  "\<exists>st' new. route_send_message sample_serve_env ''C1'' ''hi'' True max_hops sample_serve_state = Done st'
     \<and> vt_posts st' = [] @ new \<and> new \<noteq> [] \<and> (\<forall>(sid, target, content)\<in>set new. dt_thread_root_id target = None)"
proof -
  let ?x = "(''C1'', \<lparr>dt_chat_id = ''C9'', dt_thread_root_id = None\<rparr>, Text ''hi'')"
  have run: "route_send_message sample_serve_env ''C1'' ''hi'' True max_hops sample_serve_state
      = Done (sample_serve_state\<lparr>vt_posts := [?x]\<rparr>)"
    by (simp add: max_hops_def eval_nat_numeral route_send_message.simps sample_serve_env_def orchestrator_destination_def
        find_specialist_def post_def sample_serve_state_def Let_def)
  from only_orchestrator_posts [OF run sample_hosts_ok]
  have "\<forall>(sid, target, content)\<in>set [?x]. dt_thread_root_id target = None"
    by (auto simp: sample_serve_state_def)
  then show ?thesis using run by (intro exI [of _ "sample_serve_state\<lparr>vt_posts := [?x]\<rparr>"] exI [of _ "[?x]"]) simp
qed

text \<open>The two turns of the samples, and where they run.\<close>

abbreviation sample_run :: "inbound_message \<Rightarrow> path \<Rightarrow> ((host \<times> session) \<times> (host_error + out_msg list)) option" where
  "sample_run m p \<equiv>
     run_turn_keyed plain_env sample_runtime sample_config ''t'' 5 None m None [answer_tick] (new_host p) empty_session"

definition sample_answer :: out_msg where
  "sample_answer = \<lparr>om_seq = 1, om_kind = ''reply'', om_content = ''hello'', om_metadata = None, om_in_seq = Some 0, om_created = ''t''\<rparr>"

lemma relayed_run:
  "map_option (\<lambda>((h, s), r). (inbound_db s = None, r))
     (sample_run (agent_message ''C1'' ''hi'') [''data'', ''g'', ''a2a-orchestrator-C1'']) = Some (False, Inr [sample_answer])"
  unfolding sample_answer_def by code_simp

lemma event_run:
  "map_option snd (sample_run \<lparr>msg_sender = ''U1'', msg_content = ''hi'', msg_metadata = None, msg_thread = Some ''17''\<rparr>
     [''data'', ''g'', ''C1'']) = Some (Inr [sample_answer])"
  unfolding sample_answer_def by code_simp

lemma sample_layouts:
  "derive_layout [''data''] ''g'' ''C1'' = Inr [''data'', ''g'', ''C1'']"
  "derive_layout [''data''] ''g'' ''a2a-orchestrator-C1'' = Inr [''data'', ''g'', ''a2a-orchestrator-C1'']"
  by code_simp+

lemma sample_turn:
  assumes "sample_run m p = Some ((h, s), r)" and "vt_store st p = empty_session"
  shows "serve_turn sample_serve_env sample_config m None (new_host p) st
     = Some (h, st\<lparr>vt_store := (vt_store st)(p := s), vt_turns := Suc (vt_turns st)\<rparr>, r)"
proof -
  have "context_block sample_host_env sample_config ct now m = None" for ct now
    by (simp add: context_block_def sample_config_def with_onecli_agent_def new_host_config_def)
  then have "drive_turn sample_host_env sample_config ct n m None (new_host p) empty_session = sample_run m p" for ct n
    by (simp add: drive_turn_def sample_host_env_def)
  then show ?thesis using assms by (simp add: serve_turn_def sample_serve_env_def new_host_def)
qed

definition asks_orchestrator :: "(unit, int, nat, int) serve_env" where
  "asks_orchestrator = sample_serve_env\<lparr>ve_send := (\<lambda>s. Some (orchestrator_destination, s))\<rparr>"

lemma asks_orchestrator_sel [simp]:
  "ve_send asks_orchestrator x = Some (orchestrator_destination, x)" "ve_sessions_dir asks_orchestrator = [''data'']"
  "ve_group asks_orchestrator = ''g''" "ve_config asks_orchestrator = sample_config" "ve_specialists asks_orchestrator = []"
  "ve_usage asks_orchestrator x = None" "ve_host asks_orchestrator = ve_host sample_serve_env"
  by (simp_all add: asks_orchestrator_def sample_serve_env_def)

lemma relayed_message:
  "\<exists>st'. route_send_message asks_orchestrator ''C1'' ''hi'' True 1 sample_serve_state = Done st'
     \<and> vt_store st' [''data'', ''g'', ''a2a-orchestrator-C1''] \<noteq> empty_session"
proof -
  let ?p = "[''data'', ''g'', ''a2a-orchestrator-C1'']" and ?m = "agent_message ''C1'' ''hi''"
  let ?relay = "orchestrator_relay_session ''C1''"
  let ?st = "sample_serve_state\<lparr>vt_hosts := [?relay \<mapsto> new_host ?p]\<rparr>"
  obtain h s where s: "sample_run ?m ?p = Some ((h, s), Inr [sample_answer])" "inbound_db s \<noteq> None"
    using relayed_run by auto
  have relay: "?relay = ''a2a-orchestrator-C1''" by (simp add: orchestrator_relay_session_def)
  have hosts: "host_for asks_orchestrator ?relay sample_serve_state = Some (new_host ?p, ?st)"
    by (simp add: host_for_def sample_serve_state_def sample_layouts relay)
  have turn: "serve_turn asks_orchestrator sample_config ?m None (new_host ?p) ?st
      = Some (h, ?st\<lparr>vt_store := (vt_store ?st)(?p := s), vt_turns := Suc (vt_turns ?st)\<rparr>, Inr [sample_answer])"
    using sample_turn [OF s(1), of ?st] by (simp add: serve_turn_def sample_serve_state_def)
  have root: "conversation_root (routable_agents asks_orchestrator) ''C1'' = ''C1''"
    by (subst conversation_root.simps) (simp add: strip_prefix_def is_prefix_iff)
  have "\<exists>st'. route_send_message asks_orchestrator ''C1'' ''hi'' True (Suc 0) sample_serve_state = Done st' \<and> vt_store st' ?p = s"
    by (simp add: route_send_message.simps(2) root orchestrator_turn_def hosts turn sample_answer_def record_turn_usage_def Let_def)
  moreover have "s \<noteq> empty_session" using s(2) by (auto simp: empty_session_def)
  ultimately show ?thesis by auto
qed

theorem relay_sessions_do_not_nest_witness:
  "\<exists>st' p. route_send_message asks_orchestrator ''C1'' ''hi'' True 1 sample_serve_state = Done st'
     \<and> vt_store st' p \<noteq> vt_store sample_serve_state p
     \<and> (\<exists>agent\<in>set (routable_agents asks_orchestrator). derive_layout [''data''] ''g''
           (relay_session agent (conversation_root (routable_agents asks_orchestrator) ''C1'')) = Inr p)"
proof -
  let ?p = "[''data'', ''g'', ''a2a-orchestrator-C1'']"
  obtain st' where run: "route_send_message asks_orchestrator ''C1'' ''hi'' True 1 sample_serve_state = Done st'"
      and "vt_store st' ?p \<noteq> empty_session"
    using relayed_message by blast
  then have change: "vt_store st' ?p \<noteq> vt_store sample_serve_state ?p" by (simp add: sample_serve_state_def)
  have ok: "hosts_ok asks_orchestrator sample_serve_state" by (simp add: hosts_ok_def sample_serve_state_def)
  have free: "hyphen_free (routable_agents asks_orchestrator)"
    by (simp add: routable_agents_def orchestrator_destination_def hyphen_free_def strip_prefix_def is_prefix_iff)
  from relay_sessions_do_not_nest [OF run ok free change] run change show ?thesis
    by (intro exI [of _ st'] exI [of _ ?p]) (auto simp: Let_def)
qed

lemma event_drives:
  "snd (admit_event (\<lambda>s. s) open_options ''t'' 5 sample_perm_db sample_event (seen_new 4, empty_router_db))
     = Some (\<lparr>msg_sender = ''U1'', msg_content = ''hi'', msg_metadata = None, msg_thread = Some ''17''\<rparr>,
          \<lparr>dt_chat_id = ''C1'', dt_thread_root_id = Some ''17''\<rparr>)"
  by code_simp

theorem event_answered_in_its_thread_witness:
  "\<exists>st'. handle_event sample_serve_env sample_event sample_serve_state = Done st'
     \<and> vt_posts st' = [(''C1'', \<lparr>dt_chat_id = ''C1'', dt_thread_root_id = Some ''17''\<rparr>, Text ''hello'')]
     \<and> hosts_ok sample_serve_env st'
     \<and> (\<forall>p. vt_store st' p \<noteq> empty_session \<longrightarrow> derive_layout [''data''] ''g'' ''C1'' = Inr p)"
proof -
  let ?p = "[''data'', ''g'', ''C1'']"
  let ?m = "\<lparr>msg_sender = ''U1'', msg_content = ''hi'', msg_metadata = None, msg_thread = Some ''17''\<rparr>"
  let ?t = "\<lparr>dt_chat_id = ''C1'', dt_thread_root_id = Some ''17''\<rparr>"
  obtain seen rdb where ad: "admit_event (\<lambda>s. s) open_options ''t'' 5 sample_perm_db sample_event (seen_new 4, empty_router_db)
      = ((seen, rdb), Some (?m, ?t))"
    using event_drives by (metis prod.collapse)
  obtain h s where s: "sample_run ?m ?p = Some ((h, s), Inr [sample_answer])" using event_run by auto
  have sample: "ev_chat_id sample_event = ''C1''" "ev_sender_id sample_event = ''U1''" by (simp_all add: sample_event_def)
  have run: "\<exists>st'. handle_event sample_serve_env sample_event sample_serve_state = Done st'
      \<and> vt_posts st' = [(''C1'', ?t, Text ''hello'')]"
  proof -
    define st1 where "st1 = sample_serve_state\<lparr>vt_reads := 1, vt_seen := seen,
        vt_central := (vt_central sample_serve_state)\<lparr>ct_router := rdb\<rparr>\<rparr>"
    have clock: "read_clock sample_serve_env sample_serve_state = (5, ''t'')" by (simp add: read_clock_def sample_serve_env_def)
    have env: "ve_lower sample_serve_env = (\<lambda>s. s)" "ve_gate sample_serve_env = open_options" "ve_perms sample_serve_env = sample_perm_db"
      "ve_config sample_serve_env = sample_config" "ve_sessions_dir sample_serve_env = [''data'']" "ve_group sample_serve_env = ''g''"
      "vt_seen sample_serve_state = seen_new 4" "ct_router (vt_central sample_serve_state) = empty_router_db"
      by (simp_all add: sample_serve_env_def sample_serve_state_def)
    have hosts: "host_for sample_serve_env ''C1'' st1 = Some (new_host ?p, st1\<lparr>vt_hosts := [''C1'' \<mapsto> new_host ?p]\<rparr>)"
      by (simp add: host_for_def env sample_layouts st1_def) (simp add: sample_serve_state_def env sample_layouts)
    have store: "vt_store (st1\<lparr>vt_hosts := [''C1'' \<mapsto> new_host ?p]\<rparr>) ?p = empty_session"
      by (simp add: st1_def sample_serve_state_def)
    note turn = sample_turn [OF s store]
    have st1': "(tick_clock sample_serve_state)\<lparr>vt_seen := seen, vt_central := (vt_central sample_serve_state)\<lparr>ct_router := rdb\<rparr>\<rparr> = st1"
      by (simp add: tick_clock_def st1_def sample_serve_state_def)
    have "vt_posts st1 = []" by (simp add: st1_def sample_serve_state_def)
    then show ?thesis
      by (simp add: handle_event_def clock env ad st1' Let_def orchestrator_turn_def sample hosts turn
          sample_answer_def record_turn_usage_def deliver_reply_def post_def)
  qed
  then obtain st' where st': "handle_event sample_serve_env sample_event sample_serve_state = Done st'"
      "vt_posts st' = [(''C1'', ?t, Text ''hello'')]" by blast
  note safe = event_answered_in_its_thread [OF st'(1) sample_hosts_ok]
  have "vt_store sample_serve_state p = empty_session" for p by (simp add: sample_serve_state_def)
  with safe have "\<forall>p. vt_store st' p \<noteq> empty_session \<longrightarrow> derive_layout [''data''] ''g'' ''C1'' = Inr p"
    by (simp add: sample_serve_env_def sample)
  with st' safe show ?thesis by blast
qed

end
