(* ===== verification/Serve_Tick.thy ===== *)
theory Serve_Tick
  imports Serve_Relay
begin

text \<open>
  The idle side of the serve loop of \<open>slack.rs\<close>: a tick of the scheduler, the turns of scheduled items inline
  and in the background, the drain of finished background turns, and the repair at the start of the loop. A
  background worker is a step of its own that may come at any time after it was spawned; it touches only the
  folder of its own session, so it is taken as one step.
\<close>

section \<open>A finished turn\<close>

definition item_spec :: "('tz, 'd, 't, 'n) serve_env \<Rightarrow> projected_item \<Rightarrow> specialist_spec option" where
  "item_spec e item = Option.bind (pi_run_as item) (find_specialist e)"

definition finalize_central ::
  "('tz, 'd, 't, 'n) serve_env \<Rightarrow> projected_item \<Rightarrow> occurrence \<Rightarrow> int \<Rightarrow> serve_state \<Rightarrow> served" where
  "finalize_central e item occ now st =
     (case finalize_firing (ve_chrono e) occ item now (ct_sched (vt_central st)) of
        Panic \<Rightarrow> Panicked
      | Returns db \<Rightarrow> Done (st\<lparr>vt_central := (vt_central st)\<lparr>ct_sched := db\<rparr>\<rparr>))"

text \<open>The fire in the source of truth; what fails there is only logged.\<close>

definition record_source ::
  "('tz, 'd, 't, 'n) serve_env \<Rightarrow> string \<Rightarrow> projected_item \<Rightarrow> occurrence \<Rightarrow> serve_state \<Rightarrow> served" where
  "record_source e sid item occ st =
     (case session_layout (sched_of e) sid of
        Inl _ \<Rightarrow> Done st
      | Inr p \<Rightarrow>
          (let env = he_session (ve_host e); j = he_codec (ve_host e)
           in case latest_meta env j (pi_id item) (vt_store st p) of
                (s1, Inl _) \<Rightarrow> Done (st\<lparr>vt_store := (vt_store st)(p := s1)\<rparr>)
              | (s1, Inr None) \<Rightarrow> Done (st\<lparr>vt_store := (vt_store st)(p := s1)\<rparr>)
              | (s1, Inr (Some m)) \<Rightarrow>
                  (case record_fired (ve_chrono e) occ m of
                     Panic \<Rightarrow> Panicked
                   | Returns m' \<Rightarrow>
                       Done ((tick_clock st)\<lparr>vt_store := (vt_store st)(p := fst (write_meta env j (snd (read_clock e st)) m' s1))\<rparr>))))"

definition finalize_scheduled_turn ::
  "('tz, 'd, 't, 'n) serve_env \<Rightarrow> projected_item \<Rightarrow> occurrence \<Rightarrow> int \<Rightarrow> out_msg list \<Rightarrow> serve_state \<Rightarrow> served" where
  "finalize_scheduled_turn e item occ now replies st =
     (case pi_session item of
        None \<Rightarrow> Done st
      | Some sid \<Rightarrow>
          (let spec = item_spec e item;
               wired = (case spec of None \<Rightarrow> True | Some s \<Rightarrow> ss_slack_wired s);
               agent = (case spec of None \<Rightarrow> orchestrator_destination | Some s \<Rightarrow> ss_route_name s);
               onecli = (case spec of None \<Rightarrow> hc_onecli_agent (ve_config e) | Some s \<Rightarrow> ss_onecli_agent s);
               target = \<lparr>dt_chat_id = sid, dt_thread_root_id = None\<rparr>
           in serve_then
                (serve_each
                   (\<lambda>r st1.
                      if om_kind r = ''send_message'' then route_send_message e sid (om_content r) wired max_hops st1
                      else if pi_run_as item \<noteq> None \<and> om_kind r = ''text'' then Done st1
                      else deliver_reply e target sid None (pi_run_as item) r st1)
                   replies (record_turn_usage e agent onecli sid replies st))
                (\<lambda>st1. serve_then (record_source e sid item occ st1) (finalize_central e item occ now))))"

section \<open>Background turns\<close>

definition job_session :: "projected_item \<Rightarrow> occurrence \<Rightarrow> string" where
  "job_session item occ = pi_id item @ ''-'' @ dec_of_nat (occ_sequence occ)"

definition spawn_run_as :: "run_as_job \<Rightarrow> serve_state \<Rightarrow> serve_state" where
  "spawn_run_as j st =
     st\<lparr>vt_inflight := insert (occ_idempotency_key (job_occurrence j)) (vt_inflight st), vt_jobs := vt_jobs st @ [j]\<rparr>"

text \<open>What the worker of a job does, and its report; \<open>None\<close> while it waits.\<close>

definition run_as_worker ::
  "('tz, 'd, 't, 'n) serve_env \<Rightarrow> run_as_job \<Rightarrow> serve_state \<Rightarrow> (serve_state \<times> (run_as_error + out_msg list)) option" where
  "run_as_worker e j st =
     (case derive_layout (ve_sessions_dir e) (ss_group_slug (job_spec j)) (job_session (job_item j) (job_occurrence j)) of
        Inl err \<Rightarrow> Some (st, Inl (RunAsSession err))
      | Inr p \<Rightarrow>
          (case agent_host_config (ve_json e) (ve_config e) (job_spec j) (ve_sessions_dir e) of
             Inl err \<Rightarrow> Some (st, Inl (RunAsConfig err))
           | Inr cfg \<Rightarrow>
               map_option (\<lambda>(h, st', r). (st', map_err RunAsTurn r))
                 (serve_turn e cfg (job_message j) None (new_host p) st)))"

text \<open>The \<open>i\<close>-th running job ends and reports to the loop.\<close>

definition finish_job :: "('tz, 'd, 't, 'n) serve_env \<Rightarrow> nat \<Rightarrow> serve_state \<Rightarrow> served" where
  "finish_job e i st =
     (if i < length (vt_jobs st)
      then (let j = vt_jobs st ! i
            in case run_as_worker e j st of
                 None \<Rightarrow> Waiting
               | Some (st1, r) \<Rightarrow>
                   Done (st1\<lparr>vt_jobs := take i (vt_jobs st) @ drop (Suc i) (vt_jobs st),
                             vt_done := vt_done st @ [\<lparr>done_item = job_item j, done_occurrence = job_occurrence j, done_replies = r\<rparr>]\<rparr>))
      else Done st)"

definition drain_one :: "('tz, 'd, 't, 'n) serve_env \<Rightarrow> completed_run_as \<Rightarrow> serve_state \<Rightarrow> served" where
  "drain_one e d st =
     (let occ = done_occurrence d;
          st1 = (tick_clock st)\<lparr>vt_inflight := vt_inflight st - {occ_idempotency_key occ}\<rparr>;
          now = fst (read_clock e st)
      in case done_replies d of
           Inr replies \<Rightarrow> finalize_scheduled_turn e (done_item d) occ now replies st1
         | Inl _ \<Rightarrow> finalize_central e (done_item d) occ now st1)"

definition drain_completed_runas :: "('tz, 'd, 't, 'n) serve_env \<Rightarrow> serve_state \<Rightarrow> served" where
  "drain_completed_runas e st = serve_each (drain_one e) (vt_done st) (st\<lparr>vt_done := []\<rparr>)"

section \<open>A tick\<close>

definition run_as_content :: "projected_item \<Rightarrow> string option \<Rightarrow> string" where
  "run_as_content item md =
     (case md of
        None \<Rightarrow> pi_intent item
      | Some x \<Rightarrow> pi_intent item @ [newline, newline] @ ''<gate_context>'' @ [newline] @ x @ [newline] @ ''</gate_context>'')"

definition scheduler_message :: "string \<Rightarrow> string option \<Rightarrow> inbound_message" where
  "scheduler_message content md = \<lparr>msg_sender = ''scheduler'', msg_content = content, msg_metadata = md, msg_thread = None\<rparr>"

definition serve_lease ::
  "('tz, 'd, 't, 'n) serve_env \<Rightarrow> int \<Rightarrow> projected_item list \<Rightarrow> lease \<Rightarrow> serve_state \<Rightarrow> served" where
  "serve_lease e now its l st =
     (let occ = lease_occurrence l
      in case find (\<lambda>i. pi_id i = occ_item_id occ) its of
           None \<Rightarrow> Done st
         | Some item \<Rightarrow>
             (case pi_session item of
                None \<Rightarrow> Done st
              | Some sid \<Rightarrow>
                  (case item_gate (he_gate (ve_host e)) (ve_config e) item of
                     Inl _ \<Rightarrow> Done st
                   | Inr Skip \<Rightarrow> finalize_central e item occ now st
                   | Inr (Fire md) \<Rightarrow>
                       (case item_spec e item of
                          Some spec \<Rightarrow>
                            if occ_idempotency_key occ \<in> vt_inflight st then Done st
                            else Done (spawn_run_as \<lparr>job_spec = spec, job_message = scheduler_message (run_as_content item md) None,
                                                     job_item = item, job_occurrence = occ\<rparr> st)
                        | None \<Rightarrow>
                            if pi_run_as item \<noteq> None then Done st
                            else orchestrator_turn e sid (scheduler_message (pi_intent item) md) (Some (occ_idempotency_key occ))
                                   (finalize_scheduled_turn e item occ now) st))))"

definition scheduler_tick :: "('tz, 'd, 't, 'n) serve_env \<Rightarrow> string \<Rightarrow> int \<Rightarrow> serve_state \<Rightarrow> served" where
  "scheduler_tick e owner ttl st =
     (let (now, stamp) = read_clock e st;
          (rdb, _) = expire_sticky stamp now (ct_router (vt_central st));
          (db, leases) = claim_due (env_sha (he_session (ve_host e))) now owner ttl (ct_sched (vt_central st));
          st1 = (tick_clock st)\<lparr>vt_central := (vt_central st)\<lparr>ct_router := rdb, ct_sched := db\<rparr>\<rparr>
      in if leases = [] then Done st1
         else case list_items (he_codec (ve_host e)) host_agent_group (Some Active) db of
                Inl _ \<Rightarrow> Done st1
              | Inr its \<Rightarrow> serve_each (serve_lease e now its) leases st1)"

section \<open>The start of the loop\<close>

text \<open>\<open>ids\<close> are the names of the folders of the group, in the order the directory is read.\<close>

definition repair_one :: "('tz, 'd, 't, 'n) serve_env \<Rightarrow> string \<Rightarrow> serve_state \<Rightarrow> serve_state" where
  "repair_one e sid st =
     (case derive_layout (ve_sessions_dir e) (ve_group e) sid of
        Inl _ \<Rightarrow> st
      | Inr p \<Rightarrow>
          if session_exists (vt_store st p) then
            (case repair_session_projection (he_session (ve_host e)) (he_codec (ve_host e)) sid (vt_store st p) (ct_sched (vt_central st)) of
               (s, db, _) \<Rightarrow> st\<lparr>vt_store := (vt_store st)(p := s), vt_central := (vt_central st)\<lparr>ct_sched := db\<rparr>\<rparr>)
          else st)"

definition repair_existing_sessions :: "('tz, 'd, 't, 'n) serve_env \<Rightarrow> string list \<Rightarrow> serve_state \<Rightarrow> serve_state" where
  "repair_existing_sessions e ids st = fold (repair_one e) ids st"

text \<open>The steps of the running loop, in any order.\<close>

datatype loop_step = OnEvent routing_event | OnTick string int | OnDrain | OnFinish nat

fun serve_step :: "('tz, 'd, 't, 'n) serve_env \<Rightarrow> loop_step \<Rightarrow> serve_state \<Rightarrow> served" where
  "serve_step e (OnEvent ev) st = handle_event e ev st"
| "serve_step e (OnTick owner ttl) st = scheduler_tick e owner ttl st"
| "serve_step e OnDrain st = drain_completed_runas e st"
| "serve_step e (OnFinish i) st = finish_job e i st"

definition serve_loop :: "('tz, 'd, 't, 'n) serve_env \<Rightarrow> loop_step list \<Rightarrow> serve_state \<Rightarrow> served" where
  "serve_loop e = serve_each (serve_step e)"

section \<open>What runs in the background\<close>

text \<open>The handlers leave the jobs, the reports and the guard of the background turns alone.\<close>

definition same_background :: "serve_state \<Rightarrow> serve_state \<Rightarrow> bool" where
  "same_background st st' \<longleftrightarrow>
     vt_inflight st' = vt_inflight st \<and> vt_jobs st' = vt_jobs st \<and> vt_done st' = vt_done st"

interpretation bg: serve_relation same_background
  by unfold_locales (simp_all add: same_background_def)

lemma bg_tick [simp]: "same_background st (tick_clock st)"
  by (simp add: same_background_def tick_clock_def)

lemma bg_turn: "serve_turn e cfg m key h st = Some (h', st', r) \<Longrightarrow> same_background st st'"
  by (auto simp: serve_turn_def same_background_def)

lemma bg_usage [simp]: "same_background st (record_turn_usage e agent onecli sid replies st)"
  unfolding record_turn_usage_def
  by (rule bg.fold_rel) (auto simp: same_background_def record_usage_def tick_clock_def split: option.splits)

lemma bg_put_session [simp]: "same_background st (put_session e sid r st)"
  by (auto simp: same_background_def put_session_def Let_def split: sum.splits)

lemma bg_schedule: "serve_schedule e sid payload agent st = Done st' \<Longrightarrow> same_background st st'"
  by (auto simp: serve_schedule_def split: outcome.splits prod.splits intro: bg.steps [OF bg_tick bg_put_session])

lemma bg_orchestrator_turn:
  assumes "orchestrator_turn e sid m key k st = Done st'"
    and "\<And>replies st1. k replies st1 = Done st' \<Longrightarrow> same_background st1 st'"
  shows "same_background st st'"
proof (cases "host_for e sid st")
  case None
  with assms(1) show ?thesis by (simp add: orchestrator_turn_def bg.same)
next
  case (Some p)
  obtain h st1 where p: "host_for e sid st = Some (h, st1)" using Some by (cases p) auto
  then have host: "same_background st st1"
    by (auto simp: host_for_def same_background_def split: option.splits sum.splits)
  obtain h' st2 r where run: "serve_turn e (ve_config e) m key h st1 = Some (h', st2, r)"
    using assms(1) p by (auto simp: orchestrator_turn_def split: option.splits)
  let ?st = "st2\<lparr>vt_hosts := (vt_hosts st2)(sid \<mapsto> h')\<rparr>"
  have "same_background st ?st" using host bg_turn [OF run] by (simp add: same_background_def)
  moreover have "same_background ?st st'"
    using assms p run by (cases r) (auto simp: orchestrator_turn_def bg.same)
  ultimately show ?thesis by (rule bg.steps)
qed

lemma bg_deliver: "deliver_reply e target sid user agent r st = Done st' \<Longrightarrow> same_background st st'"
  by (auto simp: deliver_reply_def serve_lifecycle_def serve_memory_def post_def tick_clock_def same_background_def
        put_session_def Let_def bg.same dest: bg_schedule split: if_splits sum.splits option.splits)

lemma bg_route: "route_send_message e source payload wired hops st = Done st' \<Longrightarrow> same_background st st'"
proof (induction hops arbitrary: source payload wired st st')
  case 0
  then show ?case by (simp add: route_send_message.simps bg.same)
next
  case (Suc hops)
  have each: "same_background st1 st2"
    if "serve_each (\<lambda>r st2. if om_kind r = a then serve_schedule e x (om_content r) y st2
          else if om_kind r = b then route_send_message e x (om_content r) w hops st2 else Done st2) replies st1 = Done st2"
    for a b x y w replies st1 st2
    using that by (rule bg.serve_each_rel [rotated]) (auto split: if_splits intro: bg.same dest: Suc.IH bg_schedule)
  have each': "same_background st1 st2"
    if "serve_each (\<lambda>r st2. if om_kind r = b then route_send_message e x (om_content r) w hops st2
          else if om_kind r = a then serve_schedule e x (om_content r) y st2 else Done st2) replies st1 = Done st2"
    for a b x y w replies st1 st2
    using that by (rule bg.serve_each_rel [rotated]) (auto split: if_splits intro: bg.same dest: Suc.IH bg_schedule)
  from Suc.prems show ?case
    by (auto simp: route_send_message.simps Let_def bg.same post_def same_background_def [of st "st\<lparr>vt_posts := _\<rparr>"]
        split: option.splits if_splits sum.splits
        elim!: bg_orchestrator_turn)
      (erule bg.steps [OF bg_usage each'] | erule bg_turn | erule (1) bg.steps [OF bg_turn bg.steps [OF bg_usage each]])+
qed

lemma bg_record_source: "record_source e sid item occ st = Done st' \<Longrightarrow> same_background st st'"
  by (auto simp: record_source_def Let_def same_background_def tick_clock_def split: sum.splits prod.splits option.splits outcome.splits)

lemma bg_finalize_central: "finalize_central e item occ now st = Done st' \<Longrightarrow> same_background st st'"
  by (auto simp: finalize_central_def same_background_def split: outcome.splits)

lemma bg_finalize: "finalize_scheduled_turn e item occ now replies st = Done st' \<Longrightarrow> same_background st st'"
proof -
  assume run: "finalize_scheduled_turn e item occ now replies st = Done st'"
  show ?thesis
  proof (cases "pi_session item")
    case None
    with run show ?thesis by (simp add: finalize_scheduled_turn_def bg.same)
  next
    case (Some sid)
    with run obtain w agent onecli where
      "serve_then
         (serve_each (\<lambda>r st1. if om_kind r = ''send_message'' then route_send_message e sid (om_content r) w max_hops st1
              else if pi_run_as item \<noteq> None \<and> om_kind r = ''text'' then Done st1
              else deliver_reply e \<lparr>dt_chat_id = sid, dt_thread_root_id = None\<rparr> sid None (pi_run_as item) r st1) replies
            (record_turn_usage e agent onecli sid replies st))
         (\<lambda>st1. serve_then (record_source e sid item occ st1) (finalize_central e item occ now)) = Done st'"
      by (simp add: finalize_scheduled_turn_def Let_def)
    then show ?thesis
    proof (rule bg.serve_then_rel)
      fix st1 assume "serve_each (\<lambda>r st1. if om_kind r = ''send_message'' then route_send_message e sid (om_content r) w max_hops st1
              else if pi_run_as item \<noteq> None \<and> om_kind r = ''text'' then Done st1
              else deliver_reply e \<lparr>dt_chat_id = sid, dt_thread_root_id = None\<rparr> sid None (pi_run_as item) r st1) replies
            (record_turn_usage e agent onecli sid replies st) = Done st1"
      then have "same_background (record_turn_usage e agent onecli sid replies st) st1"
        by (rule bg.serve_each_rel [rotated]) (auto split: if_splits intro: bg.same dest: bg_route bg_deliver)
      then show "same_background st st1" by (rule bg.steps [OF bg_usage])
    next
      fix st1 assume "serve_then (record_source e sid item occ st1) (finalize_central e item occ now) = Done st'"
      then show "same_background st1 st'"
        by (rule bg.serve_then_rel) (auto dest: bg_record_source bg_finalize_central)
    qed
  qed
qed

lemma bg_event: "handle_event e ev st = Done st' \<Longrightarrow> same_background st st'"
proof -
  assume run: "handle_event e ev st = Done st'"
  obtain seen rdb drive where ad: "admit_event (ve_lower e) (ve_gate e) (snd (read_clock e st)) (fst (read_clock e st)) (ve_perms e) ev
      (vt_seen st, ct_router (vt_central st)) = ((seen, rdb), drive)" by (metis prod.exhaust)
  let ?st = "(tick_clock st)\<lparr>vt_seen := seen, vt_central := (vt_central st)\<lparr>ct_router := rdb\<rparr>\<rparr>"
  have "same_background ?st st'"
  proof (cases drive)
    case None
    with run ad show ?thesis by (simp add: handle_event_def Let_def bg.same)
  next
    case (Some mt)
    obtain m target where mt: "drive = Some (m, target)" using Some by (cases mt) auto
    have each: "same_background st1 st2"
      if "serve_each (deliver_reply e target (ev_chat_id ev) (Some (ev_sender_id ev)) None) replies st1 = Done st2" for replies st1 st2
      using that by (rule bg.serve_each_rel [rotated]) (rule bg_deliver)
    from run ad mt show ?thesis
      by (auto simp: handle_event_def Let_def elim!: bg_orchestrator_turn intro: bg.steps [OF bg_usage each])
  qed
  then show ?thesis by (simp add: same_background_def tick_clock_def)
qed

text \<open>The guard holds exactly the occurrences that run or wait for the drain, each once.\<close>

definition job_key :: "run_as_job \<Rightarrow> string" where "job_key j = occ_idempotency_key (job_occurrence j)"
definition done_key :: "completed_run_as \<Rightarrow> string" where "done_key d = occ_idempotency_key (done_occurrence d)"

definition background_keys :: "serve_state \<Rightarrow> string list" where
  "background_keys st = map job_key (vt_jobs st) @ map done_key (vt_done st)"

definition background_ok :: "serve_state \<Rightarrow> bool" where
  "background_ok st \<longleftrightarrow> distinct (background_keys st) \<and> vt_inflight st = set (background_keys st)"

lemma background_ok_same: "same_background st st' \<Longrightarrow> background_ok st' = background_ok st"
  by (simp add: same_background_def background_ok_def background_keys_def)

lemma serve_lease_background:
  assumes "serve_lease e now its l st = Done st'" and "background_ok st"
  shows "background_ok st'"
proof -
  have "same_background st st' \<or> (\<exists>j. st' = spawn_run_as j st \<and> job_key j \<notin> vt_inflight st)"
    using assms(1)
    by (auto simp: serve_lease_def Let_def bg.same job_key_def dest: bg_finalize_central
        split: option.splits sum.splits gate_outcome.splits if_splits intro: bg_orchestrator_turn bg_finalize)
  then show ?thesis
  proof
    assume "\<exists>j. st' = spawn_run_as j st \<and> job_key j \<notin> vt_inflight st"
    with assms(2) show ?thesis
      by (auto simp: background_ok_def background_keys_def spawn_run_as_def simp flip: job_key_def) blast
  qed (use assms(2) background_ok_same in blast)
qed

lemma each_background:
  "(\<And>x st st'. x \<in> set xs \<Longrightarrow> f x st = Done st' \<Longrightarrow> background_ok st \<Longrightarrow> background_ok st') \<Longrightarrow>
     serve_each f xs st = Done st' \<Longrightarrow> background_ok st \<Longrightarrow> background_ok st'"
proof (induction xs arbitrary: st)
  case (Cons x xs)
  then show ?case by (cases "f x st") auto
qed simp

lemma tick_background: "scheduler_tick e owner ttl st = Done st' \<Longrightarrow> background_ok st \<Longrightarrow> background_ok st'"
proof -
  assume run: "scheduler_tick e owner ttl st = Done st'" and ok: "background_ok st"
  have ok1: "background_ok ((tick_clock st)\<lparr>vt_central := c\<rparr>)" for c
    using ok by (simp add: background_ok_def background_keys_def tick_clock_def)
  from run ok1 show ?thesis
    by (auto simp: scheduler_tick_def Let_def split: prod.splits if_splits sum.splits intro: each_background [OF serve_lease_background])
qed

lemma finish_background: "finish_job e i st = Done st' \<Longrightarrow> background_ok st \<Longrightarrow> background_ok st'"
proof -
  assume run: "finish_job e i st = Done st'" and ok: "background_ok st"
  show ?thesis
  proof (cases "i < length (vt_jobs st)")
    case True
    let ?js = "vt_jobs st"
    obtain st1 r where w: "run_as_worker e (?js ! i) st = Some (st1, r)"
      and st': "st' = st1\<lparr>vt_jobs := take i ?js @ drop (Suc i) ?js,
        vt_done := vt_done st @ [\<lparr>done_item = job_item (?js ! i), done_occurrence = job_occurrence (?js ! i), done_replies = r\<rparr>]\<rparr>"
      using run True by (auto simp: finish_job_def Let_def split: option.splits)
    have "vt_inflight st1 = vt_inflight st"
      using w by (auto simp: run_as_worker_def same_background_def dest: bg_turn split: sum.splits)
    moreover have "?js = take i ?js @ ?js ! i # drop (Suc i) ?js" using True by (simp add: id_take_nth_drop)
    then have "map job_key ?js = map job_key (take i ?js) @ job_key (?js ! i) # map job_key (drop (Suc i) ?js)"
      by (metis list.simps(9) map_append)
    moreover have "done_key \<lparr>done_item = job_item (?js ! i), done_occurrence = job_occurrence (?js ! i), done_replies = r\<rparr> = job_key (?js ! i)"
      by (simp add: done_key_def job_key_def)
    ultimately show ?thesis using ok by (auto simp: st' background_ok_def background_keys_def)
  qed (use run ok in \<open>simp add: finish_job_def\<close>)
qed

lemma drain_background:
  assumes "serve_each (drain_one e) ds st = Done st'" and "vt_done st = []"
    and "distinct (map job_key (vt_jobs st) @ map done_key ds)" and "vt_inflight st = set (map job_key (vt_jobs st) @ map done_key ds)"
  shows "background_ok st'"
  using assms
proof (induction ds arbitrary: st)
  case Nil
  then show ?case by (simp add: background_ok_def background_keys_def)
next
  case (Cons d ds)
  obtain st1 where st1: "drain_one e d st = Done st1" "serve_each (drain_one e) ds st1 = Done st'"
    using Cons.prems(1) by (cases "drain_one e d st") auto
  let ?st = "(tick_clock st)\<lparr>vt_inflight := vt_inflight st - {done_key d}\<rparr>"
  have "same_background ?st st1"
    using st1(1) by (auto simp: drain_one_def done_key_def Let_def dest: bg_finalize bg_finalize_central split: sum.splits)
  then have "vt_jobs st1 = vt_jobs st" "vt_done st1 = []" "vt_inflight st1 = vt_inflight st - {done_key d}"
    using Cons.prems(2) by (simp_all add: same_background_def tick_clock_def)
  then show ?case using Cons.IH [OF st1(2)] Cons.prems(3,4) by auto
qed

lemma step_background: "serve_step e x st = Done st' \<Longrightarrow> background_ok st \<Longrightarrow> background_ok st'"
proof (cases x)
  case (OnEvent ev)
  then show "serve_step e x st = Done st' \<Longrightarrow> background_ok st \<Longrightarrow> background_ok st'"
    using bg_event [of e ev st st'] background_ok_same [of st st'] by simp
next
  case OnDrain
  then show "serve_step e x st = Done st' \<Longrightarrow> background_ok st \<Longrightarrow> background_ok st'"
    using drain_background [of e "vt_done st" "st\<lparr>vt_done := []\<rparr>" st']
    by (simp add: drain_completed_runas_def background_ok_def background_keys_def)
qed (auto dest: tick_background finish_background)

text \<open>
  C16: a background turn is never doubled. However events, ticks, drains and the ends of background turns
  interleave, and whenever a lease runs out while its turn still runs, each occurrence has at most one turn
  that runs or waits for its effects to be applied, and the guard holds exactly those.
\<close>

theorem background_turns_never_doubled:
  assumes "serve_loop e steps st = Done st'" and "vt_inflight st = {}" and "vt_jobs st = []" and "vt_done st = []"
  shows "distinct (map job_key (vt_jobs st') @ map done_key (vt_done st'))
    \<and> vt_inflight st' = set (map job_key (vt_jobs st') @ map done_key (vt_done st'))"
proof -
  have "background_ok st" using assms(2-4) by (simp add: background_ok_def background_keys_def)
  with assms(1) have "background_ok st'"
    unfolding serve_loop_def by (rule each_background [rotated 1]) (rule step_background)
  then show ?thesis by (simp add: background_ok_def background_keys_def)
qed

text \<open>An item whose lease runs out while its background turn runs: the second tick starts no second turn.\<close>

definition background_env :: "(unit, int, nat, int) serve_env" where
  "background_env = sample_serve_env\<lparr>ve_specialists := [sample_spec], ve_clock := (\<lambda>n. (130 + 100 * int n, ''t''))\<rparr>"

definition background_row :: item_row where
  "background_row = sample_item\<lparr>ir_group := 1, ir_session := Some ''C1'', ir_recurrence := None,
     ir_run_as := Some (ss_route_name sample_spec)\<rparr>"

definition background_start :: serve_state where
  "background_start = sample_serve_state\<lparr>vt_central :=
     (vt_central sample_serve_state)\<lparr>ct_sched := \<lparr>items = [background_row], occs = [], runs = []\<rparr>\<rparr>\<rparr>"

definition background_item :: projected_item where
  "background_item = \<lparr>pi_id = ''i'', pi_group = 1, pi_session = Some ''C1'', pi_intent = ''sweep'', pi_process_after = Some 100,
     pi_recurrence = None, pi_status = Active, pi_revision = 1, pi_gate_command = None, pi_gate_onecli_agent = None,
     pi_gate_volumes = [], pi_gate_image = None, pi_run_as = Some (ss_route_name sample_spec)\<rparr>"

lemma background_item_sel [simp]:
  "pi_id background_item = ''i''" "pi_session background_item = Some ''C1''" "pi_intent background_item = ''sweep''"
  "pi_gate_command background_item = None" "pi_run_as background_item = Some (ss_route_name sample_spec)"
  by (simp_all add: background_item_def)

definition background_db :: "int \<Rightarrow> nat \<Rightarrow> sched_db" where
  "background_db till n = \<lparr>items = [background_row], occs = [\<lparr>or_item = ''i'', or_seq = 1, or_key = [], or_scheduled_for = Some 100,
     or_fired_at = None, or_status = ''pending'', or_owner = Some ''w'', or_expires = Some till, or_attempt = n\<rparr>], runs = []\<rparr>"

definition background_lease :: "int \<Rightarrow> nat \<Rightarrow> lease" where
  "background_lease till n = \<lparr>lease_occurrence = sample_occ, lease_owner = ''w'', lease_expires_at = till, lease_attempt = n\<rparr>"

lemma serve_then_each_Nil: "serve_then r (serve_each f []) = r"
  by (cases r) simp_all

lemma background_claims:
  "claim_due (\<lambda>_. []) 130 ''w'' 30 \<lparr>items = [background_row], occs = [], runs = []\<rparr> = (background_db 160 (Suc 0), [background_lease 160 (Suc 0)])"
  "claim_due (\<lambda>_. []) 230 ''w'' 30 (background_db 160 (Suc 0)) = (background_db 260 2, [background_lease 260 2])"
  by (simp_all add: claim_eval occurrence_idempotency_key_def hex_of_def background_row_def background_db_def
      background_lease_def sample_occ_def)

lemma background_items: "list_items status_codec host_agent_group (Some Active) (background_db till n) = Inr [background_item]"
proof -
  have pa: "read_process_after (Some ''100'') = Inr (Some 100)" by code_simp
  show ?thesis
    by (simp add: list_items_def background_db_def background_row_def sample_item_def host_agent_group_def row_to_item_def
        pa read_recurrence_def read_status_def read_volumes_def parse_schedule_status_def ok_or_def background_item_def)
qed

theorem background_turns_never_doubled_witness:
  "\<exists>st'. serve_loop background_env [OnTick ''w'' 30, OnTick ''w'' 30] background_start = Done st'
     \<and> map job_key (vt_jobs st') = [occ_idempotency_key sample_occ] \<and> vt_reads st' = 2
     \<and> vt_inflight st' = set (map job_key (vt_jobs st') @ map done_key (vt_done st'))"
proof -
  have env: "he_session (ve_host background_env) = plain_env" "env_sha plain_env = (\<lambda>_. [])" "he_codec (ve_host background_env) = status_codec"
    by (simp_all add: background_env_def sample_serve_env_def sample_host_env_def plain_env_def)
  have spec: "item_spec background_env background_item = Some sample_spec"
    by (simp add: item_spec_def find_specialist_def background_env_def)
  have lease: "serve_lease background_env now [background_item] (background_lease till n) st
      = (if occ_idempotency_key sample_occ \<in> vt_inflight st then Done st
         else Done (spawn_run_as \<lparr>job_spec = sample_spec, job_message = scheduler_message ''sweep'' None,
                job_item = background_item, job_occurrence = sample_occ\<rparr> st))" for now till n st
    using spec by (simp add: serve_lease_def background_lease_def sample_occ_def item_gate_def run_as_content_def Let_def)
  have clock: "read_clock background_env st = (130 + 100 * int (vt_reads st), ''t'')" for st
    by (simp add: read_clock_def background_env_def)
  have tick: "\<exists>c. ct_sched c = db \<and> scheduler_tick background_env ''w'' 30 st
      = serve_lease background_env (130 + 100 * int (vt_reads st)) [background_item] (background_lease till n) ((tick_clock st)\<lparr>vt_central := c\<rparr>)"
    if "claim_due (\<lambda>_. []) (130 + 100 * int (vt_reads st)) ''w'' 30 (ct_sched (vt_central st)) = (db, [background_lease till n])"
      "db = background_db till n" for st db till n
    using that background_items [of till n]
    by (simp add: scheduler_tick_def Let_def clock env expire_sticky_def serve_then_each_Nil)
      (rule exI, rule conjI [rotated], rule refl, simp)
  let ?job = "\<lparr>job_spec = sample_spec, job_message = scheduler_message ''sweep'' None, job_item = background_item, job_occurrence = sample_occ\<rparr>"
  let ?st = "background_start"
  have start: "ct_sched (vt_central ?st) = \<lparr>items = [background_row], occs = [], runs = []\<rparr>" "vt_reads ?st = 0"
    "vt_inflight ?st = {}" "vt_jobs ?st = []" "vt_done ?st = []"
    by (simp_all add: background_start_def sample_serve_state_def)
  obtain c1 where c1: "ct_sched c1 = background_db 160 (Suc 0)"
      "scheduler_tick background_env ''w'' 30 ?st = Done (spawn_run_as ?job ((tick_clock ?st)\<lparr>vt_central := c1\<rparr>))"
    using tick [of ?st "background_db 160 (Suc 0)" 160 "Suc 0"] background_claims(1) start
    by (auto simp: lease tick_clock_def)
  define st1 where "st1 = spawn_run_as ?job ((tick_clock ?st)\<lparr>vt_central := c1\<rparr>)"
  have st1: "ct_sched (vt_central st1) = background_db 160 (Suc 0)" "vt_reads st1 = 1" "vt_jobs st1 = [?job]"
    "occ_idempotency_key sample_occ \<in> vt_inflight st1"
    using c1(1) start by (simp_all add: st1_def spawn_run_as_def tick_clock_def)
  obtain c2 where c2: "scheduler_tick background_env ''w'' 30 st1 = Done ((tick_clock st1)\<lparr>vt_central := c2\<rparr>)"
    using tick [of st1 "background_db 260 2" 260 2] background_claims(2) st1
    by (auto simp: lease tick_clock_def)
  define st' where "st' = (tick_clock st1)\<lparr>vt_central := c2\<rparr>"
  have "serve_loop background_env [OnTick ''w'' 30, OnTick ''w'' 30] ?st = Done st'"
    using c1(2) c2 by (simp add: serve_loop_def flip: st1_def st'_def)
  moreover have "map job_key (vt_jobs st') = [occ_idempotency_key sample_occ]" "vt_reads st' = 2"
    using st1(2,3) by (simp_all add: st'_def tick_clock_def job_key_def)
  ultimately have st': "serve_loop background_env [OnTick ''w'' 30, OnTick ''w'' 30] ?st = Done st'"
     "map job_key (vt_jobs st') = [occ_idempotency_key sample_occ]" "vt_reads st' = 2" by (simp_all only:)
  have "vt_inflight background_start = {}" "vt_jobs background_start = []" "vt_done background_start = []"
    by (simp_all add: background_start_def sample_serve_state_def)
  from background_turns_never_doubled [OF st'(1) this]
  have "vt_inflight st' = set (map job_key (vt_jobs st') @ map done_key (vt_done st'))" by (rule conjunct2)
  with st' show ?thesis by (intro exI [of _ st'] conjI) assumption+
qed

section \<open>A background turn that fails\<close>

lemma finalize_firing_rows:
  "finalize_firing c occ item now db = Returns db' \<Longrightarrow>
     occs db' = occs (complete_occurrence occ now db)
     \<and> (primary_key ir_id (items db) \<longrightarrow> primary_key ir_id (items db'))"
  by (auto simp: finalize_firing_def Let_def advance_recurrence_def complete_item_def set_item_status_def
      complete_occurrence_def split: option.splits outcome.splits)

lemma mark_through_other: "y \<in> set (mark_through sha i n t) \<Longrightarrow> occ_key y \<noteq> (i, n) \<Longrightarrow> y \<in> set t"
  by (auto simp: mark_through_def upsert_row_def split: if_splits)

text \<open>
  C18: a background turn that fails is not over with its log line. The drain finalises the occurrence in the
  central index so that it is never tried again, but the source of truth in the item's session is not told;
  so the repair at the next start of the host brings back the item with its old time and the occurrence as
  pending and unowned, and the item is due at once.
\<close>

theorem failed_background_turn_fires_again:
  assumes "project_meta (he_codec (ve_host e)) m (Some sid) = Inr row" and "status m = Active" and "in_i64 (process_after m)"
    and "primary_key ir_id (items (ct_sched (vt_central st)))" and "done_replies d = Inl err"
    and "done_occurrence d = new_occurrence sha (scheduled_item_id m) (Suc (occurrence_seq m)) (process_after m)"
    and "pi_id (done_item d) = scheduled_item_id m" and "drain_one e d st = Done st'"
  shows "vt_store st' = vt_store st
    \<and> (\<forall>x\<in>set (occs (ct_sched (vt_central st'))). occ_key x = (scheduled_item_id m, Suc (occurrence_seq m)) \<longrightarrow> or_status x = ''fired'')
    \<and> (let db = fst (reconcile_item sha (he_codec (ve_host e)) m sid (ct_sched (vt_central st')))
       in (\<forall>now\<ge>process_after m. (scheduled_item_id m, process_after m) \<in> set (due_items now db))
        \<and> (\<forall>x\<in>set (occs db). occ_key x = (scheduled_item_id m, Suc (occurrence_seq m)) \<longrightarrow>
             claimable (done_occurrence d) now x))"
proof -
  let ?i = "scheduled_item_id m" and ?n = "occurrence_seq m"
  let ?occ = "new_occurrence sha ?i (Suc ?n) (process_after m)"
  let ?old = "ct_sched (vt_central st)" and ?db = "ct_sched (vt_central st')"
  define clock where "clock = fst (read_clock e st)"
  have fin: "finalize_firing (ve_chrono e) ?occ (done_item d) clock ?old = Returns ?db" and store: "vt_store st' = vt_store st"
    using assms(5,6,8) by (auto simp: drain_one_def finalize_central_def Let_def tick_clock_def clock_def split: outcome.splits)
  have occs: "occs ?db = occs (complete_occurrence ?occ clock ?old)"
    and keys: "primary_key ir_id (items ?db)"
    using finalize_firing_rows [OF fin] assms(4) by simp_all
  have fired: "or_status x = ''fired'' \<and> or_owner x = None" if "x \<in> set (occs ?db)" "occ_key x = (?i, Suc ?n)" for x
    using that by (auto simp: occs complete_occurrence_def new_occurrence_def set_update_where occ_key_def)
  let ?r = "fst (reconcile_item sha (he_codec (ve_host e)) m sid ?db)"
  have r: "items ?r = put_item row (items ?db)" "occs ?r = update_where (Schedule_Repair.phantom ?i ?n) unfire (mark_through sha ?i ?n (occs ?db))"
    using reconcile_item_conv [OF assms(1), of sha ?db] by simp_all
  have row: "ir_id row = ?i" "ir_status row = ''active''" "ir_process_after row = Some (dec_of_int (process_after m))"
    using assms(1,2) by (auto simp: project_meta_def split: sum.splits)
  have "get_item (items ?r) ?i = Some row" using item_store.get_put_new [OF keys, of row] row(1) by (simp add: r(1))
  then have due: "\<forall>now\<ge>process_after m. (?i, process_after m) \<in> set (due_items now ?r)"
    using get_item_due [OF _ row(2,3) assms(3)] by blast
  have free: "claimable ?occ now x" if x: "x \<in> set (occs ?r)" "occ_key x = (?i, Suc ?n)" for x
  proof -
    obtain y where y: "y \<in> set (mark_through sha ?i ?n (occs ?db))" "x = unfire y \<and> Schedule_Repair.phantom ?i ?n y \<or> x = y \<and> \<not> Schedule_Repair.phantom ?i ?n y"
      using x(1) by (auto simp: r(2) set_update_where)
    have key: "occ_key y = (?i, Suc ?n)" using x(2) y(2) by auto
    then have "or_status y = ''fired''" "or_owner y = None" using fired [OF mark_through_other [OF y(1)]] by simp_all
    with key y(2) have "x = unfire y" by (auto simp: Schedule_Repair.phantom_def occ_key_def)
    then show ?thesis using key \<open>or_owner y = None\<close> by (simp add: claimable_def new_occurrence_def)
  qed
  show ?thesis unfolding Let_def using store fired due free assms(6) by simp
qed

definition failed_report :: completed_run_as where
  "failed_report = \<lparr>done_item = background_item\<lparr>pi_id := scheduled_item_id sample_meta\<rparr>,
     done_occurrence = new_occurrence (\<lambda>_. []) (scheduled_item_id sample_meta) (Suc (occurrence_seq sample_meta)) (process_after sample_meta),
     done_replies = Inl (RunAsConfig ''no image'')\<rparr>"

theorem failed_background_turn_fires_again_witness:
  "\<exists>st' db. drain_one background_env failed_report background_start = Done st' \<and> vt_store st' = vt_store background_start
     \<and> db = fst (reconcile_item (\<lambda>_. []) status_codec sample_meta ''C1'' (ct_sched (vt_central st')))
     \<and> (scheduled_item_id sample_meta, process_after sample_meta) \<in> set (due_items (process_after sample_meta) db)"
proof -
  have codec: "he_codec (ve_host background_env) = status_codec"
    by (simp add: background_env_def sample_serve_env_def sample_host_env_def)
  obtain row where row: "project_meta (he_codec (ve_host background_env)) sample_meta (Some ''C1'') = Inr row"
    by (simp add: codec project_meta_def recurrence_column_def volumes_column_def status_codec_def sample_codec_def sample_meta_sel)
  have active: "status sample_meta = Active" "in_i64 (process_after sample_meta)"
    by (simp_all add: sample_meta_sel in_i64_def i64_min_def i64_max_def)
  have pk: "primary_key ir_id (items (ct_sched (vt_central background_start)))"
    by (simp add: background_start_def primary_key_def)
  have "pi_recurrence background_item = None" by (simp add: background_item_def)
  then obtain st' where run: "drain_one background_env failed_report background_start = Done st'"
    by (simp add: drain_one_def failed_report_def finalize_central_def finalize_firing_def Let_def)
  have "done_replies failed_report = Inl (RunAsConfig ''no image'')"
      "done_occurrence failed_report
        = new_occurrence (\<lambda>_. []) (scheduled_item_id sample_meta) (Suc (occurrence_seq sample_meta)) (process_after sample_meta)"
      "pi_id (done_item failed_report) = scheduled_item_id sample_meta"
    by (simp_all add: failed_report_def)
  note again = failed_background_turn_fires_again [OF row active pk this run]
  then have "(scheduled_item_id sample_meta, process_after sample_meta) \<in> set (due_items (process_after sample_meta)
      (fst (reconcile_item (\<lambda>_. []) status_codec sample_meta ''C1'' (ct_sched (vt_central st')))))"
    unfolding Let_def codec by blast
  with run again show ?thesis by blast
qed

end
