(* ===== verification/Spec2Isabelle.thy ===== *)
theory Spec2Isabelle
  imports Schedule_Repair Approvals Upgrade Delegation_Laws Serve_Gate Memory_Observe Serve_Tick
begin

text \<open>
  A verification development of the assistant platform, a Rust workspace of 23 crates that runs personal
  assistants: a host process answers chat messages by running an agent in a container, keeps schedules and
  memory, and routes messages between agents.

  The parts of the program and how they interact. Each conversation has a session folder with two SQLite
  files, \<open>inbound.db\<close> written by the host and \<open>outbound.db\<close> written by the container; nothing else passes
  between the two. A central SQLite database holds permissions, approvals, the router's windows and audit, the
  index of scheduled work, the memory catalog and the jobs of specialists. The serve loop of the host
  (\<open>assistant-host\<close>) takes events of a channel, asks the gate, drives a turn of a session, and acts on the
  replies: it posts, schedules, saves notes, or runs another agent. Between the events it sweeps the due work.

  Theories, in the order of their imports (all under \<open>crates/\<close>, the prefix \<open>assistant-\<close> left out).
  \<^item> \<open>Prelude\<close>, \<open>Interfaces\<close>, \<open>Strings\<close>, \<open>Json\<close>, \<open>Graph_Cycles\<close>: results, 64-bit integers, decimal columns, the
    SQL statements the crates issue, the methods of \<open>str\<close>, JSON accessors, the cycle search shared by
    \<open>core\<close> and \<open>agent-graph\<close>, and the contracts between components as locales: \<open>text_enum\<close>, \<open>keyed_store\<close> and
    \<open>overwriting_store\<close>, \<open>status_machine\<close> and \<open>ranked_machine\<close>, \<open>seq_allocator\<close>, \<open>gated_op\<close> and the migration
    run. Each is interpreted on the model's definitions in the theory that provides them.
  \<^item> \<open>Recurrence\<close>, \<open>Schedule_Model\<close>, \<open>Schedule_Store\<close>, \<open>Schedule_Claims\<close>, \<open>Schedule_Sweeps\<close>, \<open>Schedule_Repair\<close>:
    \<open>scheduler\<close> (\<open>model.rs\<close>, \<open>event.rs\<close>, \<open>projection.rs\<close>, \<open>lease.rs\<close> and the source of truth). The tables are
    lists of row records in a \<open>sched_db\<close>. \<open>claim_due\<close> is the sweep as a function. As its SQL statements are
    separate commits, \<open>sweep_statement\<close> runs one of them, and the step relation \<open>sched_step\<close> interleaves the
    statements of the sweeps of any number of processes with firings, edits and lifecycle changes; \<open>sweep_is_run\<close>
    shows that the statements in a row are the function. Repair runs when the host starts and is not one of
    the steps.
  \<^item> \<open>Session_Files\<close>, \<open>Session_Db\<close>, \<open>Session_Steps\<close>: \<open>session\<close> (\<open>layout.rs\<close>, \<open>attachment.rs\<close>, \<open>migrate.rs\<close>,
    \<open>schema.rs\<close>, \<open>db.rs\<close>, \<open>session.rs\<close>, \<open>control.rs\<close>, recovery). A \<open>session\<close> is a record of its two databases, its
    heartbeat and its lock; \<open>Session_Steps\<close> has the steps of host and container in any order.
  \<^item> \<open>Central_Migrations\<close>: \<open>db/migrate.rs\<close>. \<open>Core_Manifest\<close>: \<open>core\<close>. \<open>Config\<close>: \<open>config\<close> and \<open>specialist-spec\<close>.
    \<open>Upgrade\<close>: \<open>upgrade\<close>. \<open>Permissions\<close> and \<open>Approvals\<close>: the crates of these names.
  \<^item> \<open>Agent_Jobs\<close>, \<open>Delegation\<close>, \<open>Delegation_Laws\<close>: \<open>agent-graph\<close>, with \<open>u64\<close> counters as words.
  \<^item> \<open>Router\<close>, \<open>Serve_Gate\<close>: \<open>router\<close> and the gate of \<open>host/slack.rs\<close> with its record of 1024 handled events.
  \<^item> \<open>Memory_Entries\<close>, \<open>Memory_Catalog\<close>, \<open>Memory_Observe\<close>, \<open>Memory_Search\<close>: \<open>memory\<close> with \<open>host/memory.rs\<close> and
    \<open>host/qmd.rs\<close>.
  \<^item> \<open>Container_Runtime\<close>, \<open>Turn_Loop\<close>, \<open>Onecli\<close>: \<open>runtime-docker\<close>, \<open>host/run.rs\<close> and \<open>host/onecli.rs\<close>.
  \<^item> \<open>Serve_Schedule\<close>, \<open>Host_Schedule\<close>, \<open>Serve_Relay\<close>, \<open>Serve_Tick\<close>: the schedule actions of an agent, gates,
    sweeps and standing tasks (\<open>host/scheduler.rs\<close>), the acting on replies and the messages between agents
    (\<open>host/slack.rs\<close>, \<open>delegation.rs\<close>, \<open>usage.rs\<close>), and the steps of the running loop. \<open>serve_state\<close> is the whole
    state of the loop: the central tables, the hosts, the session folders as a function from paths, the posts,
    the handled events, and the jobs, reports and guard of background turns.

  What the lemmas show. Scheduling: an occurrence is handed out once however sweeps interleave, a scheduled
  time has one occurrence as long as no two sweeps overlap, and a sweep takes exactly the due and free work; firing, repair and the actions of agents keep the central index and the source in step;
  standing tasks are created once. Sessions: sequence numbers never collide, keyed messages are enqueued once,
  recovery is exclusive. Turns: a reply is returned once, a turn ends, a container is confined. Serving: which
  events drive a turn, an event is answered in its own thread, only the orchestrator reaches a channel,
  messages between agents stay in one session per conversation, a background turn is never doubled. Memory: no
  turn is shown what its policy forbids, observed notes cannot command, saved notes are found, the index is
  the corpus. Permissions, approvals, migrations, upgrades, jobs and handoffs: the invariants of their tables,
  limits and termination. Some theorems show a defect: two overlapping sweeps that hand out one scheduled time
  twice (\<open>overlapping_sweeps_grant_twice\<close>), a recurrence that stalls (\<open>late_finalisation_stalls\<close>), a
  cancellation from another conversation that repair undoes (\<open>foreign_cancel_undone\<close>), two schedules that
  collapse (\<open>same_text_replaces\<close>), a failed background turn that fires again after a restart
  (\<open>failed_background_turn_fires_again\<close>), a hyphenated agent name that is split (\<open>hyphenated_route_is_split\<close>).

  Conventions and bounds. A string is its UTF-8 bytes. An \<open>i64\<close> is an \<open>int\<close> with \<open>i64_add\<close> wrapping, other
  widths are words where they matter. A panic is the outcome \<open>Panic\<close>, an error a value of a sum. The clock,
  \<open>datetime('now')\<close> and what a container does between two polls are arguments: a turn takes the list of its polls
  and gives \<open>None\<close> when they end while it still waits, and \<open>turn_ends\<close> shows that polls reaching the timeout
  suffice. The hops of a message are counted down from 5 (\<open>depth\<close> 0 to 4 in the code, the sixth is dropped).
  The other recursions are structural or have a proved measure; the calendar scan has the code's own bound.

  Parameters of the model, as code that is not in the repository: SQLite's execution of DDL, SHA-256, chrono
  and chrono-tz, serde (JSON, YAML, TOML), the shell, docker, curl and the OneCLI gateway, qmd, the lowercase
  form of characters. Laws assumed of them are premises of the theorems that need them, each with a witness.

  Not modelled. I/O errors of SQLite and of the file system other than constraint violations; the failure of a
  post, which the code only logs; stopping a container; threads (a background worker is one step, which is
  faithful because it touches only the folder of its own session); the usage report with its sums of doubles.
  Left out as input and output around the modelled operations: \<open>channel-slack\<close>, \<open>channel-telegram\<close>,
  \<open>channel-cli\<close>, \<open>cli\<close>, \<open>setup\<close>, \<open>product\<close>, \<open>capabilities\<close>, \<open>web\<close> and the entry points, signals, set-up steps and
  administration of \<open>host\<close>; the serde types of \<open>agent-protocol\<close>; the JavaScript shim in the container.
\<close>

end
